(* ===== verification/Prelude.thy ===== *)
theory Prelude
  imports Main "HOL-Library.Word" "HOL-Library.AList"
begin

section \<open>Prelude: programs, loops, strings and maps\<close>

text \<open>
  What every component of the development shares: the shape of a C++ routine as a HOL function
  (a state transformer that returns, throws, or runs into a failed assertion or undefined
  behaviour), the loops of the code with their \<open>continue\<close> and \<open>break\<close>, the operations of
  \<open>std::string\<close> and of \<open>std::map\<close> the code uses, decimal printing, and the rules by which a
  fact about single steps extends to whole routines.
\<close>

named_theorems prog_simps \<open>evaluation of the program combinators\<close>
named_theorems step_intros \<open>introduction rules for relations kept by programs\<close>
named_theorems commute_intros \<open>introduction rules for programs that commute with a change of the state\<close>

subsection \<open>Programs\<close>

text \<open>
  What ends a run without an exception. \<open>NoFuel\<close> is no behaviour of the code: it says that the bound which
  a model puts on a recursion that may not end was too small.
\<close>

datatype fault = AssertFailed | UndefinedBehaviour | NoFuel

datatype ('e, 'a) outcome = Val 'a | Exc 'e | Fault fault

type_synonym ('s, 'e, 'a) prog = "'s \<Rightarrow> 's \<times> ('e, 'a) outcome"

definition ret :: "'a \<Rightarrow> ('s, 'e, 'a) prog" where
  "ret a s = (s, Val a)"

definition throw :: "'e \<Rightarrow> ('s, 'e, 'a) prog" where
  "throw e s = (s, Exc e)"

definition fault :: "fault \<Rightarrow> ('s, 'e, 'a) prog" where
  "fault k s = (s, Fault k)"

definition bindp :: "('s, 'e, 'a) prog \<Rightarrow> ('a \<Rightarrow> ('s, 'e, 'b) prog) \<Rightarrow> ('s, 'e, 'b) prog" where
  "bindp m f s =
     (case m s of
        (s', Val a) \<Rightarrow> f a s'
      | (s', Exc e) \<Rightarrow> (s', Exc e)
      | (s', Fault k) \<Rightarrow> (s', Fault k))"

abbreviation thenp :: "('s, 'e, 'a) prog \<Rightarrow> ('s, 'e, 'b) prog \<Rightarrow> ('s, 'e, 'b) prog" where
  "thenp m n \<equiv> bindp m (\<lambda>_. n)"

text \<open>A \<open>try\<close> block with one handler: only exceptions are caught, never faults.\<close>

definition catch :: "('s, 'e, 'a) prog \<Rightarrow> ('e \<Rightarrow> ('s, 'f, 'a) prog) \<Rightarrow> ('s, 'f, 'a) prog" where
  "catch m h s =
     (case m s of
        (s', Val a) \<Rightarrow> (s', Val a)
      | (s', Exc e) \<Rightarrow> h e s'
      | (s', Fault k) \<Rightarrow> (s', Fault k))"

definition gets :: "('s \<Rightarrow> 'a) \<Rightarrow> ('s, 'e, 'a) prog" where
  "gets f s = (s, Val (f s))"

definition modify :: "('s \<Rightarrow> 's) \<Rightarrow> ('s, 'e, unit) prog" where
  "modify f s = (f s, Val ())"

definition lift :: "('e, 'a) outcome \<Rightarrow> ('s, 'e, 'a) prog" where
  "lift r s = (s, r)"

text \<open>A loop body ends by going on to the next round or by leaving the loop.\<close>

datatype 'a ctl = Continue 'a | Break 'a

primrec foreach ::
  "'x list \<Rightarrow> 'a \<Rightarrow> ('a \<Rightarrow> 'x \<Rightarrow> ('s, 'e, 'a ctl) prog) \<Rightarrow> ('s, 'e, 'a) prog" where
  "foreach [] a f = ret a"
| "foreach (x # xs) a f =
     bindp (f a x) (\<lambda>c. case c of Continue a' \<Rightarrow> foreach xs a' f | Break a' \<Rightarrow> ret a')"

text \<open>A loop over a list whose body keeps no local variable and never leaves early.\<close>

primrec forall_do :: "'x list \<Rightarrow> ('x \<Rightarrow> ('s, 'e, unit) prog) \<Rightarrow> ('s, 'e, unit) prog" where
  "forall_do [] f = ret ()"
| "forall_do (x # xs) f = thenp (f x) (forall_do xs f)"

lemma ret_apply [prog_simps]: "ret a s = (s, Val a)"
  by (simp add: ret_def)

lemma throw_apply [prog_simps]: "throw e s = (s, Exc e)"
  by (simp add: throw_def)

lemma fault_apply [prog_simps]: "fault k s = (s, Fault k)"
  by (simp add: fault_def)

lemma gets_apply [prog_simps]: "gets f s = (s, Val (f s))"
  by (simp add: gets_def)

lemma modify_apply [prog_simps]: "modify f s = (f s, Val ())"
  by (simp add: modify_def)

lemma lift_apply [prog_simps]: "lift r s = (s, r)"
  by (simp add: lift_def)

lemma bindp_Val [prog_simps]: "m s = (s', Val a) \<Longrightarrow> bindp m f s = f a s'"
  by (simp add: bindp_def)

lemma bindp_Exc [prog_simps]: "m s = (s', Exc e) \<Longrightarrow> bindp m f s = (s', Exc e)"
  by (simp add: bindp_def)

lemma bindp_Fault [prog_simps]: "m s = (s', Fault k) \<Longrightarrow> bindp m f s = (s', Fault k)"
  by (simp add: bindp_def)

lemma bindp_ret [simp]: "bindp (ret a) f = f a"
  by (simp add: bindp_def fun_eq_iff prog_simps)

lemma bindp_throw [simp]: "bindp (throw e) f = throw e"
  by (simp add: bindp_def fun_eq_iff prog_simps)

lemma bindp_fault [simp]: "bindp (fault k) f = fault k"
  by (simp add: bindp_def fun_eq_iff prog_simps)

lemma bindp_ret_right [simp]: "bindp m ret = m"
  by (auto simp: bindp_def fun_eq_iff prog_simps split: prod.splits outcome.splits)

lemma bindp_assoc: "bindp (bindp m f) g = bindp m (\<lambda>a. bindp (f a) g)"
  by (auto simp: bindp_def fun_eq_iff split: prod.splits outcome.splits)

lemma bindp_gets [simp]: "bindp (gets f) g s = g (f s) s"
  by (simp add: bindp_def gets_apply)

lemma bindp_modify [simp]: "bindp (modify f) g s = g () (f s)"
  by (simp add: bindp_def modify_apply)

lemma bindp_lift_Val [simp]: "bindp (lift (Val a)) f = f a"
  by (simp add: bindp_def fun_eq_iff prog_simps)

lemma bindp_lift_Exc [simp]: "bindp (lift (Exc e)) f = throw e"
  by (simp add: bindp_def fun_eq_iff prog_simps)

lemma bindp_lift_Fault [simp]: "bindp (lift (Fault k)) f = fault k"
  by (simp add: bindp_def fun_eq_iff prog_simps)

lemma bindp_eq_Val:
  "bindp m f s = (t, Val b) \<longleftrightarrow> (\<exists>a u. m s = (u, Val a) \<and> f a u = (t, Val b))"
  by (auto simp: bindp_def split: prod.splits outcome.splits)

lemma bindp_ValI: "m s = (s', Val a) \<Longrightarrow> f a s' = r \<Longrightarrow> bindp m f s = r"
  by (simp add: bindp_def)

lemma foreach_append:
  "foreach (xs @ ys) a f = bindp (foreach xs (Continue a)
     (\<lambda>c x. case c of Break b \<Rightarrow> ret (Break (Break b))
                   | Continue b \<Rightarrow> bindp (f b x) (\<lambda>d. case d of Continue e \<Rightarrow> ret (Continue (Continue e))
                                                        | Break e \<Rightarrow> ret (Break (Break e)))))
     (\<lambda>c. case c of Continue b \<Rightarrow> foreach ys b f | Break b \<Rightarrow> ret b)"
proof (induction xs arbitrary: a)
  case Nil
  show ?case by simp
next
  case (Cons x xs)
  show ?case
    by (auto simp: bindp_def fun_eq_iff Cons.IH prog_simps split: prod.splits outcome.splits ctl.splits)
qed

text \<open>A loop invariant over the carried value and the state, for the runs that return.\<close>

lemma foreach_invariant:
  assumes "foreach xs a f s = (t, Val b)" and "I a s"
    and "\<And>a x s t c. x \<in> set xs \<Longrightarrow> I a s \<Longrightarrow> f a x s = (t, Val c) \<Longrightarrow>
           (case c of Continue a' \<Rightarrow> I a' t | Break a' \<Rightarrow> I a' t)"
  shows "I b t"
  using assms
proof (induction xs arbitrary: a s)
  case Nil
  then show ?case by (simp add: prog_simps)
next
  case (Cons x xs)
  from Cons.prems(1) obtain c u where f: "f a x s = (u, Val c)"
    and r: "(case c of Continue a' \<Rightarrow> foreach xs a' f | Break a' \<Rightarrow> ret a') u = (t, Val b)"
    by (auto simp: bindp_eq_Val)
  have c: "case c of Continue a' \<Rightarrow> I a' u | Break a' \<Rightarrow> I a' u"
    using Cons.prems(3) [OF _ Cons.prems(2) f] by simp
  show ?case
  proof (cases c)
    case (Continue a')
    then have "foreach xs a' f u = (t, Val b)" "I a' u" using r c by simp_all
    then show ?thesis by (rule Cons.IH) (rule Cons.prems(3), simp_all)
  next
    case (Break a')
    with r c show ?thesis by (simp add: prog_simps)
  qed
qed

subsection \<open>Relations and invariants kept by a program\<close>

text \<open>
  \<open>steps_in R m\<close>: however \<open>m\<close> ends (a value, an exception, a fault), the state it leaves is
  related to the state it started in. The rules of the locale carry such a fact from the
  primitive steps of a component to its routines.
\<close>

definition steps_in :: "('s \<Rightarrow> 's \<Rightarrow> bool) \<Rightarrow> ('s, 'e, 'a) prog \<Rightarrow> bool" where
  "steps_in R m \<longleftrightarrow> (\<forall>s. R s (fst (m s)))"

lemma steps_inI: "(\<And>s. R s (fst (m s))) \<Longrightarrow> steps_in R m"
  by (simp add: steps_in_def)

lemma steps_inD: "steps_in R m \<Longrightarrow> m s = (t, r) \<Longrightarrow> R s t"
  unfolding steps_in_def by (metis fst_conv)

locale step_rel =
  fixes R :: "'s \<Rightarrow> 's \<Rightarrow> bool"
  assumes refl: "R s s"
    and trans: "R s t \<Longrightarrow> R t u \<Longrightarrow> R s u"
begin

lemma in_ret: "steps_in R (ret a)"
  by (simp add: steps_in_def refl prog_simps)

lemma in_throw: "steps_in R (throw e)"
  by (simp add: steps_in_def refl prog_simps)

lemma in_fault: "steps_in R (fault k)"
  by (simp add: steps_in_def refl prog_simps)

lemma in_gets: "steps_in R (gets f)"
  by (simp add: steps_in_def refl prog_simps)

lemma in_lift: "steps_in R (lift r)"
  by (simp add: steps_in_def refl prog_simps)

lemma in_modify: "(\<And>s. R s (f s)) \<Longrightarrow> steps_in R (modify f)"
  by (simp add: steps_in_def prog_simps)

lemma in_bindp:
  assumes "steps_in R m" and "\<And>a. steps_in R (f a)"
  shows "steps_in R (bindp m f)"
proof (rule steps_inI)
  fix s
  obtain r t where m: "m s = (t, r)" by fastforce
  with assms(1) have st: "R s t" by (rule steps_inD)
  show "R s (fst (bindp m f s))"
  proof (cases r)
    case (Val a)
    have "R t (fst (f a t))" using assms(2) by (simp add: steps_in_def)
    with st Val m show ?thesis by (auto simp: bindp_def intro: trans)
  qed (simp_all add: bindp_def m st)
qed

lemma in_catch:
  assumes "steps_in R m" and "\<And>e. steps_in R (h e)"
  shows "steps_in R (catch m h)"
proof (rule steps_inI)
  fix s
  obtain r t where m: "m s = (t, r)" by fastforce
  with assms(1) have st: "R s t" by (rule steps_inD)
  show "R s (fst (catch m h s))"
  proof (cases r)
    case (Exc e)
    have "R t (fst (h e t))" using assms(2) by (simp add: steps_in_def)
    with st Exc m show ?thesis by (auto simp: catch_def intro: trans)
  qed (simp_all add: catch_def m st)
qed

lemma in_foreach:
  assumes "\<And>a x. x \<in> set xs \<Longrightarrow> steps_in R (f a x)"
  shows "steps_in R (foreach xs a f)"
  using assms
proof (induction xs arbitrary: a)
  case Nil
  show ?case by (simp add: in_ret)
next
  case (Cons x xs)
  have tail: "steps_in R (foreach xs b f)" for b
    by (rule Cons.IH) (simp add: Cons.prems)
  have head: "steps_in R (f a x)"
    by (rule Cons.prems) simp
  show ?case
    unfolding foreach.simps by (rule in_bindp [OF head]) (auto simp: tail in_ret split: ctl.split)
qed

lemma in_forall_do:
  "(\<And>x. x \<in> set xs \<Longrightarrow> steps_in R (f x)) \<Longrightarrow> steps_in R (forall_do xs f)"
  by (induction xs) (auto intro: in_bindp in_ret)

lemma in_if: "steps_in R m \<Longrightarrow> steps_in R n \<Longrightarrow> steps_in R (if b then m else n)"
  by simp

lemma in_prod: "(\<And>a b. steps_in R (f a b)) \<Longrightarrow> steps_in R (case p of (a, b) \<Rightarrow> f a b)"
  by (cases p) simp

lemma in_prod_app: "(\<And>a b. steps_in R (f a b x)) \<Longrightarrow> steps_in R ((case p of (a, b) \<Rightarrow> f a b) x)"
  by (cases p) simp

lemma in_option:
  "steps_in R m \<Longrightarrow> (\<And>a. steps_in R (f a)) \<Longrightarrow> steps_in R (case x of None \<Rightarrow> m | Some a \<Rightarrow> f a)"
  by (cases x) simp_all

lemma in_ctl:
  "(\<And>a. steps_in R (f a)) \<Longrightarrow> (\<And>a. steps_in R (g a)) \<Longrightarrow>
   steps_in R (case c of Continue a \<Rightarrow> f a | Break a \<Rightarrow> g a)"
  by (cases c) simp_all

lemmas step_rules = in_ret in_throw in_fault in_gets in_lift in_bindp in_catch in_foreach
  in_forall_do in_if in_prod in_prod_app in_option in_ctl

end

text \<open>
  A routine whose last action is special: everything before keeps \<open>R\<close>, the whole is in \<open>S\<close>.
\<close>

locale tail_rel = step_rel R for R :: "'s \<Rightarrow> 's \<Rightarrow> bool" +
  fixes S :: "'s \<Rightarrow> 's \<Rightarrow> bool"
  assumes sub: "R s t \<Longrightarrow> S s t"
    and comp: "R s t \<Longrightarrow> S t u \<Longrightarrow> S s u"
begin

lemma tail_of_R: "steps_in R m \<Longrightarrow> steps_in S m"
  by (simp add: steps_in_def sub)

lemma tail_bindp:
  assumes "steps_in R m" and "\<And>a. steps_in S (f a)"
  shows "steps_in S (bindp m f)"
proof (rule steps_inI)
  fix s
  obtain r t where m: "m s = (t, r)" by fastforce
  with assms(1) have st: "R s t" by (rule steps_inD)
  show "S s (fst (bindp m f s))"
  proof (cases r)
    case (Val a)
    have "S t (fst (f a t))" using assms(2) by (simp add: steps_in_def)
    with st Val m show ?thesis by (auto simp: bindp_def intro: comp)
  qed (simp_all add: bindp_def m sub st)
qed

lemma tail_if: "(b \<Longrightarrow> steps_in S m) \<Longrightarrow> (\<not> b \<Longrightarrow> steps_in S n) \<Longrightarrow> steps_in S (if b then m else n)"
  by simp

lemma tail_prod: "(\<And>a b. steps_in S (f a b)) \<Longrightarrow> steps_in S (case p of (a, b) \<Rightarrow> f a b)"
  by (cases p) simp

lemma tail_option:
  "steps_in S m \<Longrightarrow> (\<And>a. steps_in S (f a)) \<Longrightarrow> steps_in S (case x of None \<Rightarrow> m | Some a \<Rightarrow> f a)"
  by (cases x) simp_all

lemma tail_ret: "steps_in S (ret a)"
  by (rule tail_of_R [OF in_ret])

text \<open>A loop whose rounds keep \<open>R\<close>, but for the last round.\<close>

lemma tail_foreach:
  assumes "\<And>a x. x \<in> set xs \<Longrightarrow> steps_in R (f a x)"
    and last: "\<And>a. steps_in S (foreach ys a f)"
  shows "steps_in S (foreach (xs @ ys) a f)"
  using assms(1)
proof (induction xs arbitrary: a)
  case Nil
  show ?case by (simp add: last)
next
  case (Cons x xs)
  have head: "steps_in R (f a x)" by (rule Cons.prems) simp
  have rest: "steps_in S (foreach (xs @ ys) b f)" for b
    by (rule Cons.IH) (simp add: Cons.prems)
  show ?case
    unfolding append_Cons foreach.simps
    by (rule tail_bindp [OF head]) (auto simp: rest tail_ret split: ctl.split)
qed

text \<open>After the special action only a value is returned.\<close>

lemma tail_bindp_ret:
  assumes "steps_in S m" and "\<And>a s. fst (f a s) = s"
  shows "steps_in S (bindp m f)"
  using assms by (auto simp: steps_in_def bindp_def split: prod.splits outcome.splits) (metis fst_conv)+

lemmas tail_rules = tail_bindp tail_if tail_prod tail_option tail_ret

end

subsection \<open>Programs that commute with a change of the state\<close>

text \<open>The program neither reads nor overwrites what \<open>F\<close> changes.\<close>

definition commutes :: "('s \<Rightarrow> 's) \<Rightarrow> ('s, 'e, 'a) prog \<Rightarrow> bool" where
  "commutes F m \<longleftrightarrow> (\<forall>s. m (F s) = apfst F (m s))"

lemma commutesD: "commutes F m \<Longrightarrow> m (F s) = apfst F (m s)"
  by (simp add: commutes_def)

lemma commutes_pure [commute_intros]:
  "commutes F (ret a)" "commutes F (throw e)" "commutes F (fault k)" "commutes F (lift r)"
  by (simp_all add: commutes_def prog_simps)

lemma commutes_gets [commute_intros]: "(\<And>s. f (F s) = f s) \<Longrightarrow> commutes F (gets f)"
  by (simp add: commutes_def prog_simps)

lemma commutes_modify [commute_intros]: "(\<And>s. f (F s) = F (f s)) \<Longrightarrow> commutes F (modify f)"
  by (simp add: commutes_def prog_simps)

lemma commutes_bindp [commute_intros]:
  "commutes F m \<Longrightarrow> (\<And>a. commutes F (f a)) \<Longrightarrow> commutes F (bindp m f)"
  by (auto simp: commutes_def bindp_def split: prod.splits outcome.splits)

lemma commutes_if [commute_intros]: "commutes F m \<Longrightarrow> commutes F n \<Longrightarrow> commutes F (if b then m else n)"
  by simp

subsection \<open>Numbers as text\<close>

definition digit_char :: "nat \<Rightarrow> char" where
  "digit_char d = ''0123456789'' ! d"

fun nat_to_string :: "nat \<Rightarrow> string" where
  "nat_to_string n =
     (if n < 10 then [digit_char n] else nat_to_string (n div 10) @ [digit_char (n mod 10)])"

declare nat_to_string.simps [simp del]

definition int_to_string :: "int \<Rightarrow> string" where
  "int_to_string i = (if i < 0 then ''-'' @ nat_to_string (nat (- i)) else nat_to_string (nat i))"

text \<open>The last \<open>k\<close> decimal digits of a number, with leading zeros.\<close>

primrec pad_digits :: "nat \<Rightarrow> nat \<Rightarrow> string" where
  "pad_digits 0 n = []"
| "pad_digits (Suc k) n = pad_digits k (n div 10) @ [digit_char (n mod 10)]"

lemma pad_digits_numeral [simp]:
  "pad_digits (numeral k) n = pad_digits (pred_numeral k) (n div 10) @ [digit_char (n mod 10)]"
  unfolding numeral_eq_Suc [of k] by (rule pad_digits.simps)

definition is_digit :: "char \<Rightarrow> bool" where
  "is_digit c \<longleftrightarrow> 48 \<le> (of_char c :: nat) \<and> (of_char c :: nat) \<le> 57"

definition digit_val :: "char \<Rightarrow> nat" where
  "digit_val c = of_char c - 48"

definition digits_val :: "string \<Rightarrow> nat" where
  "digits_val cs = foldl (\<lambda>n c. 10 * n + digit_val c) 0 cs"

lemma less_ten_cases:
  "(d::nat) < 10 \<Longrightarrow> d = 0 \<or> d = 1 \<or> d = 2 \<or> d = 3 \<or> d = 4 \<or> d = 5 \<or> d = 6 \<or> d = 7 \<or> d = 8 \<or> d = 9"
  by presburger

lemma digit_char_of [simp]: "d < 10 \<Longrightarrow> of_char (digit_char d) = (48 + d :: nat)"
  by (drule less_ten_cases) (auto simp: digit_char_def)

lemma is_digit_digit_char [simp]: "d < 10 \<Longrightarrow> is_digit (digit_char d)"
  by (simp add: is_digit_def)

lemma digit_val_digit_char [simp]: "d < 10 \<Longrightarrow> digit_val (digit_char d) = d"
  by (simp add: digit_val_def)

lemma digits_val_snoc: "digits_val (cs @ [c]) = 10 * digits_val cs + digit_val c"
  by (simp add: digits_val_def)

lemma nat_to_string_digits: "list_all is_digit (nat_to_string n)"
proof (induction n rule: nat_to_string.induct)
  case (1 n)
  then show ?case by (cases "n < 10") (simp_all add: nat_to_string.simps [of n])
qed

lemma nat_to_string_not_Nil [simp]: "nat_to_string n \<noteq> []"
  by (subst nat_to_string.simps) simp

lemma digits_val_nat_to_string [simp]: "digits_val (nat_to_string n) = n"
proof (induction n rule: nat_to_string.induct)
  case (1 n)
  show ?case
  proof (cases "n < 10")
    case True
    then show ?thesis by (simp add: nat_to_string.simps [of n] digits_val_def)
  next
    case False
    with 1 have "digits_val (nat_to_string (n div 10)) = n div 10" by simp
    with False show ?thesis by (simp add: nat_to_string.simps [of n] digits_val_snoc)
  qed
qed

lemma length_pad_digits [simp]: "length (pad_digits k n) = k"
  by (induction k arbitrary: n) simp_all

lemma pad_digits_digits: "list_all is_digit (pad_digits k n)"
  by (induction k arbitrary: n) simp_all

lemma nat_to_string_inj: "nat_to_string m = nat_to_string n \<Longrightarrow> m = n"
  by (metis digits_val_nat_to_string)

subsection \<open>Operations of \<open>std::string\<close>\<close>

text \<open>\<open>str_find\<close> is the first position of a substring, \<open>None\<close> for \<open>npos\<close>.\<close>

fun str_find :: "string \<Rightarrow> string \<Rightarrow> nat option" where
  "str_find [] pat = (if pat = [] then Some 0 else None)"
| "str_find (c # cs) pat =
     (if take (length pat) (c # cs) = pat then Some 0 else map_option Suc (str_find cs pat))"

text \<open>\<open>substr pos n\<close> for a position the code has checked; \<open>std::string\<close> throws beyond the end.\<close>

definition substr :: "string \<Rightarrow> nat \<Rightarrow> nat \<Rightarrow> string" where
  "substr s pos n = take n (drop pos s)"

definition toupper_char :: "char \<Rightarrow> char" where
  "toupper_char c =
     (if 97 \<le> (of_char c :: nat) \<and> (of_char c :: nat) \<le> 122 then char_of (of_char c - 32 :: nat) else c)"

definition toupper :: "string \<Rightarrow> string" where
  "toupper s = map toupper_char s"

lemma length_toupper [simp]: "length (toupper s) = length s"
  by (simp add: toupper_def)

lemma toupper_char_idem [simp]: "toupper_char (toupper_char c) = toupper_char c"
  by (auto simp: toupper_char_def)

lemma toupper_idem [simp]: "toupper (toupper s) = toupper s"
  by (simp add: toupper_def)

subsection \<open>\<open>std::map\<close> as an association list\<close>

text \<open>
  The maps the program keeps are only looked up by key, tested for emptiness and assigned
  through \<open>operator[]\<close>; the association list keeps one entry per key.
\<close>

type_synonym ('k, 'v) smap = "('k \<times> 'v) list"

abbreviation smap_find :: "('k, 'v) smap \<Rightarrow> 'k \<Rightarrow> 'v option" where
  "smap_find m k \<equiv> map_of m k"

abbreviation smap_set :: "('k, 'v) smap \<Rightarrow> 'k \<Rightarrow> 'v \<Rightarrow> ('k, 'v) smap" where
  "smap_set m k v \<equiv> AList.update k v m"

abbreviation has_key :: "('k, 'v) smap \<Rightarrow> 'k \<Rightarrow> bool" where
  "has_key m k \<equiv> map_of m k \<noteq> None"

text \<open>\<open>boost::split\<close> at every character of a set, empty fields kept.\<close>

fun split_any :: "char list \<Rightarrow> string \<Rightarrow> string list" where
  "split_any ds [] = [[]]"
| "split_any ds (c # cs) =
     (if c \<in> set ds then [] # split_any ds cs
      else (case split_any ds cs of [] \<Rightarrow> [[c]] | w # ws \<Rightarrow> (c # w) # ws))"

definition newline :: string where "newline = [CHR 0x0A]"

definition text_lines :: "string list \<Rightarrow> string" where
  "text_lines ls = concat (map (\<lambda>l. l @ newline) ls)"

text \<open>What a client of a map relies on: an assignment is read back and touches no other key.\<close>

locale finite_table =
  fixes find :: "'m \<Rightarrow> 'k \<Rightarrow> 'v option"
    and set :: "'m \<Rightarrow> 'k \<Rightarrow> 'v \<Rightarrow> 'm"
  assumes find_set: "find (set m k v) k' = (if k' = k then Some v else find m k')"
begin

lemma find_set_same: "find (set m k v) k = Some v"
  by (simp add: find_set)

lemma find_set_other: "k' \<noteq> k \<Longrightarrow> find (set m k v) k' = find m k'"
  by (simp add: find_set)

text \<open>Loading rows one after the other: the last row of a key wins.\<close>

lemma find_foldl_set:
  "find (foldl (\<lambda>m r. set m (key r) (val r)) m rows) k =
     (case List.find (\<lambda>r. key r = k) (rev rows) of Some r \<Rightarrow> Some (val r) | None \<Rightarrow> find m k)"
proof (induction rows rule: rev_induct)
  case Nil
  show ?case by simp
next
  case (snoc r rows)
  then show ?case by (simp add: find_set)
qed

end

interpretation smap: finite_table map_of "\<lambda>m k v. AList.update k v m"
  by unfold_locales (simp add: update_conv')

end
