(* ===== verification/Doubles.thy ===== *)
theory Doubles
  imports Prelude Complex_Main
begin

section \<open>IEEE double arithmetic\<close>

text \<open>
  The amounts of the wallet are C++ \<open>double\<close>s. A finite double is a mantissa and a binary
  exponent; the operations compute the exact result on integers and round it once, to the
  nearest 53-bit mantissa, ties to even, as IEEE 754 prescribes. Infinities, NaN and the sign
  of zero are not represented: no amount of the program reaches them short of magnitudes near
  \<open>2\<^sup>1\<^sup>0\<^sup>2\<^sup>4\<close>. \<open>std::to_string\<close> of a double prints its exact value rounded to six decimals
  (the format \<open>%f\<close>).
\<close>

datatype dbl = Dbl (mant: int) (expo: int)

definition dval :: "dbl \<Rightarrow> rat" where
  "dval d = of_int (mant d) * 2 powi expo d"

subsection \<open>Integer division with rounding\<close>

text \<open>Division rounded to the nearest integer, ties to even; the divisor is positive.\<close>

definition rdiv :: "int \<Rightarrow> int \<Rightarrow> int" where
  "rdiv a b =
     (let q = a div b; r = 2 * (a mod b)
      in if r < b then q else if b < r then q + 1 else if even q then q else q + 1)"

lemma rdiv_near:
  assumes "0 < b"
  shows "\<bar>2 * (rdiv a b * b - a)\<bar> \<le> b"
proof -
  have "a = b * (a div b) + a mod b" by simp
  moreover have "0 \<le> a mod b" "a mod b < b" using assms by simp_all
  moreover define q m where "q = a div b" and "m = a mod b"
  ultimately have *: "a = b * q + m" "0 \<le> m" "m < b" by simp_all
  have "rdiv a b = q \<and> 2 * m \<le> b \<or> rdiv a b = q + 1 \<and> b \<le> 2 * m"
    unfolding rdiv_def Let_def q_def [symmetric] m_def [symmetric] by auto
  then show ?thesis using * by (auto simp: algebra_simps)
qed

lemma rdiv_exact [simp]: "0 < b \<Longrightarrow> rdiv (a * b) b = a"
  by (simp add: rdiv_def)

fun bitlen_nat :: "nat \<Rightarrow> nat" where
  "bitlen_nat n = (if n = 0 then 0 else Suc (bitlen_nat (n div 2)))"

declare bitlen_nat.simps [simp del]

lemma bitlen_nat_bounds: "0 < n \<Longrightarrow> 2 ^ (bitlen_nat n - 1) \<le> n \<and> n < 2 ^ bitlen_nat n"
proof (induction n rule: bitlen_nat.induct)
  case (1 n)
  show ?case
  proof (cases "n < 2")
    case True
    with 1 have "n = 1" by simp
    moreover have "bitlen_nat 1 = 1" by (simp add: bitlen_nat.simps)
    ultimately show ?thesis by simp
  next
    case False
    then have pos: "0 < n div 2" by simp
    with 1 have IH: "2 ^ (bitlen_nat (n div 2) - 1) \<le> n div 2" "n div 2 < 2 ^ bitlen_nat (n div 2)"
      by simp_all
    define k where "k = bitlen_nat (n div 2)"
    have k: "0 < k" using pos by (simp add: k_def bitlen_nat.simps [of "n div 2"])
    have "bitlen_nat n = Suc k" using False by (simp add: k_def bitlen_nat.simps [of n])
    moreover have "(2::nat) ^ k = 2 * 2 ^ (k - 1)" using k by (cases k) simp_all
    ultimately show ?thesis using IH unfolding k_def [symmetric] by auto
  qed
qed

definition bitlen_int :: "int \<Rightarrow> int" where
  "bitlen_int a = int (bitlen_nat (nat \<bar>a\<bar>))"

definition pow2 :: "int \<Rightarrow> int" where
  "pow2 k = 2 ^ nat k"

subsection \<open>Rounding a fraction to a double\<close>

text \<open>
  A format has a number of mantissa bits and a smallest exponent (that of its subnormal
  numbers). The exponent of the last place is that of the leading bit of the fraction less
  the other mantissa bits, and never below the smallest exponent.
\<close>

definition ulp_expo :: "int \<Rightarrow> int \<Rightarrow> int \<Rightarrow> int \<Rightarrow> int" where
  "ulp_expo prec emin p q =
     (let k = bitlen_int p - bitlen_int q;
          lead = (if q * pow2 k \<le> \<bar>p\<bar> * pow2 (- k) then k else k - 1)
      in max (lead - (prec - 1)) emin)"

definition round_prec :: "int \<Rightarrow> int \<Rightarrow> int \<Rightarrow> int \<Rightarrow> dbl" where
  "round_prec prec emin p q =
     (if p = 0 then Dbl 0 0
      else let u = ulp_expo prec emin p q; m = rdiv (p * pow2 (- u)) (q * pow2 u)
           in if \<bar>m\<bar> = 2 ^ nat prec then Dbl (m div 2) (u + 1) else Dbl m u)"

definition round_frac :: "int \<Rightarrow> int \<Rightarrow> dbl" where
  "round_frac p q = round_prec 53 (- 1074) p q"

text \<open>Rounding to \<open>float\<close> (24 bits), as \<open>std::stof\<close> does.\<close>

definition float_of_frac :: "int \<Rightarrow> int \<Rightarrow> dbl" where
  "float_of_frac p q = round_prec 24 (- 149) p q"

definition round_dyadic :: "int \<Rightarrow> int \<Rightarrow> dbl" where
  "round_dyadic m e = round_frac (m * pow2 e) (pow2 (- e))"

definition dbl_of_int :: "int \<Rightarrow> dbl" where
  "dbl_of_int i = round_frac i 1"

text \<open>The double a decimal literal \<open>p / 10\<^sup>k\<close> denotes.\<close>

definition dbl_of_dec :: "int \<Rightarrow> nat \<Rightarrow> dbl" where
  "dbl_of_dec p k = round_frac p (10 ^ k)"

definition dadd :: "dbl \<Rightarrow> dbl \<Rightarrow> dbl" where
  "dadd a b =
     (let g = min (expo a) (expo b)
      in round_dyadic (mant a * pow2 (expo a - g) + mant b * pow2 (expo b - g)) g)"

definition dneg :: "dbl \<Rightarrow> dbl" where
  "dneg a = Dbl (- mant a) (expo a)"

definition dsub :: "dbl \<Rightarrow> dbl \<Rightarrow> dbl" where
  "dsub a b = dadd a (dneg b)"

definition dmul :: "dbl \<Rightarrow> dbl \<Rightarrow> dbl" where
  "dmul a b = round_dyadic (mant a * mant b) (expo a + expo b)"

definition dle :: "dbl \<Rightarrow> dbl \<Rightarrow> bool" where
  "dle a b =
     (let g = min (expo a) (expo b)
      in mant a * pow2 (expo a - g) \<le> mant b * pow2 (expo b - g))"

text \<open>Conversion to an integer (\<open>static_cast\<close>, \<open>mpz_class(double)\<close>): toward zero.\<close>

definition dtrunc :: "dbl \<Rightarrow> int" where
  "dtrunc a = sgn (mant a) * (\<bar>mant a\<bar> * pow2 (expo a) div pow2 (- expo a))"

lemmas dbl_eval = dmul_def dadd_def dsub_def dneg_def dle_def dtrunc_def dbl_of_dec_def dbl_of_int_def
  round_dyadic_def round_frac_def float_of_frac_def round_prec_def ulp_expo_def bitlen_int_def bitlen_nat.simps pow2_def rdiv_def

subsection \<open>Printing with six decimals\<close>

definition micros :: "dbl \<Rightarrow> int" where
  "micros a = rdiv (mant a * 1000000 * pow2 (expo a)) (pow2 (- expo a))"

definition dbl_to_string :: "dbl \<Rightarrow> string" where
  "dbl_to_string a =
     (let n = nat \<bar>micros a\<bar>
      in (if mant a < 0 then ''-'' else '''') @ nat_to_string (n div 1000000) @ ''.''
         @ pad_digits 6 (n mod 1000000))"

subsection \<open>Integers are exact\<close>

text \<open>
  An integer of less than 53 bits is a double, and so is every product or sum of such doubles
  that stays below that bound: no rounding takes place.
\<close>

definition holds_int :: "dbl \<Rightarrow> int \<Rightarrow> bool" where
  "holds_int d n \<longleftrightarrow> expo d \<le> 0 \<and> mant d = n * 2 ^ nat (- expo d)"

lemma bitlen_nat_double: "0 < n \<Longrightarrow> bitlen_nat (2 * n) = Suc (bitlen_nat n)"
  by (simp add: bitlen_nat.simps [of "2 * n"])

lemma bitlen_nat_scale: "0 < n \<Longrightarrow> bitlen_nat (n * 2 ^ k) = bitlen_nat n + k"
proof (induction k)
  case (Suc k)
  have "bitlen_nat (n * 2 ^ Suc k) = bitlen_nat (2 * (n * 2 ^ k))" by (simp add: mult.left_commute)
  with Suc show ?case by (simp add: bitlen_nat_double)
qed simp

lemma bitlen_nat_le: "n < 2 ^ k \<Longrightarrow> bitlen_nat n \<le> k"
proof (cases "n = 0")
  case True
  then show ?thesis by (simp add: bitlen_nat.simps [of 0])
next
  case False
  assume "n < 2 ^ k"
  moreover have "2 ^ (bitlen_nat n - 1) \<le> n" using bitlen_nat_bounds [of n] False by simp
  ultimately have "(2::nat) ^ (bitlen_nat n - 1) < 2 ^ k" by (rule order.strict_trans1 [rotated])
  then show ?thesis by simp
qed

lemma bitlen_int_scale: "n \<noteq> 0 \<Longrightarrow> bitlen_int (n * 2 ^ k) = bitlen_int n + int k"
  by (simp add: bitlen_int_def abs_mult nat_mult_distrib nat_power_eq bitlen_nat_scale)

lemma bitlen_int_pow2: "bitlen_int (2 ^ k) = int k + 1"
proof -
  have "bitlen_nat 1 = 1" by (simp add: bitlen_nat.simps)
  then show ?thesis using bitlen_int_scale [of 1 k] by (simp add: bitlen_int_def)
qed

lemma round_frac_exact:
  assumes "n \<noteq> 0" and "\<bar>n\<bar> < 2 ^ 53"
  shows "holds_int (round_frac (n * 2 ^ k) (2 ^ k)) n"
proof -
  define u where "u = ulp_expo 53 (- 1074) (n * 2 ^ k) (2 ^ k)"
  have "nat \<bar>n\<bar> < 2 ^ 53" using assms(2) by simp
  then have "bitlen_nat (nat \<bar>n\<bar>) \<le> 53" by (rule bitlen_nat_le)
  then have "bitlen_int n \<le> 53" by (simp add: bitlen_int_def)
  then have u: "u \<le> 0"
    using assms(1) by (simp add: u_def ulp_expo_def Let_def bitlen_int_scale bitlen_int_pow2)
  define m where "m = n * 2 ^ nat (- u)"
  have "rdiv (n * 2 ^ k * pow2 (- u)) (2 ^ k * pow2 u) = m"
    using u rdiv_exact [of "2 ^ k" m] by (simp add: pow2_def m_def ac_simps)
  then have r: "round_frac (n * 2 ^ k) (2 ^ k) = (if \<bar>m\<bar> = 2 ^ 53 then Dbl (m div 2) (u + 1) else Dbl m u)"
    using assms(1) by (simp add: round_frac_def round_prec_def u_def Let_def)
  show ?thesis
  proof (cases "\<bar>m\<bar> = 2 ^ 53")
    case False
    with r u show ?thesis by (simp add: holds_int_def m_def)
  next
    case True
    then have "u \<noteq> 0" using assms(2) by (auto simp: m_def)
    with u have u': "u + 1 \<le> 0" "nat (- u) = Suc (nat (- (u + 1)))" by auto
    then have "m div 2 = n * 2 ^ nat (- (u + 1))" by (simp add: m_def)
    with True r u' show ?thesis by (simp add: holds_int_def)
  qed
qed

lemma dbl_of_int_exact: "n \<noteq> 0 \<Longrightarrow> \<bar>n\<bar> < 2 ^ 53 \<Longrightarrow> holds_int (dbl_of_int n) n"
  using round_frac_exact [of n 0] by (simp add: dbl_of_int_def)

lemma dmul_exact:
  assumes "holds_int a m" and "holds_int b n" and "m * n \<noteq> 0" and "\<bar>m * n\<bar> < 2 ^ 53"
  shows "holds_int (dmul a b) (m * n)"
proof -
  define k where "k = nat (- expo a) + nat (- expo b)"
  have e: "expo a + expo b \<le> 0" "nat (- (expo a + expo b)) = k"
    using assms(1,2) by (auto simp: holds_int_def k_def)
  have "mant a * mant b = m * n * 2 ^ k"
    using assms(1,2) by (simp add: holds_int_def k_def power_add)
  with e have "dmul a b = round_frac (m * n * 2 ^ k) (2 ^ k)"
    by (simp add: dmul_def round_dyadic_def pow2_def)
  then show ?thesis using round_frac_exact [OF assms(3,4), of k] by simp
qed

lemma dbl_to_string_int:
  assumes "holds_int d n" and "0 \<le> n"
  shows "dbl_to_string d = nat_to_string (nat n) @ ''.000000''"
proof -
  define k where "k = nat (- expo d)"
  have "micros d = rdiv (n * 1000000 * 2 ^ k) (2 ^ k)"
    using assms(1) by (simp add: micros_def holds_int_def pow2_def k_def ac_simps)
  then have m: "micros d = n * 1000000" by (simp add: rdiv_exact)
  have "\<not> mant d < 0" using assms by (simp add: holds_int_def not_less)
  moreover have "nat \<bar>micros d\<bar> div 1000000 = nat n" "nat \<bar>micros d\<bar> mod 1000000 = 0"
    using assms(2) by (simp_all add: m nat_mult_distrib)
  ultimately show ?thesis by (simp add: dbl_to_string_def Let_def digit_char_def)
qed

end
