(* ===== verification/Json.thy ===== *)
theory Json
  imports Prelude Doubles
begin

section \<open>JSON values\<close>

text \<open>
  The values of \<open>nlohmann::json\<close> (\<open>server/src/json.hpp\<close>, the same file in all three programs)
  and the operations of it the programs call. An object is a list of pairs in the order of its
  keys, as the \<open>std::map\<close> behind it; numbers keep the three representations of the library.
  Every operation shows what it does on a value of the wrong type: \<open>type_error\<close> 302, 305 or 308,
  a failed assertion for a key that is missing from a \<open>const\<close> object, undefined behaviour for an
  index past the end of a \<open>const\<close> array.
\<close>

datatype json =
    JNull
  | JBool bool
  | JInt int
  | JUint nat
  | JFloat dbl
  | JStr string
  | JArr "json list"
  | JObj "(string \<times> json) list"

text \<open>
  What the programs throw: the library's \<open>type_error\<close> (number and text), \<open>parse_error\<close> (its
  text), an exception of the standard library (its \<open>what()\<close>), or a JSON value
  (\<open>throw JSONRPCError(...)\<close>).
\<close>

datatype exn = TypeError nat string | ParseError string | StdError string | ThrownJson json

type_synonym 'a jres = "(exn, 'a) outcome"

fun what :: "exn \<Rightarrow> string" where
  "what (TypeError n msg) = ''[json.exception.type_error.'' @ nat_to_string n @ ''] '' @ msg"
| "what (ParseError msg) = msg"
| "what (StdError msg) = msg"
| "what (ThrownJson j) = ''''"

fun type_name :: "json \<Rightarrow> string" where
  "type_name JNull = ''null''"
| "type_name (JObj _) = ''object''"
| "type_name (JArr _) = ''array''"
| "type_name (JStr _) = ''string''"
| "type_name (JBool _) = ''boolean''"
| "type_name _ = ''number''"

fun is_null :: "json \<Rightarrow> bool" where
  "is_null JNull = True"
| "is_null _ = False"

fun is_object :: "json \<Rightarrow> bool" where
  "is_object (JObj _) = True"
| "is_object _ = False"

fun is_array :: "json \<Rightarrow> bool" where
  "is_array (JArr _) = True"
| "is_array _ = False"

fun is_string :: "json \<Rightarrow> bool" where
  "is_string (JStr _) = True"
| "is_string _ = False"

subsection \<open>Objects\<close>

text \<open>The order of \<open>std::string\<close>: lexicographic on unsigned characters.\<close>

fun str_less :: "string \<Rightarrow> string \<Rightarrow> bool" where
  "str_less _ [] = False"
| "str_less [] (_ # _) = True"
| "str_less (a # as) (b # bs) =
     ((of_char a :: nat) < of_char b \<or> a = b \<and> str_less as bs)"

text \<open>Insertion into a \<open>std::map\<close> with text keys, kept in key order (objects, command tables).\<close>

fun obj_set :: "string \<Rightarrow> 'v \<Rightarrow> (string \<times> 'v) list \<Rightarrow> (string \<times> 'v) list" where
  "obj_set k v [] = [(k, v)]"
| "obj_set k v ((k', v') # m) =
     (if k = k' then (k, v) # m
      else if str_less k k' then (k, v) # (k', v') # m
      else (k', v') # obj_set k v m)"

lemma map_of_obj_set [simp]: "map_of (obj_set k v m) k' = (if k' = k then Some v else map_of m k')"
  by (induction m) auto

text \<open>Objects of the library are tables as well: what is set under a key is read back.\<close>

interpretation obj: finite_table map_of "\<lambda>m k v. obj_set k v m"
  by unfold_locales simp

lemma str_less_irrefl [simp]: "\<not> str_less s s"
  by (induction s) auto

lemma str_less_trans: "str_less a b \<Longrightarrow> str_less b c \<Longrightarrow> str_less a c"
proof (induction a b arbitrary: c rule: str_less.induct)
  case (2 b bs)
  then show ?case by (cases c) auto
next
  case (3 a as b bs)
  then show ?case by (cases c) (auto intro: less_trans)
qed simp

lemma str_less_total: "a \<noteq> b \<Longrightarrow> \<not> str_less a b \<Longrightarrow> str_less b a"
proof (induction a b rule: str_less.induct)
  case (1 a)
  then show ?case by (cases a) auto
next
  case (3 a as b bs)
  show ?case
  proof (cases "a = b")
    case True
    with 3 show ?thesis by auto
  next
    case False
    then have "(of_char a :: nat) < of_char b \<or> of_char b < (of_char a :: nat)"
      by (metis of_char_eq_iff nat_neq_iff)
    with 3 show ?thesis by auto
  qed
qed simp

text \<open>Objects stay in key order, without a key twice, as the iteration of \<open>std::map\<close> shows them.\<close>

definition key_sorted :: "(string \<times> 'v) list \<Rightarrow> bool" where
  "key_sorted m \<longleftrightarrow> sorted_wrt str_less (map fst m)"

lemma set_keys_obj_set: "fst ` set (obj_set k v m) = insert k (fst ` set m)"
proof (induction m)
  case (Cons p m)
  then show ?case by (cases p) (simp add: insert_commute)
qed simp

lemma key_sorted_obj_set: "key_sorted m \<Longrightarrow> key_sorted (obj_set k v m)"
proof (induction m)
  case Nil
  then show ?case by (simp add: key_sorted_def)
next
  case (Cons p m)
  obtain k' v' where p: "p = (k', v')" by fastforce
  from Cons.prems have tail: "key_sorted m" and lt: "\<forall>x\<in>fst ` set m. str_less k' x"
    by (auto simp: p key_sorted_def)
  consider "k = k'" | "k \<noteq> k'" "str_less k k'" | "k \<noteq> k'" "\<not> str_less k k'" by blast
  then show ?case
  proof cases
    case 1
    then show ?thesis using Cons.prems by (simp add: p key_sorted_def)
  next
    case 2
    then have "\<forall>x\<in>fst ` set m. str_less k x" using lt str_less_trans by blast
    with 2 Cons.prems show ?thesis by (simp add: p key_sorted_def)
  next
    case 3
    then have "str_less k' k" using str_less_total by blast
    moreover from lt this have "\<forall>x\<in>fst ` set (obj_set k v m). str_less k' x"
      by (simp add: set_keys_obj_set)
    ultimately show ?thesis using 3 Cons.IH [OF tail] by (auto simp: p key_sorted_def)
  qed
qed

subsection \<open>Access\<close>

text \<open>\<open>operator[](size_type) const\<close>\<close>

fun at_const :: "json \<Rightarrow> nat \<Rightarrow> json jres" where
  "at_const (JArr xs) i = (if i < length xs then Val (xs ! i) else Fault UndefinedBehaviour)"
| "at_const j i = Exc (TypeError 305 (''cannot use operator[] with '' @ type_name j))"

text \<open>
  \<open>operator[](size_type)\<close>: a null value is an empty array, a missing element is null (the array
  is filled up, on a temporary copy wherever the programs use it).
\<close>

fun at_idx :: "json \<Rightarrow> nat \<Rightarrow> json jres" where
  "at_idx (JArr xs) i = Val (if i < length xs then xs ! i else JNull)"
| "at_idx JNull i = Val JNull"
| "at_idx j i = Exc (TypeError 305 (''cannot use operator[] with '' @ type_name j))"

text \<open>\<open>operator[](key) const\<close>: the key must be there, an assertion says so.\<close>

fun key_const :: "json \<Rightarrow> string \<Rightarrow> json jres" where
  "key_const (JObj m) k = (case map_of m k of Some v \<Rightarrow> Val v | None \<Rightarrow> Fault AssertFailed)"
| "key_const j k = Exc (TypeError 305 (''cannot use operator[] with '' @ type_name j))"

text \<open>\<open>operator[](key)\<close> read: a missing key reads as null.\<close>

fun at_key :: "json \<Rightarrow> string \<Rightarrow> json jres" where
  "at_key (JObj m) k = Val (case map_of m k of Some v \<Rightarrow> v | None \<Rightarrow> JNull)"
| "at_key JNull k = Val JNull"
| "at_key j k = Exc (TypeError 305 (''cannot use operator[] with '' @ type_name j))"

text \<open>The same \<open>operator[](key)\<close> as the effect it has on the value: the missing key is inserted.\<close>

fun touch_key :: "json \<Rightarrow> string \<Rightarrow> json jres" where
  "touch_key (JObj m) k = Val (JObj (case map_of m k of Some v \<Rightarrow> m | None \<Rightarrow> obj_set k JNull m))"
| "touch_key JNull k = Val (JObj [(k, JNull)])"
| "touch_key j k = Exc (TypeError 305 (''cannot use operator[] with '' @ type_name j))"

text \<open>\<open>j[k] = v\<close>\<close>

fun set_key :: "json \<Rightarrow> string \<Rightarrow> json \<Rightarrow> json jres" where
  "set_key (JObj m) k v = Val (JObj (obj_set k v m))"
| "set_key JNull k v = Val (JObj [(k, v)])"
| "set_key j k v = Exc (TypeError 305 (''cannot use operator[] with '' @ type_name j))"

text \<open>An object built key by key from a null value or an empty object.\<close>

definition mk_obj :: "(string \<times> json) list \<Rightarrow> json" where
  "mk_obj kvs = JObj (foldl (\<lambda>m (k, v). obj_set k v m) [] kvs)"

fun push_back :: "json \<Rightarrow> json \<Rightarrow> json jres" where
  "push_back (JArr xs) v = Val (JArr (xs @ [v]))"
| "push_back JNull v = Val (JArr [v])"
| "push_back j v = Exc (TypeError 308 (''cannot use push_back() with '' @ type_name j))"

text \<open>\<open>find(key) != end()\<close>: a value that is no object has no keys.\<close>

fun has_field :: "json \<Rightarrow> string \<Rightarrow> bool" where
  "has_field (JObj m) k = (map_of m k \<noteq> None)"
| "has_field _ k = False"

fun jsize :: "json \<Rightarrow> nat" where
  "jsize JNull = 0"
| "jsize (JArr xs) = length xs"
| "jsize (JObj m) = length m"
| "jsize _ = 1"

fun jempty :: "json \<Rightarrow> bool" where
  "jempty JNull = True"
| "jempty (JArr xs) = (xs = [])"
| "jempty (JObj m) = (m = [])"
| "jempty _ = False"

text \<open>\<open>clear()\<close> keeps the type of the value.\<close>

fun jclear :: "json \<Rightarrow> json" where
  "jclear JNull = JNull"
| "jclear (JBool _) = JBool False"
| "jclear (JInt _) = JInt 0"
| "jclear (JUint _) = JUint 0"
| "jclear (JFloat _) = JFloat (Dbl 0 0)"
| "jclear (JStr _) = JStr ''''"
| "jclear (JArr _) = JArr []"
| "jclear (JObj _) = JObj []"

subsection \<open>Conversions\<close>

definition wrap_i32 :: "int \<Rightarrow> int" where
  "wrap_i32 i = (i + 2 ^ 31) mod 2 ^ 32 - 2 ^ 31"

definition wrap_i64 :: "int \<Rightarrow> int" where
  "wrap_i64 i = (i + 2 ^ 63) mod 2 ^ 64 - 2 ^ 63"

definition wrap_u64 :: "int \<Rightarrow> nat" where
  "wrap_u64 i = nat (i mod 2 ^ 64)"

lemma wrap_i32_id [simp]: "- (2 ^ 31) \<le> i \<Longrightarrow> i < 2 ^ 31 \<Longrightarrow> wrap_i32 i = i"
  by (simp add: wrap_i32_def)

lemma wrap_i32_range: "- (2 ^ 31) \<le> wrap_i32 i \<and> wrap_i32 i < 2 ^ 31"
proof -
  have "0 \<le> (i + 2 ^ 31) mod 2 ^ 32" "(i + 2 ^ 31) mod 2 ^ 32 < (2 ^ 32 :: int)" by simp_all
  then show ?thesis unfolding wrap_i32_def by simp
qed

lemma wrap_u64_id [simp]: "0 \<le> i \<Longrightarrow> i < 2 ^ 64 \<Longrightarrow> wrap_u64 i = nat i"
  by (simp add: wrap_u64_def)

text \<open>A double outside the target type is undefined behaviour in C++.\<close>

definition dbl_to_range :: "int \<Rightarrow> int \<Rightarrow> dbl \<Rightarrow> int jres" where
  "dbl_to_range lo hi d =
     (if lo \<le> dtrunc d \<and> dtrunc d \<le> hi then Val (dtrunc d) else Fault UndefinedBehaviour)"

text \<open>\<open>get<int>()\<close>: any number, and also a boolean.\<close>

fun get_int :: "json \<Rightarrow> int jres" where
  "get_int (JUint n) = Val (wrap_i32 (int n))"
| "get_int (JInt i) = Val (wrap_i32 i)"
| "get_int (JFloat d) = dbl_to_range (- (2 ^ 31)) (2 ^ 31 - 1) d"
| "get_int (JBool b) = Val (if b then 1 else 0)"
| "get_int j = Exc (TypeError 302 (''type must be number, but is '' @ type_name j))"

text \<open>\<open>get<long long>()\<close>: the same with 64 bits.\<close>

fun get_ll :: "json \<Rightarrow> int jres" where
  "get_ll (JUint n) = Val (wrap_i64 (int n))"
| "get_ll (JInt i) = Val (wrap_i64 i)"
| "get_ll (JFloat d) = dbl_to_range (- (2 ^ 63)) (2 ^ 63 - 1) d"
| "get_ll (JBool b) = Val (if b then 1 else 0)"
| "get_ll j = Exc (TypeError 302 (''type must be number, but is '' @ type_name j))"

text \<open>\<open>get<uint64_t>()\<close> and \<open>get<size_t>()\<close>: no booleans; a negative number wraps around.\<close>

fun get_u64 :: "json \<Rightarrow> nat jres" where
  "get_u64 (JUint n) = Val n"
| "get_u64 (JInt i) = Val (wrap_u64 i)"
| "get_u64 (JFloat d) =
     map_outcome id nat (dbl_to_range 0 (2 ^ 64 - 1) d)"
| "get_u64 j = Exc (TypeError 302 (''type must be number, but is '' @ type_name j))"

fun get_double :: "json \<Rightarrow> dbl jres" where
  "get_double (JUint n) = Val (dbl_of_int (int n))"
| "get_double (JInt i) = Val (dbl_of_int i)"
| "get_double (JFloat d) = Val d"
| "get_double j = Exc (TypeError 302 (''type must be number, but is '' @ type_name j))"

fun get_bool :: "json \<Rightarrow> bool jres" where
  "get_bool (JBool b) = Val b"
| "get_bool j = Exc (TypeError 302 (''type must be boolean, but is '' @ type_name j))"

fun get_string :: "json \<Rightarrow> string jres" where
  "get_string (JStr s) = Val s"
| "get_string j = Exc (TypeError 302 (''type must be string, but is '' @ type_name j))"

subsection \<open>Chained access in programs\<close>

text \<open>\<open>j[k].get<std::string>()\<close> and its kin, on a value the program may write to.\<close>

definition field_string :: "json \<Rightarrow> string \<Rightarrow> ('s, exn, string) prog" where
  "field_string j k = bindp (lift (at_key j k)) (\<lambda>v. lift (get_string v))"

definition field_bool :: "json \<Rightarrow> string \<Rightarrow> ('s, exn, bool) prog" where
  "field_bool j k = bindp (lift (at_key j k)) (\<lambda>v. lift (get_bool v))"

definition field_int :: "json \<Rightarrow> string \<Rightarrow> ('s, exn, int) prog" where
  "field_int j k = bindp (lift (at_key j k)) (\<lambda>v. lift (get_int v))"

definition field_u64 :: "json \<Rightarrow> string \<Rightarrow> ('s, exn, nat) prog" where
  "field_u64 j k = bindp (lift (at_key j k)) (\<lambda>v. lift (get_u64 v))"

definition field_double :: "json \<Rightarrow> string \<Rightarrow> ('s, exn, dbl) prog" where
  "field_double j k = bindp (lift (at_key j k)) (\<lambda>v. lift (get_double v))"

definition field :: "json \<Rightarrow> string \<Rightarrow> ('s, exn, json) prog" where
  "field j k = lift (at_key j k)"

text \<open>A cell \<open>rows[i][c]\<close> of a query result.\<close>

definition cell :: "json \<Rightarrow> nat \<Rightarrow> nat \<Rightarrow> ('s, exn, json) prog" where
  "cell rows i c = bindp (lift (at_idx rows i)) (\<lambda>row. lift (at_idx row c))"

definition cell_string :: "json \<Rightarrow> nat \<Rightarrow> nat \<Rightarrow> ('s, exn, string) prog" where
  "cell_string rows i c = bindp (cell rows i c) (\<lambda>v. lift (get_string v))"

definition cell_int :: "json \<Rightarrow> nat \<Rightarrow> nat \<Rightarrow> ('s, exn, int) prog" where
  "cell_int rows i c = bindp (cell rows i c) (\<lambda>v. lift (get_int v))"

definition cell_u64 :: "json \<Rightarrow> nat \<Rightarrow> nat \<Rightarrow> ('s, exn, nat) prog" where
  "cell_u64 rows i c = bindp (cell rows i c) (\<lambda>v. lift (get_u64 v))"

lemmas field_defs = field_string_def field_bool_def field_int_def field_u64_def field_double_def
  field_def cell_def cell_string_def cell_int_def cell_u64_def

context step_rel
begin

lemma in_fields:
  "steps_in R (field_string j k)" "steps_in R (field_bool j k)" "steps_in R (field_int j k)"
  "steps_in R (field_u64 j k)" "steps_in R (field_double j k)" "steps_in R (field j k)"
  "steps_in R (cell rows i c)" "steps_in R (cell_string rows i c)" "steps_in R (cell_int rows i c)"
  "steps_in R (cell_u64 rows i c)"
  unfolding field_defs by (intro in_bindp in_lift)+

end

end
