(* ===== verification/DbMysql.thy ===== *)
theory DbMysql
  imports Json
begin

section \<open>The database client\<close>

text \<open>
  \<open>DBMysql\<close> (\<open>monitor/src/db_mysql.cpp\<close> and its twin \<open>server/src/db_mysql.cpp\<close>) and the part of
  a program's state that lies outside of it: the statements it has sent to MySQL and the HTTP
  posts it has made. MySQL and the HTTP peers are parameters (\<open>env\<close>): their answer is any
  function of what they were sent before. \<open>db_log\<close> holds the statements that write, those
  of \<open>refreshDB\<close>; the queries of \<open>getData\<close> change nothing in the database and are not recorded.
\<close>

subsection \<open>The outside world\<close>

text \<open>A reply of MySQL: the rows of a result, a cell \<open>None\<close> for NULL, or an error number.\<close>

datatype sql_reply = Rows "string option list list" | SqlError nat

text \<open>An HTTP post: URL, credentials and the JSON value sent as the body.\<close>

type_synonym post = "string \<times> string \<times> json"

text \<open>No reply (curl fails), a body that is no JSON (with the parser's message), or a JSON body.\<close>

datatype http_reply = NoReply | BadBody string | Body json

record env =
  mysql_connects :: "string list \<Rightarrow> bool"
  mysql_query :: "string list \<Rightarrow> string \<Rightarrow> sql_reply"
  http_answer :: "post list \<Rightarrow> post \<Rightarrow> http_reply"

record world =
  db_log :: "string list"
  posts :: "post list"

subsection \<open>Numbers read by the C library\<close>

definition is_space :: "char \<Rightarrow> bool" where
  "is_space c \<longleftrightarrow> c = CHR '' '' \<or> (9 \<le> (of_char c :: nat) \<and> (of_char c :: nat) \<le> 13)"

text \<open>\<open>strtol\<close>: white space, a sign, the longest run of digits.\<close>

definition split_sign :: "string \<Rightarrow> bool \<times> string" where
  "split_sign s =
     (case s of [] \<Rightarrow> (False, [])
      | c # cs \<Rightarrow> if c = CHR ''-'' then (True, cs) else if c = CHR ''+'' then (False, cs) else (False, c # cs))"

definition scan_int :: "string \<Rightarrow> int option" where
  "scan_int s =
     (let (neg, t) = split_sign (dropWhile is_space s); ds = takeWhile is_digit t
      in if ds = [] then None
         else Some (if neg then - int (digits_val ds) else int (digits_val ds)))"

definition stoi :: "string \<Rightarrow> int jres" where
  "stoi s =
     (case scan_int s of
        None \<Rightarrow> Exc (StdError ''stoi'')
      | Some i \<Rightarrow> if - (2 ^ 31) \<le> i \<and> i < 2 ^ 31 then Val i else Exc (StdError ''stoi''))"

text \<open>\<open>strtoul\<close> negates a number with a minus sign modulo \<open>2\<^sup>6\<^sup>4\<close>.\<close>

definition stoul :: "string \<Rightarrow> nat jres" where
  "stoul s =
     (case scan_int s of
        None \<Rightarrow> Exc (StdError ''stoul'')
      | Some i \<Rightarrow> if \<bar>i\<bar> < 2 ^ 64 then Val (wrap_u64 i) else Exc (StdError ''stoul''))"

text \<open>
  \<open>stof\<close> on decimal text: digits, a fraction, an exponent. (Hexadecimal text, infinities and
  NaN are not read; no column of the programs has the type \<open>DOUBLE\<close>.)
\<close>

definition scan_decimal :: "string \<Rightarrow> (int \<times> int) option" where
  "scan_decimal s =
     (let (neg, t) = split_sign (dropWhile is_space s);
          ds = takeWhile is_digit t; t1 = dropWhile is_digit t;
          fs = (if t1 \<noteq> [] \<and> hd t1 = CHR ''.'' then takeWhile is_digit (tl t1) else []);
          t2 = (if t1 \<noteq> [] \<and> hd t1 = CHR ''.'' then dropWhile is_digit (tl t1) else t1);
          e = (if t2 \<noteq> [] \<and> (hd t2 = CHR ''e'' \<or> hd t2 = CHR ''E'')
               then (let (eneg, t3) = split_sign (tl t2); es = takeWhile is_digit t3
                     in if eneg then - int (digits_val es) else int (digits_val es)) else 0);
          m = int (digits_val (ds @ fs)) * (if neg then - 1 else 1)
      in if ds = [] \<and> fs = [] then None
         else (let k = e - int (length fs) in Some (m * 10 ^ nat k, 10 ^ nat (- k))))"

definition stof :: "string \<Rightarrow> dbl jres" where
  "stof s = (case scan_decimal s of
               None \<Rightarrow> Exc (StdError ''stof'')
             | Some (p, q) \<Rightarrow> Val (float_of_frac p q))"

lemma takeWhile_digits_append:
  "list_all is_digit ds \<Longrightarrow> takeWhile is_digit ds = ds"
  by (induction ds) auto

lemma is_digit_not_space: "is_digit c \<Longrightarrow> \<not> is_space c"
  by (auto simp: is_digit_def is_space_def)

lemma scan_int_nat_to_string [simp]: "scan_int (nat_to_string n) = Some (int n)"
proof -
  obtain c cs where s: "nat_to_string n = c # cs" by (cases "nat_to_string n") auto
  have ds: "list_all is_digit (c # cs)" using nat_to_string_digits [of n] by (simp add: s)
  then have c: "is_digit c" by simp
  then have "c \<noteq> CHR ''-''" "c \<noteq> CHR ''+''" by (auto simp: is_digit_def)
  moreover have "dropWhile is_space (c # cs) = c # cs" using c is_digit_not_space by simp
  ultimately show ?thesis
    using takeWhile_digits_append [OF ds] digits_val_nat_to_string [of n]
    unfolding s scan_int_def split_sign_def by simp
qed

lemma stoi_nat_to_string: "n < 2 ^ 31 \<Longrightarrow> stoi (nat_to_string n) = Val (int n)"
  by (simp add: stoi_def)

subsection \<open>The client\<close>

datatype data_type = T_INT | T_DOUBLE | T_STRING

text \<open>\<open>mysql_real_query(\<dots>, sql.c_str(), strlen(sql.c_str()))\<close> sends the text up to the first NUL.\<close>

definition c_str :: "string \<Rightarrow> string" where
  "c_str s = takeWhile (\<lambda>c. c \<noteq> CHR 0x00) s"

definition open_db :: "'x env_scheme \<Rightarrow> json \<Rightarrow> ('a world_scheme, exn, bool) prog" where
  "open_db E conf =
     bindp (lift (key_const conf ''url'')) (\<lambda>url. thenp (lift (get_string url))
    (bindp (lift (key_const conf ''user'')) (\<lambda>user. thenp (lift (get_string user))
    (bindp (lift (key_const conf ''pass'')) (\<lambda>pass. thenp (lift (get_string pass))
    (bindp (lift (key_const conf ''port'')) (\<lambda>port. thenp (lift (get_int port))
    (bindp (lift (key_const conf ''db'')) (\<lambda>db. thenp (lift (get_string db))
    (gets (\<lambda>w. mysql_connects E (db_log w))))))))))))"

definition convert_cell :: "data_type \<Rightarrow> string \<Rightarrow> json jres" where
  "convert_cell t s =
     (case t of
        T_INT \<Rightarrow> map_outcome id JInt (stoi s)
      | T_DOUBLE \<Rightarrow> map_outcome id JFloat (stof s)
      | T_STRING \<Rightarrow> Val (JStr s))"

text \<open>
  One row: a column past the end of the row, or a NULL cell, is undefined behaviour
  (\<open>std::string\<close> from a null pointer).
\<close>

fun convert_row :: "data_type list \<Rightarrow> string option list \<Rightarrow> json list jres" where
  "convert_row [] cells = Val []"
| "convert_row (t # ts) [] = Fault UndefinedBehaviour"
| "convert_row (t # ts) (None # cells) = Fault UndefinedBehaviour"
| "convert_row (t # ts) (Some s # cells) =
     (case convert_cell t s of
        Val j \<Rightarrow> map_outcome id ((#) j) (convert_row ts cells)
      | Exc e \<Rightarrow> Exc e
      | Fault k \<Rightarrow> Fault k)"

text \<open>\<open>getData\<close> appends the converted rows to the JSON value it is given and says whether it could.\<close>

definition get_data ::
  "'x env_scheme \<Rightarrow> string \<Rightarrow> data_type list \<Rightarrow> json \<Rightarrow> ('a world_scheme, exn, bool \<times> json) prog" where
  "get_data E sql cols data =
     bindp (gets db_log) (\<lambda>lg.
       case mysql_query E lg (c_str sql) of
         SqlError n \<Rightarrow> ret (False, data)
       | Rows rows \<Rightarrow>
           bindp (foreach rows data (\<lambda>acc row.
                    bindp (lift (convert_row cols row)) (\<lambda>js.
                    bindp (lift (push_back acc (JArr js))) (\<lambda>acc'. ret (Continue acc')))))
                 (\<lambda>acc. ret (True, acc)))"

text \<open>\<open>refreshDB\<close>: error 1062 (duplicate entry) counts as success. The monitor drops the result.\<close>

definition refresh_db :: "'x env_scheme \<Rightarrow> string \<Rightarrow> ('a world_scheme, exn, bool) prog" where
  "refresh_db E sql =
     bindp (gets db_log) (\<lambda>lg.
     thenp (modify (db_log_update (\<lambda>l. l @ [c_str sql])))
     (case mysql_query E lg (c_str sql) of
        SqlError n \<Rightarrow> ret (n = 1062)
      | Rows _ \<Rightarrow> ret True))"

definition batch_refresh_db :: "'x env_scheme \<Rightarrow> string list \<Rightarrow> ('a world_scheme, exn, unit) prog" where
  "batch_refresh_db E sqls =
     thenp (modify (db_log_update (\<lambda>l. l @ [''START TRANSACTION''])))
    (thenp (forall_do sqls (\<lambda>sql. thenp (refresh_db E sql) (ret ())))
           (modify (db_log_update (\<lambda>l. l @ [''COMMIT'']))))"

subsection \<open>What both programs write and read\<close>

text \<open>The text of a list of values, a tab, and a row of the table \<open>node\<close>.\<close>

definition quoted :: "string \<Rightarrow> string" where
  "quoted s = [CHR 0x27] @ s @ [CHR 0x27]"

definition sql_values :: "string list \<Rightarrow> string" where
  "sql_values fs =
     '' VALUES ('' @ concat (case fs of [] \<Rightarrow> [] | f # fs' \<Rightarrow> quoted f # map (\<lambda>g. '', '' @ quoted g) fs') @ '');''"

definition tab :: string where "tab = [CHR 0x09]"

record node_info =
  node_id :: int
  node_url :: string
  wallet_url :: string
  node_auth :: string
  wallet_auth :: string

subsection \<open>What the client guarantees\<close>

lemma get_data_state [simp]: "fst (get_data E sql cols data w) = w"
proof -
  have *: "fst (foreach rows acc (\<lambda>acc row.
             bindp (lift (convert_row cols row)) (\<lambda>js.
             bindp (lift (push_back acc (JArr js))) (\<lambda>acc'. ret (Continue acc')))) w) = w"
    for rows :: "string option list list" and acc
  proof (induction rows arbitrary: acc)
    case Nil
    show ?case by (simp add: prog_simps)
  next
    case (Cons r rows)
    show ?case
      using Cons.IH by (auto simp: bindp_def prog_simps split: outcome.splits prod.splits)
  qed
  show ?thesis
    using * by (auto simp: get_data_def bindp_def prog_simps split: sql_reply.splits outcome.splits prod.splits)
       (metis fst_conv)+
qed

lemma refresh_db_apply:
  "refresh_db E sql w =
     (w\<lparr>db_log := db_log w @ [c_str sql]\<rparr>,
      Val (case mysql_query E (db_log w) (c_str sql) of SqlError n \<Rightarrow> n = 1062 | Rows _ \<Rightarrow> True))"
  by (simp add: refresh_db_def bindp_def prog_simps split: sql_reply.split)

lemma forall_do_refresh_db:
  "forall_do sqls (\<lambda>sql. thenp (refresh_db E sql) (ret ())) w =
     (w\<lparr>db_log := db_log w @ map c_str sqls\<rparr>, Val ())"
  by (induction sqls arbitrary: w) (simp_all add: bindp_def refresh_db_apply prog_simps)

text \<open>A batch sends its statements in order, between the two transaction statements, whatever fails.\<close>

lemma batch_refresh_db_apply:
  "batch_refresh_db E sqls w =
     (w\<lparr>db_log := db_log w @ [''START TRANSACTION''] @ map c_str sqls @ [''COMMIT'']\<rparr>, Val ())"
  by (simp add: batch_refresh_db_def bindp_def forall_do_refresh_db prog_simps)

end
