(* ===== verification/SyncerState.thy ===== *)
theory SyncerState
  imports DbMysql
begin

section \<open>The monitor: state, RPC client, callbacks\<close>

text \<open>
  The state of \<open>Syncer\<close> (\<open>monitor/include/syncer.h\<close>, \<open>monitor/src/syncer.cpp\<close>) with the
  file-level maps of \<open>syncer.cpp\<close>, the node client \<open>Rpc\<close> (\<open>monitor/src/rpc.cpp\<close>), the SQL
  texts the scanners produce, and the operations every scanner uses: the queue of pending
  statements, the callback to the exchange with its retry list, and the last scanned height.
\<close>

subsection \<open>State\<close>

record syncer = world +
  map_coinid_node :: "(int, node_info) smap"
  vect_sql :: "string list"
  callback_url :: string
  eos_base_address :: string
  xrp_base_address :: string
  address_id_btc :: "(string, int) smap"
  address_id_eth :: "(string, int) smap"
  address_id_omni_usdt :: "(string, int) smap"
  ethcontract_tokenid :: "(string, int) smap"
  txid_address :: "(string, string) smap"
  json_callback :: "json list"
  timers :: "(string \<times> nat) list"

text \<open>The big integers of the Ethereum scanner are GMP's; its text conversions are parameters.\<close>

record monitor_env = env +
  mpz_set_str :: "string \<Rightarrow> int option"
  mpz_get_str :: "int \<Rightarrow> string"

type_synonym 'a syncer_prog = "(syncer, exn, 'a) prog"

subsection \<open>The node client\<close>

datatype rpc_error = RPC_OK | RPC_NODEDOWN | RPC_INTERNAL

text \<open>
  \<open>CurlPost\<close>: the post goes out; without a reply the response variable keeps its value; a
  reply is tested with \<open>json_response["error"]\<close>, which inserts the key when it is missing.
\<close>

definition call_rpc ::
  "'x env_scheme \<Rightarrow> string \<Rightarrow> string \<Rightarrow> json \<Rightarrow> json \<Rightarrow> ('a world_scheme, exn, rpc_error \<times> json) prog" where
  "call_rpc E url auth json_post json_response =
     bindp (gets posts) (\<lambda>ps.
     thenp (modify (posts_update (\<lambda>ps. ps @ [(url, auth, json_post)])))
     (case http_answer E ps (url, auth, json_post) of
        NoReply \<Rightarrow> ret (RPC_NODEDOWN, json_response)
      | BadBody msg \<Rightarrow> throw (ParseError msg)
      | Body j \<Rightarrow>
          bindp (lift (touch_key j ''error'')) (\<lambda>j'.
          bindp (field j' ''error'') (\<lambda>err.
          if \<not> is_null err then ret (RPC_INTERNAL, j') else ret (RPC_OK, j')))))"

definition struct_rpc :: "string \<Rightarrow> json \<Rightarrow> json \<Rightarrow> ('s, exn, json) prog" where
  "struct_rpc method json_params json_post =
     bindp (lift (set_key json_post ''jsonrpc'' (JStr ''1.0''))) (\<lambda>p1.
     bindp (lift (set_key p1 ''id'' (JStr ''curltest''))) (\<lambda>p2.
     bindp (lift (set_key p2 ''method'' (JStr method))) (\<lambda>p3.
     lift (set_key p3 ''params'' json_params))))"

text \<open>
  The sequence the scanners repeat: \<open>json_post.clear()\<close>, \<open>structRpc\<close>, \<open>callRpc\<close> on a node. What
  \<open>json_response\<close> held before is never read after a call that failed, so it starts as null.
\<close>

definition node_call :: "'x env_scheme \<Rightarrow> node_info \<Rightarrow> string \<Rightarrow> json \<Rightarrow> (rpc_error \<times> json) syncer_prog" where
  "node_call E node method json_params =
     bindp (struct_rpc method json_params (JObj [])) (\<lambda>json_post.
     call_rpc E (node_url node) (node_auth node) json_post JNull)"

subsection \<open>SQL texts\<close>

definition sql_txutxo :: "string \<Rightarrow> int \<Rightarrow> string \<Rightarrow> string \<Rightarrow> nat \<Rightarrow> string" where
  "sql_txutxo txid n address amount flag =
     ''INSERT INTO `txutxo` (`txid`, `n`, `address`, `amount`, `flag`)''
       @ sql_values [txid, int_to_string n, address, amount, nat_to_string flag]"

definition sql_block :: "int \<Rightarrow> string \<Rightarrow> nat \<Rightarrow> string" where
  "sql_block coin_id hash height =
     ''INSERT INTO `block` (`coin_id`, `hash`, `height`)''
       @ sql_values [int_to_string coin_id, hash, nat_to_string height]"

definition sql_txaccount ::
  "int \<Rightarrow> int \<Rightarrow> string \<Rightarrow> string \<Rightarrow> string \<Rightarrow> string \<Rightarrow> string \<Rightarrow> string" where
  "sql_txaccount coin_id token_id txid vin vout amount fee =
     ''INSERT INTO `txaccount` (`coin_id`, `token_id`, `txid`, `vin`, `vout`, `amount`, `fee`)''
       @ sql_values [int_to_string coin_id, int_to_string token_id, txid, vin, vout, amount, fee]"

subsection \<open>The queue of statements\<close>

definition push_sql :: "string \<Rightarrow> unit syncer_prog" where
  "push_sql sql = modify (vect_sql_update (\<lambda>q. q @ [sql]))"

definition syncer_refresh_db :: "'x env_scheme \<Rightarrow> unit syncer_prog" where
  "syncer_refresh_db E =
     bindp (gets vect_sql) (\<lambda>q.
     if 0 < length q
     then thenp (batch_refresh_db E q) (modify (vect_sql_update (\<lambda>_. [])))
     else ret ())"

lemma syncer_refresh_db_apply:
  "syncer_refresh_db E w =
     (if vect_sql w = [] then w
      else w\<lparr>db_log := db_log w @ [''START TRANSACTION''] @ map c_str (vect_sql w) @ [''COMMIT''],
             vect_sql := []\<rparr>, Val ())"
  by (simp add: syncer_refresh_db_def bindp_def batch_refresh_db_apply prog_simps)

subsection \<open>Callbacks\<close>

definition callback_transaction :: "'x env_scheme \<Rightarrow> json \<Rightarrow> unit syncer_prog" where
  "callback_transaction E json_params =
     bindp (gets callback_url) (\<lambda>url.
     bindp (call_rpc E url '''' json_params JNull) (\<lambda>(ret_type, json_response).
     bindp (field_int json_response ''code'') (\<lambda>code.
     if code = 1 then modify (json_callback_update (\<lambda>q. q @ [json_params])) else ret ())))"

text \<open>\<open>reCallback\<close> posts every stored callback again and keeps those refused once more.\<close>

definition re_callback :: "'x env_scheme \<Rightarrow> unit syncer_prog" where
  "re_callback E =
     bindp (gets json_callback) (\<lambda>stored.
     bindp (foreach stored [] (\<lambda>kept c.
              bindp (gets callback_url) (\<lambda>url.
              bindp (call_rpc E url '''' c JNull) (\<lambda>(ret_type, json_response).
              bindp (field_int json_response ''code'') (\<lambda>code.
              ret (Continue (if code = 1 then kept @ [c] else kept))))))) (\<lambda>kept.
     modify (json_callback_update (\<lambda>_. kept))))"

subsection \<open>The last scanned height\<close>

definition sql_current_height :: "string \<Rightarrow> string" where
  "sql_current_height coin =
     ''SELECT coin_id, MAX(height) FROM block WHERE coin_id = (SELECT coin_id FROM coin WHERE short_name = ''
       @ quoted coin @ '') GROUP BY coin_id;''"

definition get_current_height :: "'x env_scheme \<Rightarrow> string \<Rightarrow> (int \<times> nat) option syncer_prog" where
  "get_current_height E coin =
     bindp (get_data E (sql_current_height coin) [T_INT, T_INT] JNull) (\<lambda>(_, json_data).
     if 0 < jsize json_data
     then bindp (cell_int json_data 0 0) (\<lambda>coin_id.
          bindp (cell_u64 json_data 0 1) (\<lambda>height. ret (Some (coin_id, height))))
     else ret None)"

text \<open>
  The block loop \<open>for (uint64_t i = pre_height + 1; i <= height; i++)\<close>, the start modulo
  \<open>2\<^sup>6\<^sup>4\<close>. (At the height \<open>2\<^sup>6\<^sup>4 - 1\<close> the C++ loop would not end; no chain gets there.)
\<close>

definition heights :: "nat \<Rightarrow> nat \<Rightarrow> nat list" where
  "heights pre_height height = [(pre_height + 1) mod 2 ^ 64 ..< height + 1]"

text \<open>The frame all scanners share: the last height and the node of the coin, or no scan.\<close>

definition with_node ::
  "'x env_scheme \<Rightarrow> string \<Rightarrow> (int \<Rightarrow> node_info \<Rightarrow> nat \<Rightarrow> unit syncer_prog) \<Rightarrow> unit syncer_prog" where
  "with_node E coin scan =
     bindp (get_current_height E coin) (\<lambda>h.
       case h of
         None \<Rightarrow> ret ()
       | Some (coin_id, pre_height) \<Rightarrow>
           bindp (gets map_coinid_node) (\<lambda>m.
             case map_of m coin_id of
               None \<Rightarrow> ret ()
             | Some node \<Rightarrow> scan coin_id node pre_height))"

text \<open>The checkpoint of the scanners: the block row and the queue go to the database.\<close>

definition checkpoint :: "'x env_scheme \<Rightarrow> int \<Rightarrow> string \<Rightarrow> nat \<Rightarrow> unit syncer_prog" where
  "checkpoint E coin_id hash i = thenp (push_sql (sql_block coin_id hash i)) (syncer_refresh_db E)"

end
