(* ===== verification/ScanBtc.thy ===== *)
theory ScanBtc
  imports SyncerState
begin

section \<open>The Bitcoin scanner\<close>

text \<open>
  \<open>Syncer::scanBTC\<close>, one definition per loop level: the inputs of a transaction, an output
  address, an output, a transaction, a block, the scan.
\<close>

text \<open>Whether one input spends a transaction recorded in \<open>s_txid_address\<close> (the loop stops at the first).\<close>

definition btc_vin :: "json \<Rightarrow> bool syncer_prog" where
  "btc_vin json_vins =
     foreach [0..<jsize json_vins] False (\<lambda>vin k.
       bindp (lift (at_idx json_vins k)) (\<lambda>json_vin.
       if has_field json_vin ''txid''
       then bindp (field_string json_vin ''txid'') (\<lambda>pre_txid.
            bindp (gets txid_address) (\<lambda>m.
            if has_key m pre_txid then ret (Break True) else ret (Continue vin)))
       else ret (Continue vin)))"

definition btc_callback :: "string \<Rightarrow> int \<Rightarrow> string \<Rightarrow> string \<Rightarrow> json" where
  "btc_callback value number address txid =
     mk_obj [(''balance'', JStr value), (''coinCode'', JStr ''BTC''), (''n'', JInt number),
             (''status'', JInt 1), (''address'', JStr address), (''txid'', JStr txid),
             (''type'', JBool False)]"

text \<open>
  One address of an output. An own address is recorded with the index of the address within
  the output (the variable \<open>n\<close> of the address loop), a foreign one with the output's number.
\<close>

definition btc_address ::
  "'x env_scheme \<Rightarrow> string \<Rightarrow> bool \<Rightarrow> int \<Rightarrow> string \<Rightarrow> nat \<Rightarrow> string \<Rightarrow> unit syncer_prog" where
  "btc_address E txid vin number value n address =
     bindp (gets address_id_btc) (\<lambda>own.
     if has_key own address then
       thenp (if vin then push_sql (sql_txutxo txid (int n) address value 2)
              else thenp (modify (txid_address_update (\<lambda>m. AList.update txid address m)))
                         (push_sql (sql_txutxo txid (int n) address value 0)))
             (callback_transaction E (btc_callback value number address txid))
     else if vin then
       thenp (push_sql (sql_txutxo txid number address value 1))
             (callback_transaction E (btc_callback value number address txid))
     else ret ())"

definition btc_value :: "dbl \<Rightarrow> string" where
  "btc_value v = dbl_to_string (dmul (dbl_of_int 10000000) v)"

definition btc_vout :: "'x env_scheme \<Rightarrow> string \<Rightarrow> bool \<Rightarrow> json \<Rightarrow> unit syncer_prog" where
  "btc_vout E txid vin json_vout =
     bindp (field json_vout ''scriptPubKey'') (\<lambda>script.
     if has_field script ''addresses'' then
       bindp (field_int json_vout ''n'') (\<lambda>number.
       bindp (field_double json_vout ''value'') (\<lambda>v.
       bindp (field script ''addresses'') (\<lambda>addresses.
       forall_do [0..<jsize addresses] (\<lambda>n.
         bindp (lift (at_idx addresses n)) (\<lambda>a.
         bindp (lift (get_string a)) (\<lambda>address.
         btc_address E txid vin number (btc_value v) n address))))))
     else ret ())"

text \<open>One transaction; the result is the variable \<open>ok\<close>.\<close>

definition btc_tx :: "'x env_scheme \<Rightarrow> node_info \<Rightarrow> string \<Rightarrow> bool syncer_prog" where
  "btc_tx E node txid =
     bindp (node_call E node ''getrawtransaction'' (JArr [JStr txid, JBool True])) (\<lambda>(rc, json_response).
     if rc \<noteq> RPC_OK then ret False else
     bindp (field json_response ''result'') (\<lambda>result.
     bindp (field result ''vin'') (\<lambda>json_vins.
     bindp (field result ''vout'') (\<lambda>json_vouts.
     bindp (btc_vin json_vins) (\<lambda>vin.
     thenp (forall_do [0..<jsize json_vouts] (\<lambda>k.
              bindp (lift (at_idx json_vouts k)) (\<lambda>json_vout. btc_vout E txid vin json_vout)))
           (ret True))))))"

definition btc_block :: "'x env_scheme \<Rightarrow> int \<Rightarrow> node_info \<Rightarrow> nat \<Rightarrow> nat \<Rightarrow> unit ctl syncer_prog" where
  "btc_block E coin_id node height i =
     bindp (node_call E node ''getblockhash'' (JArr [JUint i])) (\<lambda>(rc, json_response).
     if rc \<noteq> RPC_OK then ret (Break ()) else
     bindp (field_string json_response ''result'') (\<lambda>block_hash.
     bindp (node_call E node ''getblock'' (JArr [JStr block_hash])) (\<lambda>(rc, json_response).
     if rc \<noteq> RPC_OK then ret (Break ()) else
     bindp (field json_response ''result'') (\<lambda>result.
     bindp (field result ''tx'') (\<lambda>json_txs.
     bindp (foreach [0..<jsize json_txs] True (\<lambda>ok j.
              bindp (lift (at_idx json_txs j)) (\<lambda>t.
              bindp (lift (get_string t)) (\<lambda>txid.
              bindp (btc_tx E node txid) (\<lambda>ok'.
              ret (if ok' then Continue True else Break False)))))) (\<lambda>ok.
     if \<not> ok then ret (Break ())
     else if i mod 100 = 0 \<or> i = height
     then thenp (checkpoint E coin_id block_hash i) (ret (Continue ()))
     else ret (Continue ())))))))"

definition scan_btc :: "'x env_scheme \<Rightarrow> unit syncer_prog" where
  "scan_btc E =
     with_node E ''BTC'' (\<lambda>coin_id node pre_height.
       bindp (node_call E node ''getblockcount'' (JArr [])) (\<lambda>(rc, json_response).
       if rc \<noteq> RPC_OK then ret () else
       bindp (field_u64 json_response ''result'') (\<lambda>height.
       foreach (heights pre_height height) () (\<lambda>_. btc_block E coin_id node height))))"

end
