(* ===== verification/ScanEth.thy ===== *)
theory ScanEth
  imports SyncerState
begin

section \<open>The Ethereum scanner\<close>

text \<open>
  \<open>Syncer::scanETH\<close>: a token transfer, a native transfer, a transaction, a block, the scan.
  Block numbers go through one \<open>std::stringstream\<close>, in hexadecimal; the model carries the
  stream's unread text. Amounts are GMP integers (\<open>mpz_set_str\<close>, \<open>mpz_get_str\<close> of the
  environment).
\<close>

subsection \<open>Hexadecimal text and the string stream\<close>

definition is_hex_digit :: "char \<Rightarrow> bool" where
  "is_hex_digit c \<longleftrightarrow>
     is_digit c \<or> (97 \<le> (of_char c :: nat) \<and> (of_char c :: nat) \<le> 102)
                \<or> (65 \<le> (of_char c :: nat) \<and> (of_char c :: nat) \<le> 70)"

definition hex_digit_val :: "char \<Rightarrow> nat" where
  "hex_digit_val c =
     (if is_digit c then of_char c - 48
      else if 97 \<le> (of_char c :: nat) then of_char c - 87 else of_char c - 55)"

definition hex_val :: "string \<Rightarrow> nat" where
  "hex_val cs = foldl (\<lambda>n c. 16 * n + hex_digit_val c) 0 cs"

definition hex_char :: "nat \<Rightarrow> char" where
  "hex_char d = ''0123456789abcdef'' ! d"

fun nat_to_hex :: "nat \<Rightarrow> string" where
  "nat_to_hex n = (if n < 16 then [hex_char n] else nat_to_hex (n div 16) @ [hex_char (n mod 16)])"

declare nat_to_hex.simps [simp del]

text \<open>\<open>ss >> std::hex >> height\<close>: the value read and the text left in the stream.\<close>

definition read_hex :: "string \<Rightarrow> nat \<times> string" where
  "read_hex ss =
     (let (neg, t) = split_sign (dropWhile is_space ss);
          t' = (if take 2 t = ''0x'' \<or> take 2 t = ''0X'' then drop 2 t else t);
          ds = takeWhile is_hex_digit t'; rest = dropWhile is_hex_digit t'; v = hex_val ds
      in if ds = [] then (0, rest)
         else if 2 ^ 64 \<le> v then (2 ^ 64 - 1, rest)
         else if neg then (wrap_u64 (- int v), rest) else (v, rest))"

text \<open>\<open>ss.clear(); ss << std::hex << i; ss >> hex_height\<close>\<close>

definition write_read_word :: "string \<Rightarrow> nat \<Rightarrow> string \<times> string" where
  "write_read_word ss i =
     (let t = dropWhile is_space (ss @ nat_to_hex i)
      in (takeWhile (\<lambda>c. \<not> is_space c) t, dropWhile (\<lambda>c. \<not> is_space c) t))"

subsection \<open>Who takes part\<close>

text \<open>The chain \<open>if \<dots> else if \<dots> else if\<close> of a token transfer.\<close>

definition eth_flag_token :: "(string, int) smap \<Rightarrow> string \<Rightarrow> string \<Rightarrow> (nat \<times> string) option" where
  "eth_flag_token own from to =
     (if \<not> has_key own from \<and> \<not> has_key own to then None
      else if has_key own from \<and> has_key own to then Some (2, from)
      else if has_key own to then Some (0, to)
      else Some (1, from))"

text \<open>The native transfer: its second \<open>if\<close> is no \<open>else if\<close>, it runs after the first.\<close>

definition eth_flag_native :: "(string, int) smap \<Rightarrow> string \<Rightarrow> string \<Rightarrow> (nat \<times> string) option" where
  "eth_flag_native own from to =
     (if \<not> has_key own from \<and> \<not> has_key own to then None
      else (let first = (if has_key own from \<and> has_key own to then Some (2, from) else None)
            in if has_key own to then Some (0, to)
               else if has_key own from then Some (1, from)
               else first))"

subsection \<open>Transactions\<close>

definition eth_callback :: "string \<Rightarrow> string \<Rightarrow> string \<Rightarrow> string \<Rightarrow> bool \<Rightarrow> json" where
  "eth_callback coin value address txid is_token =
     mk_obj [(''balance'', JStr value), (''coinCode'', JStr coin), (''n'', JInt 0),
             (''status'', JInt 1), (''address'', JStr address), (''txid'', JStr txid),
             (''type'', JBool is_token)]"

text \<open>\<open>mpz_class = std::string\<close> throws when the text is no number.\<close>

definition to_mpz :: "'x monitor_env_scheme \<Rightarrow> string \<Rightarrow> (syncer, exn, int) prog" where
  "to_mpz E s = (case mpz_set_str E s of None \<Rightarrow> throw (StdError ''mpz_set_str'') | Some i \<Rightarrow> ret i)"

definition eth_fee :: "'x monitor_env_scheme \<Rightarrow> json \<Rightarrow> int syncer_prog" where
  "eth_fee E json_tran =
     bindp (field_string json_tran ''gas'') (\<lambda>gas.
     bindp (field_string json_tran ''gasPrice'') (\<lambda>gas_price.
     bindp (to_mpz E gas) (\<lambda>gas_m.
     bindp (to_mpz E gas_price) (\<lambda>gas_price_m. ret (gas_m * gas_price_m)))))"

text \<open>Recording a transfer: the callback first, then the two statements.\<close>

definition eth_record ::
  "'x monitor_env_scheme \<Rightarrow> int \<Rightarrow> int \<Rightarrow> string \<Rightarrow> bool \<Rightarrow> string \<Rightarrow> string \<Rightarrow> string \<Rightarrow> string \<Rightarrow> int \<Rightarrow> nat \<Rightarrow> string \<Rightarrow> unit syncer_prog" where
  "eth_record E coin_id token_id coin is_token txid from to value fee flag address =
     thenp (callback_transaction E (eth_callback coin value address txid is_token))
    (thenp (push_sql (sql_txaccount coin_id token_id txid from to value (mpz_get_str E fee)))
           (push_sql (sql_txutxo txid 0 address value flag)))"

text \<open>The receiver and the amount taken from the call data of \<open>transfer(address, uint256)\<close>.\<close>

definition erc20_receiver :: "string \<Rightarrow> string" where
  "erc20_receiver input = toupper (''0x'' @ substr input 34 40)"

definition erc20_amount :: "string \<Rightarrow> string" where
  "erc20_amount input = ''0x'' @ substr input (length input - 41) 40"

definition eth_token_tx :: "'x monitor_env_scheme \<Rightarrow> int \<Rightarrow> json \<Rightarrow> string \<Rightarrow> string \<Rightarrow> unit syncer_prog" where
  "eth_token_tx E coin_id json_tran from txid =
     bindp (field_string json_tran ''to'') (\<lambda>to0.
     let contract = toupper to0 in
     bindp (gets ethcontract_tokenid) (\<lambda>contracts.
     case map_of contracts contract of
       None \<Rightarrow> ret ()
     | Some token_id \<Rightarrow>
         bindp (eth_fee E json_tran) (\<lambda>fee.
         bindp (field_string json_tran ''input'') (\<lambda>input.
         if substr input 0 10 \<noteq> ''0xa9059cbb'' \<or> length input < 135 then ret () else
         let to = erc20_receiver input in
         bindp (gets address_id_eth) (\<lambda>own.
         case eth_flag_token own from to of
           None \<Rightarrow> ret ()
         | Some (flag, address) \<Rightarrow>
             bindp (to_mpz E (erc20_amount input)) (\<lambda>amount.
             eth_record E coin_id token_id ''ERC20_USDT'' True txid from to
               (mpz_get_str E amount) fee flag address))))))"

definition eth_native_tx :: "'x monitor_env_scheme \<Rightarrow> int \<Rightarrow> json \<Rightarrow> string \<Rightarrow> string \<Rightarrow> string \<Rightarrow> unit syncer_prog" where
  "eth_native_tx E coin_id json_tran from txid value =
     bindp (field_string json_tran ''to'') (\<lambda>to0.
     let to = toupper to0 in
     bindp (gets address_id_eth) (\<lambda>own.
     case eth_flag_native own from to of
       None \<Rightarrow> ret ()
     | Some (flag, address) \<Rightarrow>
         bindp (eth_fee E json_tran) (\<lambda>fee.
         bindp (to_mpz E value) (\<lambda>amount.
         eth_record E coin_id 0 ''ETH'' False txid from to (mpz_get_str E amount) fee flag address))))"

text \<open>One transaction of a block; the value carried is the variable \<open>txid\<close>.\<close>

definition eth_tx :: "'x monitor_env_scheme \<Rightarrow> int \<Rightarrow> string \<Rightarrow> json \<Rightarrow> string syncer_prog" where
  "eth_tx E coin_id txid json_tran =
     bindp (field json_tran ''to'') (\<lambda>t.
     if is_null t then ret txid else
     bindp (field json_tran ''from'') (\<lambda>f.
     if is_null f then ret txid else
     bindp (field_string json_tran ''value'') (\<lambda>value.
     bindp (field_string json_tran ''from'') (\<lambda>from0.
     bindp (field_string json_tran ''hash'') (\<lambda>txid.
     let from = toupper from0 in
     thenp (if value = ''0x0'' then eth_token_tx E coin_id json_tran from txid
            else eth_native_tx E coin_id json_tran from txid value)
           (ret txid))))))"

subsection \<open>Blocks\<close>

definition eth_block ::
  "'x monitor_env_scheme \<Rightarrow> int \<Rightarrow> node_info \<Rightarrow> nat \<Rightarrow> string \<Rightarrow> nat \<Rightarrow> string ctl syncer_prog" where
  "eth_block E coin_id node height ss i =
     (let (hex_height, ss') = write_read_word ss i in
      bindp (node_call E node ''eth_getBlockByNumber''
               (JArr [JStr (''0x'' @ hex_height), JBool True])) (\<lambda>(rc, json_response).
      if rc \<noteq> RPC_OK then ret (Break ss') else
      if \<not> has_field json_response ''result'' then ret (Continue ss') else
      bindp (field json_response ''result'') (\<lambda>result.
      bindp (field result ''transactions'') (\<lambda>json_trans.
      bindp (foreach [0..<jsize json_trans] '''' (\<lambda>txid j.
               bindp (lift (at_idx json_trans j)) (\<lambda>json_tran.
               bindp (eth_tx E coin_id txid json_tran) (\<lambda>txid. ret (Continue txid))))) (\<lambda>txid.
      if i mod 500 = 0 \<and> i = height
      then thenp (checkpoint E coin_id txid i) (ret (Continue ss'))
      else ret (Continue ss'))))))"

definition scan_eth :: "'x monitor_env_scheme \<Rightarrow> unit syncer_prog" where
  "scan_eth E =
     with_node E ''ETH'' (\<lambda>coin_id node pre_height.
       bindp (node_call E node ''eth_getBlockByNumber''
                (JArr [JStr ''pending'', JBool True])) (\<lambda>(rc, json_response).
       if rc \<noteq> RPC_OK then ret () else
       if \<not> has_field json_response ''result'' then ret () else
       bindp (field json_response ''result'') (\<lambda>result.
       bindp (field_string result ''number'') (\<lambda>hex_number.
       let (height, ss) = read_hex hex_number in
       thenp (foreach (heights pre_height height) ss (eth_block E coin_id node height)) (ret ())))))"

end
