(* ===== verification/ScanXrp.thy ===== *)
theory ScanXrp
  imports SyncerState
begin

section \<open>The XRP scanner\<close>

text \<open>\<open>Syncer::scanXRP\<close>: a transaction, a ledger, the scan.\<close>

definition xrp_callback :: "string \<Rightarrow> string \<Rightarrow> string \<Rightarrow> json" where
  "xrp_callback amount base hash =
     mk_obj [(''balance'', JStr amount), (''coinCode'', JStr ''XRP''), (''n'', JInt 0),
             (''status'', JInt 1), (''toAddress'', JStr base), (''txid'', JStr hash),
             (''type'', JBool False)]"

text \<open>
  One transaction of a ledger. The value carried through the loop is the variable \<open>hash\<close>;
  \<open>Continue\<close> and \<open>Break\<close> are the \<open>continue\<close> and \<open>break\<close> of the loop.
\<close>

definition xrp_tx :: "'x env_scheme \<Rightarrow> node_info \<Rightarrow> string \<Rightarrow> string \<Rightarrow> string ctl syncer_prog" where
  "xrp_tx E node hash tx =
     bindp (node_call E node ''tx''
              (JArr [mk_obj [(''transaction'', JStr tx), (''binary'', JBool False)]])) (\<lambda>(rc, json_response).
     if rc \<noteq> RPC_OK then ret (Break hash) else
     bindp (field json_response ''result'') (\<lambda>result.
     bindp (field_string result ''status'') (\<lambda>status.
     if status \<noteq> ''success'' then ret (Continue hash) else
     bindp (field_bool result ''validated'') (\<lambda>validated.
     if \<not> validated then ret (Continue hash) else
     bindp (field_string result ''TransactionType'') (\<lambda>transaction_type.
     if transaction_type \<noteq> ''Payment'' then ret (Continue hash) else
     bindp (field result ''Amount'') (\<lambda>json_amount.
     if is_object json_amount then ret (Continue hash) else
     bindp (lift (get_string json_amount)) (\<lambda>amount.
     bindp (field_string result ''Account'') (\<lambda>account.
     bindp (field_string result ''Destination'') (\<lambda>destination.
     bindp (field_string result ''hash'') (\<lambda>hash.
     bindp (gets xrp_base_address) (\<lambda>base.
     if base \<noteq> account \<and> base \<noteq> destination then ret (Continue hash) else
     (let flag = (if base = destination then 0 else 1) in
      thenp (push_sql (sql_txutxo hash 0 base amount flag))
     (thenp (callback_transaction E (xrp_callback amount base hash))
            (ret (Continue hash)))))))))))))))"

definition xrp_ledger :: "'x env_scheme \<Rightarrow> int \<Rightarrow> node_info \<Rightarrow> nat \<Rightarrow> nat \<Rightarrow> unit ctl syncer_prog" where
  "xrp_ledger E coin_id node height i =
     bindp (node_call E node ''ledger''
              (JArr [mk_obj [(''ledger_index'', JUint i), (''transactions'', JBool True),
                             (''binary'', JBool True)]])) (\<lambda>(rc, json_response).
     if rc \<noteq> RPC_OK then ret (Break ()) else
     bindp (field json_response ''result'') (\<lambda>result.
     bindp (field_string result ''status'') (\<lambda>status.
     if status \<noteq> ''success'' then ret (Continue ()) else
     bindp (field_bool result ''validated'') (\<lambda>validated.
     if \<not> validated then ret (Continue ()) else
     bindp (field result ''ledger'') (\<lambda>ledger.
     bindp (field ledger ''transactions'') (\<lambda>json_txs.
     bindp (foreach [0..<jsize json_txs] '''' (\<lambda>hash j.
              bindp (lift (at_idx json_txs j)) (\<lambda>t.
              bindp (lift (get_string t)) (\<lambda>tx. xrp_tx E node hash tx)))) (\<lambda>hash.
     if i mod 100 = 0 \<or> i = height
     then thenp (checkpoint E coin_id hash i) (ret (Continue ()))
     else ret (Continue ()))))))))"

definition scan_xrp :: "'x env_scheme \<Rightarrow> unit syncer_prog" where
  "scan_xrp E =
     bindp (gets xrp_base_address) (\<lambda>base.
     if base = '''' then ret () else
     with_node E ''XRP'' (\<lambda>coin_id node pre_height.
       bindp (node_call E node ''ledger''
                (JArr [mk_obj [(''ledger_index'', JStr ''validated'')]])) (\<lambda>(rc, json_response).
       if rc \<noteq> RPC_OK then ret () else
       bindp (field json_response ''result'') (\<lambda>result.
       bindp (field_string result ''status'') (\<lambda>status.
       if status \<noteq> ''success'' then ret () else
       bindp (field_bool result ''validated'') (\<lambda>validated.
       if \<not> validated then ret () else
       bindp (field_u64 result ''ledger_index'') (\<lambda>height.
       foreach (heights pre_height height) () (\<lambda>_. xrp_ledger E coin_id node height))))))))"

end
