(* ===== verification/ScanEos.thy ===== *)
theory ScanEos
  imports SyncerState
begin

section \<open>The EOS scanner\<close>

text \<open>\<open>Syncer::scanEOS\<close>: an action, a transaction, a block, the scan.\<close>

definition eos_callback :: "string \<Rightarrow> string \<Rightarrow> string \<Rightarrow> json" where
  "eos_callback quantity base trx =
     mk_obj [(''balance'', JStr quantity), (''coinCode'', JStr ''EOS''), (''n'', JInt 0),
             (''status'', JInt 1), (''toAddress'', JStr base), (''txid'', JStr trx),
             (''type'', JBool False)]"

text \<open>
  The variable \<open>flag\<close> of an action: assigned when the base address takes part, otherwise left
  uninitialised (\<open>None\<close>).
\<close>

definition eos_flag :: "string \<Rightarrow> string \<Rightarrow> string \<Rightarrow> nat option" where
  "eos_flag base from to = (if base = to then Some 0 else if base = from then Some 1 else None)"

text \<open>One action of a transaction. Printing an uninitialised \<open>flag\<close> is undefined behaviour.\<close>

definition eos_action :: "'x env_scheme \<Rightarrow> string \<Rightarrow> json \<Rightarrow> unit syncer_prog" where
  "eos_action E trx json_action =
     (if \<not> has_field json_action ''data'' then ret () else
      bindp (field json_action ''data'') (\<lambda>json_data.
      if \<not> has_field json_data ''from'' \<and> \<not> has_field json_data ''to'' then ret () else
      bindp (field_string json_data ''from'') (\<lambda>from.
      bindp (field_string json_data ''to'') (\<lambda>to.
      bindp (field_string json_data ''quantity'') (\<lambda>quantity.
      bindp (gets eos_base_address) (\<lambda>base.
      case str_find quantity '' EOS'' of
        None \<Rightarrow> ret ()
      | Some p \<Rightarrow>
          (case eos_flag base from to of
             None \<Rightarrow> fault UndefinedBehaviour
           | Some flag \<Rightarrow>
               thenp (push_sql (sql_txutxo trx 0 base (substr quantity 0 p) flag))
                     (callback_transaction E (eos_callback (substr quantity 0 p) base trx)))))))))"

text \<open>One entry of the block's transaction list; the value carried is the variable \<open>trx\<close>.\<close>

definition eos_error :: "json \<Rightarrow> bool syncer_prog" where
  "eos_error json_response =
     (if has_field json_response ''error''
      then bindp (field json_response ''error'') (\<lambda>e. ret (\<not> jempty e))
      else ret False)"

definition eos_history_url :: "node_info \<Rightarrow> string" where
  "eos_history_url node = ''http://'' @ node_url node @ ''/v1/history/''"

definition eos_chain_url :: "node_info \<Rightarrow> string" where
  "eos_chain_url node = ''http://'' @ node_url node @ ''/v1/chain/''"

definition eos_tx :: "'x env_scheme \<Rightarrow> node_info \<Rightarrow> string \<Rightarrow> json \<Rightarrow> string ctl syncer_prog" where
  "eos_tx E node trx json_transaction =
     (if \<not> has_field json_transaction ''trx'' then ret (Continue trx) else
      bindp (field json_transaction ''trx'') (\<lambda>json_trx.
      if \<not> has_field json_trx ''id'' then ret (Continue trx) else
      bindp (field_string json_trx ''id'') (\<lambda>trx.
      bindp (call_rpc E (eos_history_url node @ ''get_transaction'') (node_auth node)
               (mk_obj [(''id'', JStr trx)]) JNull) (\<lambda>(rc, json_response).
      if rc \<noteq> RPC_OK then ret (Break trx) else
      bindp (eos_error json_response) (\<lambda>failed.
      if failed then ret (Continue trx) else
      if \<not> has_field json_response ''trx'' then ret (Continue trx) else
      bindp (field json_response ''trx'') (\<lambda>json_his_trx.
      if \<not> has_field json_his_trx ''trx'' then ret (Continue trx) else
      bindp (field json_his_trx ''trx'') (\<lambda>json_his_trx_sub.
      if \<not> has_field json_his_trx_sub ''actions'' then ret (Continue trx) else
      bindp (field json_his_trx_sub ''actions'') (\<lambda>json_actions.
      thenp (forall_do [0..<jsize json_actions] (\<lambda>k.
               bindp (lift (at_idx json_actions k)) (\<lambda>json_action. eos_action E trx json_action)))
            (ret (Continue trx))))))))))"

definition eos_block :: "'x env_scheme \<Rightarrow> int \<Rightarrow> node_info \<Rightarrow> nat \<Rightarrow> nat \<Rightarrow> unit ctl syncer_prog" where
  "eos_block E coin_id node last_irreversible i =
     bindp (call_rpc E (eos_chain_url node @ ''get_block'') (node_auth node)
              (mk_obj [(''block_num_or_id'', JUint i)]) JNull) (\<lambda>(rc, json_response).
     if rc \<noteq> RPC_OK then ret (Break ()) else
     bindp (eos_error json_response) (\<lambda>failed.
     if failed then ret (Continue ()) else
     if \<not> has_field json_response ''transactions'' then ret (Continue ()) else
     bindp (field json_response ''transactions'') (\<lambda>json_transactions.
     bindp (foreach [0..<jsize json_transactions] '''' (\<lambda>trx j.
              bindp (lift (at_idx json_transactions j)) (\<lambda>json_transaction.
              eos_tx E node trx json_transaction))) (\<lambda>trx.
     if i mod 100 = 0 \<or> i = last_irreversible
     then thenp (checkpoint E coin_id trx i) (ret (Continue ()))
     else ret (Continue ())))))"

text \<open>The loop starts at the constant 56265; the last scanned height is read and not used.\<close>

definition scan_eos :: "'x env_scheme \<Rightarrow> unit syncer_prog" where
  "scan_eos E =
     bindp (gets eos_base_address) (\<lambda>base.
     if base = '''' then ret () else
     with_node E ''EOS'' (\<lambda>coin_id node pre_height.
       bindp (call_rpc E (eos_chain_url node @ ''get_info'') (node_auth node) (JObj []) JNull) (\<lambda>(rc, json_response).
       if rc \<noteq> RPC_OK then ret () else
       if \<not> has_field json_response ''last_irreversible_block_num'' then ret () else
       bindp (field_u64 json_response ''last_irreversible_block_num'') (\<lambda>last_irreversible.
       foreach (heights 56264 last_irreversible) () (\<lambda>_. eos_block E coin_id node last_irreversible)))))"

end
