(* ===== verification/ScanOmni.thy ===== *)
theory ScanOmni
  imports SyncerState
begin

section \<open>The Omni USDT scanner\<close>

text \<open>\<open>Syncer::scanOMNI_USDT\<close>: a transaction, a block, the scan.\<close>

definition omni_callback :: "string \<Rightarrow> string \<Rightarrow> string \<Rightarrow> json" where
  "omni_callback amount address txid =
     mk_obj [(''balance'', JStr amount), (''coinCode'', JStr ''OMNI_USDT''), (''n'', JInt 0),
             (''status'', JInt 1), (''address'', JStr address), (''txid'', JStr txid),
             (''type'', JBool True)]"

text \<open>The flag and the address recorded for a transfer, none when both ends are foreign.\<close>

definition omni_flag ::
  "(string, int) smap \<Rightarrow> string \<Rightarrow> string \<Rightarrow> (nat \<times> string) option" where
  "omni_flag own sendingaddress referenceaddress =
     (if \<not> has_key own sendingaddress \<and> \<not> has_key own referenceaddress then None
      else if has_key own sendingaddress \<and> has_key own referenceaddress then Some (2, sendingaddress)
      else if has_key own referenceaddress then Some (0, referenceaddress)
      else Some (1, sendingaddress))"

definition omni_tx :: "'x env_scheme \<Rightarrow> node_info \<Rightarrow> string \<Rightarrow> unit ctl syncer_prog" where
  "omni_tx E node txid =
     bindp (node_call E node ''omni_gettransaction'' (JArr [JStr txid])) (\<lambda>(rc, json_response).
     if rc \<noteq> RPC_OK then ret (Break ()) else
     bindp (field json_response ''result'') (\<lambda>json_txinfo.
     if jempty json_txinfo then ret (Continue ()) else
     bindp (field_bool json_txinfo ''valid'') (\<lambda>valid.
     if \<not> valid then ret (Continue ()) else
     bindp (field_string json_txinfo ''sendingaddress'') (\<lambda>sendingaddress.
     bindp (field_string json_txinfo ''referenceaddress'') (\<lambda>referenceaddress.
     bindp (field_string json_txinfo ''amount'') (\<lambda>amount.
     bindp (gets address_id_omni_usdt) (\<lambda>own.
     case omni_flag own sendingaddress referenceaddress of
       None \<Rightarrow> ret (Continue ())
     | Some (flag, address) \<Rightarrow>
         thenp (push_sql (sql_txutxo txid 0 address amount flag))
        (thenp (callback_transaction E (omni_callback amount address txid))
               (ret (Continue ()))))))))))"

text \<open>One block; the value carried from block to block is the variable \<open>txid\<close>, declared outside.\<close>

definition omni_block :: "'x env_scheme \<Rightarrow> int \<Rightarrow> node_info \<Rightarrow> nat \<Rightarrow> string \<Rightarrow> nat \<Rightarrow> string ctl syncer_prog" where
  "omni_block E coin_id node height txid i =
     bindp (node_call E node ''omni_listblocktransactions'' (JArr [JUint i])) (\<lambda>(rc, json_response).
     if rc \<noteq> RPC_OK then ret (Break txid) else
     bindp (field json_response ''result'') (\<lambda>json_txs.
     if jempty json_txs then ret (Continue txid) else
     bindp (foreach [0..<jsize json_txs] txid (\<lambda>_ j.
              bindp (lift (at_idx json_txs j)) (\<lambda>t.
              bindp (lift (get_string t)) (\<lambda>txid.
              bindp (omni_tx E node txid) (\<lambda>c.
              ret (case c of Continue _ \<Rightarrow> Continue txid | Break _ \<Rightarrow> Break txid)))))) (\<lambda>txid.
     if i mod 100 = 0 \<or> i = height
     then thenp (checkpoint E coin_id txid i) (ret (Continue txid))
     else ret (Continue txid))))"

definition scan_omni_usdt :: "'x env_scheme \<Rightarrow> unit syncer_prog" where
  "scan_omni_usdt E =
     with_node E ''USDT'' (\<lambda>coin_id node pre_height.
       bindp (node_call E node ''getblockcount'' (JArr [])) (\<lambda>(rc, json_response).
       if rc \<noteq> RPC_OK then ret () else
       bindp (field json_response ''result'') (\<lambda>result.
       if jempty result then ret () else
       bindp (lift (get_u64 result)) (\<lambda>height.
       thenp (foreach (heights pre_height height) '''' (omni_block E coin_id node height)) (ret ())))))"

end
