(* ===== verification/SyncerJobs.thy ===== *)
theory SyncerJobs
  imports ScanBtc ScanEth ScanXrp ScanEos ScanOmni
begin

section \<open>The monitor's tasks\<close>

text \<open>
  Start-up (\<open>Syncer::init\<close>), the task functions the event loop runs (\<open>ScanBTC\<close>, \<open>ScanETH\<close>,
  \<dots>, \<open>ReCallback\<close>, \<open>VerifyTransaction\<close>), their registration, and the event loop itself as a
  step relation: a pending timer fires, its task runs and may set the timer again.
\<close>

subsection \<open>Start-up\<close>

definition sql_nodes :: string where
  "sql_nodes = ''SELECT coin_id, node.node_id, node_url, node_auth, wallet_url, wallet_auth FROM'' @ tab
     @ ''coin, node WHERE node.node_id = coin.node_id;''"

definition sql_base_address :: "nat \<Rightarrow> string" where
  "sql_base_address coin_id =
     ''SELECT address, MAX(account_id) as account_id FROM account GROUP BY coin_id, address HAVING coin_id = ''
       @ nat_to_string coin_id @ '' AND MAX(account_id);''"

definition sql_usdt_contract :: string where
  "sql_usdt_contract = ''SELECT token_id, contract FROM token WHERE short_name = '' @ quoted ''ERC20_USDT'' @ '';''"

definition sql_txids :: string where
  "sql_txids = ''SELECT txid, address FROM txutxo;''"

definition init_node :: "json \<Rightarrow> nat \<Rightarrow> unit syncer_prog" where
  "init_node json_data i =
     bindp (cell_int json_data i 1) (\<lambda>nid.
     bindp (cell_string json_data i 2) (\<lambda>nurl.
     bindp (cell_string json_data i 3) (\<lambda>nauth.
     bindp (cell_string json_data i 4) (\<lambda>wurl.
     bindp (cell_string json_data i 5) (\<lambda>wauth.
     bindp (cell_int json_data i 0) (\<lambda>coin_id.
     modify (map_coinid_node_update (AList.update coin_id
       \<lparr>node_id = nid, node_url = nurl, wallet_url = wurl, node_auth = nauth, wallet_auth = wauth\<rparr>))))))))"

text \<open>
  The base address of a coin: the first row, or an exception when there is none; the two
  assertions of the code.
\<close>

definition init_base_address :: "'x env_scheme \<Rightarrow> nat \<Rightarrow> string syncer_prog" where
  "init_base_address E coin_id =
     bindp (get_data E (sql_base_address coin_id) [T_STRING, T_INT] (JArr [])) (\<lambda>(_, json_data).
     bindp (cell_string json_data 0 0) (\<lambda>address.
     bindp (cell_int json_data 0 1) (\<lambda>account_id.
     if \<not> 0 < account_id then fault AssertFailed
     else if address = '''' then fault AssertFailed
     else ret address)))"

definition syncer_init :: "'x env_scheme \<Rightarrow> unit syncer_prog" where
  "syncer_init E =
     bindp (get_data E sql_nodes [T_INT, T_INT, T_STRING, T_STRING, T_STRING, T_STRING] JNull) (\<lambda>(_, json_data).
     thenp (forall_do [0..<jsize json_data] (init_node json_data))
    (bindp (init_base_address E 3) (\<lambda>address. thenp (modify (xrp_base_address_update (\<lambda>_. address)))
    (bindp (init_base_address E 4) (\<lambda>address. thenp (modify (eos_base_address_update (\<lambda>_. address)))
    (bindp (get_data E sql_usdt_contract [T_INT, T_STRING] (JArr [])) (\<lambda>(_, json_data).
     bindp (cell_string json_data 0 1) (\<lambda>contract.
     bindp (cell_int json_data 0 0) (\<lambda>token_id.
     thenp (modify (ethcontract_tokenid_update (AList.update (toupper contract) token_id)))
    (bindp (get_data E sql_txids [T_STRING, T_STRING] (JArr [])) (\<lambda>(_, json_data).
     forall_do [0..<jsize json_data] (\<lambda>i.
       bindp (cell_string json_data i 0) (\<lambda>txid.
       bindp (cell_string json_data i 1) (\<lambda>address.
       modify (txid_address_update (AList.update txid address))))))))))))))))"

subsection \<open>Tasks\<close>

definition set_timeout :: "string \<Rightarrow> nat \<Rightarrow> unit syncer_prog" where
  "set_timeout name second = modify (timers_update (AList.update name second))"

definition sql_accounts :: "string \<Rightarrow> string \<Rightarrow> string" where
  "sql_accounts sep coin =
     ''SELECT address,'' @ sep @ ''account_id FROM account WHERE coin_id = (SELECT coin_id FROM'' @ tab
       @ ''coin WHERE short_name = '' @ quoted coin @ '');''"

text \<open>The own addresses of a coin, read again before every scan and added to the map.\<close>

definition load_addresses ::
  "'x env_scheme \<Rightarrow> string \<Rightarrow> (string \<Rightarrow> string) \<Rightarrow> (string \<Rightarrow> int \<Rightarrow> syncer \<Rightarrow> syncer) \<Rightarrow> unit syncer_prog" where
  "load_addresses E sql canon store =
     bindp (get_data E sql [T_STRING, T_INT] JNull) (\<lambda>(_, json_data).
     forall_do [0..<jsize json_data] (\<lambda>i.
       bindp (cell_string json_data i 0) (\<lambda>address.
       bindp (cell_int json_data i 1) (\<lambda>account_id.
       modify (store (canon address) account_id)))))"

definition task_scan_btc :: "'x env_scheme \<Rightarrow> unit syncer_prog" where
  "task_scan_btc E =
     thenp (load_addresses E (sql_accounts '''' ''BTC'') id (\<lambda>a i. address_id_btc_update (AList.update a i)))
    (bindp (gets address_id_btc) (\<lambda>own.
     if own = [] then ret () else
     thenp (scan_btc E) (set_timeout ''ScanBTC'' 10)))"

definition task_scan_eth :: "'x monitor_env_scheme \<Rightarrow> unit syncer_prog" where
  "task_scan_eth E =
     thenp (load_addresses E (sql_accounts '' '' ''ETH'') toupper (\<lambda>a i. address_id_eth_update (AList.update a i)))
    (bindp (gets address_id_eth) (\<lambda>own.
     if own = [] then ret () else
     thenp (scan_eth E) (set_timeout ''ScanETH'' 15)))"

definition task_scan_xrp :: "'x env_scheme \<Rightarrow> unit syncer_prog" where
  "task_scan_xrp E = thenp (scan_xrp E) (set_timeout ''ScanXRP'' 5)"

definition task_scan_eos :: "'x env_scheme \<Rightarrow> unit syncer_prog" where
  "task_scan_eos E = thenp (scan_eos E) (set_timeout ''ScanEOS'' 5)"

definition task_scan_omni :: "'x env_scheme \<Rightarrow> unit syncer_prog" where
  "task_scan_omni E =
     thenp (load_addresses E (sql_accounts '''' ''USDT'') id (\<lambda>a i. address_id_omni_usdt_update (AList.update a i)))
    (bindp (gets address_id_omni_usdt) (\<lambda>own.
     if own = [] then ret () else
     thenp (scan_omni_usdt E) (set_timeout ''ScanOMNI_USDT'' 10)))"

definition task_re_callback :: "'x env_scheme \<Rightarrow> unit syncer_prog" where
  "task_re_callback E = thenp (re_callback E) (set_timeout ''ReCallback'' (3 * 60))"

text \<open>\<open>verifyTransaction\<close>: the query runs, the loop body is commented out, the queue is flushed.\<close>

definition verify_transaction :: "'x env_scheme \<Rightarrow> unit syncer_prog" where
  "verify_transaction E =
     bindp (get_data E ''SELECT txid FROM ethtran WHERE status = -1;'' [T_STRING] JNull) (\<lambda>_.
     syncer_refresh_db E)"

definition task_verify_transaction :: "'x env_scheme \<Rightarrow> unit syncer_prog" where
  "task_verify_transaction E = thenp (verify_transaction E) (set_timeout ''VerifyTransaction'' (5 * 60))"

subsection \<open>Registration and the event loop\<close>

text \<open>\<open>Syncer::registerTask\<close>: \<open>REFLEX_TASK\<close> runs each task once, at once, in this order.\<close>

definition task_table :: "'x monitor_env_scheme \<Rightarrow> (string \<times> unit syncer_prog) list" where
  "task_table E =
     [(''ScanBTC'', task_scan_btc E), (''ScanETH'', task_scan_eth E), (''ScanXRP'', task_scan_xrp E),
      (''ScanEOS'', task_scan_eos E), (''ScanOMNI_USDT'', task_scan_omni E),
      (''ReCallback'', task_re_callback E)]"

definition register_task :: "'x monitor_env_scheme \<Rightarrow> unit syncer_prog" where
  "register_task E = forall_do (task_table E) snd"

text \<open>
  One turn of \<open>event_base_dispatch\<close>: some pending timer fires and its task runs to its end. An
  exception or a fault in a task ends the process, so only tasks that return make a step.
\<close>

inductive loop_step :: "'x monitor_env_scheme \<Rightarrow> syncer \<Rightarrow> syncer \<Rightarrow> bool" for E where
  fire: "name \<in> fst ` set (timers w) \<Longrightarrow> map_of (task_table E) name = Some task \<Longrightarrow>
         task (w\<lparr>timers := AList.delete name (timers w)\<rparr>) = (w', Val ()) \<Longrightarrow> loop_step E w w'"

inductive loop_reach :: "'x monitor_env_scheme \<Rightarrow> syncer \<Rightarrow> syncer \<Rightarrow> bool" for E where
  start: "loop_reach E w w"
| turn: "loop_reach E w u \<Longrightarrow> loop_step E u v \<Longrightarrow> loop_reach E w v"

text \<open>\<open>RunJob\<close>: the state after \<open>init\<close> and registration, before the first turn of the loop.\<close>

definition run_job :: "'x monitor_env_scheme \<Rightarrow> string \<Rightarrow> unit syncer_prog" where
  "run_job E url =
     thenp (syncer_init E)
    (thenp (modify (callback_url_update (\<lambda>_. url)))
           (register_task E))"

end
