(* ===== verification/SyncerFrames.thy ===== *)
theory SyncerFrames
  imports SyncerJobs "HOL-Library.Sublist"
begin

section \<open>What the scanners can change\<close>

text \<open>
  The interface between the scanners and the state: everything a transaction handler does to
  the state goes through four primitive changes (a post, a statement queued, a callback stored,
  a transaction remembered), and a block or a scan adds the flush of the queue. A relation that
  the primitive changes keep is kept by every handler, whatever the network answers and however
  the handler ends. The locale proves this once; each interpretation is one frame property.
\<close>

text \<open>The statements a scanner queues: a movement, a transfer, a block.\<close>

definition scan_row :: "string \<Rightarrow> bool" where
  "scan_row sql \<longleftrightarrow>
     (\<exists>txid n address amount flag. sql = sql_txutxo txid n address amount flag)
   \<or> (\<exists>cid tid txid vin vout amount fee. sql = sql_txaccount cid tid txid vin vout amount fee)
   \<or> (\<exists>cid hash h. sql = sql_block cid hash h)"

lemma scan_rows:
  "scan_row (sql_txutxo txid n address amount flag)" "scan_row (sql_txaccount cid tid txid vin vout amount fee)"
  "scan_row (sql_block cid hash h)"
  unfolding scan_row_def by blast+

locale handler_frame = step_rel R for R :: "syncer \<Rightarrow> syncer \<Rightarrow> bool" +
  assumes post: "R w (posts_update (\<lambda>ps. ps @ [p]) w)"
    and queue: "scan_row sql \<Longrightarrow> R w (vect_sql_update (\<lambda>q. q @ [sql]) w)"
    and store: "R w (json_callback_update (\<lambda>q. q @ [c]) w)"
    and remember: "R w (txid_address_update (AList.update txid a) w)"
begin

lemmas frame_rules = step_rules in_fields

lemma in_call_rpc: "steps_in R (call_rpc E url auth p r)"
  unfolding call_rpc_def
  by (intro frame_rules in_modify) (auto simp: post split: http_reply.split intro!: frame_rules)

lemma in_struct_rpc: "steps_in R (struct_rpc m ps p)"
  unfolding struct_rpc_def by (intro frame_rules)

lemma in_node_call: "steps_in R (node_call E node m ps)"
  unfolding node_call_def by (intro frame_rules in_struct_rpc in_call_rpc)

lemma in_push_sql: "scan_row sql \<Longrightarrow> steps_in R (push_sql sql)"
  unfolding push_sql_def by (rule in_modify) (simp add: queue)

lemmas in_push_rows = scan_rows [THEN in_push_sql]

lemma in_callback: "steps_in R (callback_transaction E c)"
  unfolding callback_transaction_def
  by (intro frame_rules in_call_rpc in_modify) (simp add: store)

lemma in_get_data: "steps_in R (get_data E sql cols data)"
  by (simp add: steps_in_def refl)

lemmas prim_rules = frame_rules in_node_call in_call_rpc in_push_rows in_callback in_get_data

lemma in_btc_vin: "steps_in R (btc_vin vins)"
  unfolding btc_vin_def by (intro prim_rules)

lemma in_btc_address: "steps_in R (btc_address E txid vin number value n address)"
  unfolding btc_address_def by (intro prim_rules in_modify) (simp add: remember)

lemma in_btc_vout: "steps_in R (btc_vout E txid vin vout)"
  unfolding btc_vout_def by (intro prim_rules in_btc_address)

lemma in_btc_tx: "steps_in R (btc_tx E node txid)"
  unfolding btc_tx_def by (intro prim_rules in_btc_vin in_btc_vout)

lemma in_xrp_tx: "steps_in R (xrp_tx E node hash tx)"
  unfolding xrp_tx_def Let_def by (intro prim_rules)

lemma in_eos_error: "steps_in R (eos_error r)"
  unfolding eos_error_def by (intro prim_rules)

lemma in_eos_action: "steps_in R (eos_action E trx a)"
  unfolding eos_action_def by (intro prim_rules)

lemma in_eos_tx: "steps_in R (eos_tx E node trx t)"
  unfolding eos_tx_def by (intro prim_rules in_eos_error in_eos_action)

lemma in_omni_tx: "steps_in R (omni_tx E node txid)"
  unfolding omni_tx_def by (intro prim_rules)

lemma in_to_mpz: "steps_in R (to_mpz E s)"
  unfolding to_mpz_def by (intro prim_rules)

lemma in_eth_fee: "steps_in R (eth_fee E t)"
  unfolding eth_fee_def by (intro prim_rules in_to_mpz)

lemma in_eth_record:
  "steps_in R (eth_record E cid tid coin tok txid from to value fee flag address)"
  unfolding eth_record_def by (intro prim_rules)

lemma in_eth_token_tx: "steps_in R (eth_token_tx E cid t from txid)"
  unfolding eth_token_tx_def Let_def by (intro prim_rules in_eth_fee in_to_mpz in_eth_record)

lemma in_eth_native_tx: "steps_in R (eth_native_tx E cid t from txid value)"
  unfolding eth_native_tx_def Let_def by (intro prim_rules in_eth_fee in_to_mpz in_eth_record)

lemma in_eth_tx: "steps_in R (eth_tx E cid txid t)"
  unfolding eth_tx_def Let_def by (intro prim_rules in_eth_token_tx in_eth_native_tx)

lemma in_get_current_height: "steps_in R (get_current_height E coin)"
  unfolding get_current_height_def by (intro prim_rules)

lemma in_with_node:
  "(\<And>c n h. steps_in R (scan c n h)) \<Longrightarrow> steps_in R (with_node E coin scan)"
  unfolding with_node_def by (intro prim_rules in_get_current_height) 

lemmas tx_rules = in_btc_tx in_xrp_tx in_eos_tx in_omni_tx in_eth_tx in_eos_error

end

text \<open>
  Three relations a handler keeps but a flush does not: the database is not touched, and the
  queue only grows.
\<close>

definition db_untouched :: "syncer \<Rightarrow> syncer \<Rightarrow> bool" where
  "db_untouched w t \<longleftrightarrow> db_log t = db_log w \<and> prefix (vect_sql w) (vect_sql t)"

interpretation untouched: handler_frame db_untouched
  by unfold_locales (auto simp: db_untouched_def)

text \<open>The whole of a scan: the handlers and the flush.\<close>

locale scan_frame = handler_frame +
  assumes flush: "vect_sql w \<noteq> [] \<Longrightarrow> R w (w\<lparr>db_log := db_log w @ ''START TRANSACTION'' # map c_str (vect_sql w) @ [''COMMIT''],
                         vect_sql := []\<rparr>)"
begin

lemma in_refresh: "steps_in R (syncer_refresh_db E)"
  by (simp add: steps_in_def syncer_refresh_db_apply refl flush)

lemma in_checkpoint: "steps_in R (checkpoint E cid hash i)"
  unfolding checkpoint_def by (intro prim_rules in_refresh)

lemma in_btc_block: "steps_in R (btc_block E cid node h i)"
  unfolding btc_block_def by (intro prim_rules tx_rules in_checkpoint)

lemma in_xrp_ledger: "steps_in R (xrp_ledger E cid node h i)"
  unfolding xrp_ledger_def by (intro prim_rules tx_rules in_checkpoint)

lemma in_eos_block: "steps_in R (eos_block E cid node h i)"
  unfolding eos_block_def by (intro prim_rules tx_rules in_checkpoint)

lemma in_omni_block: "steps_in R (omni_block E cid node h txid i)"
  unfolding omni_block_def by (intro prim_rules tx_rules in_checkpoint)

lemma in_eth_block: "steps_in R (eth_block E cid node h ss i)"
  unfolding eth_block_def Let_def by (intro prim_rules tx_rules in_checkpoint)

lemma in_scan_btc: "steps_in R (scan_btc E)"
  unfolding scan_btc_def by (intro in_with_node prim_rules in_btc_block)

lemma in_scan_xrp: "steps_in R (scan_xrp E)"
  unfolding scan_xrp_def by (intro in_with_node prim_rules in_xrp_ledger)

lemma in_scan_eos: "steps_in R (scan_eos E)"
  unfolding scan_eos_def by (intro in_with_node prim_rules in_eos_block)

lemma in_scan_omni: "steps_in R (scan_omni_usdt E)"
  unfolding scan_omni_usdt_def by (intro in_with_node prim_rules in_omni_block)

lemma in_scan_eth: "steps_in R (scan_eth E)"
  unfolding scan_eth_def Let_def by (intro in_with_node prim_rules in_eth_block)

lemma in_verify: "steps_in R (verify_transaction E)"
  unfolding verify_transaction_def by (intro prim_rules in_refresh)

lemmas scan_rules = in_scan_btc in_scan_xrp in_scan_eos in_scan_omni in_scan_eth in_verify

end

text \<open>
  What the monitor sends only accumulates: posts and statements are never taken back.
\<close>

definition sent_grows :: "syncer \<Rightarrow> syncer \<Rightarrow> bool" where
  "sent_grows w t \<longleftrightarrow> prefix (posts w) (posts t) \<and> prefix (db_log w) (db_log t)"

interpretation sent: scan_frame sent_grows
  by unfold_locales (auto simp: sent_grows_def)

text \<open>
  What a scan leaves alone: the timers, the nodes, the callback URL, the base addresses, the
  own addresses and the token contracts.
\<close>

definition config_kept :: "syncer \<Rightarrow> syncer \<Rightarrow> bool" where
  "config_kept w t \<longleftrightarrow>
     timers t = timers w \<and> map_coinid_node t = map_coinid_node w \<and> callback_url t = callback_url w
   \<and> xrp_base_address t = xrp_base_address w \<and> eos_base_address t = eos_base_address w
   \<and> address_id_btc t = address_id_btc w \<and> address_id_eth t = address_id_eth w
   \<and> address_id_omni_usdt t = address_id_omni_usdt w \<and> ethcontract_tokenid t = ethcontract_tokenid w"

interpretation config: scan_frame config_kept
  by unfold_locales (auto simp: config_kept_def)

lemmas scans_keep_config = config.scan_rules [THEN steps_inD]

lemmas scans_only_send = sent.scan_rules [THEN steps_inD]

subsection \<open>Everything queued is sent once, in order, in transactions\<close>

text \<open>
  The locale of a whole task: what a scan may do, and also what a task does around it (reading
  own addresses, storing the refused callbacks, setting its timer).
\<close>

locale task_frame = scan_frame +
  assumes addresses_btc: "R w (address_id_btc_update f w)"
    and addresses_eth: "R w (address_id_eth_update f w)"
    and addresses_omni: "R w (address_id_omni_usdt_update f w)"
    and timer: "R w (timers_update g w)"
    and callbacks: "R w (json_callback_update h w)"
begin

lemma in_load_addresses:
  "(\<And>a i w. R w (store a i w)) \<Longrightarrow> steps_in R (load_addresses E sql canon store)"
  unfolding load_addresses_def by (intro prim_rules in_modify) simp

lemma in_set_timeout: "steps_in R (set_timeout name n)"
  unfolding set_timeout_def by (intro in_modify timer)

lemma in_re_callback: "steps_in R (re_callback E)"
  unfolding re_callback_def by (intro prim_rules in_modify callbacks)

lemma in_tasks:
  "steps_in R (task_scan_btc E)" "steps_in R (task_scan_eth E)" "steps_in R (task_scan_xrp E)"
  "steps_in R (task_scan_eos E)" "steps_in R (task_scan_omni E)" "steps_in R (task_re_callback E)"
  unfolding task_scan_btc_def task_scan_eth_def task_scan_xrp_def task_scan_eos_def
    task_scan_omni_def task_re_callback_def
  by (intro step_rules in_load_addresses scan_rules in_set_timeout in_re_callback
        addresses_btc addresses_eth addresses_omni)+

lemma in_task: "map_of (task_table E) name = Some task \<Longrightarrow> steps_in R task"
  unfolding task_table_def by (auto simp: in_tasks split: if_splits)

lemma in_loop_step: "loop_step E w t \<Longrightarrow> R w t"
  by (induction rule: loop_step.induct) (metis in_task steps_inD timer trans)

lemma in_loop: "loop_reach E w t \<Longrightarrow> R w t"
  by (induction rule: loop_reach.induct) (auto intro: refl trans in_loop_step)

end

definition transaction :: "string list \<Rightarrow> string list" where
  "transaction q = ''START TRANSACTION'' # map c_str q @ [''COMMIT'']"

definition sent_in_order :: "syncer \<Rightarrow> syncer \<Rightarrow> bool" where
  "sent_in_order w t \<longleftrightarrow>
     (\<exists>batches added. db_log t = db_log w @ concat (map transaction batches)
              \<and> concat batches @ vect_sql t = vect_sql w @ added \<and> list_all scan_row added
              \<and> [] \<notin> set batches)"

lemma sent_in_order_trans:
  assumes "sent_in_order s t" and "sent_in_order t u"
  shows "sent_in_order s u"
proof -
  from assms obtain as p bs q where
    a: "db_log t = db_log s @ concat (map transaction as)" "concat as @ vect_sql t = vect_sql s @ p" "list_all scan_row p" "[] \<notin> set as"
    and b: "db_log u = db_log t @ concat (map transaction bs)" "concat bs @ vect_sql u = vect_sql t @ q" "list_all scan_row q" "[] \<notin> set bs"
    unfolding sent_in_order_def by blast
  have "concat (as @ bs) @ vect_sql u = vect_sql s @ p @ q" using a(2) b(2) by (metis append_assoc concat_append)
  with a b show ?thesis
    unfolding sent_in_order_def by (intro exI [of _ "as @ bs"] exI [of _ "p @ q"]) simp
qed

lemma sent_in_order_queue:
  "db_log t = db_log w \<Longrightarrow> vect_sql t = vect_sql w @ q \<Longrightarrow> list_all scan_row q \<Longrightarrow> sent_in_order w t"
  unfolding sent_in_order_def by (intro exI [of _ "[]"] exI [of _ q]) simp

lemma sent_in_order_flush:
  "vect_sql w \<noteq> [] \<Longrightarrow>
   sent_in_order w (w\<lparr>db_log := db_log w @ ''START TRANSACTION'' # map c_str (vect_sql w) @ [''COMMIT''],
                      vect_sql := []\<rparr>)"
  unfolding sent_in_order_def transaction_def by (intro exI [of _ "[vect_sql w]"] exI [of _ "[]"]) simp

interpretation in_order: task_frame sent_in_order
  by unfold_locales
     ((rule sent_in_order_flush, assumption) | (erule sent_in_order_trans, assumption)
      | (rule sent_in_order_queue [where q = "[]"]; simp; fail)
      | (rule sent_in_order_queue [where q = "[sql]" for sql]; simp))+

interpretation growing: task_frame sent_grows
  by unfold_locales (auto simp: sent_grows_def)

end
