(* ===== verification/MonitorProps.thy ===== *)
theory MonitorProps
  imports SyncerFrames
begin

section \<open>Properties of the monitor\<close>

text \<open>
  Facts about the scanners, the callbacks and the event loop, each for every database and every
  network.
\<close>

text \<open>Concrete worlds for the examples that accompany the properties.\<close>

definition idle :: syncer where
  "idle = \<lparr>db_log = [], posts = [], map_coinid_node = [], vect_sql = [], callback_url = '''',
     eos_base_address = '''', xrp_base_address = '''', address_id_btc = [], address_id_eth = [],
     address_id_omni_usdt = [], ethcontract_tokenid = [], txid_address = [], json_callback = [],
     timers = []\<rparr>"

definition some_node :: node_info where
  "some_node = \<lparr>node_id = 1, node_url = '''', wallet_url = '''', node_auth = '''', wallet_auth = ''''\<rparr>"

definition net :: "(post list \<Rightarrow> post \<Rightarrow> http_reply) \<Rightarrow> monitor_env" where
  "net f = \<lparr>mysql_connects = (\<lambda>_. True), mysql_query = (\<lambda>_ _. SqlError 2006), http_answer = f,
     mpz_set_str = (\<lambda>_. None), mpz_get_str = (\<lambda>_. '''')\<rparr>"

lemma net_simps [simp]: "http_answer (net f) = f" "mysql_query (net f) = (\<lambda>_ _. SqlError 2006)"
  "mysql_connects (net f) = (\<lambda>_. True)"
  by (simp_all add: net_def)

lemma idle_simps [simp]: "db_log idle = []" "posts idle = []" "vect_sql idle = []"
  "json_callback idle = []" "callback_url idle = ''''"
  by (simp_all add: idle_def)

subsection \<open>When a scan writes to the database\<close>

text \<open>
  The effect of a block on the database: none, or one transaction that holds everything queued
  before and during the block and ends with the block's own row; the queue is empty then.
\<close>

definition block_written :: "nat \<Rightarrow> syncer \<Rightarrow> syncer \<Rightarrow> bool" where
  "block_written i w t \<longleftrightarrow>
     (\<exists>q cid hash. prefix (vect_sql w) q \<and> vect_sql t = []
        \<and> db_log t = db_log w @ ''START TRANSACTION'' # map c_str (q @ [sql_block cid hash i]) @ [''COMMIT''])"

definition block_effect :: "nat \<Rightarrow> syncer \<Rightarrow> syncer \<Rightarrow> bool" where
  "block_effect i w t \<longleftrightarrow> db_untouched w t \<or> block_written i w t"

interpretation effect: tail_rel db_untouched "block_effect i"
proof unfold_locales
  fix s t u
  show "db_untouched s t \<Longrightarrow> block_effect i s t" by (simp add: block_effect_def)
  assume st: "db_untouched s t" and tu: "block_effect i t u"
  from tu consider "db_untouched t u" | "block_written i t u" by (auto simp: block_effect_def)
  then show "block_effect i s u"
  proof cases
    case 1
    with st have "db_untouched s u" by (rule untouched.trans)
    then show ?thesis by (simp add: block_effect_def)
  next
    case 2
    with st have "block_written i s u"
      by (auto simp: db_untouched_def block_written_def intro: prefix_order.trans)
    then show ?thesis by (simp add: block_effect_def)
  qed
qed

lemma checkpoint_apply:
  "checkpoint E cid hash i w =
     (w\<lparr>db_log := db_log w @ ''START TRANSACTION'' # map c_str (vect_sql w @ [sql_block cid hash i]) @ [''COMMIT''],
        vect_sql := []\<rparr>, Val ())"
  by (simp add: checkpoint_def push_sql_def syncer_refresh_db_apply)

lemma checkpoint_effect: "steps_in (block_effect i) (thenp (checkpoint E cid hash i) (ret c))"
  by (auto simp: steps_in_def bindp_def prog_simps checkpoint_apply block_effect_def block_written_def)

lemma untouched_ret: "steps_in db_untouched (ret a)"
  by (rule untouched.in_ret)

lemmas effect_rules = effect.tail_bindp effect.tail_prod effect.tail_if effect.tail_ret checkpoint_effect

lemma btc_block_effect: "steps_in (block_effect i) (btc_block E cid node h i)"
  unfolding btc_block_def
  by (intro effect_rules) (intro untouched.prim_rules untouched.tx_rules)+

lemma xrp_ledger_effect: "steps_in (block_effect i) (xrp_ledger E cid node h i)"
  unfolding xrp_ledger_def
  by (intro effect_rules) (intro untouched.prim_rules untouched.tx_rules)+

lemma eos_block_effect: "steps_in (block_effect i) (eos_block E cid node h i)"
  unfolding eos_block_def
  by (intro effect_rules) (intro untouched.prim_rules untouched.tx_rules)+

lemma omni_block_effect: "steps_in (block_effect i) (omni_block E cid node h txid i)"
  unfolding omni_block_def
  by (intro effect_rules) (intro untouched.prim_rules untouched.tx_rules)+

lemma eth_block_effect: "steps_in (block_effect i) (eth_block E cid node h ss i)"
  unfolding eth_block_def Let_def
  by (intro effect_rules) (intro untouched.prim_rules untouched.tx_rules)+

lemma eth_block_untouched:
  assumes "\<not> (i mod 500 = 0 \<and> i = h)"
  shows "steps_in db_untouched (eth_block E cid node h ss i)"
proof -
  have "(i mod 500 = 0 \<and> i = h) = False" using assms by simp
  then show ?thesis
    unfolding eth_block_def Let_def if_False
    by (simp only: if_False) (intro untouched.prim_rules untouched.tx_rules)
qed

text \<open>The effect of a whole Ethereum scan: at most one block is written, and 500 divides its height.\<close>

definition eth_scan_effect :: "syncer \<Rightarrow> syncer \<Rightarrow> bool" where
  "eth_scan_effect w t \<longleftrightarrow> db_untouched w t \<or> (\<exists>h. 500 dvd h \<and> block_written h w t)"

interpretation eth_effect: tail_rel db_untouched eth_scan_effect
proof unfold_locales
  fix s t u
  show "db_untouched s t \<Longrightarrow> eth_scan_effect s t" by (simp add: eth_scan_effect_def)
  assume "db_untouched s t" and "eth_scan_effect t u"
  then show "eth_scan_effect s u"
    using effect.comp untouched.trans unfolding eth_scan_effect_def block_effect_def
    by (metis (mono_tags, lifting) block_written_def db_untouched_def prefix_order.trans)
qed

lemma eth_last_block: "steps_in eth_scan_effect (foreach [h] ss (eth_block E cid node h))"
proof -
  have "steps_in eth_scan_effect (eth_block E cid node h s h)" for s
  proof (cases "500 dvd h")
    case True
    with eth_block_effect [of h E cid node h s] show ?thesis
      by (auto simp: steps_in_def block_effect_def eth_scan_effect_def)
  next
    case False
    then have "\<not> (h mod 500 = 0 \<and> h = h)" by (simp add: dvd_eq_mod_eq_0)
    then show ?thesis by (rule eth_effect.tail_of_R [OF eth_block_untouched])
  qed
  then show ?thesis
    unfolding foreach.simps
    by (rule eth_effect.tail_bindp_ret) (auto simp: bindp_def prog_simps split: ctl.split)
qed

lemma eth_blocks_effect:
  "steps_in eth_scan_effect (foreach (heights pre h) ss (eth_block E cid node h))"
proof (cases "(pre + 1) mod 2 ^ 64 \<le> h")
  case True
  then have "heights pre h = [(pre + 1) mod 2 ^ 64 ..< h] @ [h]" by (simp add: heights_def)
  then show ?thesis
    by (auto intro!: eth_effect.tail_foreach eth_last_block eth_block_untouched)
next
  case False
  then have "heights pre h = []" by (simp add: heights_def)
  then show ?thesis by (simp add: eth_effect.tail_ret)
qed

text \<open>
  Whatever the node and the database answer, a run of \<open>scanETH\<close> writes to the database at
  most once, and only when the pending height the node reports is a multiple of 500: the
  transaction it sends then ends with the row of that block. In every other run the statements
  for the transfers it found stay in the queue in memory.
\<close>

theorem scan_eth_writes_at_multiples_of_500:
  "db_untouched w (fst (scan_eth E w)) \<or> (\<exists>h. 500 dvd h \<and> block_written h w (fst (scan_eth E w)))"
proof -
  have last: "steps_in eth_scan_effect
      (let (height, ss) = read_hex hex in thenp (foreach (heights pre height) ss (eth_block E cid node height)) (ret ()))"
    for hex pre cid node
    unfolding Let_def
    by (intro eth_effect.tail_prod) (rule eth_effect.tail_bindp_ret [OF eth_blocks_effect], simp add: prog_simps)
  have "steps_in eth_scan_effect (scan_eth E)"
    unfolding scan_eth_def with_node_def
    by (intro eth_effect.tail_rules last)
       (intro untouched.prim_rules untouched.in_get_current_height)+
  then show ?thesis by (simp add: steps_in_def eth_scan_effect_def)
qed

subsection \<open>A failed fetch\<close>

definition node_post :: "node_info \<Rightarrow> string \<Rightarrow> json \<Rightarrow> post" where
  "node_post node method json_params =
     (node_url node, node_auth node,
      mk_obj [(''jsonrpc'', JStr ''1.0''), (''id'', JStr ''curltest''), (''method'', JStr method),
              (''params'', json_params)])"

lemma node_call_apply:
  "node_call E node m ps w = call_rpc E (node_url node) (node_auth node) (snd (snd (node_post node m ps))) JNull w"
  by (simp add: node_call_def struct_rpc_def node_post_def mk_obj_def)

lemma call_rpc_NoReply:
  "http_answer E (posts w) (url, auth, p) = NoReply \<Longrightarrow>
   call_rpc E url auth p r w = (posts_update (\<lambda>ps. ps @ [(url, auth, p)]) w, Val (RPC_NODEDOWN, r))"
  by (simp add: call_rpc_def bindp_def prog_simps)

text \<open>
  \<open>scanBTC\<close> never records a block it could not read completely: when the block handler
  leaves the loop (a hash, a block or one of its transactions could not be fetched) the database
  is untouched, so the next scan starts with the same block again.
\<close>

theorem btc_block_break_untouched:
  assumes "btc_block E cid node h i w = (t, Val (Break ()))"
  shows "db_untouched w t"
proof -
  have tx: "db_untouched u v" if "foreach xs a (\<lambda>ok j.
              bindp (lift (at_idx txs j)) (\<lambda>t.
              bindp (lift (get_string t)) (\<lambda>txid.
              bindp (btc_tx E node txid) (\<lambda>ok'.
              ret (if ok' then Continue True else Break False))))) u = (v, r)" for xs a txs u v r
    using that by (rule steps_inD [rotated]) (intro untouched.prim_rules untouched.tx_rules)
  have fld: "db_untouched u v" if "field j k u = (v, r)" for j k u v and r :: "(exn, json) outcome"
    using that by (rule steps_inD [OF untouched.in_fields(6)])
  have fs: "db_untouched u v" if "field_string j k u = (v, r)" for j k u v and r :: "(exn, string) outcome"
    using that by (rule steps_inD [OF untouched.in_fields(1)])
  show ?thesis
    using assms
    by (auto simp: btc_block_def bindp_eq_Val prog_simps split: if_splits
        dest!: steps_inD [OF untouched.in_node_call] fs fld tx)
      ((erule untouched.trans)+, rule untouched.refl)+
qed

theorem btc_block_break_untouched_witness:
  "btc_block (net (\<lambda>_ _. NoReply)) 1 some_node 5 5 idle = (fst (btc_block (net (\<lambda>_ _. NoReply)) 1 some_node 5 5 idle), Val (Break ()))
   \<and> db_untouched idle (fst (btc_block (net (\<lambda>_ _. NoReply)) 1 some_node 5 5 idle))"
proof -
  have b: "btc_block (net (\<lambda>_ _. NoReply)) 1 some_node 5 5 idle
      = (fst (btc_block (net (\<lambda>_ _. NoReply)) 1 some_node 5 5 idle), Val (Break ()))"
    by (simp add: btc_block_def bindp_def node_call_apply call_rpc_NoReply node_post_def prog_simps)
  with btc_block_break_untouched [OF b] show ?thesis by simp
qed

definition xrp_ledger_reply :: "string list \<Rightarrow> json" where
  "xrp_ledger_reply txs =
     JObj [(''result'', JObj [(''ledger'', JObj [(''transactions'', JArr (map JStr txs))]),
                              (''status'', JStr ''success''), (''validated'', JBool True)])]"

definition xrp_ledger_request :: "node_info \<Rightarrow> nat \<Rightarrow> post" where
  "xrp_ledger_request node i =
     node_post node ''ledger'' (JArr [mk_obj [(''ledger_index'', JUint i), (''transactions'', JBool True),
                                              (''binary'', JBool True)]])"

definition xrp_tx_request :: "node_info \<Rightarrow> string \<Rightarrow> post" where
  "xrp_tx_request node tx =
     node_post node ''tx'' (JArr [mk_obj [(''transaction'', JStr tx), (''binary'', JBool False)]])"

text \<open>A reply without an error: the key \<open>error\<close> is missing or null.\<close>

definition ok_reply :: "(string \<times> json) list \<Rightarrow> bool" where
  "ok_reply m \<longleftrightarrow> map_of m ''error'' = None \<or> map_of m ''error'' = Some JNull"

definition touched :: "(string \<times> json) list \<Rightarrow> (string \<times> json) list" where
  "touched m = (case map_of m ''error'' of Some v \<Rightarrow> m | None \<Rightarrow> obj_set ''error'' JNull m)"

lemma map_of_touched: "map_of (touched m) k = (if k = ''error'' \<and> map_of m k = None then Some JNull else map_of m k)"
  by (auto simp: touched_def split: option.split)

lemma call_rpc_Body:
  assumes "http_answer E (posts w) (url, auth, p) = Body (JObj m)" and "ok_reply m"
  shows "call_rpc E url auth p r w =
           (posts_update (\<lambda>ps. ps @ [(url, auth, p)]) w, Val (RPC_OK, JObj (touched m)))"
  using assms
  by (auto simp: call_rpc_def bindp_def prog_simps field_def touched_def ok_reply_def split: option.split)

text \<open>
  \<open>scanXRP\<close> does record such a ledger: when the node lists the ledger's transactions and then
  does not answer for the first of them, the inner loop stops, and at a checkpoint height the
  ledger's row is written all the same. None of the ledger's payments has been queued.
\<close>

theorem xrp_ledger_recorded_without_its_payments:
  assumes "http_answer E (posts w) (xrp_ledger_request node i) = Body (xrp_ledger_reply (tx # txs))"
    and "http_answer E (posts w @ [xrp_ledger_request node i]) (xrp_tx_request node tx) = NoReply"
  shows "xrp_ledger E cid node i i w =
           (w\<lparr>posts := posts w @ [xrp_ledger_request node i, xrp_tx_request node tx],
              db_log := db_log w @ ''START TRANSACTION''
                # map c_str (vect_sql w @ [sql_block cid '''' i]) @ [''COMMIT''],
              vect_sql := []\<rparr>, Val (Continue ()))"
proof -
  let ?w1 = "posts_update (\<lambda>ps. ps @ [xrp_ledger_request node i]) w"
  have l: "node_call E node ''ledger''
              (JArr [mk_obj [(''ledger_index'', JUint i), (''transactions'', JBool True),
                             (''binary'', JBool True)]]) w
           = (?w1, Val (RPC_OK, JObj (touched [(''result'', JObj [(''ledger'', JObj [(''transactions'',
                JArr (map JStr (tx # txs)))]), (''status'', JStr ''success''), (''validated'', JBool True)])])))"
    using assms(1)
    by (simp add: node_call_apply call_rpc_Body xrp_ledger_request_def xrp_ledger_reply_def node_post_def ok_reply_def)
  have t: "node_call E node ''tx'' (JArr [mk_obj [(''transaction'', JStr tx), (''binary'', JBool False)]]) ?w1
           = (posts_update (\<lambda>ps. ps @ [xrp_tx_request node tx]) ?w1, Val (RPC_NODEDOWN, JNull))"
    using assms(2)
    by (simp add: node_call_apply call_rpc_NoReply xrp_tx_request_def node_post_def)
  have x: "xrp_tx E node '''' tx ?w1 = (posts_update (\<lambda>ps. ps @ [xrp_tx_request node tx]) ?w1, Val (Break ''''))"
    unfolding xrp_tx_def by (rule bindp_ValI, rule t) (simp add: prog_simps)
  have loop: "foreach [0..<jsize (JArr (map JStr (tx # txs)))] ''''
                (\<lambda>hash j. bindp (lift (at_idx (JArr (map JStr (tx # txs))) j)) (\<lambda>t.
                          bindp (lift (get_string t)) (\<lambda>tx. xrp_tx E node hash tx))) ?w1
              = (posts_update (\<lambda>ps. ps @ [xrp_tx_request node tx]) ?w1, Val '''')"
    by (simp add: upt_rec [of 0] bindp_def x prog_simps del: upt_Suc)
  show ?thesis
    unfolding xrp_ledger_def
    apply (rule bindp_ValI, rule l)
    apply (simp add: field_defs map_of_touched)
    apply (rule bindp_ValI, rule loop[simplified])
    apply (simp add: bindp_def checkpoint_apply prog_simps)
    done
qed

theorem xrp_ledger_recorded_witness:
  "xrp_ledger (net (\<lambda>ps _. if ps = [] then Body (xrp_ledger_reply [''AB'']) else NoReply)) 4 some_node 7 7 idle
     = (idle\<lparr>posts := [xrp_ledger_request some_node 7, xrp_tx_request some_node ''AB''],
             db_log := [''START TRANSACTION'', c_str (sql_block 4 '''' 7), ''COMMIT''], vect_sql := []\<rparr>,
        Val (Continue ()))"
  using xrp_ledger_recorded_without_its_payments
    [of "net (\<lambda>ps _. if ps = [] then Body (xrp_ledger_reply [''AB'']) else NoReply)" idle some_node 7 "''AB''" "[]" 4]
  by simp

lemma refresh_sends_the_queue:
  "syncer_refresh_db E u =
     (if vect_sql u = [] then u else u\<lparr>db_log := db_log u @ transaction (vect_sql u), vect_sql := []\<rparr>, Val ())"
  by (simp add: syncer_refresh_db_apply transaction_def)

text \<open>
  C8: Over any run of the event loop, whatever its tasks do, the monitor writes to the database only whole
  transactions of queued statements. Put end to end, the transactions sent and what is left in the
  queue are the queue at the start followed by what the scanners queued, each of which is the row of a
  movement, of a transfer or of a block: no statement is dropped, repeated, overtaken or made up. And
  what a flush does is exactly this: all of the queue goes out as one transaction and the queue is
  empty, or nothing happens when it was empty.
\<close>

theorem loop_sends_queue_in_order:
  assumes "loop_reach E w t"
  shows "(\<exists>batches added. db_log t = db_log w @ concat (map transaction batches)
           \<and> concat batches @ vect_sql t = vect_sql w @ added \<and> list_all scan_row added \<and> [] \<notin> set batches)
    \<and> (\<forall>u. syncer_refresh_db E u =
         (if vect_sql u = [] then u else u\<lparr>db_log := db_log u @ transaction (vect_sql u), vect_sql := []\<rparr>, Val ()))"
  using in_order.in_loop [OF assms] refresh_sends_the_queue [of E] by (simp add: sent_in_order_def)

text \<open>
  A run of one turn: the timer of the Ripple scan fires with a statement in the queue; the node
  knows the ledger 7 and is not there any more when its transaction is asked for.
\<close>

definition ripple_net :: monitor_env where
  "ripple_net = (net (\<lambda>ps _.
     if ps = [] then Body (JObj [(''result'', JObj [(''ledger_index'', JUint 7), (''status'', JStr ''success''), (''validated'', JBool True)])])
     else if length ps = 1 then Body (xrp_ledger_reply [''AB'']) else NoReply))
     \<lparr>mysql_query := (\<lambda>_ _. Rows [[Some ''4'', Some ''6'']])\<rparr>"

definition ripple_start :: syncer where
  "ripple_start = idle\<lparr>vect_sql := [''x''], timers := [(''ScanXRP'', 5)], xrp_base_address := ''B'',
     map_coinid_node := [(4, some_node)]\<rparr>"

lemma ripple_turn: "\<exists>t. loop_step ripple_net ripple_start t \<and> vect_sql t = []"
proof -
  let ?E = ripple_net
  let ?v = "ripple_start\<lparr>timers := []\<rparr>"
  have v: "xrp_base_address ?v = ''B''" "map_coinid_node ?v = [(4, some_node)]" "posts ?v = []" "db_log ?v = []"
    by (simp_all add: ripple_start_def)
  have n: "stoi ''4'' = Val 4" "stoi ''6'' = Val 6" by code_simp+
  have g: "get_current_height ?E ''XRP'' ?v = (?v, Val (Some (4, 6)))"
    by (simp add: get_current_height_def get_data_def bindp_def ripple_net_def convert_cell_def n prog_simps
        cell_int_def cell_u64_def cell_def)
  obtain p where p: "node_call ?E some_node ''ledger'' (JArr [mk_obj [(''ledger_index'', JStr ''validated'')]]) ?v
      = (posts_update (\<lambda>ps. ps @ [p]) ?v, Val (RPC_OK, JObj (touched [(''result'', JObj [(''ledger_index'', JUint 7),
          (''status'', JStr ''success''), (''validated'', JBool True)])])))"
    by (simp add: node_call_apply call_rpc_Body ripple_net_def v ok_reply_def)
  let ?u = "posts_update (\<lambda>ps. ps @ [p]) ?v"
  have l: "xrp_ledger ?E 4 some_node 7 7 ?u =
      (?u\<lparr>posts := posts ?u @ [xrp_ledger_request some_node 7, xrp_tx_request some_node ''AB''],
         db_log := db_log ?u @ ''START TRANSACTION'' # map c_str (vect_sql ?u @ [sql_block 4 '''' 7]) @ [''COMMIT''],
         vect_sql := []\<rparr>, Val (Continue ()))"
    by (rule xrp_ledger_recorded_without_its_payments [where txs = "[]"]) (simp_all add: ripple_net_def ripple_start_def)
  obtain t where t: "task_scan_xrp ?E ?v = (t, Val ())" "vect_sql t = []"
    using l by (simp add: task_scan_xrp_def scan_xrp_def with_node_def bindp_def g p v heights_def touched_def field_defs
        prog_simps set_timeout_def)
  have "loop_step ?E ripple_start t"
    by (rule loop_step.fire [where name = "''ScanXRP''" and task = "task_scan_xrp ?E"])
       (use t in \<open>simp_all add: ripple_start_def task_table_def\<close>)
  then show ?thesis using t(2) by blast
qed

theorem loop_sends_queue_witness:
  "\<exists>t batches added. loop_step ripple_net ripple_start t \<and> db_log t = concat (map transaction batches)
     \<and> concat batches = ''x'' # added \<and> list_all scan_row added"
proof -
  obtain t where t: "loop_step ripple_net ripple_start t" "vect_sql t = []" using ripple_turn by blast
  have "loop_reach ripple_net ripple_start t" by (rule loop_reach.turn [OF loop_reach.start t(1)])
  from loop_sends_queue_in_order [OF this] obtain batches added where
    "db_log t = db_log ripple_start @ concat (map transaction batches)"
    "concat batches @ vect_sql t = vect_sql ripple_start @ added" "list_all scan_row added"
    by blast
  then show ?thesis using t by (auto simp: ripple_start_def)
qed

subsection \<open>Callbacks\<close>

lemma callback_transaction_down:
  assumes "http_answer E (posts w) (callback_url w, '''', c) = NoReply"
  shows "callback_transaction E c w =
           (posts_update (\<lambda>ps. ps @ [(callback_url w, '''', c)]) w,
            Exc (TypeError 302 ''type must be number, but is null''))"
  using assms by (simp add: callback_transaction_def bindp_def call_rpc_NoReply field_defs prog_simps)

text \<open>
  When the exchange's callback server does not answer, recording an Ethereum transfer throws
  a \<open>type_error\<close> (the missing reply is read as a number) before its two SQL statements are
  queued: the post is made, nothing is stored, neither for the database nor for a later retry.
\<close>

theorem eth_record_callback_down:
  assumes "http_answer E (posts w) (callback_url w, '''', eth_callback coin value address txid is_token) = NoReply"
  shows "eth_record E cid tid coin is_token txid from to value fee flag address w =
           (posts_update (\<lambda>ps. ps @ [(callback_url w, '''', eth_callback coin value address txid is_token)]) w,
            Exc (TypeError 302 ''type must be number, but is null''))"
  by (simp add: eth_record_def bindp_def callback_transaction_down [OF assms])

theorem eth_record_callback_down_witness:
  "eth_record (net (\<lambda>_ _. NoReply)) 2 0 ''ETH'' False ''0xab'' ''0X1'' ''0X2'' ''5'' 21000 0 ''0X2'' idle =
     (posts_update (\<lambda>ps. ps @ [('''', '''', eth_callback ''ETH'' ''5'' ''0X2'' ''0xab'' False)]) idle,
      Exc (TypeError 302 ''type must be number, but is null''))"
  using eth_record_callback_down [of "net (\<lambda>_ _. NoReply)" idle "''ETH''" "''5''" "''0X2''" "''0xab''" False]
  by simp

lemma call_rpc_code:
  assumes "http_answer E (posts w) (url, auth, p) = Body (JObj [(''code'', JInt n)])"
  shows "call_rpc E url auth p r w =
           (posts_update (\<lambda>ps. ps @ [(url, auth, p)]) w,
            Val (RPC_OK, JObj [(''code'', JInt n), (''error'', JNull)]))"
  using assms by (simp add: call_rpc_Body ok_reply_def touched_def)

text \<open>
  C29: \<open>reCallback\<close>: when the callback server answers every stored callback with a code, each is
  posted once, in order, and exactly those answered with the code 1 stay stored, in order.
\<close>

theorem re_callback_keeps_refused:
  assumes "\<And>ps c. http_answer E ps (callback_url w, '''', c) = Body (JObj [(''code'', JInt (code c))])"
  shows "re_callback E w =
           (w\<lparr>posts := posts w @ map (\<lambda>c. (callback_url w, '''', c)) (json_callback w),
              json_callback := filter (\<lambda>c. wrap_i32 (code c) = 1) (json_callback w)\<rparr>, Val ())"
proof -
  have loop: "foreach cs kept (\<lambda>kept c.
              bindp (gets callback_url) (\<lambda>url.
              bindp (call_rpc E url '''' c JNull) (\<lambda>(ret_type, json_response).
              bindp (field_int json_response ''code'') (\<lambda>n.
              ret (Continue (if n = 1 then kept @ [c] else kept)))))) v
        = (v\<lparr>posts := posts v @ map (\<lambda>c. (callback_url w, '''', c)) cs\<rparr>,
           Val (kept @ filter (\<lambda>c. wrap_i32 (code c) = 1) cs))"
    if "callback_url v = callback_url w" for cs kept v
    using that
  proof (induction cs arbitrary: kept v)
    case Nil
    then show ?case by (simp add: prog_simps)
  next
    case (Cons c cs)
    have c: "call_rpc E (callback_url w) '''' c JNull v
      = (posts_update (\<lambda>ps. ps @ [(callback_url w, '''', c)]) v,
         Val (RPC_OK, JObj [(''code'', JInt (code c)), (''error'', JNull)]))"
      by (rule call_rpc_code) (rule assms)
    show ?case
      unfolding foreach.simps
      by (rule bindp_ValI, simp add: Cons.prems, rule bindp_ValI, rule c)
         (simp add: field_defs prog_simps, simp add: Cons.IH Cons.prems)
  qed
  show ?thesis
    by (simp add: re_callback_def bindp_def prog_simps loop)
qed

theorem re_callback_keeps_refused_witness:
  "re_callback (net (\<lambda>_ (_, _, c). Body (JObj [(''code'', JInt (if c = JBool True then 1 else 0))])))
     (idle\<lparr>json_callback := [JBool True, JBool False]\<rparr>)
   = (idle\<lparr>posts := [('''', '''', JBool True), ('''', '''', JBool False)], json_callback := [JBool True]\<rparr>, Val ())"
  using re_callback_keeps_refused
    [of "net (\<lambda>_ (_, _, c). Body (JObj [(''code'', JInt (if c = JBool True then 1 else 0))]))"
        "idle\<lparr>json_callback := [JBool True, JBool False]\<rparr>" "\<lambda>c. if c = JBool True then 1 else 0"]
  by simp

subsection \<open>Ethereum transfers\<close>

lemma hex_val_append: "hex_val (xs @ ys) = hex_val xs * 16 ^ length ys + hex_val ys"
proof (induction ys rule: rev_induct)
  case Nil
  show ?case by (simp add: hex_val_def)
next
  case (snoc y ys)
  have "hex_val (zs @ [y]) = 16 * hex_val zs + hex_digit_val y" for zs by (simp add: hex_val_def)
  from this [of "xs @ ys"] this [of ys] snoc show ?case by (simp add: algebra_simps)
qed

lemma hex_digit_val_less: "is_hex_digit c \<Longrightarrow> hex_digit_val c < 16"
  by (auto simp: is_hex_digit_def hex_digit_val_def is_digit_def)

lemma hex_val_less: "list_all is_hex_digit xs \<Longrightarrow> hex_val xs < 16 ^ length xs"
proof (induction xs)
  case Nil
  show ?case by (simp add: hex_val_def)
next
  case (Cons x xs)
  have one: "hex_val [x] < 16" using Cons.prems by (simp add: hex_val_def hex_digit_val_less)
  have "hex_val (x # xs) = hex_val [x] * 16 ^ length xs + hex_val xs"
    using hex_val_append [of "[x]" xs] by simp
  also have "\<dots> < (hex_val [x] + 1) * 16 ^ length xs" using Cons by simp
  also have "\<dots> \<le> 16 * 16 ^ length xs" using one by (intro mult_right_mono) auto
  finally show ?case by simp
qed

lemma hex_val_slice:
  assumes "list_all is_hex_digit ds"
  shows "hex_val (take n (drop m ds)) = hex_val ds div 16 ^ (length ds - m - n) mod 16 ^ min n (length ds - m)"
proof -
  let ?a = "take m ds" and ?b = "take n (drop m ds)" and ?c = "drop n (drop m ds)"
  have ds: "ds = ?a @ ?b @ ?c" by (simp only: append_take_drop_id)
  have all: "list_all is_hex_digit ?b" "list_all is_hex_digit ?c"
    using assms by (auto simp: list_all_iff dest: in_set_takeD in_set_dropD)
  have "hex_val ds = hex_val ?a * 16 ^ length (?b @ ?c) + (hex_val ?b * 16 ^ length ?c + hex_val ?c)"
    by (subst ds) (simp only: hex_val_append)
  also have "\<dots> = (hex_val ?a * 16 ^ length ?b + hex_val ?b) * 16 ^ length ?c + hex_val ?c"
    by (simp add: power_add algebra_simps)
  finally have "hex_val ds div 16 ^ length ?c = hex_val ?a * 16 ^ length ?b + hex_val ?b"
    using hex_val_less [OF all(2)] by simp
  then have "hex_val ds div 16 ^ length ?c mod 16 ^ length ?b = hex_val ?b"
    using hex_val_less [OF all(1)] by simp
  then show ?thesis by (simp add: min.commute add.commute)
qed

text \<open>
  The amount \<open>scanETH\<close> reads from the call data of a token transfer is not the transferred
  amount: when the call data ends with the 64 hexadecimal digits of the amount \<open>v\<close>, the text
  handed to GMP is the number \<open>v div 16 mod 16\<^sup>40\<close>, because the cut of 40 digits starts one
  digit too early and loses the last one.
\<close>

theorem erc20_amount_loses_last_digit:
  assumes "length ds = 64" and "list_all is_hex_digit ds"
  shows "take 2 (erc20_amount (pre @ ds)) = ''0x'' \<and>
         hex_val (drop 2 (erc20_amount (pre @ ds))) = hex_val ds div 16 mod 16 ^ 40"
  using hex_val_slice [OF assms(2), of 40 23] assms(1)
  by (simp add: erc20_amount_def substr_def)

theorem erc20_amount_loses_last_digit_witness:
  "length (replicate 61 (CHR ''0'') @ ''1f4'') = 64 \<and>
   hex_val (drop 2 (erc20_amount (''0xa9059cbb'' @ replicate 61 (CHR ''0'') @ ''1f4'')))
     = hex_val (replicate 61 (CHR ''0'') @ ''1f4'') div 16 mod 16 ^ 40"
  using erc20_amount_loses_last_digit
    [of "replicate 61 (CHR ''0'') @ ''1f4''" "''0xa9059cbb''"]
  by (simp add: is_hex_digit_def is_digit_def list_all_iff)

text \<open>Token transfers read the receiver and the own side as documented.\<close>

lemma eth_fee_state [simp]: "fst (eth_fee E t w) = w"
  by (auto simp: eth_fee_def to_mpz_def bindp_def field_defs prog_simps
      split: outcome.splits option.splits prod.splits)

lemma callback_keeps [simp]:
  "vect_sql (fst (callback_transaction E c w)) = vect_sql w"
  "address_id_eth (fst (callback_transaction E c w)) = address_id_eth w"
  "address_id_btc (fst (callback_transaction E c w)) = address_id_btc w"
  "db_log (fst (callback_transaction E c w)) = db_log w"
  by (auto simp: callback_transaction_def call_rpc_def bindp_def field_defs prog_simps
      split: outcome.splits http_reply.splits prod.splits)

lemma eth_fee_result: "eth_fee E t w = (u, r) \<Longrightarrow> u = w"
  using eth_fee_state [of E t w] by simp

lemma to_mpz_result: "to_mpz E s w = (u, r) \<Longrightarrow> u = w"
  by (auto simp: to_mpz_def prog_simps split: option.splits)

lemma eth_record_effect:
  "vect_sql (fst (eth_record E cid tid coin tok txid from to value fee flag address w)) =
     (case snd (callback_transaction E (eth_callback coin value address txid tok) w) of
        Val _ \<Rightarrow> vect_sql w @ [sql_txaccount cid tid txid from to value (mpz_get_str E fee),
                               sql_txutxo txid 0 address value flag]
      | _ \<Rightarrow> vect_sql w)"
proof -
  obtain t r where c: "callback_transaction E (eth_callback coin value address txid tok) w = (t, r)" by fastforce
  then have "vect_sql t = vect_sql w" using callback_keeps(1) by (metis fst_conv)
  with c show ?thesis
    by (cases r) (simp_all add: eth_record_def bindp_def push_sql_def prog_simps)
qed

text \<open>The callback server answers a callback: it is posted, and stored when it is refused with code 1.\<close>

definition called_back :: "(json \<Rightarrow> int) \<Rightarrow> json \<Rightarrow> syncer \<Rightarrow> syncer" where
  "called_back code c w =
     w\<lparr>posts := posts w @ [(callback_url w, '''', c)],
       json_callback := json_callback w @ (if wrap_i32 (code c) = 1 then [c] else [])\<rparr>"

lemma called_back_keeps [simp]:
  "vect_sql (called_back code c w) = vect_sql w" "callback_url (called_back code c w) = callback_url w"
  "address_id_btc (called_back code c w) = address_id_btc w" "txid_address (called_back code c w) = txid_address w"
  "db_log (called_back code c w) = db_log w" "posts (called_back code c w) = posts w @ [(callback_url w, '''', c)]"
  by (simp_all add: called_back_def)

lemma callback_answered:
  assumes "\<And>ps c. http_answer E ps (callback_url w, '''', c) = Body (JObj [(''code'', JInt (code c))])"
  shows "callback_transaction E c w = (called_back code c w, Val ())"
  using assms
  by (simp add: callback_transaction_def bindp_def call_rpc_code [where n = "code c"] field_defs called_back_def prog_simps)

lemma eth_flag_native_cases:
  "eth_flag_native own from to =
     (if has_key own to then Some (0, to) else if has_key own from then Some (1, from) else None)"
  by (simp add: eth_flag_native_def)

text \<open>
  C22: A native Ethereum transfer, given that the callback server answers: when neither side is an own
  address nothing happens. Otherwise one callback is posted (and stored when it is refused), and two
  rows are queued: the transfer with sender, receiver, amount and fee (gas times price), and one
  movement of the same amount, which is the receiver's with flag 0 whenever the receiver is an own
  address and the sender's with flag 1 otherwise. The flag 2 of an internal transfer is never
  recorded, not even between two own addresses. Nothing else changes.
\<close>

theorem eth_native_transfer_rows:
  assumes "\<And>ps c. http_answer E ps (callback_url w, '''', c) = Body (JObj [(''code'', JInt (code c))])"
    and "map_of t ''to'' = Some (JStr to)" and "map_of t ''gas'' = Some (JStr gas)"
    and "map_of t ''gasPrice'' = Some (JStr price)" and "mpz_set_str E gas = Some g"
    and "mpz_set_str E price = Some p" and "mpz_set_str E value = Some v"
  shows "eth_native_tx E cid (JObj t) from txid value w =
    (let own = address_id_eth w; amount = mpz_get_str E v; receiver = toupper to;
         (flag, address) = (if has_key own receiver then (0, receiver) else (1, from)) in
     if \<not> has_key own from \<and> \<not> has_key own receiver then w
     else (called_back code (eth_callback ''ETH'' amount address txid False) w)
            \<lparr>vect_sql := vect_sql w @ [sql_txaccount cid 0 txid from receiver amount (mpz_get_str E (g * p)),
                                      sql_txutxo txid 0 address amount flag]\<rparr>,
     Val ())"
proof -
  have fee: "eth_fee E (JObj t) w = (w, Val (g * p))"
    using assms(3-6) by (simp add: eth_fee_def to_mpz_def bindp_def field_defs prog_simps)
  have rec: "eth_record E cid 0 ''ETH'' False txid from (toupper to) a f flag address w =
      ((called_back code (eth_callback ''ETH'' a address txid False) w)
         \<lparr>vect_sql := vect_sql w @ [sql_txaccount cid 0 txid from (toupper to) a (mpz_get_str E f), sql_txutxo txid 0 address a flag]\<rparr>,
       Val ())" for a f flag address
    by (simp add: eth_record_def bindp_def callback_answered [OF assms(1)] push_sql_def modify_apply)
  show ?thesis
    using assms(2,7) fee rec
    by (simp add: eth_native_tx_def Let_def bindp_def field_defs prog_simps to_mpz_def eth_flag_native_cases)
qed

definition two_own :: syncer where
  "two_own = idle\<lparr>address_id_eth := [(''0X1'', 1), (''0X2'', 2)]\<rparr>"

definition counting_net :: monitor_env where
  "counting_net = (net (\<lambda>_ _. Body (JObj [(''code'', JInt 0)])))\<lparr>mpz_set_str := (\<lambda>s. Some (int (length s)))\<rparr>"

text \<open>Both sides are own addresses: the flag is 0.\<close>

theorem eth_native_transfer_rows_witness:
  "vect_sql (fst (eth_native_tx counting_net 2
      (JObj [(''to'', JStr ''0x2''), (''gas'', JStr ''ab''), (''gasPrice'', JStr ''c'')]) ''0X1'' ''t'' ''0x5'' two_own))
   = [sql_txaccount 2 0 ''t'' ''0X1'' ''0X2'' '''' '''', sql_txutxo ''t'' 0 ''0X2'' '''' 0]"
proof -
  have u: "toupper ''0x2'' = ''0X2''" by code_simp
  have k: "address_id_eth two_own = [(''0X1'', 1), (''0X2'', 2)]" "vect_sql two_own = []"
    by (simp_all add: two_own_def)
  show ?thesis
    by (subst eth_native_transfer_rows [where code = "\<lambda>_. 0" and to = "''0x2''" and gas = "''ab''" and price = "''c''"
          and g = 2 and p = 1 and v = 3])
       (simp_all add: counting_net_def net_def u k Let_def)
qed

subsection \<open>Bitcoin outputs\<close>

text \<open>An output of a transaction: its number, its value, its addresses; an input with or without a transaction.\<close>

type_synonym btc_out = "int \<times> dbl \<times> string list"

definition vout_json :: "btc_out \<Rightarrow> json" where
  "vout_json out = (case out of (number, v, addresses) \<Rightarrow>
     JObj [(''n'', JInt number), (''scriptPubKey'', JObj [(''addresses'', JArr (map JStr addresses))]), (''value'', JFloat v)])"

definition vin_json :: "string option \<Rightarrow> json" where
  "vin_json i = (case i of None \<Rightarrow> JObj [(''coinbase'', JStr '''')] | Some txid \<Rightarrow> JObj [(''txid'', JStr txid)])"

text \<open>
  What is recorded for an address at a place among the addresses of an output, if anything, and the
  callback for it. \<open>spends\<close>: the transaction spends a remembered one.
\<close>

definition btc_row :: "(string, int) smap \<Rightarrow> bool \<Rightarrow> string \<Rightarrow> int \<Rightarrow> dbl \<Rightarrow> nat \<times> string \<Rightarrow> (string \<times> json) list" where
  "btc_row own spends txid number v = (\<lambda>(place, address).
     let c = btc_callback (btc_value v) number address txid in
     if has_key own address then [(sql_txutxo txid (int place) address (btc_value v) (if spends then 2 else 0), c)]
     else if spends then [(sql_txutxo txid number address (btc_value v) 1, c)]
     else [])"

definition btc_out_rows :: "(string, int) smap \<Rightarrow> bool \<Rightarrow> string \<Rightarrow> btc_out \<Rightarrow> (string \<times> json) list" where
  "btc_out_rows own spends txid out = (case out of (number, v, addresses) \<Rightarrow>
     concat (map (btc_row own spends txid number v) (enumerate 0 addresses)))"

text \<open>What a list of rows does to the state.\<close>

definition rows_done :: "(string \<times> json) list \<Rightarrow> syncer \<Rightarrow> syncer \<Rightarrow> bool" where
  "rows_done rs w t \<longleftrightarrow>
     vect_sql t = vect_sql w @ map fst rs \<and> posts t = posts w @ map (\<lambda>r. (callback_url w, '''', snd r)) rs
     \<and> address_id_btc t = address_id_btc w \<and> callback_url t = callback_url w \<and> db_log t = db_log w"

lemma rows_done_trans: "rows_done rs s t \<Longrightarrow> rows_done qs t u \<Longrightarrow> rows_done (rs @ qs) s u"
  by (simp add: rows_done_def)

lemma rows_done_none [simp]: "rows_done [] w w"
  by (simp add: rows_done_def)

lemma btc_address_done:
  assumes "\<And>ps c. http_answer E ps (callback_url w, '''', c) = Body (JObj [(''code'', JInt (code c))])"
  shows "\<exists>t. btc_address E txid spends number (btc_value v) place address w = (t, Val ())
    \<and> rows_done (btc_row (address_id_btc w) spends txid number v (place, address)) w t"
proof -
  have c: "callback_transaction E c u = (called_back code c u, Val ())" if "callback_url u = callback_url w" for c u
    by (rule callback_answered) (simp add: assms that)
  show ?thesis
    by (simp add: btc_address_def bindp_def push_sql_def prog_simps c btc_row_def rows_done_def Let_def)
qed

text \<open>A loop over a list, each round of which does some rows.\<close>

lemma rows_loop:
  assumes "\<And>x u. x \<in> set xs \<Longrightarrow> address_id_btc u = own \<Longrightarrow> callback_url u = url \<Longrightarrow> \<exists>t. f x u = (t, Val ()) \<and> rows_done (g x) u t"
    and "address_id_btc w = own" and "callback_url w = url"
  shows "\<exists>t. forall_do xs f w = (t, Val ()) \<and> rows_done (concat (map g xs)) w t"
  using assms
proof (induction xs arbitrary: w)
  case (Cons x xs)
  obtain u where u: "f x w = (u, Val ())" "rows_done (g x) w u" using Cons.prems by fastforce
  then have "address_id_btc u = own" "callback_url u = url" using Cons.prems(2,3) by (simp_all add: rows_done_def)
  then obtain t where "forall_do xs f u = (t, Val ())" "rows_done (concat (map g xs)) u t"
    using Cons.IH [of u] Cons.prems(1) by fastforce
  then show ?case using u by (auto simp: bindp_def intro: rows_done_trans)
qed (simp add: ret_apply)

lemma btc_vout_done:
  assumes "\<And>ps c. http_answer E ps (callback_url w, '''', c) = Body (JObj [(''code'', JInt (code c))])"
    and "- (2 ^ 31) \<le> number" and "number < 2 ^ 31"
  shows "\<exists>t. btc_vout E txid spends (vout_json (number, v, addresses)) w = (t, Val ())
    \<and> rows_done (btc_out_rows (address_id_btc w) spends txid (number, v, addresses)) w t"
proof -
  let ?f = "\<lambda>n. bindp (lift (at_idx (JArr (map JStr addresses)) n)) (\<lambda>a. bindp (lift (get_string a)) (\<lambda>address.
         btc_address E txid spends number (btc_value v) n address))"
  have n: "wrap_i32 number = number" using assms(2,3) by (rule wrap_i32_id)
  have "\<exists>t. forall_do [0..<length addresses] ?f w = (t, Val ())
    \<and> rows_done (concat (map (\<lambda>n. btc_row (address_id_btc w) spends txid number v (n, addresses ! n)) [0..<length addresses])) w t"
  proof (rule rows_loop [OF _ refl refl])
    fix n and u :: syncer
    assume "n \<in> set [0..<length addresses]" "address_id_btc u = address_id_btc w" "callback_url u = callback_url w"
    then show "\<exists>t. ?f n u = (t, Val ()) \<and> rows_done (btc_row (address_id_btc w) spends txid number v (n, addresses ! n)) u t"
      using btc_address_done [of E u code txid spends number v n "addresses ! n"] assms(1) by (simp add: bindp_def prog_simps)
  qed
  moreover have "enumerate 0 addresses = map (\<lambda>n. (n, addresses ! n)) [0..<length addresses]"
    by (rule nth_equalityI) (simp_all add: nth_enumerate_eq)
  ultimately show ?thesis
    using n by (simp add: btc_vout_def vout_json_def bindp_def field_defs prog_simps btc_out_rows_def comp_def)
qed

lemma btc_vin_loop:
  "foreach [k..<length vins] False (\<lambda>vin k.
       bindp (lift (at_idx (JArr (map vin_json vins)) k)) (\<lambda>json_vin.
       if has_field json_vin ''txid''
       then bindp (field_string json_vin ''txid'') (\<lambda>pre_txid.
            bindp (gets txid_address) (\<lambda>m.
            if has_key m pre_txid then ret (Break True) else ret (Continue vin)))
       else ret (Continue vin))) w
   = (w, Val (\<exists>txid. Some txid \<in> set (drop k vins) \<and> has_key (txid_address w) txid))"
proof (induction "length vins - k" arbitrary: k)
  case (Suc n)
  then have k: "k < length vins" "[k..<length vins] = k # [Suc k..<length vins]" "drop k vins = vins ! k # drop (Suc k) vins"
    by (simp_all add: upt_conv_Cons Cons_nth_drop_Suc)
  note IH = Suc.hyps(1) [of "Suc k"]
  show ?case
    using IH Suc.hyps(2) k(1) unfolding k(2,3)
    by (cases "vins ! k") (auto simp: bindp_def vin_json_def field_defs prog_simps)
qed (simp add: ret_apply)

text \<open>
  C27: A Bitcoin transaction of the node, given that the callback server answers: for every output, and
  for every address of it in order, a row and a callback are made if the address is an own one or the
  transaction spends a remembered one. The row of an own address carries its place among the addresses
  of the output, with flag 2 when a remembered transaction is spent and 0 otherwise; that of a foreign
  address carries the number of the output and flag 1. The database is not written to.
\<close>

theorem btc_transaction_rows:
  assumes "http_answer E (posts w) (node_post node ''getrawtransaction'' (JArr [JStr txid, JBool True])) =
      Body (JObj [(''result'', JObj [(''vin'', JArr (map vin_json vins)), (''vout'', JArr (map vout_json outs))])])"
    and "\<And>ps c. http_answer E ps (callback_url w, '''', c) = Body (JObj [(''code'', JInt (code c))])"
    and "\<forall>out\<in>set outs. - (2 ^ 31) \<le> fst out \<and> fst out < 2 ^ 31"
  shows "\<exists>t. btc_tx E node txid w = (t, Val True)
    \<and> (let spends = (\<exists>i. Some i \<in> set vins \<and> has_key (txid_address w) i);
           rows = concat (map (btc_out_rows (address_id_btc w) spends txid) outs) in
       vect_sql t = vect_sql w @ map fst rows
       \<and> posts t = posts w @ node_post node ''getrawtransaction'' (JArr [JStr txid, JBool True])
                    # map (\<lambda>r. (callback_url w, '''', snd r)) rows
       \<and> db_log t = db_log w)"
proof -
  let ?p = "node_post node ''getrawtransaction'' (JArr [JStr txid, JBool True])"
  let ?w = "posts_update (\<lambda>ps. ps @ [?p]) w"
  define m where "m = [(''result'', JObj [(''vin'', JArr (map vin_json vins)), (''vout'', JArr (map vout_json outs))])]"
  have call: "node_call E node ''getrawtransaction'' (JArr [JStr txid, JBool True]) w = (?w, Val (RPC_OK, JObj (touched m)))"
    using assms(1) by (simp add: node_call_apply call_rpc_Body node_post_def m_def ok_reply_def)
  have res: "map_of (touched m) ''result'' =
      Some (JObj [(''vin'', JArr (map vin_json vins)), (''vout'', JArr (map vout_json outs))])"
    by (simp add: map_of_touched m_def)
  define spends where "spends = (\<exists>i. Some i \<in> set vins \<and> has_key (txid_address w) i)"
  have vin: "btc_vin (JArr (map vin_json vins)) ?w = (?w, Val spends)"
    using btc_vin_loop [of 0 vins ?w] by (simp add: btc_vin_def spends_def)
  let ?f = "\<lambda>k. bindp (lift (at_idx (JArr (map vout_json outs)) k)) (\<lambda>json_vout. btc_vout E txid spends json_vout)"
  have "\<exists>t. forall_do [0..<length outs] ?f ?w = (t, Val ())
    \<and> rows_done (concat (map (\<lambda>k. btc_out_rows (address_id_btc w) spends txid (outs ! k)) [0..<length outs])) ?w t"
  proof (rule rows_loop [of _ "address_id_btc w" "callback_url w"])
    fix k and u :: syncer
    assume k: "k \<in> set [0..<length outs]" and u: "address_id_btc u = address_id_btc w" "callback_url u = callback_url w"
    obtain number v addresses where out: "outs ! k = (number, v, addresses)" by (metis prod_cases3)
    moreover have "outs ! k \<in> set outs" using k by simp
    ultimately have "- (2 ^ 31) \<le> number" "number < 2 ^ 31" using assms(3) by force+
    then show "\<exists>t. ?f k u = (t, Val ()) \<and> rows_done (btc_out_rows (address_id_btc w) spends txid (outs ! k)) u t"
      using btc_vout_done [of E u code number txid spends v addresses] assms(2) k u out by (simp add: bindp_def prog_simps)
  qed simp_all
  moreover have "map (\<lambda>k. btc_out_rows (address_id_btc w) spends txid (outs ! k)) [0..<length outs]
      = map (btc_out_rows (address_id_btc w) spends txid) outs"
    by (rule nth_equalityI) simp_all
  ultimately obtain t where t: "forall_do [0..<length outs] ?f ?w = (t, Val ())"
      "rows_done (concat (map (btc_out_rows (address_id_btc w) spends txid) outs)) ?w t"
    by auto
  have "btc_tx E node txid w = (t, Val True)"
    using vin t(1) by (simp add: btc_tx_def bindp_def call field_defs prog_simps res)
  then show ?thesis using t(2) by (simp add: rows_done_def spends_def Let_def)
qed

text \<open>Two outputs, the first with an own address behind a foreign one; nothing remembered is spent.\<close>

definition bitcoin_net :: monitor_env where
  "bitcoin_net = net (\<lambda>ps (url, _, _).
     if url = ''n'' then Body (JObj [(''result'', JObj [(''vin'', JArr (map vin_json [None, Some ''p''])),
        (''vout'', JArr (map vout_json [(0, Dbl 1 0, [''a'', ''own'']), (1, Dbl 1 0, [''b''])]))])])
     else Body (JObj [(''code'', JInt 0)]))"

theorem btc_transaction_rows_witness:
  "\<exists>t. btc_tx bitcoin_net (some_node\<lparr>node_url := ''n''\<rparr>) ''t'' (idle\<lparr>address_id_btc := [(''own'', 1)]\<rparr>) = (t, Val True)
     \<and> vect_sql t = [sql_txutxo ''t'' 1 ''own'' (btc_value (Dbl 1 0)) 0]"
proof -
  let ?w = "idle\<lparr>address_id_btc := [(''own'', 1)]\<rparr>"
  have w: "posts ?w = []" "callback_url ?w = ''''" "txid_address ?w = []" "vect_sql ?w = []" "address_id_btc ?w = [(''own'', 1)]"
    by (simp_all add: idle_def)
  have "\<exists>t. btc_tx bitcoin_net (some_node\<lparr>node_url := ''n''\<rparr>) ''t'' ?w = (t, Val True)
    \<and> (let spends = (\<exists>i. Some i \<in> set [None, Some ''p''] \<and> has_key (txid_address ?w) i);
           rows = concat (map (btc_out_rows (address_id_btc ?w) spends ''t'') [(0, Dbl 1 0, [''a'', ''own'']), (1, Dbl 1 0, [''b''])]) in
       vect_sql t = vect_sql ?w @ map fst rows
       \<and> posts t = posts ?w @ node_post (some_node\<lparr>node_url := ''n''\<rparr>) ''getrawtransaction'' (JArr [JStr ''t'', JBool True])
                    # map (\<lambda>r. (callback_url ?w, '''', snd r)) rows
       \<and> db_log t = db_log ?w)"
    by (rule btc_transaction_rows [where code = "\<lambda>_. 0"]) (simp_all add: bitcoin_net_def w node_post_def)
  then show ?thesis by (auto simp: w btc_out_rows_def btc_row_def Let_def)
qed

text \<open>
  The amount \<open>scanBTC\<close> records for an output worth \<open>c\<close> whole coins is \<open>c\<close> times ten
  million, one tenth of its worth in satoshi.
\<close>

theorem btc_value_ten_million:
  assumes "c * 10 ^ 7 < 2 ^ 53"
  shows "btc_value (dbl_of_int (int c)) = nat_to_string (c * 10 ^ 7) @ ''.000000''"
proof (cases "c = 0")
  case True
  then show ?thesis by (simp add: btc_value_def dbl_to_string_def micros_def dbl_eval nat_to_string.simps int_to_string_def digit_char_def)
next
  case False
  have "holds_int (dmul (dbl_of_int 10000000) (dbl_of_int (int c))) (10000000 * int c)"
    using assms False by (intro dmul_exact dbl_of_int_exact) auto
  then show ?thesis
    unfolding btc_value_def by (subst dbl_to_string_int) (auto simp: nat_mult_distrib mult.commute)
qed

theorem btc_value_ten_million_witness:
  "(3::nat) * 10 ^ 7 < 2 ^ 53 \<and> btc_value (dbl_of_int (int 3)) = nat_to_string (3 * 10 ^ 7) @ ''.000000''"
  using btc_value_ten_million [of 3] by simp

subsection \<open>EOS actions\<close>

text \<open>
  An EOS transfer between two accounts neither of which is the base address makes
  \<open>scanEOS\<close> print the uninitialised variable \<open>flag\<close>: undefined behaviour.
\<close>

theorem eos_stranger_transfer_undefined:
  assumes "eos_base_address w \<noteq> from" and "eos_base_address w \<noteq> to"
  shows "eos_action E trx (JObj [(''data'', JObj [(''from'', JStr from), (''quantity'', JStr (amount @ '' EOS'')),
                                               (''to'', JStr to)])]) w = (w, Fault UndefinedBehaviour)"
proof -
  have "\<exists>p. str_find (amount @ '' EOS'') '' EOS'' = Some p" by (induction amount) auto
  then obtain p where "str_find (amount @ '' EOS'') '' EOS'' = Some p" by blast
  then show ?thesis
    using assms by (auto simp: eos_action_def bindp_def field_defs prog_simps eos_flag_def)
qed

theorem eos_stranger_transfer_undefined_witness:
  "eos_action (net (\<lambda>_ _. NoReply)) ''ab'' (JObj [(''data'', JObj [(''from'', JStr ''alice''),
      (''quantity'', JStr (''1.0000'' @ '' EOS'')), (''to'', JStr ''bob'')])])
     (idle\<lparr>eos_base_address := ''exchange''\<rparr>)
   = (idle\<lparr>eos_base_address := ''exchange''\<rparr>, Fault UndefinedBehaviour)"
  by (rule eos_stranger_transfer_undefined) simp_all

subsection \<open>Tasks that retire\<close>

text \<open>A task changes no timer but its own.\<close>

definition others_timers :: "string \<Rightarrow> syncer \<Rightarrow> syncer \<Rightarrow> bool" where
  "others_timers name w t \<longleftrightarrow> fst ` set (timers t) \<subseteq> insert name (fst ` set (timers w))"

lemma others_timers_trans: "others_timers n s t \<Longrightarrow> others_timers n t u \<Longrightarrow> others_timers n s u"
  unfolding others_timers_def by (erule subset_trans) simp

interpretation timers: scan_frame "others_timers name"
  by unfold_locales
     ((erule others_timers_trans, assumption) | (simp add: others_timers_def subset_insertI))+

lemma timers_store:
  "others_timers name w (address_id_btc_update f w)"
  "others_timers name w (address_id_eth_update f w)"
  "others_timers name w (address_id_omni_usdt_update f w)"
  "others_timers name w (json_callback_update h w)"
  by (auto simp: others_timers_def)

lemma timers_set: "steps_in (others_timers name) (set_timeout name n)"
  unfolding set_timeout_def
  by (rule timers.in_modify) (auto simp: others_timers_def dom_update)

lemma timers_load:
  "(\<And>a i w. others_timers name w (store a i w)) \<Longrightarrow>
   steps_in (others_timers name) (load_addresses E sql canon store)"
  unfolding load_addresses_def by (intro timers.prim_rules timers.in_modify) simp

lemma timers_re_callback: "steps_in (others_timers name) (re_callback E)"
  unfolding re_callback_def by (intro timers.prim_rules timers.in_modify timers_store)

lemma timers_task:
  "map_of (task_table E) name = Some task \<Longrightarrow> steps_in (others_timers name) task"
  unfolding task_table_def task_scan_btc_def task_scan_eth_def task_scan_xrp_def task_scan_eos_def
    task_scan_omni_def task_re_callback_def
  by (auto intro!: timers.step_rules timers_load timers.scan_rules timers_set timers_re_callback
      timers_store split: if_splits)

lemma loop_step_timers:
  "loop_step E w t \<Longrightarrow> fst ` set (timers t) \<subseteq> fst ` set (timers w)"
proof (induction rule: loop_step.induct)
  case (fire name w task w')
  have "others_timers name (w\<lparr>timers := AList.delete name (timers w)\<rparr>) w'"
    using timers_task [OF fire(2)] fire(3) by (rule steps_inD)
  then show ?case using fire(1) by (auto simp: others_timers_def AList.delete_eq)
qed

text \<open>
  A task whose timer is not pending never runs again: over any run of the event loop no task
  becomes pending that was not pending at the start.
\<close>

theorem retired_task_never_pending:
  assumes "loop_reach E w t" and "name \<notin> fst ` set (timers w)"
  shows "name \<notin> fst ` set (timers t)"
  using assms by (induction rule: loop_reach.induct) (auto dest: loop_step_timers)

theorem retired_task_never_pending_witness:
  "''ScanBTC'' \<notin> fst ` set (timers idle)"
proof (rule retired_task_never_pending)
  show "loop_reach (net (\<lambda>_ _. NoReply)) idle idle" by (rule loop_reach.start)
  show "''ScanBTC'' \<notin> fst ` set (timers idle)" by (simp add: idle_def)
qed

text \<open>
  The Bitcoin task retires when it runs before any Bitcoin account exists: it returns
  without setting its timer again, and so without any effect. The task runs once at start-up, so
  accounts created later are not scanned until the monitor is started again.
\<close>

theorem btc_task_retires_without_accounts:
  assumes "mysql_query E (db_log w) (c_str (sql_accounts '''' ''BTC'')) = Rows []" and "address_id_btc w = []"
  shows "task_scan_btc E w = (w, Val ())"
  using assms by (simp add: task_scan_btc_def load_addresses_def get_data_def bindp_def prog_simps)

theorem btc_task_retires_without_accounts_witness:
  "task_scan_btc ((net (\<lambda>_ _. NoReply))\<lparr>mysql_query := \<lambda>_ _. Rows []\<rparr>) idle = (idle, Val ())"
  by (rule btc_task_retires_without_accounts) (simp_all add: idle_def)

end
