(* ===== verification/WalletState.thy ===== *)
theory WalletState
  imports DbMysql
begin

section \<open>The wallet: state, node calls, key store, Ethereum module\<close>

text \<open>
  The static members of \<open>ClientRpc\<close> (\<open>server/src/rpc/client.h\<close>, \<open>client.cpp\<close>) and what its
  operations reach outside the program: the coin nodes over curl, the LevelDB key store, the
  embedded Python module behind \<open>ETHAPI\<close> (\<open>server/src/ethapi.cpp\<close>). LevelDB, Python, the JSON
  text parser and the C library's calendar functions are parameters of the model.
\<close>

subsection \<open>State\<close>

record token_info =
  tok_coin_id :: int
  tok_token_id :: int
  tok_short_name :: string
  tok_contract :: string
  tok_decimal :: int

datatype py_arg = PyStr string | PyDouble dbl | PyInt int

text \<open>What a Python method returns: nothing (an exception), an object that is no string, a string.\<close>

datatype py_reply = PyNull | PyOther | PyText string

record wallet = world +
  coinid_node :: "(int, node_info) smap"
  tokenid_coinid :: "(int, int) smap"
  tokenid_token :: "(int, token_info) smap"
  token_name_id :: "(string, int) smap"
  coin_name_id :: "(string, int) smap"
  wallet_xrp_base :: string
  wallet_eos_base :: string
  max_xrp_tag :: "32 word"
  max_eos_tag :: "32 word"
  fee_address_omni :: string
  eos_public_key :: string
  ldb_log :: "(string \<times> string \<times> bool) list"
  py_log :: "(string \<times> py_arg list) list"
  eth_instance :: "string option"

text \<open>
  \<open>ldb_log\<close> lists the \<open>Put\<close>s made on the key store with their outcome, \<open>py_log\<close> the calls of
  the Python module, \<open>eth_instance\<close> is the endpoint of the Python object once it exists.
\<close>

record wallet_env = env +
  config :: json
  json_parse :: "string \<Rightarrow> json jres"
  ldb_open :: "(string \<times> string \<times> bool) list \<Rightarrow> bool"
  ldb_put :: "(string \<times> string \<times> bool) list \<Rightarrow> string \<Rightarrow> string \<Rightarrow> bool"
  ldb_get :: "(string \<times> string \<times> bool) list \<Rightarrow> string \<Rightarrow> string option"
  py_create :: "(string \<times> py_arg list) list \<Rightarrow> string \<Rightarrow> bool"
  py_call :: "(string \<times> py_arg list) list \<Rightarrow> string \<Rightarrow> py_arg list \<Rightarrow> py_reply"
  eos_expiration :: "string \<Rightarrow> string"

type_synonym 'a wallet_prog = "(wallet, exn, 'a) prog"

text \<open>\<open>m[k]\<close> on a \<open>std::map\<close>: a missing key is inserted with a default value.\<close>

definition map_ref :: "'v \<Rightarrow> 'k \<Rightarrow> ('k, 'v) smap \<Rightarrow> 'v \<times> ('k, 'v) smap" where
  "map_ref d k m = (case map_of m k of Some v \<Rightarrow> (v, m) | None \<Rightarrow> (d, AList.update k d m))"

subsection \<open>Calls of the coin nodes\<close>

text \<open>\<open>CurlPostParams\<close> followed by \<open>json::parse\<close>: nothing when curl fails.\<close>

definition curl_post :: "'x env_scheme \<Rightarrow> string \<Rightarrow> string \<Rightarrow> json \<Rightarrow> ('a world_scheme, exn, json option) prog" where
  "curl_post E url auth data =
     bindp (gets posts) (\<lambda>ps.
     thenp (modify (posts_update (\<lambda>ps. ps @ [(url, auth, data)])))
     (case http_answer E ps (url, auth, data) of
        NoReply \<Rightarrow> ret None
      | BadBody msg \<Rightarrow> throw (ParseError msg)
      | Body j \<Rightarrow> ret (Some j)))"

definition node_request :: "string \<Rightarrow> json \<Rightarrow> json" where
  "node_request method json_params =
     mk_obj [(''id'', JStr ''curltest''), (''jsonrpc'', JStr ''1.0''), (''params'', json_params),
             (''method'', JStr method)]"

text \<open>\<open>CallNodeRPC\<close>: the reply, or nothing (its result is false and the reply keeps its old value).\<close>

definition call_node_rpc ::
  "'x env_scheme \<Rightarrow> node_info \<Rightarrow> string \<Rightarrow> json \<Rightarrow> ('a world_scheme, exn, json option) prog" where
  "call_node_rpc E node method json_params =
     curl_post E (node_url node) (node_auth node) (node_request method json_params)"

subsection \<open>The key store\<close>

definition wallet_db_name :: "'x wallet_env_scheme \<Rightarrow> string wallet_prog" where
  "wallet_db_name E = field_string (config E) ''wallet_db''"

definition set_private_key :: "'x wallet_env_scheme \<Rightarrow> string \<Rightarrow> string \<Rightarrow> bool wallet_prog" where
  "set_private_key E address private_key =
     bindp (wallet_db_name E) (\<lambda>dbname.
     bindp (gets ldb_log) (\<lambda>lg.
     if \<not> ldb_open E lg then ret False else
     thenp (modify (ldb_log_update (\<lambda>l. l @ [(address, private_key, ldb_put E lg address private_key)])))
           (if \<not> ldb_put E lg address private_key then ret False else ret True)))"

definition get_private_key :: "'x wallet_env_scheme \<Rightarrow> string \<Rightarrow> string option wallet_prog" where
  "get_private_key E address =
     bindp (wallet_db_name E) (\<lambda>dbname.
     bindp (gets ldb_log) (\<lambda>lg.
     if \<not> ldb_open E lg then ret None else ret (ldb_get E lg address)))"

subsection \<open>The Ethereum module\<close>

record eth_account =
  acc_address :: string
  acc_public_key :: string
  acc_private_key :: string

definition no_account :: eth_account where
  "no_account = \<lparr>acc_address = '''', acc_public_key = '''', acc_private_key = ''''\<rparr>"

text \<open>\<open>ETHAPI::Init\<close>: only the first endpoint that yields an object counts.\<close>

definition eth_init :: "'x wallet_env_scheme \<Rightarrow> string \<Rightarrow> unit wallet_prog" where
  "eth_init E endpoint =
     bindp (gets eth_instance) (\<lambda>inst.
     if inst \<noteq> None then ret () else
     bindp (gets py_log) (\<lambda>lg.
     if py_create E lg endpoint then modify (eth_instance_update (\<lambda>_. Some endpoint)) else ret ()))"

text \<open>A method call; without an object \<open>PyObject_CallMethod\<close> returns null.\<close>

definition py_method :: "'x wallet_env_scheme \<Rightarrow> string \<Rightarrow> py_arg list \<Rightarrow> py_reply wallet_prog" where
  "py_method E method args =
     bindp (gets eth_instance) (\<lambda>inst.
     if inst = None then ret PyNull else
     bindp (gets py_log) (\<lambda>lg.
     thenp (modify (py_log_update (\<lambda>l. l @ [(method, args)])))
           (ret (py_call E lg method args))))"

definition parse_text :: "'x wallet_env_scheme \<Rightarrow> string \<Rightarrow> ('s, exn, json) prog" where
  "parse_text E s = lift (json_parse E s)"

text \<open>The part both \<open>getResult\<close>s share: the text under \<open>data\<close>, if the code is \<open>OK\<close>.\<close>

definition eth_data :: "'x wallet_env_scheme \<Rightarrow> py_reply \<Rightarrow> ('s, exn, string option) prog" where
  "eth_data E reply =
     (case reply of
        PyText p \<Rightarrow>
          bindp (parse_text E p) (\<lambda>json_reply.
          bindp (field_int json_reply ''code'') (\<lambda>code.
          if code \<noteq> 0 then bindp (field_string json_reply ''message'') (\<lambda>_. ret None)
          else bindp (field_string json_reply ''data'') (\<lambda>d. ret (Some d))))
      | _ \<Rightarrow> fault UndefinedBehaviour)"

text \<open>
  A call whose result is a text, as \<open>offlineSign\<close> and its kin make it: every exception is caught
  and counts as failure.
\<close>

definition eth_text_call :: "'x wallet_env_scheme \<Rightarrow> string \<Rightarrow> py_arg list \<Rightarrow> string option wallet_prog" where
  "eth_text_call E method args =
     catch (bindp (py_method E method args) (\<lambda>reply.
            if reply = PyNull then ret None else eth_data E reply)) (\<lambda>_. ret None)"

definition eth_get_balance :: "'x wallet_env_scheme \<Rightarrow> string \<Rightarrow> string option wallet_prog" where
  "eth_get_balance E acc = eth_text_call E ''getBalance'' [PyStr acc]"

definition eth_get_erc20_balance :: "'x wallet_env_scheme \<Rightarrow> string \<Rightarrow> string \<Rightarrow> int \<Rightarrow> string option wallet_prog" where
  "eth_get_erc20_balance E acc contract decimals =
     eth_text_call E ''getERC20Balance'' [PyStr acc, PyStr contract, PyInt decimals]"

definition eth_offline_sign ::
  "'x wallet_env_scheme \<Rightarrow> string \<Rightarrow> string \<Rightarrow> dbl \<Rightarrow> dbl \<Rightarrow> string option wallet_prog" where
  "eth_offline_sign E privkey to amount fee =
     eth_text_call E ''offlineSign'' [PyStr privkey, PyStr to, PyDouble amount, PyDouble fee]"

definition eth_offline_sign_erc20 ::
  "'x wallet_env_scheme \<Rightarrow> string \<Rightarrow> string \<Rightarrow> string \<Rightarrow> dbl \<Rightarrow> dbl \<Rightarrow> int \<Rightarrow> string option wallet_prog" where
  "eth_offline_sign_erc20 E privkey to contract amount fee decimals =
     eth_text_call E ''offlineSignERC20''
       [PyStr privkey, PyStr to, PyStr contract, PyDouble amount, PyDouble fee, PyInt decimals]"

definition eth_keystore_gen :: "'x wallet_env_scheme \<Rightarrow> string \<Rightarrow> string \<Rightarrow> string option wallet_prog" where
  "eth_keystore_gen E passwd extra = eth_text_call E ''keystoreGen'' [PyStr passwd, PyStr extra]"

text \<open>\<open>suggestFee\<close> passes an \<open>int\<close> where the format \<open>(d)\<close> takes a \<open>double\<close> from the argument list.\<close>

definition eth_suggest_fee :: "'x wallet_env_scheme \<Rightarrow> int \<Rightarrow> string option wallet_prog" where
  "eth_suggest_fee E is_erc20 =
     bindp (gets eth_instance) (\<lambda>inst.
     if inst = None then ret None else fault UndefinedBehaviour)"

text \<open>
  A call whose result is an account: the fields are assigned one by one, an exception leaves the
  ones assigned before it.
\<close>

definition read_account :: "json \<Rightarrow> eth_account \<Rightarrow> ('s, exn, bool \<times> eth_account) prog" where
  "read_account j acc =
     catch (bindp (field_string j ''address'') (\<lambda>a. let acc = acc\<lparr>acc_address := a\<rparr> in
       catch (bindp (field_string j ''publicKey'') (\<lambda>p. let acc = acc\<lparr>acc_public_key := p\<rparr> in
         catch (bindp (field_string j ''privateKey'') (\<lambda>k. ret (True, acc\<lparr>acc_private_key := k\<rparr>)))
               (\<lambda>_. ret (False, acc))))
             (\<lambda>_. ret (False, acc))))
           (\<lambda>_. ret (False, acc))"

definition eth_account_call ::
  "'x wallet_env_scheme \<Rightarrow> string \<Rightarrow> py_arg list \<Rightarrow> eth_account \<Rightarrow> (bool \<times> eth_account) wallet_prog" where
  "eth_account_call E method args acc =
     catch (bindp (py_method E method args) (\<lambda>reply.
            if reply = PyNull then ret (False, acc) else
            bindp (eth_data E reply) (\<lambda>d.
            case d of
              None \<Rightarrow> ret (False, acc)
            | Some account \<Rightarrow> bindp (parse_text E account) (\<lambda>j. read_account j acc))))
           (\<lambda>_. ret (False, acc))"

definition eth_create_account :: "'x wallet_env_scheme \<Rightarrow> string \<Rightarrow> eth_account \<Rightarrow> (bool \<times> eth_account) wallet_prog" where
  "eth_create_account E extra acc = eth_account_call E ''createAccount'' [PyStr extra] acc"

definition eth_decrypt_keystore ::
  "'x wallet_env_scheme \<Rightarrow> string \<Rightarrow> string \<Rightarrow> eth_account \<Rightarrow> (bool \<times> eth_account) wallet_prog" where
  "eth_decrypt_keystore E keystore passwd acc =
     eth_account_call E ''decryptKeystore'' [PyStr keystore, PyStr passwd] acc"

end
