(* ===== verification/WalletInit.thy ===== *)
theory WalletInit
  imports WalletState
begin

section \<open>The wallet: start-up and node lookup\<close>

text \<open>
  \<open>ClientRpc::init\<close>, which fills the wallet's maps from the database, and \<open>getNodeInfo\<close>.
\<close>

definition sql_wallet_nodes :: string where
  "sql_wallet_nodes = ''SELECT node.node_id, coin.short_name, node_url, node_auth, wallet_url, wallet_auth ,coin_id FROM node, coin WHERE node.node_id = coin.node_id;''"

definition sql_tokens :: string where
  "sql_tokens = ''SELECT coin_id, token_id, short_name, contract, `decimal` FROM token;''"

definition sql_last_tag :: "int \<Rightarrow> string" where
  "sql_last_tag coin_id =
     ''SELECT tag, address FROM account a where a.account_id = (SELECT max(account_id) FROM account b WHERE b.coin_id = ''
       @ int_to_string coin_id @ '') and a.coin_id = '' @ int_to_string coin_id @ '';''"

text \<open>One row of nodes, one row of tokens.\<close>

definition wallet_node_row :: "json \<Rightarrow> nat \<Rightarrow> unit wallet_prog" where
  "wallet_node_row json_datas i =
     bindp (cell_int json_datas i 6) (\<lambda>coin_id.
     bindp (cell_int json_datas i 0) (\<lambda>nid.
     bindp (cell_string json_datas i 1) (\<lambda>short_name.
     thenp (modify (coin_name_id_update (AList.update short_name coin_id)))
    (bindp (cell_string json_datas i 2) (\<lambda>nurl.
     bindp (cell_string json_datas i 3) (\<lambda>nauth.
     bindp (cell_string json_datas i 4) (\<lambda>wurl.
     bindp (cell_string json_datas i 5) (\<lambda>wauth.
     modify (coinid_node_update (AList.update coin_id
       \<lparr>node_id = nid, node_url = nurl, wallet_url = wurl, node_auth = nauth, wallet_auth = wauth\<rparr>))))))))))"

definition token_row :: "json \<Rightarrow> nat \<Rightarrow> unit wallet_prog" where
  "token_row json_datas i =
     bindp (cell_int json_datas i 1) (\<lambda>token_id.
     bindp (cell_int json_datas i 0) (\<lambda>coin_id.
     bindp (cell_string json_datas i 2) (\<lambda>short_name.
     bindp (cell_string json_datas i 3) (\<lambda>contract.
     bindp (cell_int json_datas i 4) (\<lambda>decimal.
     thenp (modify (tokenid_token_update (AList.update token_id
       \<lparr>tok_coin_id = coin_id, tok_token_id = token_id, tok_short_name = short_name,
        tok_contract = contract, tok_decimal = decimal\<rparr>)))
    (thenp (modify (tokenid_coinid_update (AList.update token_id coin_id)))
           (modify (token_name_id_update (AList.update short_name token_id)))))))))"

text \<open>The last tag of a coin is read with \<open>std::stoul\<close> and cut to 32 bits.\<close>

definition init_xrp :: "'x wallet_env_scheme \<Rightarrow> unit wallet_prog" where
  "init_xrp E =
     bindp (gets coin_name_id) (\<lambda>m.
     case map_of m ''XRP'' of
       None \<Rightarrow> ret ()
     | Some coin_id \<Rightarrow>
         bindp (get_data E (sql_last_tag coin_id) [T_STRING, T_STRING] (JArr [])) (\<lambda>(_, json_datas).
         if 0 < jsize json_datas
         then bindp (cell_string json_datas 0 0) (\<lambda>text.
              bindp (lift (stoul text)) (\<lambda>n.
              let tag = of_nat n :: 32 word in
              if 0 < tag
              then thenp (modify (max_xrp_tag_update (\<lambda>_. tag)))
                  (bindp (cell_string json_datas 0 1) (\<lambda>address.
                   modify (wallet_xrp_base_update (\<lambda>_. address))))
              else thenp (modify (max_xrp_tag_update (\<lambda>_. 0)))
                         (modify (wallet_xrp_base_update (\<lambda>_. '''')))))
         else ret ()))"

definition init_eos :: "'x wallet_env_scheme \<Rightarrow> bool wallet_prog" where
  "init_eos E =
     bindp (gets coin_name_id) (\<lambda>m.
     case map_of m ''EOS'' of
       None \<Rightarrow> ret True
     | Some coin_id \<Rightarrow>
         bindp (get_data E (sql_last_tag coin_id) [T_STRING, T_STRING] (JArr [])) (\<lambda>(_, json_datas).
         if 0 < jsize json_datas
         then bindp (cell_string json_datas 0 0) (\<lambda>text.
              bindp (lift (stoul text)) (\<lambda>n.
              thenp (modify (max_eos_tag_update (\<lambda>_. of_nat n)))
             (bindp (cell_string json_datas 0 1) (\<lambda>address.
              thenp (modify (wallet_eos_base_update (\<lambda>_. address))) (ret True)))))
         else ret False))"

definition wallet_init :: "'x wallet_env_scheme \<Rightarrow> bool wallet_prog" where
  "wallet_init E =
     bindp (field (config E) ''otc_db'') (\<lambda>conf.
     bindp (open_db E conf) (\<lambda>ok.
     if \<not> ok then ret False else
     bindp (field (config E) ''fee_address_omni'') (\<lambda>fee_address.
     if is_null fee_address then ret False else
     bindp (lift (get_string fee_address)) (\<lambda>fee_address.
     thenp (modify (fee_address_omni_update (\<lambda>_. fee_address)))
    (bindp (field (config E) ''eos_public_key'') (\<lambda>key.
     if is_null key then ret False else
     bindp (lift (get_string key)) (\<lambda>key.
     thenp (modify (eos_public_key_update (\<lambda>_. key)))
    (bindp (get_data E sql_wallet_nodes [T_INT, T_STRING, T_STRING, T_STRING, T_STRING, T_STRING, T_INT] JNull)
       (\<lambda>(_, json_datas).
     thenp (forall_do [0..<jsize json_datas] (wallet_node_row json_datas))
    (bindp (get_data E sql_tokens [T_INT, T_INT, T_STRING, T_STRING, T_INT] (jclear json_datas)) (\<lambda>(_, json_datas).
     thenp (forall_do [0..<jsize json_datas] (token_row json_datas))
    (thenp (init_xrp E) (init_eos E)))))))))))))"

subsection \<open>Node lookup\<close>

definition no_node :: node_info where
  "no_node = \<lparr>node_id = 0, node_url = '''', wallet_url = '''', node_auth = '''', wallet_auth = ''''\<rparr>"

definition sql_node_of_coin :: "string \<Rightarrow> string" where
  "sql_node_of_coin coin_name =
     ''SELECT node_id, node_url, node_auth, wallet_url, wallet_auth FROM node ''
       @ tab @ tab @ tab @ tab @ tab @ ''WHERE node_id = (SELECT node_id FROM coin WHERE short_name = ''
       @ quoted coin_name @ '') ;''"

definition sql_node_of_token :: "string \<Rightarrow> string" where
  "sql_node_of_token coin_name =
     ''SELECT node_id, node_url, node_auth, wallet_url, wallet_auth FROM node ''
       @ tab @ tab @ tab @ tab @ tab @ ''WHERE node_id = (SELECT node_id FROM coin WHERE ''
       @ tab @ tab @ tab @ tab @ tab @ tab @ ''coin_id = (SELECT coin_id FROM token WHERE token.short_name = ''
       @ quoted coin_name @ ''));''"

definition sql_coin_id :: "string \<Rightarrow> string" where
  "sql_coin_id coin_name = ''SELECT coin_id FROM coin WHERE short_name = '' @ quoted coin_name @ '';''"

definition sql_token_ids :: "string \<Rightarrow> string" where
  "sql_token_ids coin_name = ''SELECT coin_id, token_id FROM token WHERE short_name = '' @ quoted coin_name @ '';''"

text \<open>The node under a coin id, as \<open>s_coinid_NodeInfo_[coin_id]\<close> reads it.\<close>

definition node_ref :: "int \<Rightarrow> node_info wallet_prog" where
  "node_ref coin_id =
     bindp (gets coinid_node) (\<lambda>m.
     thenp (modify (coinid_node_update (\<lambda>_. snd (map_ref no_node coin_id m))))
           (ret (fst (map_ref no_node coin_id m))))"

text \<open>The node's row, read once the coin is known.\<close>

definition fetch_node :: "'x wallet_env_scheme \<Rightarrow> string \<Rightarrow> int \<Rightarrow> json \<Rightarrow> node_info option wallet_prog" where
  "fetch_node E sql coin_id json_data =
     bindp (get_data E sql [T_INT, T_STRING, T_STRING, T_STRING, T_STRING] (jclear json_data)) (\<lambda>(_, json_data).
     if 0 < jsize json_data then
       bindp (cell_int json_data 0 0) (\<lambda>nid.
       bindp (cell_string json_data 0 1) (\<lambda>nurl.
       bindp (cell_string json_data 0 2) (\<lambda>nauth.
       bindp (cell_string json_data 0 3) (\<lambda>wurl.
       bindp (cell_string json_data 0 4) (\<lambda>wauth.
       let info = \<lparr>node_id = nid, node_url = nurl, wallet_url = wurl, node_auth = nauth, wallet_auth = wauth\<rparr> in
       thenp (modify (coinid_node_update (AList.update coin_id info))) (ret (Some info)))))))
     else ret None)"

definition get_node_info :: "'x wallet_env_scheme \<Rightarrow> string \<Rightarrow> bool \<Rightarrow> node_info option wallet_prog" where
  "get_node_info E coin_name is_token =
     bindp (gets coin_name_id) (\<lambda>names.
     case map_of names coin_name of
       Some known \<Rightarrow>
         if is_token
         then bindp (gets tokenid_coinid) (\<lambda>m.
              thenp (modify (tokenid_coinid_update (\<lambda>_. snd (map_ref 0 known m))))
             (bindp (node_ref (fst (map_ref 0 known m))) (\<lambda>node. ret (Some node))))
         else bindp (node_ref known) (\<lambda>node. ret (Some node))
     | None \<Rightarrow>
         if \<not> is_token
         then bindp (get_data E (sql_coin_id coin_name) [T_INT] JNull) (\<lambda>(_, json_data).
              if 0 < jsize json_data
              then bindp (cell_int json_data 0 0) (\<lambda>coin_id.
                   thenp (modify (coin_name_id_update (AList.update coin_name coin_id)))
                         (fetch_node E (sql_node_of_coin coin_name) coin_id json_data))
              else ret None)
         else bindp (get_data E (sql_token_ids coin_name) [T_INT, T_INT] JNull) (\<lambda>(_, json_data).
              if 0 < jsize json_data
              then bindp (cell_int json_data 0 0) (\<lambda>coin_id.
                   bindp (cell_int json_data 0 1) (\<lambda>token_id.
                   thenp (modify (coin_name_id_update (AList.update coin_name token_id)))
                  (thenp (modify (tokenid_coinid_update (AList.update token_id coin_id)))
                         (fetch_node E (sql_node_of_token coin_name) coin_id json_data))))
              else ret None))"

end
