(* ===== verification/WalletTransfer.thy ===== *)
theory WalletTransfer
  imports WalletInit
begin

section \<open>The wallet: transfers\<close>

text \<open>
  \<open>ClientRpc::transfer\<close> and the transfer of each coin. A request is the constant array
  \<open>[name, is_token, from, to, balance, fee]\<close>. A transfer returns whether it succeeded and the
  response: the value it was given, with the transaction id and the output number set.
\<close>

subsection \<open>Requests and responses\<close>

definition arg :: "json \<Rightarrow> nat \<Rightarrow> ('s, exn, json) prog" where
  "arg json_request i = lift (at_const json_request i)"

definition arg_string :: "json \<Rightarrow> nat \<Rightarrow> ('s, exn, string) prog" where
  "arg_string json_request i = bindp (arg json_request i) (\<lambda>v. lift (get_string v))"

definition arg_double :: "json \<Rightarrow> nat \<Rightarrow> ('s, exn, dbl) prog" where
  "arg_double json_request i = bindp (arg json_request i) (\<lambda>v. lift (get_double v))"

definition arg_bool :: "json \<Rightarrow> nat \<Rightarrow> ('s, exn, bool) prog" where
  "arg_bool json_request i = bindp (arg json_request i) (\<lambda>v. lift (get_bool v))"

definition respond :: "json \<Rightarrow> string \<Rightarrow> ('s, exn, bool \<times> json) prog" where
  "respond json_response txid =
     bindp (lift (set_key json_response ''txid'' (JStr txid))) (\<lambda>r.
     bindp (lift (set_key r ''n'' (JInt 0))) (\<lambda>r. ret (True, r)))"

text \<open>The constants \<open>0.0000005\<close> and \<open>1e6\<close>, as the compiler rounds them.\<close>

definition dust :: dbl where "dust = dbl_of_dec 5 7"

definition million :: dbl where "million = dbl_of_int 1000000"

subsection \<open>Bitcoin\<close>

text \<open>
  The loop over the unspent outputs: inputs are taken until the change, \<open>total - balance - fee\<close>,
  reaches the dust limit; then the parameters of \<open>createrawtransaction\<close> are set. When the
  outputs do not suffice the parameters stay what they were before the loop.
\<close>

definition btc_outputs :: "string \<Rightarrow> string \<Rightarrow> dbl \<Rightarrow> dbl \<Rightarrow> json" where
  "btc_outputs from to balance recharge =
     JArr [JObj [(to, JFloat balance)], JObj [(from, JFloat recharge)]]"

definition btc_select ::
  "string \<Rightarrow> string \<Rightarrow> dbl \<Rightarrow> dbl \<Rightarrow> json \<Rightarrow> json \<Rightarrow> (wallet, exn, json) prog" where
  "btc_select from to balance fee json_unspent json_params =
     bindp (foreach [0..<jsize json_unspent] (json_params, [], Dbl 0 0) (\<lambda>(ps, vins, total) i.
       bindp (lift (at_idx json_unspent i)) (\<lambda>u.
       bindp (field_string u ''txid'') (\<lambda>txid.
       bindp (field_int u ''vout'') (\<lambda>vout.
       let vins = vins @ [mk_obj [(''txid'', JStr txid), (''vout'', JInt vout)]] in
       bindp (field_double u ''amount'') (\<lambda>amount.
       let total = dadd total amount; recharge = dsub (dsub total balance) fee in
       if dle dust recharge
       then ret (Break (JArr [JArr vins, btc_outputs from to balance recharge], vins, total))
       else ret (Continue (ps, vins, total))))))))
     (\<lambda>(ps, _, _). ret ps)"

definition transfer_btc ::
  "'x wallet_env_scheme \<Rightarrow> node_info \<Rightarrow> json \<Rightarrow> json \<Rightarrow> (bool \<times> json) wallet_prog" where
  "transfer_btc E node json_request json_response =
     bindp (arg_string json_request 2) (\<lambda>from.
     bindp (arg_string json_request 3) (\<lambda>to.
     bindp (arg_double json_request 4) (\<lambda>balance.
     bindp (arg_double json_request 5) (\<lambda>fee.
     let json_params = JArr [JInt 1, JInt 9999999, JArr [JStr from]] in
     bindp (call_node_rpc E node ''listunspent'' json_params) (\<lambda>reply.
     case reply of None \<Rightarrow> ret (False, json_response) | Some json_reply \<Rightarrow>
     bindp (field json_reply ''result'') (\<lambda>json_unspent.
     bindp (btc_select from to balance fee json_unspent json_params) (\<lambda>json_params.
     bindp (call_node_rpc E node ''createrawtransaction'' json_params) (\<lambda>reply.
     case reply of None \<Rightarrow> ret (False, json_response) | Some json_reply \<Rightarrow>
     bindp (field_string json_reply ''result'') (\<lambda>unsign_txhex.
     bindp (call_node_rpc E node ''signrawtransactionwithwallet'' (JArr [JStr unsign_txhex])) (\<lambda>reply.
     case reply of None \<Rightarrow> ret (False, json_response) | Some json_reply \<Rightarrow>
     bindp (field json_reply ''result'') (\<lambda>result.
     bindp (field_string result ''hex'') (\<lambda>sign_txhex.
     bindp (call_node_rpc E node ''sendrawtransaction'' (JArr [JStr sign_txhex])) (\<lambda>reply.
     case reply of None \<Rightarrow> ret (False, json_response) | Some json_reply \<Rightarrow>
     bindp (field_string json_reply ''result'') (\<lambda>txid. respond json_response txid))))))))))))))"

subsection \<open>Ethereum and its token\<close>

definition transfer_eth ::
  "'x wallet_env_scheme \<Rightarrow> node_info \<Rightarrow> json \<Rightarrow> json \<Rightarrow> (bool \<times> json) wallet_prog" where
  "transfer_eth E node json_request json_response =
     bindp (arg_string json_request 2) (\<lambda>from.
     bindp (arg_string json_request 3) (\<lambda>to.
     bindp (arg_double json_request 4) (\<lambda>balance.
     bindp (arg_double json_request 5) (\<lambda>fee.
     bindp (get_private_key E from) (\<lambda>key.
     case key of None \<Rightarrow> ret (False, json_response) | Some privkey \<Rightarrow>
     thenp (eth_init E (node_url node))
    (bindp (eth_offline_sign E privkey to balance fee) (\<lambda>response.
     case response of None \<Rightarrow> ret (False, json_response) | Some txid \<Rightarrow> respond json_response txid)))))))"

definition transfer_erc20_usdt ::
  "'x wallet_env_scheme \<Rightarrow> node_info \<Rightarrow> token_info \<Rightarrow> json \<Rightarrow> json \<Rightarrow> (bool \<times> json) wallet_prog" where
  "transfer_erc20_usdt E node token json_request json_response =
     bindp (arg_string json_request 2) (\<lambda>from.
     bindp (arg_string json_request 3) (\<lambda>to.
     bindp (arg_double json_request 4) (\<lambda>balance.
     bindp (arg_double json_request 5) (\<lambda>fee.
     bindp (get_private_key E from) (\<lambda>key.
     case key of None \<Rightarrow> ret (False, json_response) | Some privkey \<Rightarrow>
     thenp (eth_init E (node_url node))
    (bindp (eth_offline_sign_erc20 E privkey to (tok_contract token) balance fee (tok_decimal token)) (\<lambda>response.
     case response of None \<Rightarrow> ret (False, json_response) | Some txid \<Rightarrow> respond json_response txid)))))))"

subsection \<open>XRP\<close>

text \<open>\<open>mpz_class(x * 1e6)\<close> drops the fraction of the product.\<close>

definition xrp_drops :: "dbl \<Rightarrow> int" where
  "xrp_drops x = dtrunc (dmul x million)"

definition xrp_submit :: "string \<Rightarrow> string \<Rightarrow> string \<Rightarrow> dbl \<Rightarrow> dbl \<Rightarrow> json" where
  "xrp_submit privkey from to balance fee =
     mk_obj [(''offline'', JBool False), (''secret'', JStr privkey), (''fail_hard'', JBool True),
             (''tx_json'', mk_obj
                [(''TransactionType'', JStr ''Payment''), (''Account'', JStr from), (''Destination'', JStr to),
                 (''Amount'', JStr (int_to_string (xrp_drops balance))),
                 (''Fee'', JStr (int_to_string (xrp_drops fee))), (''Flags'', JInt 2147483648)])]"

definition transfer_xrp ::
  "'x wallet_env_scheme \<Rightarrow> node_info \<Rightarrow> json \<Rightarrow> json \<Rightarrow> (bool \<times> json) wallet_prog" where
  "transfer_xrp E node json_request json_response =
     bindp (arg_string json_request 2) (\<lambda>from.
     bindp (arg_string json_request 3) (\<lambda>to.
     bindp (arg_double json_request 4) (\<lambda>balance.
     bindp (arg_double json_request 5) (\<lambda>fee.
     bindp (get_private_key E from) (\<lambda>key.
     case key of None \<Rightarrow> ret (False, json_response) | Some privkey \<Rightarrow>
     bindp (call_node_rpc E node ''submit'' (JArr [xrp_submit privkey from to balance fee])) (\<lambda>reply.
     case reply of None \<Rightarrow> ret (False, json_response) | Some json_reply \<Rightarrow>
     bindp (field json_reply ''result'') (\<lambda>result.
     bindp (field_string result ''status'') (\<lambda>status.
     if status = ''error'' then ret (False, json_response) else
     bindp (field_string result ''engine_result'') (\<lambda>engine_result.
     if engine_result \<noteq> ''tesSUCCESS'' then ret (False, json_response) else
     bindp (field result ''tx_json'') (\<lambda>tx_json.
     bindp (field_string tx_json ''hash'') (\<lambda>txid. respond json_response txid)))))))))))"

subsection \<open>EOS\<close>

definition eos_quantity :: "dbl \<Rightarrow> string" where
  "eos_quantity balance =
     (let quantity = dbl_to_string balance in
      case str_find quantity ''.'' of
        None \<Rightarrow> quantity @ ''.0000 EOS''
      | Some p \<Rightarrow>
          (let len = p + 1; len_sub = length (drop len quantity) in
           if 4 \<le> len_sub then take (len + 4) quantity @ '' EOS''
           else if len_sub = 0 then quantity @ ''0000 EOS''
           else if len_sub = 1 then quantity @ ''000 EOS''
           else if len_sub = 2 then quantity @ ''00 EOS''
           else if len_sub = 3 then quantity @ ''0 EOS''
           else quantity))"

definition eos_chain :: "node_info \<Rightarrow> string" where
  "eos_chain node = ''http://'' @ node_url node @ ''/v1/chain/''"

definition eos_wallet :: "node_info \<Rightarrow> string" where
  "eos_wallet node = ''http://'' @ wallet_url node @ ''/v1/wallet/''"

definition eos_wallet_password :: string where
  "eos_wallet_password = ''PW5KENye24Beqh4Mt2hVwFD7e7Hg1LJXQNxopkHwiXP29xfoTwGVK''"

text \<open>The posts to the EOS daemons carry no credentials.\<close>

definition eos_post :: "'x env_scheme \<Rightarrow> string \<Rightarrow> json \<Rightarrow> ('a world_scheme, exn, json option) prog" where
  "eos_post E url data = curl_post E url '''' data"

definition eos_actions :: "string \<Rightarrow> string \<Rightarrow> json" where
  "eos_actions from binargs =
     JArr [mk_obj [(''account'', JStr ''eosio.token''), (''name'', JStr ''transfer''),
                   (''authorization'', JArr [mk_obj [(''actor'', JStr from), (''permission'', JStr ''active'')]]),
                   (''data'', JStr binargs)]]"

definition eos_unsigned :: "string \<Rightarrow> string \<Rightarrow> string \<Rightarrow> int \<Rightarrow> int \<Rightarrow> json" where
  "eos_unsigned from binargs expiration head_block_num ref_block_prefix =
     mk_obj [(''ref_block_num'', JInt head_block_num), (''ref_block_prefix'', JInt ref_block_prefix),
             (''expiration'', JStr expiration), (''actions'', eos_actions from binargs),
             (''signatures'', JArr [])]"

definition eos_signed :: "string \<Rightarrow> string \<Rightarrow> string \<Rightarrow> int \<Rightarrow> int \<Rightarrow> json \<Rightarrow> json" where
  "eos_signed from binargs expiration head_block_num ref_block_prefix signatures =
     mk_obj [(''compression'', JStr ''none''),
             (''transaction'', mk_obj
                [(''expiration'', JStr expiration), (''ref_block_num'', JInt head_block_num),
                 (''ref_block_prefix'', JInt ref_block_prefix), (''context_free_actions'', JArr []),
                 (''actions'', eos_actions from binargs), (''transaction_extensions'', JArr [])]),
             (''signatures'', signatures)]"

text \<open>Unlocking: an error other than \<open>Already unlocked\<close> ends the transfer.\<close>

definition eos_unlocked :: "json \<Rightarrow> bool wallet_prog" where
  "eos_unlocked json_reply =
     (if \<not> jempty json_reply \<and> has_field json_reply ''error''
      then bindp (field json_reply ''error'') (\<lambda>json_what.
           if \<not> has_field json_what ''what'' then ret False else
           bindp (field_string json_what ''what'') (\<lambda>what. ret (what = ''Already unlocked'')))
      else ret True)"

definition transfer_eos ::
  "'x wallet_env_scheme \<Rightarrow> node_info \<Rightarrow> json \<Rightarrow> json \<Rightarrow> (bool \<times> json) wallet_prog" where
  "transfer_eos E node json_request json_response =
     bindp (arg_string json_request 2) (\<lambda>from.
     bindp (arg_string json_request 3) (\<lambda>to.
     bindp (arg_double json_request 4) (\<lambda>balance.
     bindp (eos_post E (eos_chain node @ ''abi_json_to_bin'')
              (mk_obj [(''code'', JStr ''eosio.token''), (''action'', JStr ''transfer''),
                       (''args'', mk_obj [(''from'', JStr from), (''to'', JStr to),
                                        (''quantity'', JStr (eos_quantity balance)), (''memo'', JStr '''')])])) (\<lambda>reply.
     case reply of None \<Rightarrow> ret (False, json_response) | Some json_reply \<Rightarrow>
     if has_field json_reply ''error'' then ret (False, json_response) else
     bindp (field_string json_reply ''binargs'') (\<lambda>binargs.
     bindp (eos_post E (eos_chain node @ ''get_info'') (JObj [])) (\<lambda>reply.
     case reply of None \<Rightarrow> ret (False, json_response) | Some json_reply \<Rightarrow>
     if has_field json_reply ''error'' then ret (False, json_response) else
     bindp (field_string json_reply ''chain_id'') (\<lambda>chain_id.
     bindp (bindp (field json_reply ''head_block_num'') (\<lambda>v. lift (get_ll v))) (\<lambda>head_block_num.
     bindp (eos_post E (eos_chain node @ ''get_block'')
              (JObj [(''block_num_or_id'', JStr (int_to_string head_block_num))])) (\<lambda>reply.
     case reply of None \<Rightarrow> ret (False, json_response) | Some json_reply \<Rightarrow>
     if has_field json_reply ''error'' then ret (False, json_response) else
     bindp (field_string json_reply ''timestamp'') (\<lambda>timestamp.
     bindp (bindp (field json_reply ''ref_block_prefix'') (\<lambda>v. lift (get_ll v))) (\<lambda>ref_block_prefix.
     let expiration = eos_expiration E timestamp in
     bindp (eos_post E (eos_wallet node @ ''unlock'') (JArr [JStr ''default'', JStr eos_wallet_password])) (\<lambda>reply.
     case reply of None \<Rightarrow> ret (False, json_response) | Some json_reply \<Rightarrow>
     bindp (eos_unlocked json_reply) (\<lambda>unlocked.
     if \<not> unlocked then ret (False, json_response) else
     bindp (gets eos_public_key) (\<lambda>key.
     bindp (eos_post E (eos_wallet node @ ''sign_transaction'')
              (JArr [eos_unsigned from binargs expiration head_block_num ref_block_prefix,
                     JArr [JStr key], JStr chain_id])) (\<lambda>reply.
     case reply of None \<Rightarrow> ret (False, json_response) | Some json_reply \<Rightarrow>
     if has_field json_reply ''error'' then ret (False, json_response) else
     bindp (field json_reply ''signatures'') (\<lambda>signatures.
     bindp (eos_post E (eos_chain node @ ''push_transaction'')
              (eos_signed from binargs expiration head_block_num ref_block_prefix signatures)) (\<lambda>reply.
     case reply of None \<Rightarrow> ret (False, json_response) | Some json_reply \<Rightarrow>
     if has_field json_reply ''error'' then ret (False, json_response) else
     bindp (field_string json_reply ''transaction_id'') (\<lambda>txid. respond json_response txid))))))))))))))))))"

subsection \<open>USDT over Omni\<close>

text \<open>
  The loop over the unspent outputs of the fee address. The values carried are \<open>ret\<close>, the
  response and \<open>total\<close>; \<open>ret\<close> enters as true, from the call of \<open>listunspent\<close>.
\<close>

definition omni_send ::
  "'x wallet_env_scheme \<Rightarrow> node_info \<Rightarrow> token_info \<Rightarrow> string \<Rightarrow> string \<Rightarrow> dbl \<Rightarrow> json \<Rightarrow> (bool \<times> json) wallet_prog" where
  "omni_send E node token from to balance json_response =
     bindp (lift (stoul (tok_contract token))) (\<lambda>property_id.
     bindp (gets fee_address_omni) (\<lambda>fee_address.
     bindp (call_node_rpc E node ''omni_funded_send''
              (JArr [JStr from, JStr to, JUint property_id, JStr (dbl_to_string balance), JStr fee_address])) (\<lambda>reply.
     case reply of None \<Rightarrow> ret (False, json_response) | Some json_reply \<Rightarrow>
     bindp (field json_reply ''result'') (\<lambda>result.
     if jempty result then ret (True, json_response) else
     bindp (lift (get_string result)) (\<lambda>txid. respond json_response txid)))))"

definition transfer_omni_usdt ::
  "'x wallet_env_scheme \<Rightarrow> node_info \<Rightarrow> token_info \<Rightarrow> json \<Rightarrow> json \<Rightarrow> (bool \<times> json) wallet_prog" where
  "transfer_omni_usdt E node token json_request json_response =
     bindp (arg_string json_request 2) (\<lambda>from.
     bindp (arg_string json_request 3) (\<lambda>to.
     bindp (arg_double json_request 4) (\<lambda>balance.
     bindp (arg_double json_request 5) (\<lambda>fee.
     bindp (gets fee_address_omni) (\<lambda>fee_address.
     bindp (call_node_rpc E node ''listunspent'' (JArr [JInt 1, JInt 9999999, JArr [JStr fee_address]])) (\<lambda>reply.
     case reply of None \<Rightarrow> ret (False, json_response) | Some json_reply \<Rightarrow>
     bindp (field json_reply ''result'') (\<lambda>json_unspent.
     if jempty json_unspent then ret (True, json_response) else
     bindp (foreach [0..<jsize json_unspent] (True, json_response, Dbl 0 0) (\<lambda>(ok, response, total) i.
       bindp (lift (at_idx json_unspent i)) (\<lambda>u.
       bindp (field_bool u ''spendable'') (\<lambda>spendable.
       if \<not> spendable then ret (Continue (ok, response, total)) else
       bindp (field_double u ''amount'') (\<lambda>amount.
       let total = dadd total amount; recharge = dsub total fee in
       if dle dust recharge
       then bindp (omni_send E node token from to balance response) (\<lambda>(ok, response).
            ret (Break (ok, response, total)))
       else ret (Continue (ok, response, total)))))))
     (\<lambda>(ok, response, _). ret (ok, response)))))))))"

subsection \<open>The dispatch\<close>

definition transfer_coin ::
  "'x wallet_env_scheme \<Rightarrow> string \<Rightarrow> json \<Rightarrow> json \<Rightarrow> (bool \<times> json) wallet_prog" where
  "transfer_coin E coin_name json_request json_response =
     bindp (gets coin_name_id) (\<lambda>names.
     bindp (gets coinid_node) (\<lambda>nodes.
     case map_of names coin_name of
       None \<Rightarrow> ret (False, json_response)
     | Some coin_id \<Rightarrow>
         (case map_of nodes coin_id of
            None \<Rightarrow> ret (False, json_response)
          | Some node \<Rightarrow>
              if node_id node = 1 then transfer_btc E node json_request json_response
              else if node_id node = 2 then transfer_eth E node json_request json_response
              else if node_id node = 3 then transfer_xrp E node json_request json_response
              else if node_id node = 4 then transfer_eos E node json_request json_response
              else ret (False, json_response))))"

definition transfer_token ::
  "'x wallet_env_scheme \<Rightarrow> string \<Rightarrow> json \<Rightarrow> json \<Rightarrow> (bool \<times> json) wallet_prog" where
  "transfer_token E coin_name json_request json_response =
     bindp (gets (\<lambda>w. map_of (token_name_id w) coin_name)) (\<lambda>id.
     case id of None \<Rightarrow> ret (False, json_response) | Some token_id \<Rightarrow>
     bindp (gets (\<lambda>w. map_of (tokenid_token w) token_id)) (\<lambda>info.
     case info of None \<Rightarrow> ret (False, json_response) | Some token \<Rightarrow>
     bindp (gets (\<lambda>w. map_of (tokenid_coinid w) token_id)) (\<lambda>coin.
     case coin of None \<Rightarrow> ret (False, json_response) | Some coin_id \<Rightarrow>
     bindp (gets (\<lambda>w. map_of (coinid_node w) coin_id)) (\<lambda>n.
     case n of None \<Rightarrow> ret (False, json_response) | Some node \<Rightarrow>
     if tok_token_id token = 1 then transfer_omni_usdt E node token json_request json_response
     else if tok_token_id token = 2 then transfer_erc20_usdt E node token json_request json_response
     else ret (False, json_response)))))"

definition wallet_transfer :: "'x wallet_env_scheme \<Rightarrow> json \<Rightarrow> json \<Rightarrow> (bool \<times> json) wallet_prog" where
  "wallet_transfer E json_request json_response =
     bindp (field (config E) ''otc_db'') (\<lambda>conf.
     bindp (open_db E conf) (\<lambda>opened.
     if \<not> opened then ret (False, json_response) else
     bindp (arg_string json_request 0) (\<lambda>coin_name.
     bindp (arg_bool json_request 1) (\<lambda>is_token.
     if \<not> is_token then transfer_coin E coin_name json_request json_response
     else transfer_token E coin_name json_request json_response))))"

end
