(* ===== verification/WalletAddress.thy ===== *)
theory WalletAddress
  imports WalletInit
begin

section \<open>The wallet: new addresses\<close>

text \<open>
  \<open>ClientRpc::getNewAddress\<close> with \<open>createAddressOffline\<close> and \<open>createAddressLocalChain\<close>: the
  stock of unused accounts of a coin is compared with the wanted quantity, and new accounts are
  created, one loop per kind of coin. The results \<open>address\<close> and \<open>privkey\<close> are variables of
  \<open>getNewAddress\<close> that a failed creation leaves as they were.
\<close>

subsection \<open>Creating one address\<close>

definition create_address_offline ::
  "'x wallet_env_scheme \<Rightarrow> node_info \<Rightarrow> string \<Rightarrow> string \<Rightarrow> (bool \<times> string \<times> string) wallet_prog" where
  "create_address_offline E node address privkey =
     (if node_id node = 2 then
        thenp (eth_init E (node_url node))
       (bindp (eth_create_account E '''' no_account) (\<lambda>(created, account).
        ret (True, acc_address account, acc_private_key account)))
      else if node_id node = 3 then
        bindp (call_node_rpc E node ''wallet_propose'' (JArr [])) (\<lambda>reply.
        case reply of None \<Rightarrow> ret (False, address, privkey) | Some json_reply \<Rightarrow>
        bindp (field json_reply ''result'') (\<lambda>result.
        bindp (field_string result ''account_id'') (\<lambda>account_id.
        bindp (field_string result ''master_seed'') (\<lambda>master_seed.
        ret (True, account_id, master_seed)))))
      else ret (False, address, privkey))"

definition create_address_local_chain ::
  "'x wallet_env_scheme \<Rightarrow> node_info \<Rightarrow> string \<Rightarrow> (bool \<times> string) wallet_prog" where
  "create_address_local_chain E node address =
     (if node_id node = 1 \<or> node_id node = 5 then
        bindp (call_node_rpc E node ''getnewaddress'' (JArr [JStr '''', JStr ''legacy''])) (\<lambda>reply.
        case reply of None \<Rightarrow> ret (False, address) | Some json_reply \<Rightarrow>
        bindp (field_string json_reply ''result'') (\<lambda>result. ret (True, result)))
      else ret (False, address))"

subsection \<open>The loops\<close>

definition sql_account :: "int \<Rightarrow> int \<Rightarrow> string \<Rightarrow> string \<Rightarrow> string" where
  "sql_account account_id coin_id address tag =
     ''INSERT INTO `account` (`account_id`, `coin_id`, `address`, `tag`)''
       @ sql_values [int_to_string account_id, int_to_string coin_id, address, tag]"

text \<open>\<open>int account_id = max_account_id + i + 1\<close>, from \<open>size_t\<close> to \<open>int\<close>.\<close>

definition new_account_id :: "nat \<Rightarrow> nat \<Rightarrow> int" where
  "new_account_id max_account_id i = wrap_i32 (int ((max_account_id + i + 1) mod 2 ^ 64))"

text \<open>Bitcoin and Omni: the node makes the address and keeps its key.\<close>

definition new_chain_addresses ::
  "'x wallet_env_scheme \<Rightarrow> node_info \<Rightarrow> int \<Rightarrow> nat \<Rightarrow> string \<Rightarrow> nat \<Rightarrow> string list wallet_prog" where
  "new_chain_addresses E node coin_id max_account_id tag quantity =
     bindp (foreach [0..<quantity] ([], '''') (\<lambda>(sqls, address) i.
       bindp (create_address_local_chain E node address) (\<lambda>(ok, address).
       if ok
       then ret (Continue (sqls @ [sql_account (new_account_id max_account_id i) coin_id address tag], address))
       else ret (Continue (sqls, address)))))
     (\<lambda>(sqls, _). ret sqls)"

text \<open>Ethereum: the key is stored before the address is recorded.\<close>

definition new_eth_addresses ::
  "'x wallet_env_scheme \<Rightarrow> node_info \<Rightarrow> int \<Rightarrow> nat \<Rightarrow> nat \<Rightarrow> string list wallet_prog" where
  "new_eth_addresses E node coin_id max_account_id quantity =
     bindp (foreach [0..<quantity] ([], '''', '''') (\<lambda>(sqls, address, privkey) i.
       bindp (create_address_offline E node address privkey) (\<lambda>(ok, address, privkey).
       if ok then
         bindp (set_private_key E address privkey) (\<lambda>stored.
         if \<not> stored then ret (Continue (sqls, address, privkey))
         else ret (Continue (sqls @ [sql_account (new_account_id max_account_id i) coin_id address ''ETH''],
                             address, privkey)))
       else ret (Continue (sqls, address, privkey)))))
     (\<lambda>(sqls, _, _). ret sqls)"

definition tag_string :: "32 word \<Rightarrow> string" where
  "tag_string t = nat_to_string (unat t)"

text \<open>XRP: one base address, created when there is none, and a new tag for each account.\<close>

definition xrp_next_row :: "int \<Rightarrow> nat \<Rightarrow> string list \<Rightarrow> nat \<Rightarrow> string list wallet_prog" where
  "xrp_next_row coin_id max_account_id sqls i =
     thenp (modify (max_xrp_tag_update (\<lambda>t. t + 1)))
    (bindp (gets max_xrp_tag) (\<lambda>t.
     bindp (gets wallet_xrp_base) (\<lambda>base.
     ret (sqls @ [sql_account (new_account_id max_account_id i) coin_id base (tag_string t)]))))"

definition new_xrp_addresses ::
  "'x wallet_env_scheme \<Rightarrow> node_info \<Rightarrow> int \<Rightarrow> nat \<Rightarrow> nat \<Rightarrow> string list wallet_prog" where
  "new_xrp_addresses E node coin_id max_account_id quantity =
     bindp (foreach [0..<quantity] ([], '''', '''') (\<lambda>(sqls, address, privkey) i.
       bindp (gets max_xrp_tag) (\<lambda>t.
       if t \<le> 0 then
         bindp (create_address_offline E node address privkey) (\<lambda>(ok, address, privkey).
         if \<not> ok then ret (Break (sqls, address, privkey)) else
         bindp (set_private_key E address privkey) (\<lambda>stored.
         if \<not> stored then ret (Break (sqls, address, privkey)) else
         thenp (modify (wallet_xrp_base_update (\<lambda>_. address)))
        (bindp (xrp_next_row coin_id max_account_id sqls i) (\<lambda>sqls. ret (Continue (sqls, address, privkey))))))
       else
         bindp (gets wallet_xrp_base) (\<lambda>base.
         if base = '''' then ret (Break (sqls, address, privkey)) else
         bindp (xrp_next_row coin_id max_account_id sqls i) (\<lambda>sqls. ret (Continue (sqls, address, privkey)))))))
     (\<lambda>(sqls, _, _). ret sqls)"

definition new_eos_addresses :: "int \<Rightarrow> nat \<Rightarrow> nat \<Rightarrow> string list wallet_prog" where
  "new_eos_addresses coin_id max_account_id quantity =
     foreach [0..<quantity] [] (\<lambda>sqls i.
       bindp (gets wallet_eos_base) (\<lambda>base.
       if base = '''' then ret (Break sqls) else
       thenp (modify (max_eos_tag_update (\<lambda>t. t + 1)))
      (bindp (gets max_eos_tag) (\<lambda>t.
       ret (Continue (sqls @ [sql_account (new_account_id max_account_id i) coin_id base (tag_string t)]))))))"

subsection \<open>The operation\<close>

definition sql_counts :: "int \<Rightarrow> string" where
  "sql_counts coin_id =
     ''SELECT COUNT(*) FROM user WHERE coin_id = '' @ int_to_string coin_id
       @ '' UNION ALL SELECT COUNT(*) FROM account WHERE coin_id = '' @ int_to_string coin_id
       @ '' UNION ALL SELECT MAX(account_id) FROM account WHERE coin_id = '' @ int_to_string coin_id @ '';''"

text \<open>\<open>count_account - count_user\<close> in \<open>size_t\<close>: it wraps around below zero.\<close>

definition unused_accounts :: "nat \<Rightarrow> nat \<Rightarrow> nat" where
  "unused_accounts count_account count_user = wrap_u64 (int count_account - int count_user)"

definition create_accounts ::
  "'x wallet_env_scheme \<Rightarrow> node_info \<Rightarrow> int \<Rightarrow> nat \<Rightarrow> nat \<Rightarrow> unit wallet_prog" where
  "create_accounts E node coin_id max_account_id quantity =
     (if node_id node = 1
      then bindp (new_chain_addresses E node coin_id max_account_id ''BTC'' quantity) (batch_refresh_db E)
      else if node_id node = 2
      then bindp (new_eth_addresses E node coin_id max_account_id quantity) (batch_refresh_db E)
      else if node_id node = 3
      then bindp (new_xrp_addresses E node coin_id max_account_id quantity) (batch_refresh_db E)
      else if node_id node = 4
      then bindp (new_eos_addresses coin_id max_account_id quantity) (batch_refresh_db E)
      else if node_id node = 5
      then bindp (new_chain_addresses E node coin_id max_account_id ''USDT'' quantity) (batch_refresh_db E)
      else ret ())"

definition get_new_address :: "'x wallet_env_scheme \<Rightarrow> string \<Rightarrow> nat \<Rightarrow> bool wallet_prog" where
  "get_new_address E coin_name address_quantity =
     bindp (field (config E) ''otc_db'') (\<lambda>conf.
     bindp (open_db E conf) (\<lambda>opened.
     if \<not> opened then ret False else
     bindp (gets (\<lambda>w. map_of (coin_name_id w) coin_name)) (\<lambda>c.
     case c of None \<Rightarrow> ret False | Some coin_id \<Rightarrow>
     bindp (gets (\<lambda>w. map_of (coinid_node w) coin_id)) (\<lambda>n.
     case n of None \<Rightarrow> ret False | Some node \<Rightarrow>
     bindp (get_data E (sql_counts coin_id) [T_INT] JNull) (\<lambda>(_, json_data).
     if jsize json_data \<le> 2 then ret False else
     bindp (cell_u64 json_data 0 0) (\<lambda>count_user.
     bindp (cell_u64 json_data 1 0) (\<lambda>count_account.
     bindp (cell_u64 json_data 2 0) (\<lambda>max_account_id.
     if address_quantity \<le> unused_accounts count_account count_user then ret True else
     thenp (create_accounts E node coin_id max_account_id address_quantity) (ret True)))))))))"

text \<open>The five jobs of \<open>main.cpp\<close>: each keeps a stock of 100 unused accounts of its coin.\<close>

definition create_job :: "'x wallet_env_scheme \<Rightarrow> string \<Rightarrow> unit wallet_prog" where
  "create_job E coin_name = thenp (get_new_address E coin_name 100) (ret ())"

definition create_jobs :: "'x wallet_env_scheme \<Rightarrow> (string \<times> unit wallet_prog) list" where
  "create_jobs E = map (\<lambda>c. (c, create_job E c)) [''BTC'', ''ETH'', ''XRP'', ''EOS'', ''USDT'']"

end
