(* ===== verification/WalletFrames.thy ===== *)
theory WalletFrames
  imports WalletTransfer WalletAddress "HOL-Library.Sublist"
begin

section \<open>What the wallet can change\<close>

text \<open>
  The same interface idea as for the scanners: a transfer changes the state only through posts,
  calls of the Python module and the creation of its object; the creation of addresses also
  stores keys and moves the tags and base addresses, and ends with one batch of SQL.
\<close>

locale transfer_frame = step_rel R for R :: "wallet \<Rightarrow> wallet \<Rightarrow> bool" +
  assumes post: "R w (posts_update (\<lambda>ps. ps @ [p]) w)"
    and python: "R w (py_log_update (\<lambda>l. l @ [c]) w)"
    and create: "R w (eth_instance_update (\<lambda>_. Some e) w)"
begin

lemmas frame_rules = step_rules in_fields

lemma in_curl_post: "steps_in R (curl_post E url auth d)"
  unfolding curl_post_def
  by (intro frame_rules in_modify) (auto simp: post split: http_reply.split intro!: frame_rules)

lemma in_call_node_rpc: "steps_in R (call_node_rpc E node m ps)"
  unfolding call_node_rpc_def by (rule in_curl_post)

lemma in_eos_post: "steps_in R (eos_post E url d)"
  unfolding eos_post_def by (rule in_curl_post)

lemma in_open_db: "steps_in R (open_db E conf)"
  unfolding open_db_def by (intro frame_rules)

lemma in_eth_init: "steps_in R (eth_init E e)"
  unfolding eth_init_def by (intro frame_rules in_modify create)

lemma in_py_method: "steps_in R (py_method E m args)"
  unfolding py_method_def by (intro frame_rules in_modify python)

lemma in_parse_text: "steps_in R (parse_text E s)"
  unfolding parse_text_def by (intro frame_rules)

lemma in_eth_data: "steps_in R (eth_data E reply)"
  unfolding eth_data_def by (cases reply) (auto intro!: frame_rules in_parse_text)

lemma in_eth_text_call: "steps_in R (eth_text_call E m args)"
  unfolding eth_text_call_def by (intro frame_rules in_py_method in_eth_data)

lemma in_get_private_key: "steps_in R (get_private_key E a)"
  unfolding get_private_key_def wallet_db_name_def by (intro frame_rules)

lemma in_args: "steps_in R (arg j i)" "steps_in R (arg_string j i)" "steps_in R (arg_double j i)"
  "steps_in R (arg_bool j i)"
  unfolding arg_def arg_string_def arg_double_def arg_bool_def by (intro frame_rules)+

lemma in_respond: "steps_in R (respond r txid)"
  unfolding respond_def by (intro frame_rules)

lemmas wallet_rules = frame_rules in_args in_respond in_call_node_rpc in_eos_post in_get_private_key
  in_eth_init in_eth_text_call in_open_db

lemma in_transfer_btc: "steps_in R (transfer_btc E node req resp)"
  unfolding transfer_btc_def btc_select_def Let_def by (intro wallet_rules)

lemma in_transfer_eth: "steps_in R (transfer_eth E node req resp)"
  unfolding transfer_eth_def eth_offline_sign_def by (intro wallet_rules)

lemma in_transfer_erc20: "steps_in R (transfer_erc20_usdt E node token req resp)"
  unfolding transfer_erc20_usdt_def eth_offline_sign_erc20_def by (intro wallet_rules)

lemma in_transfer_xrp: "steps_in R (transfer_xrp E node req resp)"
  unfolding transfer_xrp_def by (intro wallet_rules)

lemma in_transfer_eos: "steps_in R (transfer_eos E node req resp)"
  unfolding transfer_eos_def eos_unlocked_def Let_def by (intro wallet_rules)

lemma in_transfer_omni: "steps_in R (transfer_omni_usdt E node token req resp)"
  unfolding transfer_omni_usdt_def omni_send_def Let_def by (intro wallet_rules)

lemma in_wallet_transfer: "steps_in R (wallet_transfer E req resp)"
  unfolding wallet_transfer_def transfer_coin_def transfer_token_def
  by (intro wallet_rules in_transfer_btc in_transfer_eth in_transfer_xrp in_transfer_eos
      in_transfer_omni in_transfer_erc20)

lemma in_read_account: "steps_in R (read_account j acc)"
  unfolding read_account_def Let_def by (intro wallet_rules)

lemma in_eth_create_account: "steps_in R (eth_create_account E extra acc)"
  unfolding eth_create_account_def eth_account_call_def
  by (intro wallet_rules in_py_method in_eth_data in_parse_text in_read_account)

lemma in_create_address_offline: "steps_in R (create_address_offline E node a k)"
  unfolding create_address_offline_def by (intro wallet_rules in_eth_create_account)

lemma in_create_address_local_chain: "steps_in R (create_address_local_chain E node a)"
  unfolding create_address_local_chain_def by (intro wallet_rules)

lemma in_new_chain_addresses: "steps_in R (new_chain_addresses E node cid m tag q)"
  unfolding new_chain_addresses_def by (intro wallet_rules in_create_address_local_chain)

end

text \<open>All that a transfer changes: its posts, the calls of the Python module, and the object of the module.\<close>

definition books_kept :: "wallet \<Rightarrow> wallet \<Rightarrow> bool" where
  "books_kept w t \<longleftrightarrow>
     (\<exists>ps cs e. t = w\<lparr>posts := posts w @ ps, py_log := py_log w @ cs, eth_instance := e\<rparr>)"

lemma books_keptI: "t = w\<lparr>posts := posts w @ ps, py_log := py_log w @ cs, eth_instance := e\<rparr> \<Longrightarrow> books_kept w t"
  by (auto simp: books_kept_def)

interpretation books: transfer_frame books_kept
proof unfold_locales
  fix s t u :: wallet
  assume "books_kept s t" "books_kept t u"
  then obtain ps cs e qs ds f where
    "t = s\<lparr>posts := posts s @ ps, py_log := py_log s @ cs, eth_instance := e\<rparr>"
    "u = t\<lparr>posts := posts t @ qs, py_log := py_log t @ ds, eth_instance := f\<rparr>"
    unfolding books_kept_def by blast
  then show "books_kept s u"
    by (intro books_keptI [where ps = "ps @ qs" and cs = "cs @ ds" and e = f]) simp
next
  show "books_kept w w" for w by (rule books_keptI [where ps = "[]" and cs = "[]" and e = "eth_instance w"]) simp
next
  show "books_kept w (posts_update (\<lambda>ps. ps @ [p]) w)" for p w
    by (rule books_keptI [where ps = "[p]" and cs = "[]" and e = "eth_instance w"]) simp
next
  show "books_kept w (py_log_update (\<lambda>l. l @ [c]) w)" for c w
    by (rule books_keptI [where ps = "[]" and cs = "[c]" and e = "eth_instance w"]) simp
next
  show "books_kept w (eth_instance_update (\<lambda>_. Some e) w)" for e w
    by (rule books_keptI [where ps = "[]" and cs = "[]" and e = "Some e"]) simp
qed

text \<open>The keys stored so far stay stored while addresses are created.\<close>

locale address_frame = transfer_frame +
  assumes put: "R w (ldb_log_update (\<lambda>l. l @ [p]) w)"
    and xrp_tag: "R w (max_xrp_tag_update (\<lambda>t. t + 1) w)"
    and eos_tag: "R w (max_eos_tag_update (\<lambda>t. t + 1) w)"
    and xrp_base: "R w (wallet_xrp_base_update (\<lambda>_. a) w)"
begin

lemma in_set_private_key: "steps_in R (set_private_key E a k)"
  unfolding set_private_key_def wallet_db_name_def by (intro wallet_rules in_modify put)

lemma in_new_eth_addresses: "steps_in R (new_eth_addresses E node cid m q)"
  unfolding new_eth_addresses_def
  by (intro wallet_rules in_create_address_offline in_set_private_key)

lemma in_new_xrp_addresses: "steps_in R (new_xrp_addresses E node cid m q)"
  unfolding new_xrp_addresses_def xrp_next_row_def
  by (intro wallet_rules in_create_address_offline in_set_private_key in_modify xrp_tag xrp_base)

lemma in_new_eos_addresses: "steps_in R (new_eos_addresses cid m q)"
  unfolding new_eos_addresses_def by (intro wallet_rules in_modify eos_tag)

end

definition keys_kept :: "wallet \<Rightarrow> wallet \<Rightarrow> bool" where
  "keys_kept w t \<longleftrightarrow> prefix (ldb_log w) (ldb_log t) \<and> db_log t = db_log w"

interpretation keys: address_frame keys_kept
  by unfold_locales (auto simp: keys_kept_def)

end
