(* ===== verification/WalletProps.thy ===== *)
theory WalletProps
  imports WalletFrames
begin

section \<open>Properties of the wallet\<close>

text \<open>Facts about transfers and the creation of addresses, for every node, key store and database.\<close>

definition empty_wallet :: wallet where
  "empty_wallet = \<lparr>db_log = [], posts = [], coinid_node = [], tokenid_coinid = [], tokenid_token = [],
     token_name_id = [], coin_name_id = [], wallet_xrp_base = '''', wallet_eos_base = '''',
     max_xrp_tag = 0, max_eos_tag = 0, fee_address_omni = '''', eos_public_key = '''', ldb_log = [],
     py_log = [], eth_instance = None\<rparr>"

definition otc_conf :: json where
  "otc_conf = JObj [(''db'', JStr ''otc''), (''pass'', JStr ''''), (''port'', JInt 3306),
     (''url'', JStr ''127.0.0.1''), (''user'', JStr ''root'')]"

text \<open>An environment without peers: no reply, no row, no key, no Python object.\<close>

definition lonely :: wallet_env where
  "lonely = \<lparr>mysql_connects = (\<lambda>_. True), mysql_query = (\<lambda>_ _. Rows []), http_answer = (\<lambda>_ _. NoReply),
     config = JObj [(''otc_db'', otc_conf), (''wallet_db'', JStr ''wallet'')],
     json_parse = (\<lambda>s. Exc (ParseError s)), ldb_open = (\<lambda>_. True), ldb_put = (\<lambda>_ _ _. True), ldb_get = (\<lambda>_ _. None),
     py_create = (\<lambda>_ _. False), py_call = (\<lambda>_ _ _. PyNull), eos_expiration = id\<rparr>"

subsection \<open>Transfers\<close>

text \<open>
  C32: A transfer, whatever the coin and however it ends, leaves the wallet as it was but for the posts
  it has made, the calls of the Python module, and the object of that module: it writes nothing
  to the database, stores no key, and changes none of the wallet's maps of coins, nodes and tokens, tags, base
  addresses, fee address and public key. A withdrawal leaves no record in the database.
\<close>

theorem transfer_leaves_no_record:
  "\<exists>ps calls e. fst (wallet_transfer E req resp w) = w\<lparr>posts := posts w @ ps, py_log := py_log w @ calls, eth_instance := e\<rparr>
     \<and> db_log (fst (wallet_transfer E req resp w)) = db_log w \<and> ldb_log (fst (wallet_transfer E req resp w)) = ldb_log w"
proof -
  obtain ps calls e where "fst (wallet_transfer E req resp w) = w\<lparr>posts := posts w @ ps, py_log := py_log w @ calls, eth_instance := e\<rparr>"
    using books.in_wallet_transfer [of E req resp] unfolding steps_in_def books_kept_def by blast
  then show ?thesis by (intro exI [of _ ps] exI [of _ calls] exI [of _ e]) simp
qed

text \<open>The unspent outputs as the node lists them, and the change left after the first \<open>k + 1\<close>.\<close>

type_synonym utxo = "string \<times> int \<times> dbl"

definition utxo_json :: "utxo \<Rightarrow> json" where
  "utxo_json u = (case u of (txid, vout, amount) \<Rightarrow>
     JObj [(''amount'', JFloat amount), (''txid'', JStr txid), (''vout'', JInt vout)])"

definition utxo_input :: "utxo \<Rightarrow> json" where
  "utxo_input u = (case u of (txid, vout, amount) \<Rightarrow>
     mk_obj [(''txid'', JStr txid), (''vout'', JInt (wrap_i32 vout))])"

definition spent :: "utxo list \<Rightarrow> nat \<Rightarrow> dbl" where
  "spent us k = foldl dadd (Dbl 0 0) (map (snd \<circ> snd) (take k us))"

definition change_after :: "utxo list \<Rightarrow> dbl \<Rightarrow> dbl \<Rightarrow> nat \<Rightarrow> dbl" where
  "change_after us balance fee k = dsub (dsub (spent us (Suc k)) balance) fee"

lemma spent_Suc: "k < length us \<Longrightarrow> spent us (Suc k) = dadd (spent us k) (snd (snd (us ! k)))"
  by (simp add: spent_def take_Suc_conv_app_nth)

lemma btc_select_loop:
  assumes "k \<le> length us"
  shows "bindp (foreach [k..<length us] (ps, map utxo_input (take k us), spent us k) (\<lambda>(ps, vins, total) i.
       bindp (lift (at_idx (JArr (map utxo_json us)) i)) (\<lambda>u.
       bindp (field_string u ''txid'') (\<lambda>txid.
       bindp (field_int u ''vout'') (\<lambda>vout.
       let vins = vins @ [mk_obj [(''txid'', JStr txid), (''vout'', JInt vout)]] in
       bindp (field_double u ''amount'') (\<lambda>amount.
       let total = dadd total amount; recharge = dsub (dsub total balance) fee in
       if dle dust recharge
       then ret (Break (JArr [JArr vins, btc_outputs from to balance recharge], vins, total))
       else ret (Continue (ps, vins, total))))))))
     (\<lambda>(ps, _, _). ret ps) w =
     (w, Val (case List.find (\<lambda>k. dle dust (change_after us balance fee k)) [k..<length us] of
                None \<Rightarrow> ps
              | Some k \<Rightarrow> JArr [JArr (map utxo_input (take (Suc k) us)),
                               btc_outputs from to balance (change_after us balance fee k)]))"
  using assms
proof (induction "length us - k" arbitrary: k)
  case 0
  then show ?case by (simp add: prog_simps)
next
  case (Suc d)
  then have k: "k < length us" by simp
  obtain txid vout amount where u: "us ! k = (txid, vout, amount)" by (cases "us ! k") auto
  have step: "spent us (Suc k) = dadd (spent us k) amount" using k by (simp add: spent_Suc u)
  have inputs: "map utxo_input (take (Suc k) us) =
      map utxo_input (take k us) @ [mk_obj [(''txid'', JStr txid), (''vout'', JInt (wrap_i32 vout))]]"
    using k by (simp add: take_Suc_conv_app_nth utxo_input_def u)
  have e: "[k..<length us] = k # [Suc k..<length us]" using k by (simp add: upt_conv_Cons)
  have IH: "d = length us - Suc k" "Suc k \<le> length us" using Suc k by simp_all
  show ?case
  proof (cases "dle dust (change_after us balance fee k)")
    case True
    then show ?thesis
      using k by (simp add: e bindp_def prog_simps field_defs utxo_json_def u change_after_def step inputs Let_def)
  next
    case False
    have F: "dle dust (dsub (dsub (dadd (spent us k) amount) balance) fee) = False"
      using False by (simp add: change_after_def step)
    show ?thesis
      using Suc.hyps(1) [OF IH] k False
      by (simp add: e bindp_assoc field_defs utxo_json_def u F step inputs Let_def)
  qed
qed

text \<open>
  C16: The coin selection of \<open>transferBtc\<close> takes the shortest prefix of the unspent outputs whose
  sum leaves, after the amount and the fee, a change of at least 0.0000005, spends exactly that
  prefix, pays the amount to the receiver and the change back to the sender. If no prefix does,
  the parameters stay what they were.
\<close>

theorem btc_select_shortest_prefix:
  "btc_select from to balance fee (JArr (map utxo_json us)) ps w =
     (w, Val (case List.find (\<lambda>k. dle dust (change_after us balance fee k)) [0..<length us] of
                None \<Rightarrow> ps
              | Some k \<Rightarrow> JArr [JArr (map utxo_input (take (Suc k) us)),
                               btc_outputs from to balance (change_after us balance fee k)]))"
  using btc_select_loop [of 0 us ps balance fee "from" to w]
  by (simp add: btc_select_def spent_def)

lemma curl_post_Body:
  "http_answer E (posts w) (url, auth, d) = Body j \<Longrightarrow>
   curl_post E url auth d w = (posts_update (\<lambda>ps. ps @ [(url, auth, d)]) w, Val (Some j))"
  by (simp add: curl_post_def bindp_def prog_simps)

lemma curl_post_NoReply:
  "http_answer E (posts w) (url, auth, d) = NoReply \<Longrightarrow>
   curl_post E url auth d w = (posts_update (\<lambda>ps. ps @ [(url, auth, d)]) w, Val None)"
  by (simp add: curl_post_def bindp_def prog_simps)

definition omni_listunspent :: "node_info \<Rightarrow> string \<Rightarrow> post" where
  "omni_listunspent node fee_address =
     (node_url node, node_auth node,
      node_request ''listunspent'' (JArr [JInt 1, JInt 9999999, JArr [JStr fee_address]]))"

text \<open>
  \<open>transferOmniUsdt\<close> reports success without having sent anything when the fee address has no
  unspent output: one \<open>listunspent\<close> is the only call made, the result is true and the response
  has no transaction id.
\<close>

theorem omni_transfer_success_without_transfer:
  assumes "http_answer E (posts w) (omni_listunspent node (fee_address_omni w)) = Body (JObj [(''result'', JArr [])])"
  shows "transfer_omni_usdt E node token
           (JArr [JStr name, JBool True, JStr from, JStr to, JFloat balance, JFloat fee]) resp w
         = (posts_update (\<lambda>ps. ps @ [omni_listunspent node (fee_address_omni w)]) w, Val (True, resp))"
proof -
  have l: "call_node_rpc E node ''listunspent'' (JArr [JInt 1, JInt 9999999, JArr [JStr (fee_address_omni w)]]) w
     = (posts_update (\<lambda>ps. ps @ [omni_listunspent node (fee_address_omni w)]) w, Val (Some (JObj [(''result'', JArr [])])))"
    using assms by (simp add: call_node_rpc_def curl_post_Body omni_listunspent_def)
  show ?thesis
    by (simp add: transfer_omni_usdt_def arg_string_def arg_double_def arg_def bindp_def prog_simps l field_defs)
qed

theorem omni_transfer_success_without_transfer_witness:
  "transfer_omni_usdt (lonely\<lparr>http_answer := \<lambda>_ _. Body (JObj [(''result'', JArr [])])\<rparr>) no_node
     \<lparr>tok_coin_id = 5, tok_token_id = 1, tok_short_name = ''USDT'', tok_contract = ''31'', tok_decimal = 8\<rparr>
     (JArr [JStr ''USDT'', JBool True, JStr ''a'', JStr ''b'', JFloat (Dbl 1 0), JFloat (Dbl 1 0)]) JNull empty_wallet
   = (posts_update (\<lambda>ps. ps @ [omni_listunspent no_node (fee_address_omni empty_wallet)]) empty_wallet, Val (True, JNull))"
  by (rule omni_transfer_success_without_transfer) simp

subsection \<open>Amounts\<close>

lemma million_int: "holds_int million 1000000"
  unfolding million_def by (rule dbl_of_int_exact) simp_all

lemma dtrunc_int: "holds_int d n \<Longrightarrow> dtrunc d = n"
  by (simp add: holds_int_def dtrunc_def pow2_def abs_mult sgn_mult mult_sgn_abs)

text \<open>
  A whole number of XRP is sent exactly: the amount in drops is a million times the number.
  A fraction may lose a drop, because the double product is cut and not rounded: 1.001 XRP is
  sent as 1000999 drops.
\<close>

theorem xrp_drops_whole_and_fraction:
  "(if int c * 10 ^ 6 < 2 ^ 53 then xrp_drops (dbl_of_int (int c)) = int c * 10 ^ 6 else True)
   \<and> xrp_drops (dbl_of_dec 1001 3) = 1000999"
proof -
  have "xrp_drops (dbl_of_int (int c)) = int c * 10 ^ 6" if "int c * 10 ^ 6 < 2 ^ 53"
  proof (cases "c = 0")
    case True
    then show ?thesis by (simp add: xrp_drops_def million_def dbl_eval)
  next
    case False
    have "holds_int (dmul (dbl_of_int (int c)) million) (int c * 1000000)"
      using that False by (intro dmul_exact dbl_of_int_exact million_int) auto
    then show ?thesis by (simp add: xrp_drops_def dtrunc_int)
  qed
  moreover have "xrp_drops (dbl_of_dec 1001 3) = 1000999"
    by (simp add: xrp_drops_def million_def dbl_eval)
  ultimately show ?thesis by simp
qed

lemma str_find_digits:
  "list_all is_digit ds \<Longrightarrow> str_find (ds @ CHR ''.'' # rest) ''.'' = Some (length ds)"
  by (induction ds) (auto simp: is_digit_def)

text \<open>
  A whole number of EOS is printed with exactly four decimals and the symbol.
\<close>

theorem eos_quantity_whole:
  assumes "0 < c" and "c < 2 ^ 53"
  shows "eos_quantity (dbl_of_int (int c)) = nat_to_string c @ ''.0000 EOS''"
proof -
  have "dbl_to_string (dbl_of_int (int c)) = nat_to_string c @ ''.000000''"
    using assms dbl_to_string_int [OF dbl_of_int_exact [of "int c"]] by simp
  moreover have "str_find (nat_to_string c @ ''.000000'') ''.'' = Some (length (nat_to_string c))"
    using str_find_digits [OF nat_to_string_digits] by simp
  ultimately show ?thesis by (simp add: eos_quantity_def)
qed

theorem eos_quantity_whole_witness: "eos_quantity (dbl_of_int (int 7)) = nat_to_string 7 @ ''.0000 EOS''"
  by (rule eos_quantity_whole) simp_all

subsection \<open>New accounts\<close>

text \<open>The tag rows of one request: consecutive tags after the last one, on one base address.\<close>

definition tag_rows :: "int \<Rightarrow> nat \<Rightarrow> string \<Rightarrow> 32 word \<Rightarrow> nat \<Rightarrow> nat \<Rightarrow> string list" where
  "tag_rows coin_id max_account_id base t k q =
     map (\<lambda>i. sql_account (new_account_id max_account_id (k + i)) coin_id base (tag_string (t + of_nat (Suc i)))) [0..<q]"

lemma tag_rows_Suc:
  "tag_rows cid m base t k (Suc q) =
     sql_account (new_account_id m k) cid base (tag_string (t + 1)) # tag_rows cid m base (t + 1) (Suc k) q"
proof -
  have "[0..<Suc q] = 0 # map Suc [0..<q]" by (simp add: upt_conv_Cons map_Suc_upt del: upt_Suc)
  then show ?thesis by (simp add: tag_rows_def ac_simps del: upt_Suc)
qed

lemma tag_rows_0 [simp]: "tag_rows cid m base t k 0 = []"
  by (simp add: tag_rows_def)

lemma upt_add_Suc: "[k..<k + Suc d] = k # [Suc k..<Suc k + d]"
  by (simp add: upt_conv_Cons del: upt_Suc)

lemma eos_loop:
  assumes "wallet_eos_base w \<noteq> ''''"
  shows "foreach [k..<k + d] sqls (\<lambda>sqls i.
       bindp (gets wallet_eos_base) (\<lambda>base.
       if base = '''' then ret (Break sqls) else
       thenp (modify (max_eos_tag_update (\<lambda>t. t + 1)))
      (bindp (gets max_eos_tag) (\<lambda>t.
       ret (Continue (sqls @ [sql_account (new_account_id m i) cid base (tag_string t)])))))) w
     = (max_eos_tag_update (\<lambda>t. t + of_nat d) w,
        Val (sqls @ tag_rows cid m (wallet_eos_base w) (max_eos_tag w) k d))"
  using assms
proof (induction d arbitrary: k sqls w)
  case 0
  then show ?case by (simp add: prog_simps)
next
  case (Suc d)
  have IH: "wallet_eos_base (max_eos_tag_update (\<lambda>t. t + 1) w) \<noteq> ''''" using Suc.prems by simp
  have upd: "max_eos_tag_update (\<lambda>t. t + of_nat d) (max_eos_tag_update (\<lambda>t. t + 1) w)
      = max_eos_tag_update (\<lambda>t. t + of_nat (Suc d)) w"
    by (rule wallet.equality) (simp_all add: ac_simps)
  show ?case
    unfolding upt_add_Suc foreach.simps
    apply (rule bindp_ValI [where s' = "max_eos_tag_update (\<lambda>t. t + 1) w"])
     apply (simp add: Suc.prems prog_simps)
    apply (simp only: ctl.case Suc.IH [OF IH] upd)
    apply (simp add: tag_rows_Suc)
    done
qed

text \<open>
  EOS accounts share the base address and get the consecutive tags after the last one, with
  consecutive account numbers; the counter ends at the last tag handed out.
\<close>

theorem eos_accounts_get_consecutive_tags:
  assumes "wallet_eos_base w \<noteq> ''''"
  shows "new_eos_addresses cid m q w =
           (max_eos_tag_update (\<lambda>t. t + of_nat q) w,
            Val (tag_rows cid m (wallet_eos_base w) (max_eos_tag w) 0 q))"
  using eos_loop [OF assms, of 0 q "[]" m cid] by (simp add: new_eos_addresses_def)

theorem eos_accounts_get_consecutive_tags_witness:
  "new_eos_addresses 4 10 2 (empty_wallet\<lparr>wallet_eos_base := ''exchange''\<rparr>) =
     (empty_wallet\<lparr>wallet_eos_base := ''exchange'', max_eos_tag := 2\<rparr>,
      Val (tag_rows 4 10 ''exchange'' 0 0 2))"
  using eos_accounts_get_consecutive_tags [of "empty_wallet\<lparr>wallet_eos_base := ''exchange''\<rparr>" 4 10 2]
  by (simp add: empty_wallet_def)

lemma xrp_loop:
  assumes "wallet_xrp_base w \<noteq> ''''" and "unat (max_xrp_tag w) + d < 2 ^ 32" and "max_xrp_tag w \<noteq> 0"
  shows "foreach [k..<k + d] (sqls, a0, k0) (\<lambda>(sqls, address, privkey) i.
       bindp (gets max_xrp_tag) (\<lambda>t.
       if t \<le> 0 then
         bindp (create_address_offline E node address privkey) (\<lambda>(ok, address, privkey).
         if \<not> ok then ret (Break (sqls, address, privkey)) else
         bindp (set_private_key E address privkey) (\<lambda>stored.
         if \<not> stored then ret (Break (sqls, address, privkey)) else
         thenp (modify (wallet_xrp_base_update (\<lambda>_. address)))
        (bindp (xrp_next_row cid m sqls i) (\<lambda>sqls. ret (Continue (sqls, address, privkey))))))
       else
         bindp (gets wallet_xrp_base) (\<lambda>base.
         if base = '''' then ret (Break (sqls, address, privkey)) else
         bindp (xrp_next_row cid m sqls i) (\<lambda>sqls. ret (Continue (sqls, address, privkey)))))) w
     = (max_xrp_tag_update (\<lambda>t. t + of_nat d) w,
        Val (sqls @ tag_rows cid m (wallet_xrp_base w) (max_xrp_tag w) k d, a0, k0))"
  using assms
proof (induction d arbitrary: k sqls w)
  case 0
  then show ?case by (simp add: prog_simps)
next
  case (Suc d)
  have n: "unat (max_xrp_tag w + 1) = unat (max_xrp_tag w) + 1"
    using Suc.prems(2) by (simp add: unat_word_ariths)
  have IH: "wallet_xrp_base (max_xrp_tag_update (\<lambda>t. t + 1) w) \<noteq> ''''"
    "unat (max_xrp_tag (max_xrp_tag_update (\<lambda>t. t + 1) w)) + d < 2 ^ 32"
    "max_xrp_tag (max_xrp_tag_update (\<lambda>t. t + 1) w) \<noteq> 0"
    using Suc.prems n by (auto simp: unat_eq_0)
  have upd: "max_xrp_tag_update (\<lambda>t. t + of_nat d) (max_xrp_tag_update (\<lambda>t. t + 1) w)
      = max_xrp_tag_update (\<lambda>t. t + of_nat (Suc d)) w"
    by (rule wallet.equality) (simp_all add: ac_simps)
  have pos: "\<not> max_xrp_tag w \<le> 0" using Suc.prems(3) by (simp add: word_le_0_iff)
  show ?case
    unfolding upt_add_Suc foreach.simps
    apply (rule bindp_ValI [where s' = "max_xrp_tag_update (\<lambda>t. t + 1) w"])
     apply (simp add: Suc.prems pos xrp_next_row_def bindp_assoc prog_simps)
    apply (simp only: ctl.case Suc.IH [OF IH] upd)
    apply (simp add: tag_rows_Suc)
    done
qed

text \<open>
  C31: XRP accounts share the base address and get the consecutive tags after the last one, as
  long as the 32 bits of the counter last; no key is created and no call made.
\<close>

theorem xrp_accounts_get_consecutive_tags:
  assumes "wallet_xrp_base w \<noteq> ''''" and "max_xrp_tag w \<noteq> 0" and "unat (max_xrp_tag w) + q < 2 ^ 32"
  shows "new_xrp_addresses E node cid m q w =
           (max_xrp_tag_update (\<lambda>t. t + of_nat q) w,
            Val (tag_rows cid m (wallet_xrp_base w) (max_xrp_tag w) 0 q))"
  using xrp_loop [OF assms(1,3,2), of 0 "[]" "''''" "''''" E node cid m]
  by (simp add: new_xrp_addresses_def bindp_def prog_simps)

theorem xrp_accounts_get_consecutive_tags_witness:
  "new_xrp_addresses lonely no_node 3 10 2 (empty_wallet\<lparr>wallet_xrp_base := ''r1'', max_xrp_tag := 7\<rparr>) =
     (empty_wallet\<lparr>wallet_xrp_base := ''r1'', max_xrp_tag := 9\<rparr>, Val (tag_rows 3 10 ''r1'' 7 0 2))"
  using xrp_accounts_get_consecutive_tags
    [of "empty_wallet\<lparr>wallet_xrp_base := ''r1'', max_xrp_tag := 7\<rparr>" 2 lonely no_node 3 10]
  by (simp add: empty_wallet_def)

text \<open>
  The rows handed out in one request carry pairwise different tags, as long as the request is
  smaller than the range of the 32-bit counter.
\<close>

theorem tag_rows_distinct_tags:
  assumes "i < j" and "j < q" and "q \<le> 2 ^ 32"
  shows "tag_string (t + of_nat (Suc i)) \<noteq> tag_string (t + of_nat (Suc j))
         \<and> tag_rows cid m base t 0 q ! i = sql_account (new_account_id m i) cid base (tag_string (t + of_nat (Suc i)))"
proof
  have "(of_nat (Suc i) :: 32 word) \<noteq> of_nat (Suc j)"
    using assms by (auto simp: word_of_nat_eq_iff take_bit_nat_def)
  then have "t + of_nat (Suc i) \<noteq> t + of_nat (Suc j)" by simp
  then show "tag_string (t + of_nat (Suc i)) \<noteq> tag_string (t + of_nat (Suc j))"
    unfolding tag_string_def by (metis digits_val_nat_to_string word_unat_eq_iff)
qed (use assms in \<open>simp add: tag_rows_def\<close>)

definition keys_stored :: "int \<Rightarrow> string list \<Rightarrow> wallet \<Rightarrow> bool" where
  "keys_stored cid sqls w \<longleftrightarrow>
     (\<forall>sql\<in>set sqls. \<exists>i address key. sql = sql_account i cid address ''ETH'' \<and> (address, key, True) \<in> set (ldb_log w))"

lemma keys_stored_mono: "keys_stored cid sqls w \<Longrightarrow> keys_kept w t \<Longrightarrow> keys_stored cid sqls t"
  unfolding keys_stored_def keys_kept_def prefix_def by fastforce

lemma set_private_key_stores:
  "set_private_key E a k w = (t, Val True) \<Longrightarrow> (a, k, True) \<in> set (ldb_log t)"
  by (auto simp: set_private_key_def wallet_db_name_def field_defs bindp_def prog_simps
      split: outcome.splits if_splits prod.splits)

lemma eth_round_keeps:
  assumes "keys_stored cid (fst s) w"
    and "(case s of (sqls, address, privkey) \<Rightarrow> \<lambda>i.
       bindp (create_address_offline E node address privkey) (\<lambda>(ok, address, privkey).
       if ok then
         bindp (set_private_key E address privkey) (\<lambda>stored.
         if \<not> stored then ret (Continue (sqls, address, privkey))
         else ret (Continue (sqls @ [sql_account (new_account_id m i) cid address ''ETH''], address, privkey)))
       else ret (Continue (sqls, address, privkey)))) i w = (t, Val c)"
  shows "case c of Continue s' \<Rightarrow> keys_stored cid (fst s') t | Break s' \<Rightarrow> keys_stored cid (fst s') t"
proof -
  obtain sqls a0 k0 where s: "s = (sqls, a0, k0)" by (cases s) auto
  from assms(2) obtain ok address key u where c: "create_address_offline E node a0 k0 w = (u, Val (ok, address, key))"
    and r: "(if ok then bindp (set_private_key E address key) (\<lambda>stored.
         if \<not> stored then ret (Continue (sqls, address, key))
         else ret (Continue (sqls @ [sql_account (new_account_id m i) cid address ''ETH''], address, key)))
       else ret (Continue (sqls, address, key))) u = (t, Val c)"
    by (auto simp: s bindp_eq_Val)
  have ku: "keys_stored cid sqls u"
    using keys_stored_mono assms(1) steps_inD [OF keys.in_create_address_offline c] by (simp add: s)
  show ?thesis
  proof (cases ok)
    case False
    with r ku show ?thesis by (auto simp: prog_simps)
  next
    case True
    with r obtain stored v where p: "set_private_key E address key u = (v, Val stored)"
      and q: "(if \<not> stored then ret (Continue (sqls, address, key))
         else ret (Continue (sqls @ [sql_account (new_account_id m i) cid address ''ETH''], address, key))
           :: (string list \<times> string \<times> string) ctl wallet_prog) v = (t, Val c)"
      by (auto simp: bindp_eq_Val)
    have kv: "keys_stored cid sqls v"
      using keys_stored_mono ku steps_inD [OF keys.in_set_private_key p] by simp
    show ?thesis
      using q kv set_private_key_stores [of E address key u v] p
      by (cases stored) ((auto simp: prog_simps keys_stored_def; blast)+)
  qed
qed

text \<open>
  C21: No Ethereum account is recorded without its key: when \<open>getNewAddress\<close> has built the rows of
  a request, each row's address was stored in the key store before, by a \<open>Put\<close> that succeeded.
\<close>

theorem eth_rows_have_stored_keys:
  assumes "new_eth_addresses E node cid m q w = (t, Val sqls)"
  shows "\<forall>sql\<in>set sqls. \<exists>i address key. sql = sql_account i cid address ''ETH'' \<and> (address, key, True) \<in> set (ldb_log t)"
proof -
  from assms obtain r where loop: "foreach [0..<q] ([], '''', '''') (\<lambda>(sqls, address, privkey) i.
       bindp (create_address_offline E node address privkey) (\<lambda>(ok, address, privkey).
       if ok then
         bindp (set_private_key E address privkey) (\<lambda>stored.
         if \<not> stored then ret (Continue (sqls, address, privkey))
         else ret (Continue (sqls @ [sql_account (new_account_id m i) cid address ''ETH''], address, privkey)))
       else ret (Continue (sqls, address, privkey)))) w = (t, Val r)" and r: "sqls = fst r"
    by (auto simp: new_eth_addresses_def bindp_eq_Val prog_simps)
  from loop have "keys_stored cid (fst r) t"
    by (rule foreach_invariant [where I = "\<lambda>s. keys_stored cid (fst s)"])
       (simp add: keys_stored_def, rule eth_round_keeps)
  then show ?thesis by (simp add: r keys_stored_def)
qed

text \<open>The Python module does not answer: no object was made.\<close>

lemma create_without_python:
  assumes "eth_instance w = None" and "\<And>lg e. \<not> py_create E lg e" and "node_id node = 2"
  shows "create_address_offline E node a k w = (w, Val (True, '''', ''''))"
  using assms
  by (simp add: create_address_offline_def eth_init_def eth_create_account_def eth_account_call_def
      py_method_def catch_def bindp_def prog_simps no_account_def)

lemma eth_loop_without_python:
  assumes "eth_instance w = None" and "\<And>lg e. \<not> py_create E lg e" and "node_id node = 2"
    and "config E = JObj [(''wallet_db'', JStr db)]" and "\<And>lg. ldb_open E lg" and "\<And>lg a k. ldb_put E lg a k"
  shows "foreach [k..<k + d] (sqls, a0, k0) (\<lambda>(sqls, address, privkey) i.
       bindp (create_address_offline E node address privkey) (\<lambda>(ok, address, privkey).
       if ok then
         bindp (set_private_key E address privkey) (\<lambda>stored.
         if \<not> stored then ret (Continue (sqls, address, privkey))
         else ret (Continue (sqls @ [sql_account (new_account_id m i) cid address ''ETH''], address, privkey)))
       else ret (Continue (sqls, address, privkey)))) w
     = (ldb_log_update (\<lambda>l. l @ replicate d ('''', '''', True)) w,
        Val (sqls @ map (\<lambda>i. sql_account (new_account_id m i) cid '''' ''ETH'') [k..<k + d],
             if d = 0 then a0 else '''', if d = 0 then k0 else ''''))"
  using assms(1)
proof (induction d arbitrary: k sqls w a0 k0)
  case 0
  then show ?case by (simp add: prog_simps)
next
  case (Suc d)
  let ?w = "ldb_log_update (\<lambda>l. l @ [('''', '''', True)]) w"
  have IH: "eth_instance ?w = None" using Suc.prems by simp
  have s: "set_private_key E '''' '''' w = (?w, Val True)"
    using assms(4-6) by (simp add: set_private_key_def wallet_db_name_def field_defs bindp_def prog_simps)
  have upd: "ldb_log_update (\<lambda>l. l @ replicate d ('''', '''', True)) ?w
      = ldb_log_update (\<lambda>l. l @ replicate (Suc d) ('''', '''', True)) w"
    by (rule wallet.equality) simp_all
  show ?case
    unfolding upt_add_Suc foreach.simps
    apply (rule bindp_ValI [where s' = ?w])
     apply (simp add: bindp_def create_without_python [OF Suc.prems assms(2,3)] s prog_simps)
    apply (simp only: ctl.case Suc.IH [OF IH] upd)
    apply simp
    done
qed

lemma eth_addresses_without_python:
  assumes "eth_instance w = None" and "\<And>lg e. \<not> py_create E lg e" and "node_id node = 2"
    and "config E = JObj [(''wallet_db'', JStr db)]" and "\<And>lg. ldb_open E lg" and "\<And>lg a k. ldb_put E lg a k"
  shows "new_eth_addresses E node cid m q w =
           (ldb_log_update (\<lambda>l. l @ replicate q ('''', '''', True)) w,
            Val (map (\<lambda>i. sql_account (new_account_id m i) cid '''' ''ETH'') [0..<q]))"
  using eth_loop_without_python [OF assms, of 0 q "[]" "''''" "''''" m cid]
  by (simp add: new_eth_addresses_def bindp_def prog_simps)

text \<open>
  When the Python module does not answer, \<open>createAddressOffline\<close> still reports success:
  \<open>getNewAddress\<close> then stores the empty key under the empty address and records one account
  with the empty address for every account asked for.
\<close>

theorem eth_accounts_with_empty_address:
  assumes "eth_instance w = None" and "\<And>lg e. \<not> py_create E lg e" and "node_id node = 2"
    and "config E = JObj [(''wallet_db'', JStr db)]" and "\<And>lg. ldb_open E lg" and "\<And>lg a k. ldb_put E lg a k"
  shows "new_eth_addresses E node cid m q w =
           (ldb_log_update (\<lambda>l. l @ replicate q ('''', '''', True)) w,
            Val (map (\<lambda>i. sql_account (new_account_id m i) cid '''' ''ETH'') [0..<q]))"
  using assms by (rule eth_addresses_without_python)

definition no_python :: wallet_env where
  "no_python = lonely\<lparr>config := JObj [(''wallet_db'', JStr ''wallet'')]\<rparr>"

theorem eth_accounts_with_empty_address_witness:
  "new_eth_addresses no_python (no_node\<lparr>node_id := 2\<rparr>) 2 0 2 empty_wallet =
     (ldb_log_update (\<lambda>l. l @ replicate 2 ('''', '''', True)) empty_wallet,
      Val (map (\<lambda>i. sql_account (new_account_id 0 i) 2 '''' ''ETH'') [0..<2]))"
  by (rule eth_accounts_with_empty_address) (simp_all add: no_python_def lonely_def empty_wallet_def)

text \<open>A Python object that makes one account.\<close>

definition with_python :: wallet_env where
  "with_python = lonely\<lparr>py_create := \<lambda>_ _. True, py_call := \<lambda>_ _ _. PyText ''reply'',
     json_parse := \<lambda>s. Val (JObj (if s = ''reply'' then [(''code'', JInt 0), (''data'', JStr ''account'')]
       else [(''address'', JStr ''0xab''), (''privateKey'', JStr ''01''), (''publicKey'', JStr ''02'')]))\<rparr>"

lemma with_python_account:
  "new_eth_addresses with_python (no_node\<lparr>node_id := 2\<rparr>) 2 0 1 empty_wallet =
     (empty_wallet\<lparr>ldb_log := [(''0xab'', ''01'', True)], py_log := [(''createAccount'', [PyStr ''''])], eth_instance := Some ''''\<rparr>,
      Val [sql_account 1 2 ''0xab'' ''ETH''])"
  by (simp add: new_eth_addresses_def create_address_offline_def no_node_def eth_init_def empty_wallet_def
      eth_create_account_def eth_account_call_def py_method_def with_python_def lonely_def bindp_def catch_def
      eth_data_def parse_text_def read_account_def field_defs prog_simps no_account_def set_private_key_def
      wallet_db_name_def new_account_id_def)

theorem eth_rows_have_stored_keys_witness:
  "\<exists>i address key. sql_account 1 2 ''0xab'' ''ETH'' = sql_account i 2 address ''ETH''
     \<and> (address, key, True) \<in> set (ldb_log (fst (new_eth_addresses with_python (no_node\<lparr>node_id := 2\<rparr>) 2 0 1 empty_wallet)))"
  unfolding with_python_account fst_conv using eth_rows_have_stored_keys [OF with_python_account] by simp

text \<open>
  \<open>getNewAddress\<close> cannot create the first account of a coin: with no account of the coin in
  the table \<open>MAX(account_id)\<close> is NULL, and \<open>getData\<close> builds a \<open>std::string\<close> from the null
  pointer, which is undefined behaviour.
\<close>

theorem first_account_undefined:
  assumes "at_key (config E) ''otc_db'' = Val conf" and "open_db E conf w = (w, Val True)"
    and "map_of (coin_name_id w) coin = Some cid" and "map_of (coinid_node w) cid = Some node"
    and "mysql_query E (db_log w) (c_str (sql_counts cid)) = Rows [[Some ''0''], [Some ''0''], [None]]"
  shows "get_new_address E coin q w = (w, Fault UndefinedBehaviour)"
proof -
  have z: "stoi ''0'' = Val 0" using stoi_nat_to_string [of 0] by (simp add: nat_to_string.simps digit_char_def)
  have "get_data E (sql_counts cid) [T_INT] JNull w = (w, Fault UndefinedBehaviour)"
    using assms(5) by (simp add: get_data_def bindp_def prog_simps convert_cell_def z)
  then show ?thesis
    using assms(1-4) by (simp add: get_new_address_def bindp_def field_def prog_simps)
qed

theorem first_account_undefined_witness:
  "get_new_address (lonely\<lparr>mysql_query := \<lambda>_ _. Rows [[Some ''0''], [Some ''0''], [None]]\<rparr>) ''BTC'' 100
     (empty_wallet\<lparr>coin_name_id := [(''BTC'', 1)], coinid_node := [(1, no_node\<lparr>node_id := 1\<rparr>)]\<rparr>)
   = (empty_wallet\<lparr>coin_name_id := [(''BTC'', 1)], coinid_node := [(1, no_node\<lparr>node_id := 1\<rparr>)]\<rparr>,
      Fault UndefinedBehaviour)"
  by (rule first_account_undefined [where conf = otc_conf and cid = 1 and node = "no_node\<lparr>node_id := 1\<rparr>"])
     (simp_all add: otc_conf_def lonely_def empty_wallet_def open_db_def bindp_def prog_simps)

subsection \<open>Bitcoin without funds\<close>

definition posts_grow :: "wallet \<Rightarrow> wallet \<Rightarrow> bool" where
  "posts_grow w t \<longleftrightarrow> prefix (posts w) (posts t)"

interpretation growing: transfer_frame posts_grow
  by unfold_locales (auto simp: posts_grow_def)

lemma posts_bindp:
  assumes "posts (fst (m w)) = ps" and "\<And>a. steps_in posts_grow (f a)"
  shows "prefix ps (posts (fst (bindp m f w)))"
proof -
  obtain r t where m: "m w = (t, r)" by fastforce
  have "posts_grow t (fst (f a t))" for a using assms(2) by (simp add: steps_in_def)
  with m assms(1) show ?thesis by (cases r) (auto simp: bindp_def posts_grow_def)
qed

lemma curl_post_posts: "posts (fst (curl_post E url auth d w)) = posts w @ [(url, auth, d)]"
  by (auto simp: curl_post_def bindp_def prog_simps split: http_reply.split)

definition node_call_post :: "node_info \<Rightarrow> string \<Rightarrow> json \<Rightarrow> post" where
  "node_call_post node method json_params = (node_url node, node_auth node, node_request method json_params)"

text \<open>
  \<open>transferBtc\<close> does not check that the funds suffice: when no prefix of the unspent outputs
  covers the amount, the fee and the dust limit, it still calls \<open>createrawtransaction\<close>, with the
  parameters of \<open>listunspent\<close>.
\<close>

theorem btc_without_funds_still_creates:
  assumes "http_answer E (posts w) (node_call_post node ''listunspent'' (JArr [JInt 1, JInt 9999999, JArr [JStr from]]))
             = Body (JObj [(''result'', JArr (map utxo_json us))])"
    and "\<forall>k<length us. \<not> dle dust (change_after us balance fee k)"
  shows "prefix (posts w @ [node_call_post node ''listunspent'' (JArr [JInt 1, JInt 9999999, JArr [JStr from]]),
                            node_call_post node ''createrawtransaction'' (JArr [JInt 1, JInt 9999999, JArr [JStr from]])])
           (posts (fst (transfer_btc E node
              (JArr [JStr name, JBool False, JStr from, JStr to, JFloat balance, JFloat fee]) resp w)))"
proof -
  let ?ps = "JArr [JInt 1, JInt 9999999, JArr [JStr from]]"
  let ?w = "posts_update (\<lambda>ps. ps @ [node_call_post node ''listunspent'' ?ps]) w"
  have l: "call_node_rpc E node ''listunspent'' ?ps w = (?w, Val (Some (JObj [(''result'', JArr (map utxo_json us))])))"
    using assms(1) by (simp add: call_node_rpc_def curl_post_Body node_call_post_def)
  have none: "List.find (\<lambda>k. dle dust (change_after us balance fee k)) [0..<length us] = None"
    using assms(2) by (simp add: find_None_iff)
  have s: "btc_select from to balance fee (JArr (map utxo_json us)) ?ps w' = (w', Val ?ps)" for w'
    using btc_select_loop [of 0 us ?ps balance fee "from" to w'] none by (simp add: btc_select_def spent_def)
  show ?thesis
    by (simp add: transfer_btc_def arg_string_def arg_double_def arg_def Let_def bindp_def [of "call_node_rpc E node ''listunspent'' ?ps"]
        l field_def bindp_def [of "btc_select from to balance fee (JArr (map utxo_json us)) ?ps"] s)
       (rule posts_bindp, simp add: call_node_rpc_def curl_post_posts node_call_post_def,
        intro growing.wallet_rules)
qed

theorem btc_without_funds_still_creates_witness:
  "prefix (posts empty_wallet @ [node_call_post no_node ''listunspent'' (JArr [JInt 1, JInt 9999999, JArr [JStr ''a'']]),
                                node_call_post no_node ''createrawtransaction'' (JArr [JInt 1, JInt 9999999, JArr [JStr ''a'']])])
     (posts (fst (transfer_btc (lonely\<lparr>http_answer := \<lambda>_ _. Body (JObj [(''result'', JArr (map utxo_json []))])\<rparr>) no_node
        (JArr [JStr ''BTC'', JBool False, JStr ''a'', JStr ''b'', JFloat (Dbl 1 0), JFloat (Dbl 1 0)]) JNull empty_wallet)))"
  by (rule btc_without_funds_still_creates [where us = "[]"]) simp_all

subsection \<open>Start-up\<close>

record coin_row =
  row_node :: node_info
  row_name :: string
  row_coin :: int

definition coin_row_json :: "coin_row \<Rightarrow> json" where
  "coin_row_json r = JArr [JInt (node_id (row_node r)), JStr (row_name r), JStr (node_url (row_node r)),
     JStr (node_auth (row_node r)), JStr (wallet_url (row_node r)), JStr (wallet_auth (row_node r)), JInt (row_coin r)]"

definition int_range :: "int \<Rightarrow> bool" where
  "int_range i \<longleftrightarrow> - (2 ^ 31) \<le> i \<and> i < 2 ^ 31"

lemma node_info_eta [simp]:
  "\<lparr>node_id = node_id n, node_url = node_url n, wallet_url = wallet_url n, node_auth = node_auth n,
    wallet_auth = wallet_auth n\<rparr> = n"
  by simp

lemma wallet_node_rows:
  assumes "\<forall>r\<in>set (drop k rs). int_range (node_id (row_node r)) \<and> int_range (row_coin r)" and "k \<le> length rs"
  shows "forall_do [k..<length rs] (wallet_node_row (JArr (map coin_row_json rs))) w =
     (w\<lparr>coin_name_id := foldl (\<lambda>m r. AList.update (row_name r) (row_coin r) m) (coin_name_id w) (drop k rs),
        coinid_node := foldl (\<lambda>m r. AList.update (row_coin r) (row_node r) m) (coinid_node w) (drop k rs)\<rparr>, Val ())"
  using assms
proof (induction "length rs - k" arbitrary: k w)
  case 0
  then show ?case by (simp add: prog_simps)
next
  case (Suc d)
  then have k: "k < length rs" by simp
  have e: "[k..<length rs] = k # [Suc k..<length rs]" using k by (simp add: upt_conv_Cons)
  have dr: "drop k rs = rs ! k # drop (Suc k) rs" using k by (simp add: Cons_nth_drop_Suc)
  have IH: "d = length rs - Suc k" "\<forall>r\<in>set (drop (Suc k) rs). int_range (node_id (row_node r)) \<and> int_range (row_coin r)"
    "Suc k \<le> length rs" using Suc k by (simp_all add: dr)
  have r: "int_range (node_id (row_node (rs ! k)))" "int_range (row_coin (rs ! k))"
    using Suc.prems(1) by (simp_all add: dr)
  show ?case
    using r k by (simp add: e bindp_def wallet_node_row_def field_defs coin_row_json_def prog_simps int_range_def
        Suc.hyps(1) [OF IH] dr)
qed

text \<open>
  At start-up every coin of the result is known to the wallet under its name, and every node
  under its coin number; of two rows with the same name or number the last one counts.
\<close>

theorem init_knows_coins_and_nodes:
  assumes "\<forall>r\<in>set rs. int_range (node_id (row_node r)) \<and> int_range (row_coin r)"
    and "forall_do [0..<length rs] (wallet_node_row (JArr (map coin_row_json rs))) w = (t, res)"
  shows "res = Val ()
     \<and> map_of (coin_name_id t) name = (case List.find (\<lambda>r. row_name r = name) (rev rs) of
           Some r \<Rightarrow> Some (row_coin r) | None \<Rightarrow> map_of (coin_name_id w) name)
     \<and> map_of (coinid_node t) cid = (case List.find (\<lambda>r. row_coin r = cid) (rev rs) of
           Some r \<Rightarrow> Some (row_node r) | None \<Rightarrow> map_of (coinid_node w) cid)"
  using assms(2) wallet_node_rows [of 0 rs w] assms(1)
    smap.find_foldl_set [where key = row_name and val = row_coin and m = "coin_name_id w" and rows = rs and k = name]
    smap.find_foldl_set [where key = row_coin and val = row_node and m = "coinid_node w" and rows = rs and k = cid]
  by auto

theorem init_knows_coins_and_nodes_witness:
  "map_of (coin_name_id (fst (forall_do [0..<length [\<lparr>row_node = no_node\<lparr>node_id := 1\<rparr>, row_name = ''BTC'', row_coin = 7\<rparr>]]
     (wallet_node_row (JArr (map coin_row_json [\<lparr>row_node = no_node\<lparr>node_id := 1\<rparr>, row_name = ''BTC'', row_coin = 7\<rparr>])))
     empty_wallet))) ''BTC'' = Some 7"
  using init_knows_coins_and_nodes [of "[\<lparr>row_node = no_node\<lparr>node_id := 1\<rparr>, row_name = ''BTC'', row_coin = 7\<rparr>]" empty_wallet,
      OF _ prod.collapse [symmetric], of "''BTC''" 7]
  by (simp add: int_range_def)

end
