(* ===== verification/StrEncodings.thy ===== *)
theory StrEncodings
  imports DbMysql
begin

section \<open>Text encodings\<close>

text \<open>
  \<open>server/src/utilstrencodings.cpp\<close> and \<open>.h\<close>: hexadecimal, base 64 and base 32, the strict number
  parsers, fixed-point amounts, host and port, the comparison without early exit, and the
  regrouping of bits. Bytes are \<open>8 word\<close>s, the codecs' variables natural numbers with the code's
  bit operations; a \<open>char*\<close> argument is the text up to its first NUL.
\<close>

unbundle bit_operations_syntax

type_synonym byte = "8 word"

definition chr_byte :: "char \<Rightarrow> byte" where "chr_byte c = of_char c"

definition byte_chr :: "byte \<Rightarrow> char" where "byte_chr b = char_of (unat b)"

text \<open>The character at a position of a C string, NUL past its end.\<close>

definition char_at :: "string \<Rightarrow> nat \<Rightarrow> char" where
  "char_at p i = (if i < length p then p ! i else CHR 0x00)"

text \<open>The place of a character in an alphabet, as the decoding tables give it.\<close>

fun index_in :: "string \<Rightarrow> char \<Rightarrow> nat option" where
  "index_in [] c = None"
| "index_in (a # as) c = (if a = c then Some 0 else map_option Suc (index_in as c))"

lemma index_in_nth: "distinct as \<Longrightarrow> i < length as \<Longrightarrow> index_in as (as ! i) = Some i"
proof (induction as arbitrary: i)
  case (Cons a as)
  then show ?case by (cases i) auto
qed simp

subsection \<open>Sanitizing\<close>

definition chars_alpha_num :: string where
  "chars_alpha_num = ''abcdefghijklmnopqrstuvwxyzABCDEFGHIJKLMNOPQRSTUVWXYZ0123456789''"

definition safe_chars :: "nat \<Rightarrow> string" where
  "safe_chars rule =
     [chars_alpha_num @ '' .,;-_/:?@()'', chars_alpha_num @ '' .,;-_?@'', chars_alpha_num @ ''.-_''] ! rule"

definition sanitize_string :: "string \<Rightarrow> nat \<Rightarrow> string" where
  "sanitize_string str rule = filter (\<lambda>c. c \<in> set (safe_chars rule)) str"

subsection \<open>Hexadecimal\<close>

definition hex_digit :: "char \<Rightarrow> int" where
  "hex_digit c =
     (let n = of_char c :: int in
      if 48 \<le> n \<and> n \<le> 57 then n - 48
      else if 65 \<le> n \<and> n \<le> 70 then n - 55
      else if 97 \<le> n \<and> n \<le> 102 then n - 87
      else - 1)"

definition is_hex :: "string \<Rightarrow> bool" where
  "is_hex str \<longleftrightarrow> list_all (\<lambda>c. \<not> hex_digit c < 0) str \<and> 0 < length str \<and> length str mod 2 = 0"

definition is_hex_number :: "string \<Rightarrow> bool" where
  "is_hex_number str =
     (let start = (if 2 < length str \<and> str ! 0 = CHR ''0'' \<and> str ! 1 = CHR ''x'' then 2 else 0)
      in list_all (\<lambda>c. \<not> hex_digit c < 0) (drop start str) \<and> start < length str)"

definition hexmap :: "nat \<Rightarrow> char" where
  "hexmap d = ''0123456789abcdef'' ! d"

definition hex_str :: "bool \<Rightarrow> byte list \<Rightarrow> string" where
  "hex_str spaces bs =
     concat (map (\<lambda>(i, b). (if spaces \<and> i \<noteq> 0 then '' '' else '''')
                     @ [hexmap (drop_bit 4 (unat b)), hexmap (unat b AND 15)]) (enumerate 0 bs))"

function parse_hex_chars :: "string \<Rightarrow> byte list" where
  "parse_hex_chars s =
     (case dropWhile is_space s of
        [] \<Rightarrow> []
      | c # r \<Rightarrow>
          if hex_digit c < 0 then []
          else (case r of
                  [] \<Rightarrow> []
                | d # r' \<Rightarrow>
                    if hex_digit d < 0 then []
                    else of_nat (push_bit 4 (nat (hex_digit c)) OR nat (hex_digit d)) # parse_hex_chars r'))"
  by pat_completeness auto
termination
proof (relation "measure length")
  fix s c r d r'
  assume "dropWhile is_space s = c # r" and "r = d # r'"
  then have "length (dropWhile is_space s) = Suc (Suc (length r'))" by simp
  then show "(r', s) \<in> measure length" using length_dropWhile_le [of is_space s] by simp
qed simp

declare parse_hex_chars.simps [simp del]

definition parse_hex :: "string \<Rightarrow> byte list" where
  "parse_hex str = parse_hex_chars (c_str str)"

subsection \<open>Base 64\<close>

definition base64_alphabet :: string where
  "base64_alphabet = ''ABCDEFGHIJKLMNOPQRSTUVWXYZabcdefghijklmnopqrstuvwxyz0123456789+/''"

text \<open>The state of the encoder: the text, the mode (pending bits), the pending value.\<close>

definition base64_step :: "string \<times> nat \<times> nat \<Rightarrow> byte \<Rightarrow> string \<times> nat \<times> nat" where
  "base64_step st b =
     (case st of (text, mode, left) \<Rightarrow>
      let enc = unat b in
      if mode = 0 then (text @ [base64_alphabet ! drop_bit 2 enc], 1, push_bit 4 (enc AND 3))
      else if mode = 1 then (text @ [base64_alphabet ! (left OR drop_bit 4 enc)], 2, push_bit 2 (enc AND 15))
      else (text @ [base64_alphabet ! (left OR drop_bit 6 enc), base64_alphabet ! (enc AND 63)], 0, left))"

definition encode_base64 :: "byte list \<Rightarrow> string" where
  "encode_base64 bs =
     (case foldl base64_step ('''', 0, 0) bs of (text, mode, left) \<Rightarrow>
      if mode \<noteq> 0 then text @ [base64_alphabet ! left] @ ''='' @ (if mode = 1 then ''='' else '''') else text)"

fun decode64_loop :: "string \<Rightarrow> byte list \<Rightarrow> nat \<Rightarrow> nat \<Rightarrow> byte list \<times> nat \<times> nat \<times> string" where
  "decode64_loop [] out mode left = (out, mode, left, [])"
| "decode64_loop (c # cs) out mode left =
     (case index_in base64_alphabet c of
        None \<Rightarrow> (out, mode, left, c # cs)
      | Some dec \<Rightarrow>
          if mode = 0 then decode64_loop cs out 1 dec
          else if mode = 1 then decode64_loop cs (out @ [of_nat (push_bit 2 left OR drop_bit 4 dec)]) 2 (dec AND 15)
          else if mode = 2 then decode64_loop cs (out @ [of_nat (push_bit 4 left OR drop_bit 2 dec)]) 3 (dec AND 3)
          else decode64_loop cs (out @ [of_nat (push_bit 6 left OR dec)]) 0 left)"

text \<open>The bytes decoded, and whether the text is invalid.\<close>

definition decode_base64 :: "string \<Rightarrow> byte list \<times> bool" where
  "decode_base64 str =
     (case decode64_loop (c_str str) [] 0 0 of (out, mode, left, p) \<Rightarrow>
      (out,
       if mode = 0 then False
       else if mode = 1 then True
       else if mode = 2 then
         left \<noteq> 0 \<or> char_at p 0 \<noteq> CHR ''='' \<or> char_at p 1 \<noteq> CHR ''='' \<or> index_in base64_alphabet (char_at p 2) \<noteq> None
       else left \<noteq> 0 \<or> char_at p 0 \<noteq> CHR ''='' \<or> index_in base64_alphabet (char_at p 1) \<noteq> None))"

subsection \<open>Base 32\<close>

definition base32_alphabet :: string where
  "base32_alphabet = ''abcdefghijklmnopqrstuvwxyz234567''"

definition base32_step :: "string \<times> nat \<times> nat \<Rightarrow> byte \<Rightarrow> string \<times> nat \<times> nat" where
  "base32_step st b =
     (case st of (text, mode, left) \<Rightarrow>
      let enc = unat b; p = (!) base32_alphabet in
      if mode = 0 then (text @ [p (drop_bit 3 enc)], 1, push_bit 2 (enc AND 7))
      else if mode = 1 then (text @ [p (left OR drop_bit 6 enc), p (drop_bit 1 enc AND 31)], 2, push_bit 4 (enc AND 1))
      else if mode = 2 then (text @ [p (left OR drop_bit 4 enc)], 3, push_bit 1 (enc AND 15))
      else if mode = 3 then (text @ [p (left OR drop_bit 7 enc), p (drop_bit 2 enc AND 31)], 4, push_bit 3 (enc AND 3))
      else (text @ [p (left OR drop_bit 5 enc), p (enc AND 31)], 0, left))"

definition base32_padding :: "nat \<Rightarrow> nat" where
  "base32_padding mode = [0, 6, 4, 3, 1] ! mode"

definition encode_base32 :: "byte list \<Rightarrow> string" where
  "encode_base32 bs =
     (case foldl base32_step ('''', 0, 0) bs of (text, mode, left) \<Rightarrow>
      if mode \<noteq> 0 then text @ [base32_alphabet ! left] @ replicate (base32_padding mode) (CHR ''='') else text)"

text \<open>The decoding table also takes the letters in upper case.\<close>

definition decode32_index :: "char \<Rightarrow> nat option" where
  "decode32_index c =
     (let n = of_char c :: nat in
      if 65 \<le> n \<and> n \<le> 90 then Some (n - 65) else index_in base32_alphabet c)"

fun decode32_loop :: "string \<Rightarrow> byte list \<Rightarrow> nat \<Rightarrow> nat \<Rightarrow> byte list \<times> nat \<times> nat \<times> string" where
  "decode32_loop [] out mode left = (out, mode, left, [])"
| "decode32_loop (c # cs) out mode left =
     (case decode32_index c of
        None \<Rightarrow> (out, mode, left, c # cs)
      | Some dec \<Rightarrow>
          if mode = 0 then decode32_loop cs out 1 dec
          else if mode = 1 then decode32_loop cs (out @ [of_nat (push_bit 3 left OR drop_bit 2 dec)]) 2 (dec AND 3)
          else if mode = 2 then decode32_loop cs out 3 (push_bit 5 left OR dec)
          else if mode = 3 then decode32_loop cs (out @ [of_nat (push_bit 1 left OR drop_bit 4 dec)]) 4 (dec AND 15)
          else if mode = 4 then decode32_loop cs (out @ [of_nat (push_bit 4 left OR drop_bit 1 dec)]) 5 (dec AND 1)
          else if mode = 5 then decode32_loop cs out 6 (push_bit 5 left OR dec)
          else if mode = 6 then decode32_loop cs (out @ [of_nat (push_bit 2 left OR drop_bit 3 dec)]) 7 (dec AND 7)
          else decode32_loop cs (out @ [of_nat (push_bit 5 left OR dec)]) 0 left)"

definition padded :: "string \<Rightarrow> nat \<Rightarrow> bool" where
  "padded p n \<longleftrightarrow> list_all (\<lambda>i. char_at p i = CHR ''='') [0..<n] \<and> decode32_index (char_at p n) = None"

definition decode_base32 :: "string \<Rightarrow> byte list \<times> bool" where
  "decode_base32 str =
     (case decode32_loop (c_str str) [] 0 0 of (out, mode, left, p) \<Rightarrow>
      (out,
       if mode = 0 then False
       else if mode = 1 \<or> mode = 3 \<or> mode = 6 then True
       else if mode = 2 then left \<noteq> 0 \<or> \<not> padded p 6
       else if mode = 4 then left \<noteq> 0 \<or> \<not> padded p 4
       else if mode = 5 then left \<noteq> 0 \<or> \<not> padded p 3
       else left \<noteq> 0 \<or> \<not> padded p 1))"

subsection \<open>Numbers\<close>

definition parse_prechecks :: "string \<Rightarrow> bool" where
  "parse_prechecks str \<longleftrightarrow>
     str \<noteq> [] \<and> \<not> is_space (hd str) \<and> \<not> is_space (last str) \<and> CHR 0x00 \<notin> set str"

text \<open>\<open>strtol\<close> and its kin before their range checks: the value, and the text at \<open>endp\<close>.\<close>

definition strto :: "string \<Rightarrow> int \<times> string" where
  "strto s =
     (let (neg, t) = split_sign (dropWhile is_space s); ds = takeWhile is_digit t
      in if ds = [] then (0, s)
         else (if neg then - int (digits_val ds) else int (digits_val ds), dropWhile is_digit t))"

text \<open>\<open>errno\<close> is set when the value is outside of the type \<open>strtol\<close> returns.\<close>

definition parse_signed :: "nat \<Rightarrow> string \<Rightarrow> int option" where
  "parse_signed w str =
     (if \<not> parse_prechecks str then None else
      let (n, rest) = strto str in
      if rest = [] \<and> - (2 ^ 63) \<le> n \<and> n < 2 ^ 63 \<and> - (2 ^ (w - 1)) \<le> n \<and> n < 2 ^ (w - 1) then Some n else None)"

definition parse_int32 :: "string \<Rightarrow> int option" where "parse_int32 = parse_signed 32"

definition parse_int64 :: "string \<Rightarrow> int option" where "parse_int64 = parse_signed 64"

definition parse_unsigned :: "nat \<Rightarrow> string \<Rightarrow> nat option" where
  "parse_unsigned w str =
     (if \<not> parse_prechecks str then None else
      if hd str = CHR ''-'' then None else
      let (n, rest) = strto str in
      if rest = [] \<and> n < 2 ^ 64 \<and> n < 2 ^ w then Some (nat n) else None)"

definition parse_uint32 :: "string \<Rightarrow> nat option" where "parse_uint32 = parse_unsigned 32"

definition parse_uint64 :: "string \<Rightarrow> nat option" where "parse_uint64 = parse_unsigned 64"

text \<open>\<open>strtoll\<close> and \<open>strtol\<close> without an end pointer clamp to the range of 64 bits; \<open>atoi\<close> cuts to \<open>int\<close>.\<close>

definition atoi64 :: "string \<Rightarrow> int" where
  "atoi64 str = max (- (2 ^ 63)) (min (2 ^ 63 - 1) (fst (strto (c_str str))))"

definition atoi :: "string \<Rightarrow> int" where
  "atoi str = wrap_i32 (atoi64 str)"

subsection \<open>Fixed-point amounts\<close>

definition UPPER_BOUND :: int where "UPPER_BOUND = 10 ^ 18 - 1"

text \<open>The inner loop of \<open>ProcessMantissaDigit\<close>: \<open>k\<close> multiplications by ten with the overflow test.\<close>

primrec scale_mantissa :: "nat \<Rightarrow> int \<Rightarrow> int option" where
  "scale_mantissa 0 m = Some m"
| "scale_mantissa (Suc k) m = (if UPPER_BOUND div 10 < m then None else scale_mantissa k (m * 10))"

definition process_mantissa_digit :: "char \<Rightarrow> int \<times> nat \<Rightarrow> (int \<times> nat) option" where
  "process_mantissa_digit ch st =
     (case st of (mantissa, tzeros) \<Rightarrow>
      if ch = CHR ''0'' then Some (mantissa, Suc tzeros)
      else map_option (\<lambda>m. (m + int (digit_val ch), 0)) (scale_mantissa (Suc tzeros) mantissa))"

text \<open>The digits at the front of the text; what is left of it.\<close>

fun mantissa_digits :: "string \<Rightarrow> int \<times> nat \<Rightarrow> ((int \<times> nat) \<times> string) option" where
  "mantissa_digits [] st = Some (st, [])"
| "mantissa_digits (c # cs) st =
     (if is_digit c then Option.bind (process_mantissa_digit c st) (mantissa_digits cs) else Some (st, c # cs))"

fun exponent_digits :: "string \<Rightarrow> int \<Rightarrow> (int \<times> string) option" where
  "exponent_digits [] e = Some (e, [])"
| "exponent_digits (c # cs) e =
     (if is_digit c
      then if UPPER_BOUND div 10 < e then None else exponent_digits cs (e * 10 + int (digit_val c))
      else Some (e, c # cs))"

definition fixed_integer_part :: "string \<Rightarrow> ((int \<times> nat) \<times> string) option" where
  "fixed_integer_part s =
     (case s of
        [] \<Rightarrow> None
      | c # cs \<Rightarrow>
          if c = CHR ''0'' then Some ((0, 0), cs)
          else if is_digit c then mantissa_digits s (0, 0) else None)"

text \<open>The fraction: the state, the number of digits after the point, the rest.\<close>

definition fixed_fraction :: "string \<Rightarrow> int \<times> nat \<Rightarrow> ((int \<times> nat) \<times> nat \<times> string) option" where
  "fixed_fraction s st =
     (if s \<noteq> [] \<and> hd s = CHR ''.'' then
        (if tl s \<noteq> [] \<and> is_digit (hd (tl s))
         then map_option (\<lambda>(st', rest). (st', length (tl s) - length rest, rest)) (mantissa_digits (tl s) st)
         else None)
      else Some (st, 0, s))"

definition fixed_exponent :: "string \<Rightarrow> (int \<times> string) option" where
  "fixed_exponent s =
     (if s \<noteq> [] \<and> (hd s = CHR ''e'' \<or> hd s = CHR ''E'') then
        (let t = tl s;
             neg = (t \<noteq> [] \<and> hd t = CHR ''-'');
             t = (if t \<noteq> [] \<and> (hd t = CHR ''+'' \<or> hd t = CHR ''-'') then tl t else t)
         in if t \<noteq> [] \<and> is_digit (hd t)
            then map_option (\<lambda>(e, rest). (if neg then - e else e, rest)) (exponent_digits t 0)
            else None)
      else Some (0, s))"

primrec scale_amount :: "nat \<Rightarrow> int \<Rightarrow> int option" where
  "scale_amount 0 m = Some m"
| "scale_amount (Suc k) m =
     (if UPPER_BOUND div 10 < m \<or> m < - (UPPER_BOUND div 10) then None else scale_amount k (m * 10))"

definition parse_fixed_point :: "string \<Rightarrow> int \<Rightarrow> int option" where
  "parse_fixed_point val decimals =
     (let neg = (val \<noteq> [] \<and> hd val = CHR ''-''); s = (if neg then tl val else val) in
      Option.bind (fixed_integer_part s) (\<lambda>(st, s).
      Option.bind (fixed_fraction s st) (\<lambda>((mantissa, tzeros), point_ofs, s).
      Option.bind (fixed_exponent s) (\<lambda>(e, s).
      if s \<noteq> [] then None else
      let e = e - int point_ofs + int tzeros + decimals;
          m = (if neg then - mantissa else mantissa) in
      if e < 0 then None else if 18 \<le> e then None else
      Option.bind (scale_amount (nat e) m) (\<lambda>m.
      if UPPER_BOUND < m \<or> m < - UPPER_BOUND then None else Some m)))))"

subsection \<open>Hosts, comparison, bits\<close>

text \<open>The position of the last occurrence of a character.\<close>

definition find_last :: "char \<Rightarrow> string \<Rightarrow> nat option" where
  "find_last c s = (if c \<in> set s then Some (length s - 1 - length (takeWhile (\<lambda>d. d \<noteq> c) (rev s))) else None)"

text \<open>
  \<open>SplitHostPort\<close>: the port is kept as it was unless a valid one is found. \<open>in[colon-1]\<close> with the
  colon at the front is never read, because \<open>in[0]\<close> is the colon then.
\<close>

definition split_host_port :: "string \<Rightarrow> int \<Rightarrow> int \<times> string" where
  "split_host_port s port =
     (let (port', s') =
        (case find_last (CHR '':'') s of
           None \<Rightarrow> (port, s)
         | Some colon \<Rightarrow>
             let bracketed = (s ! 0 = CHR ''['' \<and> s ! (colon - 1) = CHR '']'');
                 multi_colon = (if colon = 0 then True else CHR '':'' \<in> set (take colon s)) in
             if colon = 0 \<or> bracketed \<or> \<not> multi_colon then
               (case parse_int32 (drop (colon + 1) s) of
                  Some n \<Rightarrow> if 0 < n \<and> n < 0x10000 then (n, take colon s) else (port, s)
                | None \<Rightarrow> (port, s))
             else (port, s))
      in if s' \<noteq> [] \<and> hd s' = CHR ''['' \<and> last s' = CHR '']'' then (port', butlast (tl s')) else (port', s'))"

definition timing_resistant_equal :: "string \<Rightarrow> string \<Rightarrow> bool" where
  "timing_resistant_equal a b =
     (if length b = 0 then length a = 0
      else foldl (\<lambda>acc i. acc OR (of_char (a ! i) XOR of_char (b ! (i mod length b))))
             (length a XOR length b) [0..<length a] = 0)"

text \<open>\<open>ConvertBits<frombits, tobits, pad>\<close>: the output and the result.\<close>

function emit_bits :: "nat \<Rightarrow> nat \<Rightarrow> nat \<Rightarrow> nat list \<Rightarrow> nat list \<times> nat" where
  "emit_bits tobits acc bits out =
     (if 0 < tobits \<and> tobits \<le> bits
      then emit_bits tobits acc (bits - tobits) (out @ [drop_bit (bits - tobits) acc AND (2 ^ tobits - 1)])
      else (out, bits))"
  by pat_completeness auto
termination by (relation "measure (\<lambda>(_, _, bits, _). bits)") auto

declare emit_bits.simps [simp del]

definition convert_step :: "nat \<Rightarrow> nat \<Rightarrow> nat list \<times> nat \<times> nat \<Rightarrow> nat \<Rightarrow> nat list \<times> nat \<times> nat" where
  "convert_step frombits tobits st v =
     (case st of (out, acc, bits) \<Rightarrow>
      let acc = (push_bit frombits acc OR v) AND (2 ^ (frombits + tobits - 1) - 1);
          (out, bits) = emit_bits tobits acc (bits + frombits) out
      in (out, acc, bits))"

definition convert_bits :: "nat \<Rightarrow> nat \<Rightarrow> bool \<Rightarrow> nat list \<Rightarrow> nat list \<times> bool" where
  "convert_bits frombits tobits pad vs =
     (case foldl (convert_step frombits tobits) ([], 0, 0) vs of (out, acc, bits) \<Rightarrow>
      if pad then (if bits \<noteq> 0 then out @ [push_bit (tobits - bits) acc AND (2 ^ tobits - 1)] else out, True)
      else (out, \<not> (frombits \<le> bits \<or> push_bit (tobits - bits) acc AND (2 ^ tobits - 1) \<noteq> 0)))"

end
