(* ===== verification/EncodingProps.thy ===== *)
theory EncodingProps
  imports StrEncodings
begin

section \<open>Properties of the text encodings\<close>

text \<open>
  Round trips of the codecs (through the locale \<open>codec\<close>), the strict number parsers, the bounds
  of fixed-point amounts, and the comparison without early exit.
\<close>

unbundle bit_operations_syntax

lemma or_join: "b < 2 ^ n \<Longrightarrow> push_bit n a OR b = a * 2 ^ n + (b::nat)"
proof -
  assume b: "b < 2 ^ n"
  then have t: "take_bit n b = b" by (simp add: take_bit_nat_eq_self)
  have "push_bit n a AND b = 0"
  proof (rule bit_eqI)
    fix k
    have "bit b k \<Longrightarrow> k < n" using t bit_take_bit_iff [of n b k] by simp
    then show "bit (push_bit n a AND b) k \<longleftrightarrow> bit 0 k"
      by (auto simp: bit_and_iff bit_push_bit_iff)
  qed
  then have "push_bit n a OR b = push_bit n a + b" by (simp add: disjunctive_add_eq_or)
  then show ?thesis by (simp add: push_bit_eq_mult)
qed

lemma and_mask_mod: "(a::nat) AND (2 ^ n - 1) = a mod 2 ^ n"
  by (metis mask_eq_exp_minus_1 take_bit_eq_mask take_bit_eq_mod)

lemma and_mask: "(a::nat) AND 1 = a mod 2" "(a::nat) AND 3 = a mod 4" "(a::nat) AND 7 = a mod 8"
  "(a::nat) AND 15 = a mod 16" "(a::nat) AND 31 = a mod 32" "(a::nat) AND 63 = a mod 64"
  using and_mask_mod [of a 1] and_mask_mod [of a 2] and_mask_mod [of a 3] and_mask_mod [of a 4]
    and_mask_mod [of a 5] and_mask_mod [of a 6]
  by simp_all

subsection \<open>Base 64 is read back\<close>

text \<open>What a codec promises, and what its clients get: distinct inputs have distinct encodings.\<close>

locale codec =
  fixes enc :: "'a \<Rightarrow> 'b" and dec :: "'b \<Rightarrow> 'a option"
  assumes dec_enc: "dec (enc x) = Some x"
begin

lemma enc_inj: "enc x = enc y \<longleftrightarrow> x = y"
  by (metis dec_enc option.inject)

lemma dec_onto: "\<exists>b. dec b = Some x"
  using dec_enc by blast

end

text \<open>The four sextets of three bytes.\<close>

definition sextet0 :: "byte \<Rightarrow> nat" where "sextet0 a = unat a div 4"
definition sextet1 :: "byte \<Rightarrow> nat \<Rightarrow> nat" where "sextet1 a m = unat a mod 4 * 16 + m div 16"
definition sextet2 :: "byte \<Rightarrow> nat \<Rightarrow> nat" where "sextet2 b m = unat b mod 16 * 4 + m div 64"
definition sextet3 :: "byte \<Rightarrow> nat" where "sextet3 c = unat c mod 64"

lemmas sextet_defs = sextet0_def sextet1_def sextet2_def sextet3_def

fun enc64 :: "byte list \<Rightarrow> string" where
  "enc64 (a # b # c # bs) =
     base64_alphabet ! sextet0 a # base64_alphabet ! sextet1 a (unat b)
       # base64_alphabet ! sextet2 b (unat c) # base64_alphabet ! sextet3 c # enc64 bs"
| "enc64 [a, b] =
     [base64_alphabet ! sextet0 a, base64_alphabet ! sextet1 a (unat b), base64_alphabet ! sextet2 b 0, CHR ''='']"
| "enc64 [a] = [base64_alphabet ! sextet0 a, base64_alphabet ! sextet1 a 0, CHR ''='', CHR ''='']"
| "enc64 [] = []"

lemma byte_less: "unat (a :: byte) < 256"
  using unsigned_less [of a] by simp

lemma base64_bits:
  "drop_bit 2 (unat (a::byte)) = sextet0 a" "unat a AND 63 = sextet3 a"
  "push_bit 4 (unat a AND 3) OR drop_bit 4 (unat (b::byte)) = sextet1 a (unat b)"
  "push_bit 4 (unat a AND 3) = sextet1 a 0"
  "push_bit 2 (unat a AND 15) OR drop_bit 6 (unat b) = sextet2 a (unat b)"
  "push_bit 2 (unat a AND 15) = sextet2 a 0"
proof -
  have b: "unat b div 16 < 2 ^ 4" "unat b div 64 < 2 ^ 2" using byte_less [of b] by simp_all
  show "push_bit 4 (unat a AND 3) OR drop_bit 4 (unat b) = sextet1 a (unat b)"
    using or_join [OF b(1), of "unat a mod 4"] by (simp only: and_mask sextet1_def drop_bit_eq_div) simp
  show "push_bit 2 (unat a AND 15) OR drop_bit 6 (unat b) = sextet2 a (unat b)"
    using or_join [OF b(2), of "unat a mod 16"] by (simp only: and_mask sextet2_def drop_bit_eq_div) simp
qed (simp_all add: sextet_defs and_mask drop_bit_eq_div push_bit_eq_mult)

lemma base64_or:
  "sextet1 a 0 OR drop_bit 4 (unat (b::byte)) = sextet1 a (unat b)"
  "sextet2 a 0 OR drop_bit 6 (unat b) = sextet2 a (unat b)"
  using base64_bits(3) [of a b] base64_bits(5) [of a b] unfolding base64_bits(4,6) by simp_all

lemma base64_rounds:
  "base64_step (t, 0, l) a = (t @ [base64_alphabet ! sextet0 a], 1, sextet1 a 0)"
  "base64_step (t, Suc 0, sextet1 a 0) b = (t @ [base64_alphabet ! sextet1 a (unat b)], 2, sextet2 b 0)"
  "base64_step (t, 2, sextet2 b 0) c =
     (t @ [base64_alphabet ! sextet2 b (unat c), base64_alphabet ! sextet3 c], 0, sextet2 b 0)"
  by (simp_all only: base64_step_def Let_def prod.case base64_bits(1,2,4,6) base64_or) simp_all

lemma encode_base64_enc64:
  "(case foldl base64_step (t, 0, l) bs of (text, mode, left) \<Rightarrow>
      if mode \<noteq> 0 then text @ [base64_alphabet ! left] @ ''='' @ (if mode = 1 then ''='' else '''') else text)
   = t @ enc64 bs"
  by (induction bs arbitrary: t l rule: enc64.induct) (simp_all add: base64_rounds)

lemma base64_index: "i < 64 \<Longrightarrow> index_in base64_alphabet (base64_alphabet ! i) = Some i"
  by (rule index_in_nth) (simp_all add: base64_alphabet_def)

lemma base64_no_equals: "index_in base64_alphabet (CHR ''='') = None"
  by (simp add: base64_alphabet_def)

lemma sextet_less: "sextet0 a < 64" "m < 256 \<Longrightarrow> sextet1 a m < 64" "m < 256 \<Longrightarrow> sextet2 b m < 64" "sextet3 c < 64"
proof -
  show "sextet0 a < 64" using byte_less [of a] by (simp add: sextet0_def)
  show "m < 256 \<Longrightarrow> sextet1 a m < 64"
    using mod_less_divisor [of 4 "unat a"] unfolding sextet1_def by linarith
  show "m < 256 \<Longrightarrow> sextet2 b m < 64"
    using mod_less_divisor [of 16 "unat b"] unfolding sextet2_def by linarith
qed (simp add: sextet3_def)

lemma join_sextets:
  "m < 256 \<Longrightarrow> of_nat (push_bit 2 (sextet0 a) OR drop_bit 4 (sextet1 a m)) = a"
  "m < 256 \<Longrightarrow> of_nat (push_bit 4 (sextet1 a (unat b) AND 15) OR drop_bit 2 (sextet2 b m)) = b"
  "of_nat (push_bit 6 (sextet2 b (unat c) AND 3) OR sextet3 c) = c"
proof -
  have a: "push_bit 2 (sextet0 a) OR drop_bit 4 (sextet1 a m) = unat a" if "m < 256"
  proof -
    have d: "sextet1 a m div 16 = unat a mod 4"
      using that unfolding sextet1_def by (simp add: div_mult2_eq [symmetric])
    show ?thesis by (simp add: drop_bit_eq_div d or_join [of _ 2] sextet0_def)
  qed
  then show "m < 256 \<Longrightarrow> of_nat (push_bit 2 (sextet0 a) OR drop_bit 4 (sextet1 a m)) = a" by simp
  have b: "push_bit 4 (sextet1 a (unat b) AND 15) OR drop_bit 2 (sextet2 b m) = unat b" if "m < 256"
  proof -
    have d: "sextet2 b m div 4 = unat b mod 16"
      using that unfolding sextet2_def by (simp add: div_mult2_eq [symmetric])
    have e: "sextet1 a (unat b) mod 16 = unat b div 16"
      using byte_less [of b] unfolding sextet1_def by simp
    show ?thesis by (simp add: drop_bit_eq_div and_mask d e or_join [of _ 4])
  qed
  then show "m < 256 \<Longrightarrow> of_nat (push_bit 4 (sextet1 a (unat b) AND 15) OR drop_bit 2 (sextet2 b m)) = b" by simp
  have c: "push_bit 6 (sextet2 b (unat c) AND 3) OR sextet3 c = unat c"
  proof -
    have e: "sextet2 b (unat c) mod 4 = unat c div 64"
      using byte_less [of c] unfolding sextet2_def by simp
    show ?thesis by (simp add: and_mask e or_join [of _ 6] sextet3_def)
  qed
  then show "of_nat (push_bit 6 (sextet2 b (unat c) AND 3) OR sextet3 c) = c" by simp
qed

lemma decode64_quad:
  assumes "w < 64" "x < 64" "y < 64" "z < 64"
  shows "decode64_loop (base64_alphabet ! w # base64_alphabet ! x # base64_alphabet ! y # base64_alphabet ! z # cs) out 0 l
     = decode64_loop cs (out @ [of_nat (push_bit 2 w OR drop_bit 4 x), of_nat (push_bit 4 (x AND 15) OR drop_bit 2 y),
          of_nat (push_bit 6 (y AND 3) OR z)]) 0 (y AND 3)"
  using assms by (simp add: base64_index)

lemma decode64_three:
  assumes "w < 64" "x < 64" "y < 64"
  shows "decode64_loop (base64_alphabet ! w # base64_alphabet ! x # base64_alphabet ! y # ''='') out 0 l
     = (out @ [of_nat (push_bit 2 w OR drop_bit 4 x), of_nat (push_bit 4 (x AND 15) OR drop_bit 2 y)], 3, y AND 3, ''='')"
  using assms by (simp add: base64_index base64_no_equals)

lemma decode64_two:
  assumes "w < 64" "x < 64"
  shows "decode64_loop (base64_alphabet ! w # base64_alphabet ! x # ''=='') out 0 l
     = (out @ [of_nat (push_bit 2 w OR drop_bit 4 x)], 2, x AND 15, ''=='')"
  using assms by (simp add: base64_index base64_no_equals)

lemma sextet_rest: "sextet2 b 0 AND 3 = 0" "sextet1 a 0 AND 15 = 0"
  by (simp_all add: sextet_defs and_mask)

lemma decode64_enc64:
  "\<exists>l'. decode64_loop (enc64 bs) out 0 l =
     (out @ bs, [0, 2, 3] ! (length bs mod 3), if length bs mod 3 = 0 then l' else 0,
      ['''', ''=='', ''=''] ! (length bs mod 3))"
proof (induction bs arbitrary: out l rule: enc64.induct)
  case (1 a b c bs)
  have "length (a # b # c # bs) = length bs + 3" by simp
  then have "length (a # b # c # bs) mod 3 = length bs mod 3" by (simp only: mod_add_self2)
  moreover have "decode64_loop (enc64 (a # b # c # bs)) out 0 l
      = decode64_loop (enc64 bs) (out @ [a, b, c]) 0 (sextet2 b (unat c) AND 3)"
    unfolding enc64.simps
    by (subst decode64_quad) (simp_all only: sextet_less byte_less join_sextets)
  ultimately show ?case using "1.IH" [of "out @ [a, b, c]"] by simp
next
  case (2 a b)
  show ?case
    unfolding enc64.simps
    by (subst decode64_three) (simp_all only: sextet_less byte_less join_sextets sextet_rest zero_less_numeral, simp)
next
  case (3 a)
  show ?case
    unfolding enc64.simps
    by (subst decode64_two) (simp_all only: sextet_less byte_less join_sextets sextet_rest zero_less_numeral, simp)
qed simp

lemma base64_no_nul: "i < 64 \<Longrightarrow> CHR 0x00 \<noteq> base64_alphabet ! i"
proof -
  assume "i < 64"
  then have "base64_alphabet ! i \<in> set base64_alphabet" by (intro nth_mem) (simp add: base64_alphabet_def)
  moreover have "CHR 0x00 \<notin> set base64_alphabet" by (simp add: base64_alphabet_def)
  ultimately show ?thesis by metis
qed

lemma enc64_no_nul: "CHR 0x00 \<notin> set (enc64 bs)"
  by (induction bs rule: enc64.induct) (simp_all add: base64_no_nul sextet_less byte_less)

lemma c_str_id: "CHR 0x00 \<notin> set s \<Longrightarrow> c_str s = s"
  unfolding c_str_def by (induction s) auto

lemma base64_read_back: "decode_base64 (encode_base64 bs) = (bs, False)"
proof -
  have e: "encode_base64 bs = enc64 bs"
    using encode_base64_enc64 [of "''''" 0 bs] by (simp add: encode_base64_def)
  obtain l' where d: "decode64_loop (enc64 bs) [] 0 0 =
     (bs, [0, 2, 3] ! (length bs mod 3), if length bs mod 3 = 0 then l' else 0, ['''', ''=='', ''=''] ! (length bs mod 3))"
    using decode64_enc64 [of bs "[]" 0] by auto
  have "length bs mod 3 < 3" by simp
  then consider "length bs mod 3 = 0" | "length bs mod 3 = 1" | "length bs mod 3 = 2" by linarith
  then show ?thesis
    by cases (simp_all add: decode_base64_def e d c_str_id enc64_no_nul char_at_def base64_alphabet_def)
qed

interpretation base64: codec encode_base64
  "\<lambda>s. case decode_base64 s of (bs, bad) \<Rightarrow> if bad then None else Some bs"
proof
  fix bs
  show "(case decode_base64 (encode_base64 bs) of (bs, bad) \<Rightarrow> if bad then None else Some bs) = Some bs"
    by (simp add: base64_read_back)
qed

text \<open>
  \<open>DecodeBase64\<close> reads back what \<open>EncodeBase64\<close> writes, for every byte string, and calls the
  text valid.
\<close>

theorem base64_roundtrip: "decode_base64 (encode_base64 bs) = (bs, False) \<and> (encode_base64 bs = encode_base64 cs \<longleftrightarrow> bs = cs)"
  using base64_read_back base64.enc_inj by auto

subsection \<open>Hexadecimal is read back\<close>

lemma hex_str_plain: "hex_str False bs = concat (map (\<lambda>b. [hexmap (drop_bit 4 (unat b)), hexmap (unat b AND 15)]) bs)"
proof -
  have "concat (map (\<lambda>(i, b). [hexmap (drop_bit 4 (unat b)), hexmap (unat b AND 15)]) (enumerate n bs))
      = concat (map (\<lambda>b. [hexmap (drop_bit 4 (unat b)), hexmap (unat b AND 15)]) bs)" for n
    by (induction bs arbitrary: n) simp_all
  then show ?thesis by (simp add: hex_str_def)
qed

lemma sixteen_cases: "(d::nat) < 16 \<Longrightarrow> d = 0 \<or> d = 1 \<or> d = 2 \<or> d = 3 \<or> d = 4 \<or> d = 5 \<or> d = 6 \<or> d = 7
  \<or> d = 8 \<or> d = 9 \<or> d = 10 \<or> d = 11 \<or> d = 12 \<or> d = 13 \<or> d = 14 \<or> d = 15"
  by presburger

lemma hexmap_facts:
  assumes "d < 16"
  shows "hex_digit (hexmap d) = int d" "\<not> is_space (hexmap d)" "hexmap d \<noteq> CHR 0x00"
  using sixteen_cases [OF assms] by (auto simp: hexmap_def hex_digit_def is_space_def)

lemma nibbles: "drop_bit 4 (unat (b::byte)) < 16" "unat b AND 15 < 16"
  using byte_less [of b] by (simp_all add: drop_bit_eq_div and_mask)

lemma join_nibbles: "(of_nat (push_bit 4 (drop_bit 4 (unat b)) OR (unat b AND 15)) :: byte) = b"
proof -
  have "push_bit 4 (drop_bit 4 (unat b)) OR (unat b AND 15) = unat b"
    by (simp only: and_mask drop_bit_eq_div or_join [of "unat b mod 16" 4 for b, simplified])
       simp
  then show ?thesis by simp
qed

lemma parse_hex_chars_hex_str: "parse_hex_chars (hex_str False bs) = bs"
proof (induction bs)
  case Nil
  show ?case by (simp add: hex_str_def parse_hex_chars.simps)
next
  case (Cons b bs)
  have e: "hex_str False (b # bs) = hexmap (drop_bit 4 (unat b)) # hexmap (unat b AND 15) # hex_str False bs"
    by (simp add: hex_str_plain)
  show ?case
    unfolding e parse_hex_chars.simps [of "_ # _ # _"]
    using nibbles [of b] by (simp add: hexmap_facts Cons.IH join_nibbles)
qed

lemma parse_hex_hex_str: "parse_hex (hex_str False bs) = bs"
proof -
  have "CHR 0x00 \<notin> set (hex_str False bs)"
    using hexmap_facts(3) nibbles by (force simp: hex_str_plain)
  then show ?thesis by (simp add: parse_hex_def c_str_id parse_hex_chars_hex_str)
qed

interpretation hex: codec "hex_str False" "\<lambda>s. Some (parse_hex s)"
  by unfold_locales (simp add: parse_hex_hex_str)

text \<open>
  \<open>ParseHex\<close> reads back what \<open>HexStr\<close> writes, for every byte string; \<open>IsHex\<close> accepts the text
  exactly when there is at least one byte; different byte strings have different texts.
\<close>

theorem hex_roundtrip:
  "parse_hex (hex_str False bs) = bs \<and> (is_hex (hex_str False bs) \<longleftrightarrow> bs \<noteq> [])
   \<and> (hex_str False bs = hex_str False cs \<longleftrightarrow> bs = cs)"
proof -
  have all: "list_all (\<lambda>c. \<not> hex_digit c < 0) (hex_str False bs)"
    using hexmap_facts(1) nibbles by (auto simp: hex_str_plain list_all_iff)
  have len: "length (hex_str False bs) = 2 * length bs"
    by (induction bs) (simp_all add: hex_str_plain)
  show ?thesis using all len parse_hex_hex_str hex.enc_inj by (auto simp: is_hex_def)
qed

subsection \<open>Numbers\<close>

lemma strto_digits:
  assumes "ds \<noteq> []" and "list_all is_digit ds"
  shows "strto ds = (int (digits_val ds), [])" "strto (CHR ''-'' # ds) = (- int (digits_val ds), [])"
proof -
  obtain d r where d: "ds = d # r" "is_digit d" using assms by (cases ds) auto
  then have sgn: "d \<noteq> CHR ''-''" "d \<noteq> CHR ''+''" by (auto simp: is_digit_def)
  have t: "takeWhile is_digit ds = ds" "dropWhile is_digit ds = []"
    using assms(2) by (auto simp: list_all_iff takeWhile_eq_all_conv)
  have sp: "\<not> is_space (CHR ''-'')" by (simp add: is_space_def)
  have s: "dropWhile is_space ds = ds" using d is_digit_not_space by simp
  have sg: "split_sign ds = (False, ds)" using d sgn by (simp add: split_sign_def)
  show "strto ds = (int (digits_val ds), [])"
    using assms(1) by (simp add: strto_def s sg t)
  show "strto (CHR ''-'' # ds) = (- int (digits_val ds), [])"
    using assms(1) by (simp add: strto_def split_sign_def sp t)
qed

lemma strto_int_to_string: "strto (int_to_string i) = (i, [])"
  using strto_digits [of "nat_to_string (nat (- i))"] strto_digits [of "nat_to_string (nat i)"]
    nat_to_string_digits [of "nat (- i)"] nat_to_string_digits [of "nat i"]
  by (auto simp: int_to_string_def digits_val_nat_to_string)

lemma int_to_string_prechecks: "parse_prechecks (int_to_string i)"
proof -
  have ok: "c \<in> set (int_to_string i) \<Longrightarrow> is_digit c \<or> c = CHR ''-''" for c
    using nat_to_string_digits by (auto simp: int_to_string_def list_all_iff split: if_splits)
  have ne: "int_to_string i \<noteq> []" by (simp add: int_to_string_def)
  have sp: "is_digit c \<or> c = CHR ''-'' \<Longrightarrow> \<not> is_space c \<and> c \<noteq> CHR 0x00" for c
    by (auto simp: is_digit_not_space is_space_def is_digit_def)
  show ?thesis
    using ok sp ne hd_in_set [OF ne] last_in_set [OF ne] by (auto simp: parse_prechecks_def)
qed

text \<open>
  \<open>ParseInt64\<close> and \<open>ParseInt32\<close> read back the decimal text of every number of their type, and
  reject the text of every number outside of it.
\<close>

theorem parse_int_decimal:
  "parse_int64 (int_to_string i) = (if - (2 ^ 63) \<le> i \<and> i < 2 ^ 63 then Some i else None)
   \<and> parse_int32 (int_to_string i) = (if - (2 ^ 31) \<le> i \<and> i < 2 ^ 31 then Some i else None)"
  using int_to_string_prechecks [of i]
  by (auto simp: parse_int64_def parse_int32_def parse_signed_def strto_int_to_string)

definition amount_ok :: "int option \<Rightarrow> bool" where
  "amount_ok r \<longleftrightarrow> (case r of None \<Rightarrow> True | Some a \<Rightarrow> - (10 ^ 18) < a \<and> a < 10 ^ 18)"

lemma amount_ok_None: "amount_ok None"
  by (simp add: amount_ok_def)

lemma amount_ok_bind: "(\<And>y. amount_ok (f y)) \<Longrightarrow> amount_ok (Option.bind x f)"
  by (cases x) (simp_all add: amount_ok_None)

lemma amount_ok_if: "(c \<Longrightarrow> amount_ok p) \<Longrightarrow> (\<not> c \<Longrightarrow> amount_ok q) \<Longrightarrow> amount_ok (if c then p else q)"
  by simp

lemma amount_ok_prod: "(\<And>u v. amount_ok (g u v)) \<Longrightarrow> amount_ok (case pr of (u, v) \<Rightarrow> g u v)"
  "(\<And>u v. amount_ok (h u v z)) \<Longrightarrow> amount_ok ((case pr of (u, v) \<Rightarrow> h u v) z)"
  by (cases pr; simp)+

lemmas amount_ok_intros = amount_ok_None amount_ok_bind amount_ok_if amount_ok_prod

lemma amount_ok_Some: "\<not> (UPPER_BOUND < m \<or> m < - UPPER_BOUND) \<Longrightarrow> amount_ok (Some m)"
  by (auto simp: amount_ok_def UPPER_BOUND_def)

text \<open>
  \<open>ParseFixedPoint\<close> never returns an amount of \<open>10\<^sup>1\<^sup>8\<close> or more, in either sign, whatever the text and
  the number of decimals.
\<close>

theorem parse_fixed_point_bounds:
  "case parse_fixed_point val decimals of None \<Rightarrow> True | Some a \<Rightarrow> - (10 ^ 18) < a \<and> a < 10 ^ 18"
proof -
  have "amount_ok (parse_fixed_point val decimals)"
    unfolding parse_fixed_point_def Let_def by (intro amount_ok_intros amount_ok_Some)
  then show ?thesis by (simp add: amount_ok_def)
qed

subsection \<open>Comparison\<close>

lemma or_loop_zero:
  "foldl (\<lambda>acc i. acc OR f i) (n::nat) xs = 0 \<longleftrightarrow> n = 0 \<and> (\<forall>i\<in>set xs. f i = 0)"
proof (induction xs arbitrary: n)
  case (Cons x xs)
  have "(n OR f x = 0) \<longleftrightarrow> n = 0 \<and> f x = 0"
    by (metis or_eq_0_iff)
  with Cons show ?case by auto
qed simp

lemma xor_zero: "(a XOR b = (0::nat)) \<longleftrightarrow> a = b"
proof
  assume z: "a XOR b = 0"
  show "a = b"
  proof (rule bit_eqI)
    fix n
    have "bit (a XOR b) n = False" by (simp add: z)
    then show "bit a n \<longleftrightarrow> bit b n" by (simp add: bit_xor_iff)
  qed
qed simp

text \<open>
  \<open>TimingResistantEqual\<close> is equality, for texts of any length.
\<close>

theorem timing_resistant_equal_iff: "timing_resistant_equal a b \<longleftrightarrow> a = b"
proof (cases "length b = 0")
  case True
  then show ?thesis by (simp add: timing_resistant_equal_def)
next
  case False
  have "timing_resistant_equal a b \<longleftrightarrow> length a = length b \<and> (\<forall>i<length a. a ! i = b ! (i mod length b))"
    using False by (auto simp: timing_resistant_equal_def or_loop_zero xor_zero)
  also have "\<dots> \<longleftrightarrow> a = b" by (auto simp: list_eq_iff_nth_eq)
  finally show ?thesis .
qed

end
