(* ===== verification/Relay.thy ===== *)
theory Relay
  imports WalletTransfer
begin

section \<open>The relay commands\<close>

text \<open>
  \<open>server/src/rpc/relay.cpp\<close>: \<open>getrechargeaddress\<close>, which assigns a deposit address to a user of
  a coin and remembers it, and \<open>transfer\<close>, the RPC front of the wallet's transfers; with the
  JSON-RPC request they take (\<open>rpc/server.h\<close>).
\<close>

subsection \<open>Requests\<close>

record jrequest =
  r_id :: json
  r_method :: string
  r_params :: json
  r_help :: bool
  r_uri :: string
  r_auth_user :: string

definition new_request :: jrequest where
  "new_request = \<lparr>r_id = JObj [], r_method = '''', r_params = JObj [], r_help = False, r_uri = '''', r_auth_user = ''''\<rparr>"

subsection \<open>State\<close>

record account_info =
  ai_account_id :: int
  ai_address :: string
  ai_tag :: string

record relay =
  relay_wallet :: wallet
  usercoin_account :: "(string, account_info) smap"

text \<open>A program of the wallet (or of the database client it contains) inside the server.\<close>

definition on_wallet :: "'a wallet_prog \<Rightarrow> ('x relay_scheme, exn, 'a) prog" where
  "on_wallet m s = (case m (relay_wallet s) of (w, r) \<Rightarrow> (s\<lparr>relay_wallet := w\<rparr>, r))"

subsection \<open>Deposit addresses\<close>

definition sql_coin_of :: "bool \<Rightarrow> string \<Rightarrow> string" where
  "sql_coin_of is_token coin_name =
     (if \<not> is_token then ''SELECT coin_id FROM coin WHERE short_name = '' @ quoted coin_name @ '';''
      else ''SELECT coin_id FROM coin WHERE coin_id = (SELECT coin_id FROM token WHERE token.short_name = ''
             @ quoted coin_name @ '');'')"

definition sql_user_account :: "int \<Rightarrow> int \<Rightarrow> string" where
  "sql_user_account coin_id user_id =
     ''SELECT account_id, address, tag FROM account WHERE coin_id = '' @ int_to_string coin_id
       @ '' AND account_id = (SELECT account_id FROM user WHERE coin_id = '' @ int_to_string coin_id
       @ '' AND user_id = '' @ int_to_string user_id @ '');''"

definition sql_free_account :: "int \<Rightarrow> string" where
  "sql_free_account coin_id =
     ''SELECT account_id, address, tag FROM account WHERE coin_id = '' @ int_to_string coin_id @ '' AND ''
       @ tab @ tab @ tab @ ''account_id > (SELECT MAX(account_id) FROM user WHERE coin_id = ''
       @ int_to_string coin_id @ '') ORDER BY account_id LIMIT 1''"

definition sql_assign :: "int \<Rightarrow> int \<Rightarrow> int \<Rightarrow> string" where
  "sql_assign user_id account_id coin_id =
     ''INSERT INTO `user` (`user_id`, `account_id`, `coin_id`)''
       @ sql_values [int_to_string user_id, int_to_string account_id, int_to_string coin_id]"

text \<open>The key of the cache: the two numbers in decimal, one after the other.\<close>

definition encode_user :: "int \<Rightarrow> int \<Rightarrow> string" where
  "encode_user user_id coin_id = int_to_string user_id @ int_to_string coin_id"

definition recharge_result :: "int \<Rightarrow> string \<Rightarrow> string \<Rightarrow> string \<Rightarrow> json" where
  "recharge_result user_id coin_name address tag =
     mk_obj [(''user_id'', JInt user_id), (''coin'', JStr coin_name), (''address'', JStr address),
             (''tag'', JStr tag)]"

text \<open>The answer from a row \<open>account_id, address, tag\<close>, which is remembered.\<close>

definition remember_account ::
  "int \<Rightarrow> string \<Rightarrow> int \<Rightarrow> json \<Rightarrow> ('x relay_scheme, exn, json) prog" where
  "remember_account user_id coin_name coin_id json_data =
     bindp (cell_string json_data 0 1) (\<lambda>address.
     bindp (cell_string json_data 0 2) (\<lambda>tag.
     bindp (cell_int json_data 0 0) (\<lambda>account_id.
     thenp (modify (usercoin_account_update (AList.update (encode_user user_id coin_id)
       \<lparr>ai_account_id = account_id, ai_address = address, ai_tag = tag\<rparr>)))
     (ret (recharge_result user_id coin_name address tag)))))"

definition recharge_usage :: string where
  "recharge_usage =
     newline @ ''Arguments:'' @ newline
       @ ''1. '' @ [CHR 0x22] @ ''name'' @ [CHR 0x22] @ '' (string)  The name of coin or token'' @ newline
       @ ''2. '' @ [CHR 0x22] @ ''type'' @ [CHR 0x22] @ '' (bool) the type of coin ,maybe it is coin or token''
       @ ''3. '' @ [CHR 0x22] @ ''user_id'' @ [CHR 0x22] @ '' (string) the transaction from''"

definition assign_account ::
  "'x wallet_env_scheme \<Rightarrow> int \<Rightarrow> string \<Rightarrow> int \<Rightarrow> json \<Rightarrow> ('y relay_scheme, exn, json) prog" where
  "assign_account E user_id coin_name coin_id json_data =
     bindp (on_wallet (get_data E (sql_free_account coin_id) [T_INT, T_STRING, T_STRING] json_data)) (\<lambda>(_, json_data).
     if jsize json_data = 0 then throw (StdError ''address is creating ,wait a minute'') else
     bindp (cell_int json_data 0 0) (\<lambda>account_id.
     bindp (on_wallet (refresh_db E (sql_assign user_id account_id coin_id))) (\<lambda>written.
     if \<not> written then throw (StdError (''db server can'' @ [CHR 0x27] @ ''t write!''))
     else remember_account user_id coin_name coin_id json_data)))"

definition find_account ::
  "'x wallet_env_scheme \<Rightarrow> int \<Rightarrow> string \<Rightarrow> int \<Rightarrow> json \<Rightarrow> ('y relay_scheme, exn, json) prog" where
  "find_account E user_id coin_name coin_id json_data =
     bindp (on_wallet (get_data E (sql_user_account coin_id user_id) [T_INT, T_STRING, T_STRING] (jclear json_data)))
       (\<lambda>(_, json_data).
     if 0 < jsize json_data then remember_account user_id coin_name coin_id json_data
     else assign_account E user_id coin_name coin_id json_data)"

definition get_recharge_address ::
  "'x wallet_env_scheme \<Rightarrow> jrequest \<Rightarrow> ('y relay_scheme, exn, json) prog" where
  "get_recharge_address E request =
     (if r_help request \<or> jsize (r_params request) \<noteq> 3 then throw (StdError recharge_usage) else
      bindp (field (config E) ''otc_db'') (\<lambda>conf.
      bindp (on_wallet (open_db E conf)) (\<lambda>opened.
      if \<not> opened then throw (StdError ''db server is down!'') else
      bindp (arg_string (r_params request) 0) (\<lambda>coin_name.
      bindp (arg_bool (r_params request) 1) (\<lambda>is_token.
      bindp (bindp (arg (r_params request) 2) (\<lambda>v. lift (get_int v))) (\<lambda>user_id.
      bindp (on_wallet (get_data E (sql_coin_of is_token coin_name) [T_INT] JNull)) (\<lambda>(_, json_data).
      if jsize json_data = 0
      then throw (StdError (''The '' @ coin_name @ '' don'' @ [CHR 0x27] @ ''t have support'')) else
      bindp (cell_int json_data 0 0) (\<lambda>coin_id.
      bindp (gets usercoin_account) (\<lambda>cache.
      case map_of cache (encode_user user_id coin_id) of
        Some info \<Rightarrow> ret (recharge_result user_id coin_name (ai_address info) (ai_tag info))
      | None \<Rightarrow> find_account E user_id coin_name coin_id json_data)))))))))"

subsection \<open>Transfers\<close>

definition transfer_usage :: string where
  "transfer_usage =
     newline @ ''Arguments:'' @ newline
       @ ''1. '' @ [CHR 0x22] @ ''name'' @ [CHR 0x22] @ '' (string)  The name of coin or token'' @ newline
       @ ''2. '' @ [CHR 0x22] @ ''type'' @ [CHR 0x22] @ '' (bool) the type of coin ,maybe it is coin or token''
       @ ''3. '' @ [CHR 0x22] @ ''from'' @ [CHR 0x22] @ '' (string) the transaction from''
       @ ''4. '' @ [CHR 0x22] @ ''to'' @ [CHR 0x22] @ '' (string) the transaction to''
       @ ''5. '' @ [CHR 0x22] @ ''balance'' @ [CHR 0x22] @ '' (double) the transaction amount''
       @ ''6. '' @ [CHR 0x22] @ ''fee'' @ [CHR 0x22] @ '' (double) the transaction fee''"

definition rpc_transfer :: "'x wallet_env_scheme \<Rightarrow> jrequest \<Rightarrow> ('y relay_scheme, exn, json) prog" where
  "rpc_transfer E request =
     (if r_help request \<or> jsize (r_params request) \<noteq> 6 then throw (StdError transfer_usage) else
      bindp (on_wallet (wallet_transfer E (r_params request) JNull)) (\<lambda>(ok, json_result).
      if \<not> ok then throw (StdError ''rpc call fail!'') else ret json_result))"

end
