(* ===== verification/RpcServer.thy ===== *)
theory RpcServer
  imports Relay
begin

section \<open>The RPC server\<close>

text \<open>
  \<open>server/src/rpc/server.cpp\<close> and the JSON objects of \<open>rpc/protocol.cpp\<close>: the command table with
  its registration and dispatch, the parsing of a request, single and batch execution, the
  built-in commands, the warm-up state and the run-later timers.
\<close>

subsection \<open>Objects of the protocol\<close>

definition json_rpc_request_obj :: "string \<Rightarrow> json \<Rightarrow> json \<Rightarrow> json" where
  "json_rpc_request_obj method json_params i =
     mk_obj [(''method'', JStr method), (''params'', json_params), (''id'', i)]"

definition json_rpc_reply_obj :: "json \<Rightarrow> json \<Rightarrow> json \<Rightarrow> json" where
  "json_rpc_reply_obj result error i =
     mk_obj [(''result'', if \<not> is_null error then JObj [] else result), (''error'', error), (''id'', i)]"

definition json_rpc_error :: "int \<Rightarrow> string \<Rightarrow> json" where
  "json_rpc_error code message = mk_obj [(''code'', JInt code), (''message'', JStr message)]"

definition RPC_INVALID_REQUEST :: int where "RPC_INVALID_REQUEST = - 32600"
definition RPC_METHOD_NOT_FOUND :: int where "RPC_METHOD_NOT_FOUND = - 32601"
definition RPC_INTERNAL_ERROR :: int where "RPC_INTERNAL_ERROR = - 32603"
definition RPC_PARSE_ERROR :: int where "RPC_PARSE_ERROR = - 32700"
definition RPC_MISC_ERROR :: int where "RPC_MISC_ERROR = - 1"
definition RPC_TYPE_ERROR :: int where "RPC_TYPE_ERROR = - 3"
definition RPC_INVALID_PARAMETER :: int where "RPC_INVALID_PARAMETER = - 8"
definition RPC_IN_WARMUP :: int where "RPC_IN_WARMUP = - 28"

lemmas rpc_codes = RPC_INVALID_REQUEST_def RPC_METHOD_NOT_FOUND_def RPC_INTERNAL_ERROR_def
  RPC_PARSE_ERROR_def RPC_MISC_ERROR_def RPC_TYPE_ERROR_def RPC_INVALID_PARAMETER_def RPC_IN_WARMUP_def

text \<open>\<open>JSONRPCProcessBatchReply\<close>: the replies of a batch, put at the place their id names.\<close>

definition json_rpc_process_batch_reply :: "json \<Rightarrow> nat \<Rightarrow> ('s, exn, json list) prog" where
  "json_rpc_process_batch_reply j num =
     (if \<not> is_array j then throw (StdError ''Batch must be an array'') else
      foreach [0..<jsize j] (replicate num JNull) (\<lambda>batch i.
        bindp (lift (at_const j i)) (\<lambda>rec.
        if \<not> is_object rec then throw (StdError ''Batch member must be object'') else
        bindp (lift (key_const rec ''id'')) (\<lambda>v.
        bindp (lift (get_u64 v)) (\<lambda>i.
        if num \<le> i then throw (StdError ''Batch member id larger than size'')
        else ret (Continue (batch[i := rec])))))))"

subsection \<open>Type checks\<close>

datatype json_type = TNull | TObject | TArray | TString | TBoolean | TInteger | TUnsigned | TFloat

fun type_of :: "json \<Rightarrow> json_type" where
  "type_of JNull = TNull"
| "type_of (JObj _) = TObject"
| "type_of (JArr _) = TArray"
| "type_of (JStr _) = TString"
| "type_of (JBool _) = TBoolean"
| "type_of (JInt _) = TInteger"
| "type_of (JUint _) = TUnsigned"
| "type_of (JFloat _) = TFloat"

definition rpc_type_check_argument :: "json \<Rightarrow> json_type \<Rightarrow> ('s, exn, unit) prog" where
  "rpc_type_check_argument value t =
     (if type_of value \<noteq> t
      then throw (ThrownJson (json_rpc_error RPC_TYPE_ERROR (''Expected type , got '' @ type_name value)))
      else ret ())"

text \<open>The expected types are a \<open>std::map\<close>; \<open>None\<close> stands for any type.\<close>

definition rpc_type_check_obj ::
  "json \<Rightarrow> (string \<times> json_type option) list \<Rightarrow> bool \<Rightarrow> bool \<Rightarrow> ('s, exn, unit) prog" where
  "rpc_type_check_obj obj types_expected allow_null strict =
     thenp (forall_do types_expected (\<lambda>(k, t).
              bindp (lift (key_const obj k)) (\<lambda>v.
              if \<not> allow_null \<and> is_null v
              then throw (ThrownJson (json_rpc_error RPC_TYPE_ERROR (''Missing '' @ k)))
              else if \<not> (t = None \<or> t = Some (type_of v) \<or> allow_null \<and> is_null v)
              then throw (ThrownJson (json_rpc_error RPC_TYPE_ERROR
                            (''Expected type s for '' @ k @ '', got '' @ type_name v)))
              else ret ())))
          (if strict then
             (case obj of
                JObj m \<Rightarrow> forall_do (map fst m) (\<lambda>k.
                  if k \<notin> fst ` set types_expected
                  then throw (ThrownJson (json_rpc_error RPC_TYPE_ERROR (''Unexpected key '' @ k)))
                  else ret ())
              | _ \<Rightarrow> ret ())
           else ret ())"

subsection \<open>Commands\<close>

text \<open>The functions a command can name (pointers in the code).\<close>

datatype actor = ActHelp | ActStop | ActUptime | ActGetRechargeAddress | ActTransfer

record rpc_command =
  cmd_category :: string
  cmd_name :: string
  cmd_actor :: actor
  cmd_arg_names :: "string list"

record server = relay +
  rpc_running :: bool
  rpc_in_warmup :: bool
  rpc_warmup_status :: string
  map_commands :: "(string \<times> rpc_command) list"
  shutdown_requested :: bool
  timer_interface :: bool
  deadline_timers :: "(string \<times> int) list"

record server_env = wallet_env +
  get_time :: int
  startup_time :: int
  json_dump :: "json \<Rightarrow> (exn, string) outcome"

type_synonym 'a server_prog = "(server, exn, 'a) prog"

definition help_usage :: string where
  "help_usage = text_lines
     [''help ( '' @ [CHR 0x22] @ ''command'' @ [CHR 0x22] @ '' )'', '''',
      ''List all commands, or get help for a specified command.'', '''', ''Arguments:'',
      ''1. '' @ [CHR 0x22] @ ''command'' @ [CHR 0x22] @ ''     (string, optional) The command to get help on'', '''',
      ''Result:'', [CHR 0x22] @ ''text'' @ [CHR 0x22] @ ''     (string) The help text'']"

definition stop_usage :: string where
  "stop_usage = ''stop'' @ newline @ newline @ ''Stop Bitcoin server.''"

definition help_example_cli :: "string \<Rightarrow> string \<Rightarrow> string" where
  "help_example_cli methodname args = ''> bitcoin-cli '' @ methodname @ '' '' @ args @ newline"

definition dq :: "string \<Rightarrow> string" where
  "dq s = [CHR 0x22] @ s @ [CHR 0x22]"

definition help_example_rpc :: "string \<Rightarrow> string \<Rightarrow> string" where
  "help_example_rpc methodname args =
     ''> curl --user myusername --data-binary '' @ [CHR 0x27] @ ''{'' @ dq ''jsonrpc'' @ '': '' @ dq ''1.0''
       @ '', '' @ dq ''id'' @ '':'' @ dq ''curltest'' @ '', '' @ dq ''method'' @ '': '' @ dq methodname
       @ '', '' @ dq ''params'' @ '': ['' @ args @ ''] }'' @ [CHR 0x27]
       @ '' -H '' @ [CHR 0x27] @ ''content-type: text/plain;'' @ [CHR 0x27] @ '' http://127.0.0.1:8332/'' @ newline"

definition uptime_usage :: string where
  "uptime_usage = text_lines
     [''uptime'', '''', ''Returns the total uptime of the server.'', '''', ''Result:'',
      ''ttt        (numeric) The number of seconds that the server has been running'', '''', ''Examples:'']
     @ help_example_cli ''uptime'' '''' @ help_example_rpc ''uptime'' ''''"

fun actor_usage :: "actor \<Rightarrow> string" where
  "actor_usage ActHelp = help_usage"
| "actor_usage ActStop = stop_usage"
| "actor_usage ActUptime = uptime_usage"
| "actor_usage ActGetRechargeAddress = recharge_usage"
| "actor_usage ActTransfer = transfer_usage"

text \<open>
  \<open>CRPCTable::help\<close>: the commands in the order of category and name; each function is asked once,
  by a call that makes it throw its usage text.
\<close>

fun insert_cmd :: "string \<times> rpc_command \<Rightarrow> (string \<times> rpc_command) list \<Rightarrow> (string \<times> rpc_command) list" where
  "insert_cmd c [] = [c]"
| "insert_cmd c (d # ds) = (if str_less (fst d) (fst c) then d # insert_cmd c ds else c # d # ds)"

definition help_step ::
  "string \<Rightarrow> string \<times> string \<times> actor list \<Rightarrow> rpc_command \<Rightarrow> string \<times> string \<times> actor list" where
  "help_step command acc cmd =
     (case acc of (text, category, done) \<Rightarrow>
      if (command \<noteq> '''' \<or> cmd_category cmd = ''hidden'') \<and> cmd_name cmd \<noteq> command then acc
      else if cmd_actor cmd \<in> set done then acc
      else
        let usage = actor_usage (cmd_actor cmd); done' = cmd_actor cmd # done in
        if command = '''' then
          let line = takeWhile (\<lambda>c. c \<noteq> CHR 0x0A) usage in
          if category \<noteq> cmd_category cmd then
            (text @ (if category \<noteq> '''' then newline else '''')
               @ ''== '' @ toupper (take 1 (cmd_category cmd)) @ drop 1 (cmd_category cmd) @ '' =='' @ newline
               @ line @ newline, cmd_category cmd, done')
          else (text @ line @ newline, category, done')
        else (text @ usage @ newline, category, done'))"

definition table_help :: "(string \<times> rpc_command) list \<Rightarrow> string \<Rightarrow> string" where
  "table_help cmds command =
     (let sorted = map snd (foldr insert_cmd (map (\<lambda>(name, c). (cmd_category c @ name, c)) cmds) []);
          (text, _, _) = foldl (help_step command) ('''', '''', []) sorted;
          text = (if text = '''' then ''help: unknown command: '' @ command @ newline else text)
      in butlast text)"

definition cmd_help :: "jrequest \<Rightarrow> json server_prog" where
  "cmd_help request =
     (if r_help request \<or> 1 < jsize (r_params request) then throw (StdError help_usage) else
      bindp (if 0 < jsize (r_params request) then arg_string (r_params request) 0 else ret '''') (\<lambda>command.
      bindp (gets map_commands) (\<lambda>cmds. ret (JStr (table_help cmds command)))))"

definition cmd_stop :: "jrequest \<Rightarrow> json server_prog" where
  "cmd_stop request =
     (if r_help request \<or> 1 < jsize (r_params request) then throw (StdError stop_usage) else
      thenp (modify (shutdown_requested_update (\<lambda>_. True))) (ret (JStr ''Bitcoin server stopping'')))"

definition cmd_uptime :: "'x server_env_scheme \<Rightarrow> jrequest \<Rightarrow> json server_prog" where
  "cmd_uptime E request =
     (if r_help request \<or> 1 < jsize (r_params request) then throw (StdError uptime_usage)
      else ret (JInt (get_time E - startup_time E)))"

definition run_actor :: "'x server_env_scheme \<Rightarrow> actor \<Rightarrow> jrequest \<Rightarrow> json server_prog" where
  "run_actor E a request =
     (case a of
        ActHelp \<Rightarrow> cmd_help request
      | ActStop \<Rightarrow> cmd_stop request
      | ActUptime \<Rightarrow> cmd_uptime E request
      | ActGetRechargeAddress \<Rightarrow> get_recharge_address E request
      | ActTransfer \<Rightarrow> rpc_transfer E request)"

text \<open>The call \<open>help\<close> makes of every function ends as \<open>actor_usage\<close> says.\<close>

lemma run_actor_help: "r_help request \<Longrightarrow> run_actor E a request = throw (StdError (actor_usage a))"
  by (cases a) (simp_all add: run_actor_def cmd_help_def cmd_stop_def cmd_uptime_def get_recharge_address_def rpc_transfer_def)

subsection \<open>The table\<close>

definition control_commands :: "rpc_command list" where
  "control_commands =
     [\<lparr>cmd_category = ''control'', cmd_name = ''help'', cmd_actor = ActHelp, cmd_arg_names = [''command'']\<rparr>,
      \<lparr>cmd_category = ''control'', cmd_name = ''stop'', cmd_actor = ActStop, cmd_arg_names = []\<rparr>,
      \<lparr>cmd_category = ''control'', cmd_name = ''uptime'', cmd_actor = ActUptime, cmd_arg_names = []\<rparr>]"

definition relay_commands :: "rpc_command list" where
  "relay_commands =
     [\<lparr>cmd_category = ''relay'', cmd_name = ''getrechargeaddress'', cmd_actor = ActGetRechargeAddress, cmd_arg_names = []\<rparr>,
      \<lparr>cmd_category = ''relay'', cmd_name = ''transfer'', cmd_actor = ActTransfer, cmd_arg_names = []\<rparr>]"

definition new_table :: "(string \<times> rpc_command) list" where
  "new_table = foldl (\<lambda>m c. obj_set (cmd_name c) c m) [] control_commands"

definition append_command :: "string \<Rightarrow> rpc_command \<Rightarrow> bool server_prog" where
  "append_command name cmd =
     bindp (gets rpc_running) (\<lambda>running.
     if running then ret False else
     bindp (gets map_commands) (\<lambda>m.
     if map_of m name \<noteq> None then ret False
     else thenp (modify (map_commands_update (obj_set name cmd))) (ret True)))"

definition register_relay_commands :: "unit server_prog" where
  "register_relay_commands =
     forall_do relay_commands (\<lambda>c. thenp (append_command (cmd_name c) c) (ret ()))"

definition list_commands :: "string list server_prog" where
  "list_commands = gets (\<lambda>s. map fst (map_commands s))"

subsection \<open>Server state\<close>

definition start_rpc :: "bool server_prog" where
  "start_rpc = thenp (modify (rpc_running_update (\<lambda>_. True))) (ret True)"

definition interrupt_rpc :: "unit server_prog" where
  "interrupt_rpc = modify (rpc_running_update (\<lambda>_. False))"

definition stop_rpc :: "unit server_prog" where
  "stop_rpc = modify (deadline_timers_update (\<lambda>_. []))"

definition set_rpc_warmup_status :: "string \<Rightarrow> unit server_prog" where
  "set_rpc_warmup_status s = modify (rpc_warmup_status_update (\<lambda>_. s))"

definition set_rpc_warmup_finished :: "unit server_prog" where
  "set_rpc_warmup_finished =
     bindp (gets rpc_in_warmup) (\<lambda>b.
     if \<not> b then fault AssertFailed else modify (rpc_in_warmup_update (\<lambda>_. False)))"

definition rpc_is_in_warmup :: "(bool \<times> string) server_prog" where
  "rpc_is_in_warmup = gets (\<lambda>s. (rpc_in_warmup s, rpc_warmup_status s))"

text \<open>\<open>RPCRunLater\<close>: a timer of the same name is replaced.\<close>

definition rpc_run_later :: "string \<Rightarrow> int \<Rightarrow> unit server_prog" where
  "rpc_run_later name seconds =
     bindp (gets timer_interface) (\<lambda>t.
     if \<not> t then throw (ThrownJson (json_rpc_error RPC_INTERNAL_ERROR ''No timer handler registered for RPC''))
     else modify (deadline_timers_update (\<lambda>ts. obj_set name (seconds * 1000) (AList.delete name ts))))"

subsection \<open>Parsing a request\<close>

text \<open>
  \<open>JSONRPCRequest::parse\<close> on the request object itself, so that the id survives an error. The
  reads \<open>request["id"]\<close>, \<open>["method"]\<close>, \<open>["params"]\<close> are on a \<open>const\<close> object.
\<close>

definition parse_request :: "json \<Rightarrow> (jrequest, exn, unit) prog" where
  "parse_request val_request =
     (if \<not> is_object val_request
      then throw (ThrownJson (json_rpc_error RPC_INVALID_REQUEST ''Invalid Request object'')) else
      bindp (lift (key_const val_request ''id'')) (\<lambda>i.
      thenp (modify (r_id_update (\<lambda>_. i)))
     (bindp (lift (key_const val_request ''method'')) (\<lambda>val_method.
      if is_null val_method then throw (ThrownJson (json_rpc_error RPC_INVALID_REQUEST ''Missing method'')) else
      if \<not> is_string val_method then throw (ThrownJson (json_rpc_error RPC_INVALID_REQUEST ''Method must be a string'')) else
      bindp (lift (get_string val_method)) (\<lambda>method.
      thenp (modify (r_method_update (\<lambda>_. method)))
     (bindp (lift (key_const val_request ''params'')) (\<lambda>val_params.
      if is_array val_params \<or> is_object val_params then modify (r_params_update (\<lambda>_. val_params))
      else if is_null val_params then modify (r_params_update jclear)
      else throw (ThrownJson (json_rpc_error RPC_INVALID_REQUEST ''Params must be an array or object'')))))))))"

subsection \<open>Execution\<close>

text \<open>
  \<open>transformNamedArguments\<close>: the names and values of the arguments are two local vectors that are
  never filled.
\<close>

definition named_args :: "jrequest \<Rightarrow> (string, json) smap" where
  "named_args request = []"

definition transform_named_arguments :: "jrequest \<Rightarrow> string list \<Rightarrow> ('s, exn, jrequest) prog" where
  "transform_named_arguments request arg_names =
     bindp (foreach arg_names (r_params request, named_args request, 0) (\<lambda>(ps, args_in, hole) pattern.
       case List.find (\<lambda>name. has_key args_in name) (split_any ''|'' pattern) of
         Some name \<Rightarrow>
           bindp (foreach [0..<hole] ps (\<lambda>ps _. bindp (lift (push_back ps JNull)) (\<lambda>ps. ret (Continue ps)))) (\<lambda>ps.
           bindp (lift (push_back ps (the (map_of args_in name)))) (\<lambda>ps.
           ret (Continue (ps, AList.delete name args_in, 0))))
       | None \<Rightarrow> ret (Continue (ps, args_in, Suc hole))))
     (\<lambda>(ps, args_in, hole).
       case args_in of
         [] \<Rightarrow> ret (request\<lparr>r_params := ps\<rparr>)
       | (name, v) # rest \<Rightarrow>
           throw (ThrownJson (json_rpc_error RPC_INVALID_PARAMETER (''Unknown named parameter '' @ name))))"

definition execute :: "'x server_env_scheme \<Rightarrow> jrequest \<Rightarrow> json server_prog" where
  "execute E request =
     bindp rpc_is_in_warmup (\<lambda>(warmup, status).
     if warmup then throw (ThrownJson (json_rpc_error RPC_IN_WARMUP status)) else
     bindp (gets (\<lambda>s. map_of (map_commands s) (r_method request))) (\<lambda>pcmd.
     case pcmd of
       None \<Rightarrow> throw (ThrownJson (json_rpc_error RPC_METHOD_NOT_FOUND ''Method not found''))
     | Some cmd \<Rightarrow>
         catch (if is_object (r_params request)
                then bindp (transform_named_arguments request (cmd_arg_names cmd)) (run_actor E (cmd_actor cmd))
                else run_actor E (cmd_actor cmd) request)
               (\<lambda>e. case e of
                  ThrownJson j \<Rightarrow> throw (ThrownJson j)
                | _ \<Rightarrow> throw (ThrownJson (json_rpc_error RPC_MISC_ERROR (what e))))))"

text \<open>\<open>jreq.parse(req)\<close> followed by \<open>tableRPC.execute(jreq)\<close>; also the request as it is left.\<close>

definition parse_and_execute ::
  "'x server_env_scheme \<Rightarrow> jrequest \<Rightarrow> json \<Rightarrow> server \<Rightarrow> jrequest \<times> server \<times> (exn, json) outcome" where
  "parse_and_execute E jreq req s =
     (case parse_request req jreq of
        (jreq', Val _) \<Rightarrow> (jreq', execute E jreq' s)
      | (jreq', Exc e) \<Rightarrow> (jreq', s, Exc e)
      | (jreq', Fault k) \<Rightarrow> (jreq', s, Fault k))"

definition json_rpc_exec_one :: "'x server_env_scheme \<Rightarrow> jrequest \<Rightarrow> json \<Rightarrow> json server_prog" where
  "json_rpc_exec_one E jreq req s =
     (case parse_and_execute E jreq req s of
        (jreq', s', Val result) \<Rightarrow> (s', Val (json_rpc_reply_obj result JNull (r_id jreq')))
      | (jreq', s', Exc (ThrownJson j)) \<Rightarrow> (s', Val (json_rpc_reply_obj JNull j (r_id jreq')))
      | (jreq', s', Exc e) \<Rightarrow>
          (s', Val (json_rpc_reply_obj JNull (json_rpc_error RPC_PARSE_ERROR (what e)) (r_id jreq')))
      | (jreq', s', Fault k) \<Rightarrow> (s', Fault k))"

definition json_rpc_exec_batch :: "'x server_env_scheme \<Rightarrow> jrequest \<Rightarrow> json \<Rightarrow> string server_prog" where
  "json_rpc_exec_batch E jreq reqs =
     bindp (foreach [0..<jsize reqs] [] (\<lambda>replies i.
              bindp (lift (at_const reqs i)) (\<lambda>req.
              bindp (json_rpc_exec_one E jreq req) (\<lambda>reply. ret (Continue (replies @ [reply])))))) (\<lambda>replies.
     bindp (lift (json_dump E (JArr replies))) (\<lambda>text. ret (text @ newline)))"

end
