(* ===== verification/HttpServer.thy ===== *)
theory HttpServer
  imports RpcServer StrEncodings
begin

section \<open>The HTTP server\<close>

text \<open>
  \<open>server/src/httpserver.cpp\<close>: a request and its single reply, the handlers by path, the bounded
  work queue. Everything libevent does on the socket is outside; a request arrives with its
  method, URI, headers and body.
\<close>

subsection \<open>Requests\<close>

datatype req_method = UNKNOWN | GET | POST | HEAD | PUT

record http_request =
  hr_method :: req_method
  hr_uri :: string
  hr_headers :: "(string \<times> string) list"
  hr_body :: string
  hr_out_headers :: "(string \<times> string) list"
  hr_reply :: "(int \<times> string) option"

type_synonym 'a req_prog = "(http_request, exn, 'a) prog"

text \<open>\<open>evhttp_find_header\<close> compares without regard to case.\<close>

definition get_header :: "http_request \<Rightarrow> string \<Rightarrow> bool \<times> string" where
  "get_header req hdr =
     (case List.find (\<lambda>(k, v). toupper k = toupper hdr) (hr_headers req) of
        Some (k, v) \<Rightarrow> (True, v) | None \<Rightarrow> (False, ''''))"

text \<open>Reading the body drains the buffer.\<close>

definition read_body :: "string req_prog" where
  "read_body = bindp (gets hr_body) (\<lambda>b. thenp (modify (hr_body_update (\<lambda>_. ''''))) (ret b))"

text \<open>After the reply the request belongs to the main thread: its pointer is null here.\<close>

definition write_header :: "string \<Rightarrow> string \<Rightarrow> unit req_prog" where
  "write_header hdr val =
     bindp (gets hr_reply) (\<lambda>r.
     if r \<noteq> None then fault UndefinedBehaviour
     else modify (hr_out_headers_update (\<lambda>hs. hs @ [(hdr, val)])))"

definition write_reply :: "int \<Rightarrow> string \<Rightarrow> unit req_prog" where
  "write_reply status text =
     bindp (gets hr_reply) (\<lambda>r.
     if r \<noteq> None then fault AssertFailed else modify (hr_reply_update (\<lambda>_. Some (status, text))))"

text \<open>The destructor answers a request nobody answered.\<close>

definition destroy_request :: "http_request \<Rightarrow> http_request" where
  "destroy_request req =
     (case hr_reply req of Some r \<Rightarrow> req | None \<Rightarrow> req\<lparr>hr_reply := Some (500, ''Unhandled request'')\<rparr>)"

subsection \<open>Handlers by path\<close>

text \<open>The functions registered as handlers (\<open>std::function\<close> in the code).\<close>

datatype handler = HJsonRpc | HRestChainInfo | HRestHeaders

record path_handler =
  ph_prefix :: string
  ph_exact :: bool
  ph_handler :: handler

definition register_http_handler :: "string \<Rightarrow> bool \<Rightarrow> handler \<Rightarrow> path_handler list \<Rightarrow> path_handler list" where
  "register_http_handler prefix exact h hs = hs @ [\<lparr>ph_prefix = prefix, ph_exact = exact, ph_handler = h\<rparr>]"

text \<open>The first handler of that prefix and kind is erased.\<close>

fun unregister_http_handler :: "string \<Rightarrow> bool \<Rightarrow> path_handler list \<Rightarrow> path_handler list" where
  "unregister_http_handler prefix exact [] = []"
| "unregister_http_handler prefix exact (h # hs) =
     (if ph_prefix h = prefix \<and> ph_exact h = exact then hs
      else h # unregister_http_handler prefix exact hs)"

definition handler_matches :: "string \<Rightarrow> path_handler \<Rightarrow> bool" where
  "handler_matches uri h =
     (if ph_exact h then uri = ph_prefix h else take (length (ph_prefix h)) uri = ph_prefix h)"

fun find_handler :: "path_handler list \<Rightarrow> string \<Rightarrow> (handler \<times> string) option" where
  "find_handler [] uri = None"
| "find_handler (h # hs) uri =
     (if handler_matches uri h then Some (ph_handler h, drop (length (ph_prefix h)) uri)
      else find_handler hs uri)"

subsection \<open>The work queue\<close>

record 'a work_queue =
  wq_queue :: "'a list"
  wq_running :: bool
  wq_max_depth :: nat

definition new_work_queue :: "nat \<Rightarrow> 'a work_queue" where
  "new_work_queue max_depth = \<lparr>wq_queue = [], wq_running = True, wq_max_depth = max_depth\<rparr>"

definition wq_enqueue :: "'a \<Rightarrow> 'a work_queue \<Rightarrow> bool \<times> 'a work_queue" where
  "wq_enqueue item q =
     (if wq_max_depth q \<le> length (wq_queue q) then (False, q)
      else (True, q\<lparr>wq_queue := wq_queue q @ [item]\<rparr>))"

text \<open>
  One turn of a worker in \<open>Run\<close>: it stops when the queue was interrupted, waits while there is
  nothing to do, and takes the front item otherwise.
\<close>

datatype 'a worker = Stop | Wait | Work 'a

definition wq_take :: "'a work_queue \<Rightarrow> 'a worker \<times> 'a work_queue" where
  "wq_take q =
     (if \<not> wq_running q then (Stop, q)
      else case wq_queue q of
             [] \<Rightarrow> (Wait, q)
           | item # rest \<Rightarrow> (Work item, q\<lparr>wq_queue := rest\<rparr>))"

definition wq_interrupt :: "'a work_queue \<Rightarrow> 'a work_queue" where
  "wq_interrupt q = q\<lparr>wq_running := False\<rparr>"

text \<open>
  What the users of the queue rely on: its content is a list of bounded length, items enter at
  the back when there is room and are refused otherwise, and leave at the front.
\<close>

locale bounded_fifo =
  fixes content :: "'q \<Rightarrow> 'a list"
    and limit :: "'q \<Rightarrow> nat"
    and running :: "'q \<Rightarrow> bool"
    and enq :: "'a \<Rightarrow> 'q \<Rightarrow> bool \<times> 'q"
    and deq :: "'q \<Rightarrow> 'a worker \<times> 'q"
  assumes enq_room: "length (content q) < limit q \<Longrightarrow>
      \<exists>q'. enq a q = (True, q') \<and> content q' = content q @ [a] \<and> limit q' = limit q \<and> running q' = running q"
    and enq_full: "limit q \<le> length (content q) \<Longrightarrow> enq a q = (False, q)"
    and deq_stop: "\<not> running q \<Longrightarrow> deq q = (Stop, q)"
    and deq_wait: "running q \<Longrightarrow> content q = [] \<Longrightarrow> deq q = (Wait, q)"
    and deq_work: "running q \<Longrightarrow> content q = a # as \<Longrightarrow>
      \<exists>q'. deq q = (Work a, q') \<and> content q' = as \<and> limit q' = limit q \<and> running q' = running q"
begin

lemma enq_cases:
  assumes "enq a q = (ok, q')"
  shows "ok = (length (content q) < limit q) \<and> content q' = (if ok then content q @ [a] else content q)
         \<and> limit q' = limit q \<and> running q' = (if ok then running q else running q')"
  using assms enq_room [of q a] enq_full [of q a] by (cases "length (content q) < limit q") auto

lemma enq_bound: "enq a q = (ok, q') \<Longrightarrow> length (content q) \<le> limit q \<Longrightarrow> length (content q') \<le> limit q'"
  using enq_cases [of a q ok q'] by auto

lemma deq_front:
  assumes "deq q = (Work a, q')"
  shows "content q = a # content q' \<and> limit q' = limit q"
proof (cases "running q")
  case True
  show ?thesis
  proof (cases "content q")
    case Nil
    with True assms deq_wait [of q] show ?thesis by simp
  next
    case (Cons b bs)
    with True assms deq_work [of q b bs] show ?thesis by auto
  qed
next
  case False
  with assms deq_stop [of q] show ?thesis by simp
qed

text \<open>Items come out in the order they went in: enqueueing a whole list, then taking one by one.\<close>

primrec enq_all :: "'a list \<Rightarrow> 'q \<Rightarrow> 'q" where
  "enq_all [] q = q"
| "enq_all (a # as) q = enq_all as (snd (enq a q))"

lemma content_enq_all:
  "length (content q) \<le> limit q \<Longrightarrow>
   content (enq_all as q) = content q @ take (limit q - length (content q)) as"
proof (induction as arbitrary: q)
  case (Cons a as)
  obtain ok q' where e: "enq a q = (ok, q')" by fastforce
  from enq_cases [OF e] enq_bound [OF e Cons.prems] have *:
    "ok = (length (content q) < limit q)" "content q' = (if ok then content q @ [a] else content q)"
    "limit q' = limit q" "length (content q') \<le> limit q'" by auto
  show ?case
  proof (cases ok)
    case True
    then have "limit q - length (content q) = Suc (limit q - Suc (length (content q)))" using * by simp
    then show ?thesis using * True Cons.IH [of q'] e by (simp add: take_Suc_Cons)
  next
    case False
    then show ?thesis using * Cons.IH [of q'] e by simp
  qed
qed simp

end

interpretation wq: bounded_fifo wq_queue wq_max_depth wq_running wq_enqueue wq_take
  by unfold_locales (auto simp: wq_enqueue_def wq_take_def split: list.splits)

subsection \<open>Arrival of a request\<close>

text \<open>\<open>ClientAllowed\<close> returns before it looks at the address.\<close>

definition client_allowed :: "'addr \<Rightarrow> bool" where
  "client_allowed netaddr = True"

record work_item =
  wi_id :: nat
  wi_req :: http_request
  wi_path :: string
  wi_handler :: handler

text \<open>\<open>http_request_cb\<close>: an answer at once, or a place in the queue.\<close>

datatype arrival = Replied int string | Queued

definition http_request_cb ::
  "nat \<Rightarrow> 'addr \<Rightarrow> http_request \<Rightarrow> path_handler list \<Rightarrow> work_item work_queue \<Rightarrow> arrival \<times> work_item work_queue" where
  "http_request_cb i peer req handlers q =
     (if \<not> client_allowed peer then (Replied 403 '''', q)
      else if hr_method req = UNKNOWN then (Replied 405 '''', q)
      else case find_handler handlers (hr_uri req) of
             None \<Rightarrow> (Replied 404 '''', q)
           | Some (h, path) \<Rightarrow>
               (case wq_enqueue \<lparr>wi_id = i, wi_req = req, wi_path = path, wi_handler = h\<rparr> q of
                  (True, q') \<Rightarrow> (Queued, q')
                | (False, q') \<Rightarrow> (Replied 500 ''Work queue depth exceeded'', q')))"

definition url_hex_decode :: "(string \<Rightarrow> string option) \<Rightarrow> string \<Rightarrow> string" where
  "url_hex_decode evhttp_uridecode url =
     (if url \<noteq> '''' then (case evhttp_uridecode url of Some d \<Rightarrow> c_str d | None \<Rightarrow> '''') else '''')"

end
