(* ===== verification/HttpRpc.thy ===== *)
theory HttpRpc
  imports HttpServer
begin

section \<open>JSON-RPC over HTTP\<close>

text \<open>
  \<open>server/src/httprpc.cpp\<close>: the handler of \<open>POST /\<close>, which parses the body, executes the request
  and writes the one reply, and the replies for errors. A handler works on the request in its hand
  and on the server behind it.
\<close>

record http_call =
  call_server :: server
  call_req :: http_request

type_synonym 'a call_prog = "(http_call, exn, 'a) prog"

definition on_request :: "'a req_prog \<Rightarrow> 'a call_prog" where
  "on_request m c = (case m (call_req c) of (r, x) \<Rightarrow> (c\<lparr>call_req := r\<rparr>, x))"

definition on_server :: "'a server_prog \<Rightarrow> 'a call_prog" where
  "on_server m c = (case m (call_server c) of (s, x) \<Rightarrow> (c\<lparr>call_server := s\<rparr>, x))"

definition HTTP_OK :: int where "HTTP_OK = 200"
definition HTTP_BAD_REQUEST :: int where "HTTP_BAD_REQUEST = 400"
definition HTTP_NOT_FOUND :: int where "HTTP_NOT_FOUND = 404"
definition HTTP_BAD_METHOD :: int where "HTTP_BAD_METHOD = 405"
definition HTTP_INTERNAL_SERVER_ERROR :: int where "HTTP_INTERNAL_SERVER_ERROR = 500"
definition HTTP_SERVICE_UNAVAILABLE :: int where "HTTP_SERVICE_UNAVAILABLE = 503"

lemmas http_codes = HTTP_OK_def HTTP_BAD_REQUEST_def HTTP_NOT_FOUND_def HTTP_BAD_METHOD_def
  HTTP_INTERNAL_SERVER_ERROR_def HTTP_SERVICE_UNAVAILABLE_def

subsection \<open>Replies\<close>

text \<open>\<open>JSONRPCReply\<close>: printing a value may throw (text that is not UTF-8).\<close>

definition json_rpc_reply :: "'x server_env_scheme \<Rightarrow> json \<Rightarrow> json \<Rightarrow> json \<Rightarrow> string jres" where
  "json_rpc_reply E result error i =
     (case json_dump E (json_rpc_reply_obj result error i) of
        Val text \<Rightarrow> Val (text @ newline)
      | Exc e \<Rightarrow> Exc e
      | Fault k \<Rightarrow> Fault k)"

definition error_status :: "int \<Rightarrow> int" where
  "error_status code =
     (if code = RPC_INVALID_REQUEST then HTTP_BAD_REQUEST
      else if code = RPC_METHOD_NOT_FOUND then HTTP_NOT_FOUND
      else HTTP_INTERNAL_SERVER_ERROR)"

definition json_error_reply :: "'x server_env_scheme \<Rightarrow> json \<Rightarrow> json \<Rightarrow> unit call_prog" where
  "json_error_reply E obj_error i =
     bindp (lift (key_const obj_error ''code'')) (\<lambda>v.
     bindp (lift (get_int v)) (\<lambda>code.
     bindp (lift (json_rpc_reply E JNull obj_error i)) (\<lambda>str_reply.
     thenp (on_request (write_header ''Content-Type'' ''application/json''))
           (on_request (write_reply (error_status code) str_reply)))))"

subsection \<open>The handler\<close>

text \<open>
  The \<open>try\<close> block up to the text of the reply. The request object it fills is declared outside of
  the block: the handlers of the exceptions read its id.
\<close>

definition answer_body ::
  "'x server_env_scheme \<Rightarrow> string \<Rightarrow> string \<Rightarrow> server \<Rightarrow> jrequest \<times> server \<times> (exn, string) outcome" where
  "answer_body E body uri s =
     (case json_parse E body of
        Exc e \<Rightarrow> (new_request, s, Exc e)
      | Fault k \<Rightarrow> (new_request, s, Fault k)
      | Val val_request \<Rightarrow>
          if \<not> is_object val_request
          then (new_request, s, Exc (ThrownJson (json_rpc_error RPC_PARSE_ERROR ''Parse error'')))
          else case parse_and_execute E (new_request\<lparr>r_uri := uri\<rparr>) val_request s of
                 (jreq, s', Val result) \<Rightarrow> (jreq, s', json_rpc_reply E result JNull (r_id jreq))
               | (jreq, s', Exc e) \<Rightarrow> (jreq, s', Exc e)
               | (jreq, s', Fault k) \<Rightarrow> (jreq, s', Fault k))"

definition jsonrpc_try :: "'x server_env_scheme \<Rightarrow> http_call \<Rightarrow> http_call \<times> json \<times> (exn, string) outcome" where
  "jsonrpc_try E c =
     (let body = hr_body (call_req c); c' = c\<lparr>call_req := fst (read_body (call_req c))\<rparr>
      in case answer_body E body (hr_uri (call_req c)) (call_server c') of
           (jreq, s', r) \<Rightarrow> (c'\<lparr>call_server := s'\<rparr>, r_id jreq, r))"

text \<open>
  \<open>HTTPReq_JSONRPC\<close>: the header \<open>authorization\<close> is read and not looked at, the checks of it are
  commented out.
\<close>

definition http_jsonrpc :: "'x server_env_scheme \<Rightarrow> string \<Rightarrow> bool call_prog" where
  "http_jsonrpc E path c =
     (if hr_method (call_req c) \<noteq> POST
      then thenp (on_request (write_reply HTTP_BAD_METHOD ''JSONRPC server handles only POST requests''))
                 (ret False) c
      else
        let auth_header = get_header (call_req c) ''authorization'' in
        case jsonrpc_try E c of
          (c', i, Val str_reply) \<Rightarrow>
             thenp (on_request (write_header ''Content-Type'' ''application/json''))
            (thenp (on_request (write_reply HTTP_OK str_reply)) (ret True)) c'
        | (c', i, Exc (ThrownJson j)) \<Rightarrow> thenp (json_error_reply E j i) (ret False) c'
        | (c', i, Exc e) \<Rightarrow> thenp (json_error_reply E (json_rpc_error RPC_PARSE_ERROR (what e)) i) (ret False) c'
        | (c', i, Fault k) \<Rightarrow> fault k c')"

text \<open>Start and stop of the service; the authentication is set up by code outside of the model.\<close>

definition start_http_rpc :: "path_handler list \<Rightarrow> server \<Rightarrow> path_handler list \<times> server" where
  "start_http_rpc hs s = (register_http_handler ''/'' True HJsonRpc hs, s\<lparr>timer_interface := True\<rparr>)"

definition stop_http_rpc :: "path_handler list \<Rightarrow> server \<Rightarrow> path_handler list \<times> server" where
  "stop_http_rpc hs s = (unregister_http_handler ''/'' True hs, s\<lparr>timer_interface := False\<rparr>)"

end
