(* ===== verification/Rest.thy ===== *)
theory Rest
  imports HttpRpc
begin

section \<open>The REST interface\<close>

text \<open>
  \<open>server/src/rest.cpp\<close>: the two handlers under \<open>/rest/\<close>, the format suffix they read from the
  path, and the serialization of a string (\<open>serialize.h\<close>) one of them replies with.
\<close>

subsection \<open>Formats\<close>

datatype ret_format = RF_UNDEF | RF_BINARY | RF_HEX | RF_JSON

definition rf_names :: "(ret_format \<times> string) list" where
  "rf_names = [(RF_UNDEF, ''''), (RF_BINARY, ''bin''), (RF_HEX, ''hex''), (RF_JSON, ''json'')]"

text \<open>The format the suffix names, and the path without the suffix when it names one.\<close>

definition parse_data_format :: "string \<Rightarrow> ret_format \<times> string" where
  "parse_data_format str_req =
     (case find_last (CHR ''.'') str_req of
        None \<Rightarrow> (RF_UNDEF, str_req)
      | Some pos \<Rightarrow>
          (case List.find (\<lambda>(rf, name). drop (pos + 1) str_req = name) rf_names of
             Some (rf, name) \<Rightarrow> (rf, take pos str_req)
           | None \<Rightarrow> (RF_UNDEF, str_req)))"

definition available_data_formats :: string where
  "available_data_formats =
     (let formats = concat (map (\<lambda>(rf, name). if name \<noteq> '''' then ''.'' @ name @ '', '' else '''') rf_names)
      in if formats \<noteq> '''' then take (length formats - 2) formats else formats)"

text \<open>\<open>ParseHashStr\<close> sets a 256-bit number by \<open>uint256::SetHex\<close>: the digits, the last one lowest.\<close>

definition parse_hash_str :: "string \<Rightarrow> 256 word option" where
  "parse_hash_str str_req =
     (if \<not> is_hex str_req \<or> length str_req \<noteq> 64 then None
      else Some (foldl (\<lambda>h c. push_bit 4 h + of_int (hex_digit c)) 0 str_req))"

subsection \<open>A string on a data stream\<close>

definition le_bytes :: "nat \<Rightarrow> nat \<Rightarrow> byte list" where
  "le_bytes n v = map (\<lambda>i. of_nat (v div 256 ^ i)) [0..<n]"

definition write_compact_size :: "nat \<Rightarrow> byte list" where
  "write_compact_size n =
     (if n < 253 then le_bytes 1 n
      else if n \<le> 0xFFFF then 253 # le_bytes 2 n
      else if n \<le> 0xFFFFFFFF then 254 # le_bytes 4 n
      else 255 # le_bytes 8 n)"

definition le_value :: "byte list \<Rightarrow> nat" where
  "le_value bs = foldr (\<lambda>b v. unat b + 256 * v) bs 0"

text \<open>\<open>ReadCompactSize\<close>: only the shortest encoding is taken, and only sizes up to \<open>MAX_SIZE\<close>.\<close>

definition MAX_SIZE :: nat where "MAX_SIZE = 0x02000000"

definition read_data :: "nat \<Rightarrow> byte list \<Rightarrow> (exn, nat \<times> byte list) outcome" where
  "read_data n bs =
     (if length bs < n then Exc (StdError ''CDataStream::read(): end of data: iostream error'')
      else Val (le_value (take n bs), drop n bs))"

definition compact_size_limits :: "nat \<Rightarrow> nat \<Rightarrow> byte list \<Rightarrow> (exn, nat \<times> byte list) outcome" where
  "compact_size_limits low n bs =
     (if n < low then Exc (StdError ''non-canonical ReadCompactSize(): iostream error'')
      else if MAX_SIZE < n then Exc (StdError ''ReadCompactSize(): size too large: iostream error'')
      else Val (n, bs))"

definition read_compact_size :: "byte list \<Rightarrow> (exn, nat \<times> byte list) outcome" where
  "read_compact_size bs =
     (case bs of
        [] \<Rightarrow> Exc (StdError ''CDataStream::read(): end of data: iostream error'')
      | ch # rest \<Rightarrow>
          let (width, low) = (if ch < 253 then (0, 0) else if ch = 253 then (2, 253)
                              else if ch = 254 then (4, 0x10000) else (8, 0x100000000))
          in if width = 0 then compact_size_limits 0 (unat ch) rest
             else case read_data width rest of
                    Val (n, rest') \<Rightarrow> compact_size_limits low n rest'
                  | Exc e \<Rightarrow> Exc e
                  | Fault k \<Rightarrow> Fault k)"

definition serialize_string :: "string \<Rightarrow> byte list" where
  "serialize_string str = write_compact_size (length str) @ map chr_byte str"

definition unserialize_string :: "byte list \<Rightarrow> (exn, string \<times> byte list) outcome" where
  "unserialize_string bs =
     (case read_compact_size bs of
        Val (n, rest) \<Rightarrow>
          if length rest < n then Exc (StdError ''CDataStream::read(): end of data: iostream error'')
          else Val (map byte_chr (take n rest), drop n rest)
      | Exc e \<Rightarrow> Exc e
      | Fault k \<Rightarrow> Fault k)"

subsection \<open>The handlers\<close>

definition rest_reply :: "string \<Rightarrow> int \<Rightarrow> string \<Rightarrow> bool call_prog" where
  "rest_reply content_type status text =
     thenp (on_request (write_header ''Content-Type'' content_type))
    (thenp (on_request (write_reply status text)) (ret True))"

definition rest_err :: "int \<Rightarrow> string \<Rightarrow> bool call_prog" where
  "rest_err status message =
     thenp (rest_reply ''text/plain'' status (message @ [CHR 0x0D, CHR 0x0A])) (ret False)"

definition check_warmup :: "bool call_prog" where
  "check_warmup =
     bindp (on_server rpc_is_in_warmup) (\<lambda>(warmup, statusmessage).
     if warmup then rest_err HTTP_SERVICE_UNAVAILABLE (''Service temporarily unavailable: '' @ statusmessage)
     else ret True)"

definition rest_headers :: "'x server_env_scheme \<Rightarrow> string \<Rightarrow> bool call_prog" where
  "rest_headers E str_uri_part =
     bindp check_warmup (\<lambda>ready.
     if \<not> ready then ret False else
     let (rf, param) = parse_data_format str_uri_part; path = split_any ''/'' param in
     if length path \<noteq> 2
     then rest_err HTTP_BAD_REQUEST ''No header count specified. Use /rest/headers/<count>/<hash>.<ext>.'' else
     let count = atoi64 (path ! 0) in
     if count < 1 \<or> 2000 < count
     then rest_err HTTP_BAD_REQUEST (''Header count out of range: '' @ path ! 0) else
     let ss_header = serialize_string (path ! 1) in
     case rf of
       RF_BINARY \<Rightarrow> rest_reply ''application/octet-stream'' HTTP_OK (map byte_chr ss_header)
     | RF_HEX \<Rightarrow> rest_reply ''text/plain'' HTTP_OK (hex_str False ss_header @ newline)
     | RF_JSON \<Rightarrow>
         bindp (lift (json_dump E (mk_obj [(''data'', JStr ''header'')]))) (\<lambda>text.
         rest_reply ''application/json'' HTTP_OK (text @ newline))
     | RF_UNDEF \<Rightarrow> rest_err HTTP_NOT_FOUND ''output format not found (available: .bin, .hex)'')"

definition rest_chaininfo :: "'x server_env_scheme \<Rightarrow> string \<Rightarrow> bool call_prog" where
  "rest_chaininfo E str_uri_part =
     bindp check_warmup (\<lambda>ready.
     if \<not> ready then ret False else
     case fst (parse_data_format str_uri_part) of
       RF_JSON \<Rightarrow>
         bindp (lift (json_dump E (mk_obj [(''chain'', JStr ''test'')]))) (\<lambda>text.
         rest_reply ''application/json'' HTTP_OK (text @ newline))
     | _ \<Rightarrow> rest_err HTTP_NOT_FOUND ''output format not found (available: json)'')"

definition uri_prefixes :: "(string \<times> handler) list" where
  "uri_prefixes = [(''/rest/chaininfo'', HRestChainInfo), (''/rest/headers/'', HRestHeaders)]"

definition start_rest :: "path_handler list \<Rightarrow> path_handler list" where
  "start_rest hs = foldl (\<lambda>hs (prefix, h). register_http_handler prefix False h hs) hs uri_prefixes"

definition stop_rest :: "path_handler list \<Rightarrow> path_handler list" where
  "stop_rest hs = foldl (\<lambda>hs (prefix, h). unregister_http_handler prefix False hs) hs uri_prefixes"

text \<open>The call of a handler, whichever it is.\<close>

definition run_handler :: "'x server_env_scheme \<Rightarrow> handler \<Rightarrow> string \<Rightarrow> bool call_prog" where
  "run_handler E h path =
     (case h of
        HJsonRpc \<Rightarrow> http_jsonrpc E path
      | HRestChainInfo \<Rightarrow> rest_chaininfo E path
      | HRestHeaders \<Rightarrow> rest_headers E path)"

end
