(* ===== verification/Httpd.thy ===== *)
theory Httpd
  imports Rest "HOL-Library.Multiset"
begin

section \<open>The running HTTP server\<close>

text \<open>
  The threads of \<open>httpserver.cpp\<close> as a step relation: the event thread takes requests in, the
  workers take items from the queue and run their handlers, and the server is interrupted and
  stopped. A request is known by the number of its arrival; its reply is recorded under it.
  A handler runs as one step, between other steps of the other threads; an exception that leaves
  a handler ends the process, so no step follows it.
\<close>

record httpd =
  d_server :: server
  d_handlers :: "path_handler list"
  d_queue :: "work_item work_queue option"
  d_rejecting :: bool
  d_workers :: nat
  d_busy :: "work_item list"
  d_next :: nat
  d_replies :: "(nat \<times> int \<times> string) list"

text \<open>\<open>InitHTTPServer\<close>, \<open>StartHTTPRPC\<close>, \<open>StartREST\<close>, \<open>StartHTTPServer\<close>, in the order of \<open>AppInitServers\<close>.\<close>

definition new_httpd :: "nat \<Rightarrow> nat \<Rightarrow> server \<Rightarrow> httpd" where
  "new_httpd rpcworkqueue rpcthreads s =
     (let (hs, s') = start_http_rpc [] s in
      \<lparr>d_server = s', d_handlers = start_rest hs, d_queue = Some (new_work_queue (max rpcworkqueue 1)),
       d_rejecting = False, d_workers = max rpcthreads 1, d_busy = [], d_next = 0, d_replies = []\<rparr>)"

definition final_reply :: "http_request \<Rightarrow> int \<times> string" where
  "final_reply req = (case hr_reply (destroy_request req) of Some r \<Rightarrow> r | None \<Rightarrow> (500, ''''))"

definition arrive :: "'addr \<Rightarrow> http_request \<Rightarrow> work_item work_queue \<Rightarrow> httpd \<Rightarrow> httpd" where
  "arrive peer req q d =
     (case http_request_cb (d_next d) peer req (d_handlers d) q of
        (Replied status text, q') \<Rightarrow>
           d\<lparr>d_queue := Some q', d_next := Suc (d_next d), d_replies := d_replies d @ [(d_next d, status, text)]\<rparr>
      | (Queued, q') \<Rightarrow> d\<lparr>d_queue := Some q', d_next := Suc (d_next d)\<rparr>)"

definition finish :: "work_item \<Rightarrow> http_call \<Rightarrow> work_item list \<Rightarrow> httpd \<Rightarrow> httpd" where
  "finish item c busy d =
     d\<lparr>d_server := call_server c, d_busy := busy,
       d_replies := d_replies d @ [(wi_id item, final_reply (call_req c))]\<rparr>"

definition interrupt_http_server :: "httpd \<Rightarrow> httpd" where
  "interrupt_http_server d = d\<lparr>d_rejecting := True, d_queue := map_option wq_interrupt (d_queue d)\<rparr>"

text \<open>\<open>StopHTTPServer\<close>, after the workers were joined: what is left in the queue is destroyed.\<close>

definition stop_http_server :: "work_item work_queue \<Rightarrow> httpd \<Rightarrow> httpd" where
  "stop_http_server q d =
     d\<lparr>d_queue := None,
       d_replies := d_replies d @ map (\<lambda>item. (wi_id item, final_reply (wi_req item))) (wq_queue q)\<rparr>"

text \<open>\<open>error_page\<close> is the text libevent sends with \<open>evhttp_send_error\<close>.\<close>

inductive http_step :: "'x server_env_scheme \<Rightarrow> (int \<Rightarrow> string) \<Rightarrow> httpd \<Rightarrow> httpd \<Rightarrow> bool"
  for E error_page where
  Arrive: "\<not> d_rejecting d \<Longrightarrow> d_queue d = Some q \<Longrightarrow> hr_reply req = None \<Longrightarrow>
    http_step E error_page d (arrive (peer :: string) req q d)"
| Reject: "d_rejecting d \<Longrightarrow>
    http_step E error_page d
      (d\<lparr>d_next := Suc (d_next d), d_replies := d_replies d @ [(d_next d, 503, error_page 503)]\<rparr>)"
| Take: "length (d_busy d) < d_workers d \<Longrightarrow> d_queue d = Some q \<Longrightarrow> wq_take q = (Work item, q') \<Longrightarrow>
    http_step E error_page d (d\<lparr>d_queue := Some q', d_busy := d_busy d @ [item]\<rparr>)"
| Leave: "length (d_busy d) < d_workers d \<Longrightarrow> d_queue d = Some q \<Longrightarrow> wq_take q = (Stop, q') \<Longrightarrow>
    http_step E error_page d (d\<lparr>d_workers := d_workers d - 1\<rparr>)"
| Finish: "d_busy d = busy1 @ item # busy2 \<Longrightarrow>
    run_handler E (wi_handler item) (wi_path item) \<lparr>call_server = d_server d, call_req = wi_req item\<rparr> = (c, Val b) \<Longrightarrow>
    http_step E error_page d (finish item c (busy1 @ busy2) d)"
| Interrupt: "http_step E error_page d (interrupt_http_server d)"
| Stop: "d_workers d = 0 \<Longrightarrow> d_queue d = Some q \<Longrightarrow> d_rejecting d \<Longrightarrow>
    http_step E error_page d (stop_http_server q d)"

inductive_cases http_stepE: "http_step E error_page d d'"

text \<open>The worker that runs \<open>item\<close> would end the process: its handler throws, or a check in it fails.\<close>

definition handler_crashes :: "'x server_env_scheme \<Rightarrow> httpd \<Rightarrow> work_item \<Rightarrow> bool" where
  "handler_crashes E d item =
     (case snd (run_handler E (wi_handler item) (wi_path item)
                 \<lparr>call_server = d_server d, call_req = wi_req item\<rparr>) of
        Val b \<Rightarrow> False | _ \<Rightarrow> True)"

subsection \<open>Where every request is\<close>

definition queued_items :: "httpd \<Rightarrow> work_item list" where
  "queued_items d = (case d_queue d of Some q \<Rightarrow> wq_queue q | None \<Rightarrow> [])"

definition request_ids :: "httpd \<Rightarrow> nat list" where
  "request_ids d = map fst (d_replies d) @ map wi_id (d_busy d) @ map wi_id (queued_items d)"

definition httpd_ok :: "nat \<Rightarrow> nat \<Rightarrow> httpd \<Rightarrow> bool" where
  "httpd_ok depth threads d \<longleftrightarrow>
     mset (request_ids d) = mset [0..<d_next d]
     \<and> length (d_busy d) \<le> d_workers d \<and> d_workers d \<le> threads
     \<and> (case d_queue d of Some q \<Rightarrow> wq_max_depth q = depth \<and> length (wq_queue q) \<le> depth
                        | None \<Rightarrow> d_workers d = 0 \<and> d_rejecting d)"

lemmas httpd_ok_defs = httpd_ok_def request_ids_def queued_items_def

lemma httpd_ok_new: "httpd_ok (max depth 1) (max threads 1) (new_httpd depth threads s)"
  by (simp add: new_httpd_def httpd_ok_defs new_work_queue_def start_http_rpc_def)

lemma http_request_cb_queue:
  assumes "http_request_cb i peer req hs q = (a, q')" and "length (wq_queue q) \<le> wq_max_depth q"
  shows "wq_max_depth q' = wq_max_depth q" "length (wq_queue q') \<le> wq_max_depth q'"
    "map wi_id (wq_queue q') = map wi_id (wq_queue q) @ (case a of Queued \<Rightarrow> [i] | Replied st t \<Rightarrow> [])"
  using assms
  by (auto simp: http_request_cb_def wq_enqueue_def split: if_splits option.splits)

lemma httpd_ok_arrive:
  assumes ok: "httpd_ok depth threads d" and q: "d_queue d = Some q"
  shows "httpd_ok depth threads (arrive peer req q d)"
proof -
  obtain a q' where cb: "http_request_cb (d_next d) peer req (d_handlers d) q = (a, q')" by fastforce
  from ok q have "length (wq_queue q) \<le> wq_max_depth q" by (simp add: httpd_ok_def)
  note cbs = http_request_cb_queue [OF cb this]
  show ?thesis using ok q cb cbs
    by (cases a) (simp_all add: httpd_ok_defs arrive_def)
qed

lemma httpd_ok_finish:
  "httpd_ok depth threads d \<Longrightarrow> d_busy d = busy1 @ item # busy2 \<Longrightarrow>
   httpd_ok depth threads (finish item c (busy1 @ busy2) d)"
  by (auto simp: httpd_ok_defs finish_def split: option.splits)

lemma httpd_ok_take:
  assumes "httpd_ok depth threads d" "length (d_busy d) < d_workers d" "d_queue d = Some q"
    "wq_take q = (Work item, q')"
  shows "httpd_ok depth threads (d\<lparr>d_queue := Some q', d_busy := d_busy d @ [item]\<rparr>)"
  using assms wq.deq_front [OF assms(4)] by (simp add: httpd_ok_defs)

lemma httpd_ok_stop:
  "httpd_ok depth threads d \<Longrightarrow> d_workers d = 0 \<Longrightarrow> d_queue d = Some q \<Longrightarrow> d_rejecting d \<Longrightarrow>
   httpd_ok depth threads (stop_http_server q d)"
  by (auto simp: httpd_ok_defs stop_http_server_def comp_def)

lemma httpd_ok_step: "http_step E page d d' \<Longrightarrow> httpd_ok depth threads d \<Longrightarrow> httpd_ok depth threads d'"
proof (induction rule: http_step.induct)
  case (Arrive d q req peer)
  then show ?case by (blast intro: httpd_ok_arrive)
next
  case (Reject d)
  then show ?case by (simp add: httpd_ok_defs split: option.splits)
next
  case (Take d q item q')
  then show ?case by (blast intro: httpd_ok_take)
next
  case (Leave d q q')
  then show ?case by (auto simp: httpd_ok_defs)
next
  case (Finish d busy1 item busy2 c b)
  then show ?case by (blast intro: httpd_ok_finish)
next
  case (Interrupt d)
  then show ?case by (simp add: httpd_ok_defs interrupt_http_server_def wq_interrupt_def split: option.splits)
next
  case (Stop d q)
  then show ?case by (blast intro: httpd_ok_stop)
qed

lemma httpd_ok_reachable:
  "(http_step E page)\<^sup>*\<^sup>* (new_httpd depth threads s) d \<Longrightarrow> httpd_ok (max depth 1) (max threads 1) d"
proof (induction rule: rtranclp_induct)
  case base
  show ?case by (rule httpd_ok_new)
next
  case (step d d')
  then show ?case by (blast intro: httpd_ok_step)
qed

end
