(* ===== verification/RpcProps.thy ===== *)
theory RpcProps
  imports Rest WalletProps
begin

section \<open>Properties of the RPC server and the relay\<close>

text \<open>
  What a client of the server sees: how a request is answered, what the commands of the relay do,
  and where the handling of a request ends. The example world has an idle server (\<open>idle_server\<close>)
  and a database with one coin and one free account (\<open>otc_env\<close>).
\<close>

definition idle_server :: server where
  "idle_server = \<lparr>relay_wallet = empty_wallet, usercoin_account = [], rpc_running = True, rpc_in_warmup = False,
     rpc_warmup_status = ''RPC server started'', map_commands = new_table, shutdown_requested = False,
     timer_interface = True, deadline_timers = []\<rparr>"

definition quiet :: server_env where
  "quiet = \<lparr>mysql_connects = mysql_connects lonely, mysql_query = mysql_query lonely, http_answer = http_answer lonely,
     config = config lonely, json_parse = json_parse lonely, ldb_open = ldb_open lonely, ldb_put = ldb_put lonely,
     ldb_get = ldb_get lonely, py_create = py_create lonely, py_call = py_call lonely,
     eos_expiration = eos_expiration lonely,
     get_time = 100, startup_time = 40, json_dump = (\<lambda>_. Val ''{}'')\<rparr>"

text \<open>A database client that can be opened, whatever was sent before.\<close>

definition db_opens :: "'x env_scheme \<Rightarrow> json \<Rightarrow> bool" where
  "db_opens E conf \<longleftrightarrow> (\<forall>w :: wallet. open_db E conf w = (w, Val True))"

subsection \<open>The relay\<close>

definition recharge_request :: "string \<Rightarrow> bool \<Rightarrow> int \<Rightarrow> jrequest" where
  "recharge_request coin_name is_token user_id =
     new_request\<lparr>r_method := ''getrechargeaddress'', r_params := JArr [JStr coin_name, JBool is_token, JInt user_id]\<rparr>"

text \<open>The database knows the coin under the number \<open>cid\<close>, whatever it was sent before.\<close>

definition coin_known :: "'x env_scheme \<Rightarrow> bool \<Rightarrow> string \<Rightarrow> nat \<Rightarrow> bool" where
  "coin_known E is_token coin_name cid \<longleftrightarrow>
     cid < 2 ^ 31 \<and> (\<forall>log. mysql_query E log (c_str (sql_coin_of is_token coin_name)) = Rows [[Some (nat_to_string cid)]])"

lemma get_data_rows1:
  "mysql_query E (db_log w) (c_str sql) = Rows [cells] \<Longrightarrow> convert_row cols cells = Val js \<Longrightarrow>
   get_data E sql cols JNull w = (w, Val (True, JArr [JArr js]))"
  by (simp add: get_data_def bindp_def prog_simps)

lemma recharge_until_cache:
  assumes "at_key (config E) ''otc_db'' = Val conf" "db_opens E conf"
    and "coin_known E is_token coin_name cid" and "- (2 ^ 31) \<le> user_id" "user_id < 2 ^ 31"
  shows "get_recharge_address E (recharge_request coin_name is_token user_id) s =
     (case map_of (usercoin_account s) (encode_user user_id (int cid)) of
        Some info \<Rightarrow> (s, Val (recharge_result user_id coin_name (ai_address info) (ai_tag info)))
      | None \<Rightarrow> find_account E user_id coin_name (int cid) (JArr [JArr [JInt (int cid)]]) s)"
proof -
  have o: "open_db E conf w = (w, Val True)" for w :: wallet using assms(2) by (simp add: db_opens_def)
  from assms(3) have cid: "cid < 2 ^ 31"
    and q: "\<And>log. mysql_query E log (c_str (sql_coin_of is_token coin_name)) = Rows [[Some (nat_to_string cid)]]"
    by (simp_all add: coin_known_def)
  have c: "convert_row [T_INT] [Some (nat_to_string cid)] = Val [JInt (int cid)]"
    using cid by (simp add: convert_cell_def stoi_nat_to_string)
  have g: "get_data E (sql_coin_of is_token coin_name) [T_INT] JNull w = (w, Val (True, JArr [JArr [JInt (int cid)]]))"
    for w :: wallet
    by (rule get_data_rows1 [OF q c])
  have w: "wrap_i32 (int cid) = int cid"
    using assms(3) by (simp add: coin_known_def)
  show ?thesis
    using assms w by (simp add: get_recharge_address_def recharge_request_def new_request_def field_defs bindp_def prog_simps
       on_wallet_def o arg_string_def arg_bool_def arg_def g split: option.splits)
qed

text \<open>
  Once a deposit address of user 11 for coin 1 is remembered, user 1 who asks for an address of
  coin 11 is given that same address, and nothing is written: the two numbers of the cache key are
  joined without a separator.
\<close>

theorem cached_address_answered:
  assumes "at_key (config E) ''otc_db'' = Val conf" "db_opens E conf"
    and "coin_known E is_token coin_name 11"
    and "map_of (usercoin_account s) (encode_user 11 1) = Some info"
  shows "get_recharge_address E (recharge_request coin_name is_token 1) s =
     (s, Val (recharge_result 1 coin_name (ai_address info) (ai_tag info)))"
proof -
  have "encode_user 1 (int 11) = encode_user 11 1"
    by (simp add: encode_user_def int_to_string_def nat_to_string.simps digit_char_def)
  then show ?thesis
    using recharge_until_cache [OF assms(1-3), of 1 s] assms(4) by simp
qed

definition otc_rows :: "string list \<Rightarrow> string \<Rightarrow> sql_reply" where
  "otc_rows sent sql =
     (if sql = c_str (sql_coin_of False ''BTC'') then Rows [[Some (nat_to_string 11)]]
      else if sql = c_str (sql_free_account 11) then Rows [[Some (nat_to_string 3), Some ''1Free'', Some ''0'']]
      else Rows [])"

definition otc_env :: server_env where
  "otc_env = quiet\<lparr>mysql_query := otc_rows\<rparr>"

lemma eleven: "nat_to_string 11 = ''11''" "nat_to_string 42 = ''42''" "nat_to_string 3 = ''3''"
  by (simp_all add: nat_to_string.simps digit_char_def)

lemma db_opens_otc [simp]: "db_opens otc_env otc_conf"
  by (simp add: db_opens_def open_db_def otc_env_def quiet_def lonely_def otc_conf_def bindp_def prog_simps)

lemma otc_conf_key [simp]: "at_key (config otc_env) ''otc_db'' = Val otc_conf"
  by (simp add: otc_env_def quiet_def lonely_def)

lemma otc_coin_known [simp]: "coin_known otc_env False ''BTC'' 11"
  by (simp add: coin_known_def otc_env_def otc_rows_def)

lemma sql_distinct:
  "c_str (sql_free_account 11) \<noteq> c_str (sql_coin_of False ''BTC'')"
  "c_str (sql_user_account 11 42) \<noteq> c_str (sql_coin_of False ''BTC'')"
  "c_str (sql_user_account 11 42) \<noteq> c_str (sql_free_account 11)"
  "c_str (sql_assign 42 3 11) \<noteq> c_str (sql_coin_of False ''BTC'')"
  "c_str (sql_assign 42 3 11) \<noteq> c_str (sql_free_account 11)"
  by (simp_all add: c_str_def sql_free_account_def sql_coin_of_def sql_user_account_def sql_assign_def sql_values_def
     quoted_def int_to_string_def tab_def eleven)

theorem cached_address_answered_witness:
  "get_recharge_address otc_env (recharge_request ''BTC'' False 1)
     (idle_server\<lparr>usercoin_account := [(encode_user 11 1, \<lparr>ai_account_id = 3, ai_address = ''1Eleven'', ai_tag = ''0''\<rparr>)]\<rparr>)
   = (idle_server\<lparr>usercoin_account := [(encode_user 11 1, \<lparr>ai_account_id = 3, ai_address = ''1Eleven'', ai_tag = ''0''\<rparr>)]\<rparr>,
      Val (recharge_result 1 ''BTC'' ''1Eleven'' ''0''))"
  using cached_address_answered [OF otc_conf_key db_opens_otc otc_coin_known, where s = "idle_server\<lparr>usercoin_account :=
      [(encode_user 11 1, \<lparr>ai_account_id = 3, ai_address = ''1Eleven'', ai_tag = ''0''\<rparr>)]\<rparr>"] by simp

text \<open>An account row of the database, and the row as JSON.\<close>

lemma convert_account_row:
  "aid < 2 ^ 31 \<Longrightarrow> convert_row [T_INT, T_STRING, T_STRING] [Some (nat_to_string aid), Some address, Some tag]
     = Val [JInt (int aid), JStr address, JStr tag]"
  by (simp add: convert_cell_def stoi_nat_to_string)

lemma get_data_none:
  "mysql_query E (db_log w) (c_str sql) = Rows [] \<Longrightarrow> get_data E sql cols data w = (w, Val (True, data))"
  by (simp add: get_data_def bindp_def prog_simps)

lemma get_data_one:
  "mysql_query E (db_log w) (c_str sql) = Rows [cells] \<Longrightarrow> convert_row cols cells = Val js \<Longrightarrow>
   get_data E sql cols (JArr []) w = (w, Val (True, JArr [JArr js]))"
  by (simp add: get_data_def bindp_def prog_simps)

text \<open>
  C5: A user without an address of a coin is given the free account the database offers: exactly one
  statement that writes, the assignment, is sent, and the same request afterwards gets the same answer
  without writing again (the queries both requests make are not part of \<open>db_log\<close>).
\<close>

theorem new_user_gets_free_address:
  assumes "at_key (config E) ''otc_db'' = Val conf" "db_opens E conf"
    and "coin_known E is_token coin_name cid" and "- (2 ^ 31) \<le> user_id" "user_id < 2 ^ 31"
    and "map_of (usercoin_account s) (encode_user user_id (int cid)) = None"
    and "mysql_query E (db_log (relay_wallet s)) (c_str (sql_user_account (int cid) user_id)) = Rows []"
    and "mysql_query E (db_log (relay_wallet s)) (c_str (sql_free_account (int cid))) =
           Rows [[Some (nat_to_string aid), Some address, Some tag]]" "aid < 2 ^ 31"
    and "mysql_query E (db_log (relay_wallet s)) (c_str (sql_assign user_id (int aid) (int cid))) = Rows rows"
    and "get_recharge_address E (recharge_request coin_name is_token user_id) s = (s', r)"
  shows "r = Val (recharge_result user_id coin_name address tag)
    \<and> db_log (relay_wallet s') = db_log (relay_wallet s) @ [c_str (sql_assign user_id (int aid) (int cid))]
    \<and> get_recharge_address E (recharge_request coin_name is_token user_id) s' = (s', r)"
proof -
  let ?info = "\<lparr>ai_account_id = int aid, ai_address = address, ai_tag = tag\<rparr>"
  let ?w = "(relay_wallet s)\<lparr>db_log := db_log (relay_wallet s) @ [c_str (sql_assign user_id (int aid) (int cid))]\<rparr>"
  let ?s = "s\<lparr>relay_wallet := ?w,
      usercoin_account := AList.update (encode_user user_id (int cid)) ?info (usercoin_account s)\<rparr>"
  have a: "assign_account E user_id coin_name (int cid) (JArr []) s
      = (?s, Val (recharge_result user_id coin_name address tag))"
    using assms(9,10)
    by (simp add: assign_account_def bindp_def on_wallet_def get_data_one [OF assms(8) convert_account_row [OF assms(9)]]
        field_defs prog_simps refresh_db_apply remember_account_def)
  have "get_recharge_address E (recharge_request coin_name is_token user_id) s
      = (?s, Val (recharge_result user_id coin_name address tag))"
    using recharge_until_cache [OF assms(1-5), of s] assms(6) a
    by (simp add: find_account_def bindp_def on_wallet_def get_data_none [OF assms(7)])
  then have s': "s' = ?s" "r = Val (recharge_result user_id coin_name address tag)" using assms(11) by simp_all
  show ?thesis
    using recharge_until_cache [OF assms(1-5), of ?s] by (simp add: s' smap.find_set_same)
qed

theorem new_user_gets_free_address_witness:
  "snd (get_recharge_address otc_env (recharge_request ''BTC'' False 42) idle_server)
     = Val (recharge_result 42 ''BTC'' ''1Free'' ''0'')"
proof -
  have q: "mysql_query otc_env = otc_rows" by (simp add: otc_env_def)
  have "c_str (sql_assign 42 (int 3) (int 11)) = c_str (sql_assign 42 3 11)" by simp
  then show ?thesis
    using new_user_gets_free_address [OF otc_conf_key db_opens_otc otc_coin_known, where user_id = 42 and s = idle_server
        and aid = 3 and address = "''1Free''" and tag = "''0''" and rows = "[]", OF _ _ _ _ _ _ _ prod.collapse [symmetric]]
    by (simp add: q otc_rows_def sql_distinct, simp add: idle_server_def)
qed

subsection \<open>Dispatch\<close>

lemma find_nothing: "List.find (\<lambda>name. False) ns = None"
  by (simp add: find_None_iff)

lemma named_arguments_vanish:
  "transform_named_arguments request arg_names s = (s, Val request)"
proof -
  have *: "foreach arg_names (ps, [], hole) (\<lambda>(ps, args_in, hole) pattern.
       case List.find (\<lambda>name. has_key args_in name) (split_any ''|'' pattern) of
         Some name \<Rightarrow>
           bindp (foreach [0..<hole] ps (\<lambda>ps _. bindp (lift (push_back ps JNull)) (\<lambda>ps. ret (Continue ps)))) (\<lambda>ps.
           bindp (lift (push_back ps (the (map_of args_in name)))) (\<lambda>ps.
           ret (Continue (ps, AList.delete name args_in, 0))))
       | None \<Rightarrow> ret (Continue (ps, args_in, Suc hole))) s
     = (s, Val (ps, [], hole + length arg_names))" for ps hole
    by (induction arg_names arbitrary: hole) (simp_all add: find_nothing prog_simps)
  show ?thesis
    unfolding transform_named_arguments_def named_args_def by (rule bindp_ValI, rule *) (simp add: prog_simps)
qed

text \<open>
  C20: What \<open>execute\<close> does, on every path: in warm-up error -28 with the status, for an unknown method
  error -32601, the server untouched in both; otherwise the command's own outcome, a standard
  exception turned into error -1 with its text. Named arguments make no difference.
\<close>

theorem execute_outcome:
  "execute E request s =
     (if rpc_in_warmup s then (s, Exc (ThrownJson (json_rpc_error (- 28) (rpc_warmup_status s))))
      else case map_of (map_commands s) (r_method request) of
             None \<Rightarrow> (s, Exc (ThrownJson (json_rpc_error (- 32601) ''Method not found'')))
           | Some cmd \<Rightarrow>
               (case run_actor E (cmd_actor cmd) request s of
                  (s', Exc e) \<Rightarrow> (s', Exc (ThrownJson (case e of ThrownJson j \<Rightarrow> j | _ \<Rightarrow> json_rpc_error (- 1) (what e))))
                | r \<Rightarrow> r))"
proof (cases "rpc_in_warmup s")
  case True
  then show ?thesis by (simp add: execute_def rpc_is_in_warmup_def bindp_def prog_simps rpc_codes)
next
  case warm: False
  show ?thesis
  proof (cases "map_of (map_commands s) (r_method request)")
    case None
    with warm show ?thesis by (simp add: execute_def rpc_is_in_warmup_def bindp_def prog_simps rpc_codes)
  next
    case (Some cmd)
    have *: "bindp (transform_named_arguments request names) (run_actor E a) s = run_actor E a request s" for names a
      by (simp add: bindp_def named_arguments_vanish)
    from warm Some show ?thesis
      by (auto simp: execute_def rpc_is_in_warmup_def catch_def prog_simps rpc_codes *
          split: prod.splits outcome.splits exn.splits)
  qed
qed

lemma actor_of_named:
  "bindp (transform_named_arguments request names) (run_actor E a) s = run_actor E a request s"
  by (simp add: bindp_def named_arguments_vanish)

text \<open>
  A \<open>transfer\<close> with its six arguments by name never reaches a wallet: the names are not resolved,
  the first read of an argument by position throws, and the reply is error -1 with that text.
\<close>

theorem named_transfer_refused:
  assumes "\<not> rpc_in_warmup s" and "map_of (map_commands s) ''transfer'' = Some cmd" "cmd_actor cmd = ActTransfer"
    and "at_key (config E) ''otc_db'' = Val conf" "db_opens E conf"
    and "length ps = 6"
  shows "execute E (new_request\<lparr>r_method := ''transfer'', r_params := JObj ps\<rparr>) s =
     (s, Exc (ThrownJson (json_rpc_error (- 1) ''[json.exception.type_error.305] cannot use operator[] with object'')))"
proof -
  have n: "nat_to_string 305 = ''305''" by (simp add: nat_to_string.simps digit_char_def)
  let ?r = "new_request\<lparr>r_method := ''transfer'', r_params := JObj ps\<rparr>"
  have o: "open_db E conf w = (w, Val True)" for w :: wallet using assms(5) by (simp add: db_opens_def)
  have w: "wallet_transfer E (JObj ps) JNull w = (w, Exc (TypeError 305 ''cannot use operator[] with object''))" for w
    using assms(4) by (simp add: wallet_transfer_def field_def bindp_def prog_simps o arg_string_def arg_def)
  have "run_actor E (cmd_actor cmd) ?r s = (s, Exc (TypeError 305 ''cannot use operator[] with object''))"
    using assms(3,6) by (simp add: run_actor_def rpc_transfer_def new_request_def on_wallet_def w bindp_def)
  then show ?thesis
    using assms(1-3) by (simp add: execute_def rpc_is_in_warmup_def catch_def actor_of_named prog_simps
      rpc_codes n new_request_def)
qed

theorem named_transfer_refused_witness:
  "execute otc_env (new_request\<lparr>r_method := ''transfer'', r_params := JObj (replicate 6 (''from'', JNull))\<rparr>)
     (idle_server\<lparr>map_commands := [(''transfer'', relay_commands ! 1)]\<rparr>) =
   (idle_server\<lparr>map_commands := [(''transfer'', relay_commands ! 1)]\<rparr>,
    Exc (ThrownJson (json_rpc_error (- 1) ''[json.exception.type_error.305] cannot use operator[] with object'')))"
  by (rule named_transfer_refused [where cmd = "relay_commands ! 1", OF _ _ _ otc_conf_key db_opens_otc]) (simp_all add: idle_server_def relay_commands_def)

text \<open>
  \<open>appendCommand\<close> adds a command exactly when the server does not run and the name is free, and
  says so; it never replaces a command.
\<close>

theorem append_command_keeps_table:
  "map_of (map_commands (fst (append_command name cmd s))) n =
     (if \<not> rpc_running s \<and> map_of (map_commands s) n = None \<and> n = name then Some cmd else map_of (map_commands s) n)
   \<and> snd (append_command name cmd s) = Val (\<not> rpc_running s \<and> map_of (map_commands s) name = None)"
  by (auto simp: append_command_def bindp_def prog_simps)

subsection \<open>Requests over HTTP\<close>

lemma read_body_apply: "read_body req = (req\<lparr>hr_body := ''''\<rparr>, Val (hr_body req))"
  by (simp add: read_body_def prog_simps)

lemma json_error_reply_apply:
  assumes "hr_reply (call_req c) = None" and "json_dump E (json_rpc_reply_obj JNull (json_rpc_error code msg) i) = Val text"
    and "- (2 ^ 31) \<le> code" "code < 2 ^ 31"
  shows "json_error_reply E (json_rpc_error code msg) i c =
    (c\<lparr>call_req := (call_req c)\<lparr>hr_out_headers := hr_out_headers (call_req c) @ [(''Content-Type'', ''application/json'')],
                               hr_reply := Some (error_status code, text @ newline)\<rparr>\<rparr>, Val ())"
  using assms by (simp add: json_error_reply_def json_rpc_error_def mk_obj_def bindp_def prog_simps
      json_rpc_reply_def on_request_def write_header_def write_reply_def)

text \<open>
  C9: A \<open>POST\<close> whose body is a request object with an id, a method of the table and an array of
  parameters runs that command once on the server and is answered with status 200 and the text of
  the command's result under the same id.
\<close>

theorem post_runs_command:
  assumes "hr_method req = POST" "hr_reply req = None"
    and "json_parse E (hr_body req) = Val (JObj m)"
    and "map_of m ''id'' = Some i" "map_of m ''method'' = Some (JStr name)" "map_of m ''params'' = Some (JArr ps)"
    and "\<not> rpc_in_warmup s" "map_of (map_commands s) name = Some cmd"
    and "run_actor E (cmd_actor cmd) (new_request\<lparr>r_id := i, r_method := name, r_params := JArr ps, r_uri := hr_uri req\<rparr>) s
           = (s', Val result)"
    and "json_dump E (json_rpc_reply_obj result JNull i) = Val str_reply"
  shows "http_jsonrpc E path \<lparr>call_server = s, call_req = req\<rparr> =
     (\<lparr>call_server = s',
       call_req = req\<lparr>hr_body := '''', hr_out_headers := hr_out_headers req @ [(''Content-Type'', ''application/json'')],
                      hr_reply := Some (200, str_reply @ newline)\<rparr>\<rparr>, Val True)"
proof -
  let ?jreq = "new_request\<lparr>r_id := i, r_method := name, r_params := JArr ps, r_uri := hr_uri req\<rparr>"
  have p: "parse_request (JObj m) (new_request\<lparr>r_uri := hr_uri req\<rparr>) = (?jreq, Val ())"
    using assms by (simp add: parse_request_def prog_simps new_request_def)
  have e: "execute E ?jreq s = (s', Val result)"
    using assms by (simp add: execute_def rpc_is_in_warmup_def catch_def prog_simps new_request_def)
  have a: "answer_body E (hr_body req) (hr_uri req) s = (?jreq, s', Val (str_reply @ newline))"
    using assms(3,10) p e by (simp add: answer_body_def parse_and_execute_def json_rpc_reply_def new_request_def)
  show ?thesis
    using assms(1,2) a by (simp add: http_jsonrpc_def jsonrpc_try_def 
        read_body_apply Let_def bindp_def prog_simps on_request_def write_header_def
        write_reply_def HTTP_OK_def new_request_def)
qed

definition uptime_fields :: "(string \<times> json) list" where
  "uptime_fields = [(''id'', JInt 5), (''method'', JStr ''uptime''), (''params'', JArr [])]"

definition a_post :: http_request where
  "a_post = \<lparr>hr_method = POST, hr_uri = ''/'', hr_headers = [], hr_body = ''{}'', hr_out_headers = [], hr_reply = None\<rparr>"

theorem post_runs_command_witness:
  "hr_reply (call_req (fst (http_jsonrpc (quiet\<lparr>json_parse := \<lambda>_. Val (JObj uptime_fields)\<rparr>) ''''
     \<lparr>call_server = idle_server, call_req = a_post\<rparr>))) = Some (200, ''{}'' @ newline)"
proof -
  let ?r = "new_request\<lparr>r_id := JInt 5, r_method := ''uptime'', r_params := JArr [], r_uri := hr_uri a_post\<rparr>"
  have "run_actor (quiet\<lparr>json_parse := \<lambda>_. Val (JObj uptime_fields)\<rparr>) (cmd_actor (control_commands ! 2)) ?r idle_server
      = (idle_server, Val (JInt 60))"
    by (simp add: run_actor_def control_commands_def cmd_uptime_def new_request_def prog_simps quiet_def)
  then show ?thesis
    by (subst post_runs_command [where m = uptime_fields and cmd = "control_commands ! 2" and str_reply = "''{}''"])
       (simp_all add: a_post_def uptime_fields_def idle_server_def quiet_def new_table_def control_commands_def)
qed

text \<open>
  A request object without an id is not refused but ends the server: the read of the id from a
  \<open>const\<close> object fails an assertion, whatever else the request holds.
\<close>

theorem missing_id_aborts:
  assumes "hr_method req = POST" "json_parse E (hr_body req) = Val (JObj m)" "map_of m ''id'' = None"
  shows "snd (http_jsonrpc E path \<lparr>call_server = s, call_req = req\<rparr>) = Fault AssertFailed"
  using assms by (simp add: http_jsonrpc_def jsonrpc_try_def answer_body_def parse_and_execute_def
      parse_request_def read_body_def Let_def bindp_def prog_simps)

theorem missing_id_aborts_witness:
  "snd (http_jsonrpc (quiet\<lparr>json_parse := \<lambda>_. Val (JObj [(''method'', JStr ''help'')])\<rparr>) ''''
     \<lparr>call_server = idle_server, call_req = a_post\<rparr>) = Fault AssertFailed"
  by (rule missing_id_aborts [where m = "[(''method'', JStr ''help'')]"]) (simp_all add: a_post_def)

text \<open>A reply that is refused because the request was answered is the failed assertion of the code.\<close>

lemma replies_once:
  "hr_reply (call_req c) = None \<Longrightarrow> thenp (on_request (write_reply st t)) (ret ok) c
     = (c\<lparr>call_req := (call_req c)\<lparr>hr_reply := Some (st, t)\<rparr>\<rparr>, Val ok)"
  by (simp add: bindp_def on_request_def write_reply_def prog_simps)

lemma header_keeps_unanswered:
  "hr_reply (call_req c) = None \<Longrightarrow> thenp (on_request (write_header h v)) m c
     = m (c\<lparr>call_req := hr_out_headers_update (\<lambda>hs. hs @ [(h, v)]) (call_req c)\<rparr>)"
  by (simp add: bindp_def on_request_def write_header_def prog_simps)

lemma error_replied:
  assumes "hr_reply (call_req c) = None" "thenp (json_error_reply E j i) (ret False) c = (c', Val ok)"
  shows "\<not> ok \<and> (\<exists>status text. hr_reply (call_req c') = Some (status, text) \<and> status \<in> {400, 404, 500})"
proof -
  from assms(2) obtain code st where "thenp (on_request (write_header ''Content-Type'' ''application/json''))
           (on_request (write_reply (error_status code) st)) c = (c', Val ())" and ok: "ok = False"
    by (auto simp: json_error_reply_def bindp_assoc bindp_eq_Val prog_simps)
  then have "hr_reply (call_req c') = Some (error_status code, st)"
    using assms(1) by (auto simp: header_keeps_unanswered on_request_def write_reply_def prog_simps)
  with ok show ?thesis by (simp add: error_status_def http_codes)
qed

text \<open>
  When the handler returns, it has written one reply: status 200 when it reports success, and
  otherwise 405 for a method other than \<open>POST\<close> or the status of the error.
\<close>

theorem http_jsonrpc_replies:
  "case http_jsonrpc E path \<lparr>call_server = s, call_req = req\<lparr>hr_reply := None\<rparr>\<rparr> of
     (c', Val ok) \<Rightarrow> \<exists>status text. hr_reply (call_req c') = Some (status, text)
        \<and> (if ok then status = 200 else status \<in> {400, 404, 405, 500})
   | _ \<Rightarrow> True"
proof -
  let ?c = "\<lparr>call_server = s, call_req = req\<lparr>hr_reply := None\<rparr>\<rparr>"
  show ?thesis
  proof (cases "hr_method req = POST")
    case False
    then show ?thesis by (simp add: http_jsonrpc_def replies_once http_codes)
  next
    case True
    obtain c0 i r where t: "jsonrpc_try E ?c = (c0, i, r)" by (cases "jsonrpc_try E ?c")
    then have n: "hr_reply (call_req c0) = None"
      by (auto simp: jsonrpc_try_def Let_def read_body_def prog_simps split: prod.splits)
    show ?thesis
      using True n by (auto simp: http_jsonrpc_def t replies_once header_keeps_unanswered http_codes prog_simps
          dest: error_replied [OF n] split: prod.split outcome.split exn.split)
  qed
qed

text \<open>The headers a request came with, changed.\<close>

definition with_headers :: "(string \<times> string) list \<Rightarrow> http_request \<Rightarrow> http_request" where
  "with_headers hs req = req\<lparr>hr_headers := hs\<rparr>"

definition call_with_headers :: "(string \<times> string) list \<Rightarrow> http_call \<Rightarrow> http_call" where
  "call_with_headers hs c = c\<lparr>call_req := with_headers hs (call_req c)\<rparr>"

lemma on_request_commutes [commute_intros]:
  "commutes (with_headers hs) m \<Longrightarrow> commutes (call_with_headers hs) (on_request m)"
  by (auto simp: commutes_def on_request_def call_with_headers_def split: prod.splits)

lemma writing_commutes [commute_intros]:
  "commutes (with_headers hs) (write_header h v)" "commutes (with_headers hs) (write_reply st t)"
  unfolding write_header_def write_reply_def by (auto simp: with_headers_def intro!: commute_intros)

lemma json_error_reply_commutes [commute_intros]:
  "commutes (call_with_headers hs) (json_error_reply E j i)"
  unfolding json_error_reply_def by (intro commute_intros)

lemma jsonrpc_try_headers:
  "jsonrpc_try E (call_with_headers hs c) = apfst (call_with_headers hs) (jsonrpc_try E c)"
  by (simp add: jsonrpc_try_def Let_def read_body_def prog_simps call_with_headers_def with_headers_def split: prod.split)

lemma http_jsonrpc_commutes: "commutes (call_with_headers hs) (http_jsonrpc E path)"
proof -
  have "http_jsonrpc E path (call_with_headers hs c) = apfst (call_with_headers hs) (http_jsonrpc E path c)" for c
  proof (cases "hr_method (call_req c) = POST")
    case False
    then have "http_jsonrpc E path d = thenp (on_request (write_reply HTTP_BAD_METHOD ''JSONRPC server handles only POST requests'')) (ret False) d"
      if "d = c \<or> d = call_with_headers hs c" for d
      using that by (auto simp: http_jsonrpc_def call_with_headers_def with_headers_def)
    then show ?thesis by simp (intro commutesD commute_intros)
  next
    case True
    obtain c' i r where t: "jsonrpc_try E c = (c', i, r)" by (cases "jsonrpc_try E c")
    let ?k = "\<lambda>r. case r of Val str_reply \<Rightarrow> thenp (on_request (write_header ''Content-Type'' ''application/json''))
            (thenp (on_request (write_reply HTTP_OK str_reply)) (ret True))
          | Exc (ThrownJson j) \<Rightarrow> thenp (json_error_reply E j i) (ret False)
          | Exc e \<Rightarrow> thenp (json_error_reply E (json_rpc_error RPC_PARSE_ERROR (what e)) i) (ret False)
          | Fault k \<Rightarrow> fault k"
    have True': "hr_method (call_req (call_with_headers hs c)) = POST"
      using True by (simp add: call_with_headers_def with_headers_def)
    have k: "commutes (call_with_headers hs) (?k r)"
      by (auto intro!: commute_intros split: outcome.split exn.split)
    have "http_jsonrpc E path c = ?k r c'" 
      using True by (simp add: http_jsonrpc_def t split: outcome.split exn.split)
    moreover have "http_jsonrpc E path (call_with_headers hs c) = ?k r (call_with_headers hs c')"
      using True' by (simp add: http_jsonrpc_def jsonrpc_try_headers t split: outcome.split exn.split)
    ultimately show ?thesis using commutesD [OF k] by simp
  qed
  then show ?thesis by (simp add: commutes_def)
qed

text \<open>
  The headers of a request do not matter: with any other headers, credentials or none, the server
  does the same and replies the same.
\<close>

theorem authorization_ignored:
  "http_jsonrpc E path \<lparr>call_server = s, call_req = req\<lparr>hr_headers := hs\<rparr>\<rparr> =
     (case http_jsonrpc E path \<lparr>call_server = s, call_req = req\<rparr> of
        (c', r) \<Rightarrow> (c'\<lparr>call_req := (call_req c')\<lparr>hr_headers := hs\<rparr>\<rparr>, r))"
  using commutesD [OF http_jsonrpc_commutes [of hs], of E path "\<lparr>call_server = s, call_req = req\<rparr>"]
  by (simp add: call_with_headers_def with_headers_def apfst_def map_prod_def split: prod.splits)

end
