(* ===== verification/HttpdProps.thy ===== *)
theory HttpdProps
  imports Httpd RpcProps
begin

section \<open>Properties of the HTTP server\<close>

text \<open>
  The threads of the server: no request is lost or answered twice, the shutdown, the requests that
  end the process; and the length-prefixed strings of the data stream the REST interface writes.
\<close>

subsection \<open>Every request, one reply\<close>

definition live_request :: "httpd \<Rightarrow> nat \<Rightarrow> bool" where
  "live_request d i \<longleftrightarrow> i \<in> set (map wi_id (d_busy d)) \<or> i \<in> set (map wi_id (queued_items d))"

lemma httpd_ok_once:
  assumes "httpd_ok depth threads d"
  shows "distinct (map fst (d_replies d))" "i \<in> fst ` set (d_replies d) \<Longrightarrow> \<not> live_request d i"
    "i < d_next d \<longleftrightarrow> i \<in> fst ` set (d_replies d) \<or> live_request d i"
proof -
  have m: "mset (request_ids d) = mset [0..<d_next d]" using assms by (simp add: httpd_ok_def)
  have d: "distinct (request_ids d)" using m by (metis distinct_upt mset_eq_imp_distinct_iff)
  have "set (request_ids d) = {0..<d_next d}" using m by (metis atLeastLessThan_upt mset_eq_setD)
  then have i: "i < d_next d \<longleftrightarrow> i \<in> set (request_ids d)" by simp
  show "i < d_next d \<longleftrightarrow> i \<in> fst ` set (d_replies d) \<or> live_request d i"
    unfolding i by (auto simp: request_ids_def live_request_def)
  show "distinct (map fst (d_replies d))" "i \<in> fst ` set (d_replies d) \<Longrightarrow> \<not> live_request d i"
    using d by (auto simp: request_ids_def live_request_def)
qed

text \<open>
  C1: In every state the server can reach, every request that arrived is either answered, exactly
  once, or still with the server, in the queue or with a worker, and never both; no more than
  \<open>rpcthreads\<close> requests are worked on and no more than \<open>rpcworkqueue\<close> wait.
\<close>

theorem requests_answered_at_most_once:
  assumes "(http_step E page)\<^sup>*\<^sup>* (new_httpd rpcworkqueue rpcthreads s) d"
  shows "distinct (map fst (d_replies d))
     \<and> (i < d_next d \<longleftrightarrow> i \<in> fst ` set (d_replies d) \<or> live_request d i)
     \<and> \<not> (i \<in> fst ` set (d_replies d) \<and> live_request d i)
     \<and> length (d_busy d) \<le> max rpcthreads 1 \<and> length (queued_items d) \<le> max rpcworkqueue 1"
proof -
  note ok = httpd_ok_reachable [OF assms]
  show ?thesis using httpd_ok_once [OF ok] ok
    by (auto simp: httpd_ok_def queued_items_def split: option.splits)
qed

text \<open>Every worker's handler returns, whatever the server holds when it runs.\<close>

definition handler_returns :: "'x server_env_scheme \<Rightarrow> work_item \<Rightarrow> bool" where
  "handler_returns E item \<longleftrightarrow>
     (\<forall>s. \<exists>c b. run_handler E (wi_handler item) (wi_path item) \<lparr>call_server = s, call_req = wi_req item\<rparr> = (c, Val b))"

lemma busy_finishes:
  assumes "\<forall>item\<in>set (d_busy d). handler_returns E item"
  shows "\<exists>d'. (http_step E page)\<^sup>*\<^sup>* d d' \<and> d_busy d' = [] \<and> d_queue d' = d_queue d \<and> d_workers d' = d_workers d
          \<and> d_rejecting d' = d_rejecting d \<and> d_next d' = d_next d"
  using assms
proof (induction "d_busy d" arbitrary: d)
  case Nil
  then show ?case by auto
next
  case (Cons item busy)
  then obtain c b where "run_handler E (wi_handler item) (wi_path item) \<lparr>call_server = d_server d, call_req = wi_req item\<rparr> = (c, Val b)"
    by (metis handler_returns_def list.set_intros(1))
  with Cons.hyps(2) have st: "http_step E page d (finish item c ([] @ busy) d)"
    by (intro http_step.Finish) auto
  have "\<exists>d'. (http_step E page)\<^sup>*\<^sup>* (finish item c busy d) d' \<and> d_busy d' = [] \<and> d_queue d' = d_queue (finish item c busy d)
      \<and> d_workers d' = d_workers (finish item c busy d) \<and> d_rejecting d' = d_rejecting (finish item c busy d)
      \<and> d_next d' = d_next (finish item c busy d)"
    by (rule Cons.hyps(1)) (use Cons.prems Cons.hyps(2) [symmetric] in \<open>simp_all add: finish_def\<close>)
  with st show ?case
    by (auto simp: finish_def intro: converse_rtranclp_into_rtranclp)
qed

lemma workers_leave:
  assumes "d_queue d = Some q" "\<not> wq_running q" "d_busy d = []"
  shows "(http_step E page)\<^sup>*\<^sup>* d (d\<lparr>d_workers := 0\<rparr>)"
  using assms
proof (induction "d_workers d" arbitrary: d)
  case 0
  then have "d\<lparr>d_workers := 0\<rparr> = d" by (cases d) simp
  then show ?case by simp
next
  case (Suc n)
  have "http_step E page d (d\<lparr>d_workers := d_workers d - 1\<rparr>)"
    using Suc.prems Suc.hyps(2) by (intro http_step.Leave) (auto simp: wq_take_def)
  moreover have "(http_step E page)\<^sup>*\<^sup>* (d\<lparr>d_workers := d_workers d - 1\<rparr>) (d\<lparr>d_workers := d_workers d - 1\<rparr>\<lparr>d_workers := 0\<rparr>)"
    by (rule Suc.hyps(1)) (use Suc.prems Suc.hyps(2) [symmetric] in simp_all)
  ultimately show ?case by (auto intro: converse_rtranclp_into_rtranclp)
qed

text \<open>
  C11: From every state the server can reach, as long as the handlers that are running return, it can be
  interrupted and stopped so that every request that ever arrived is answered exactly once, those
  that waited in the queue included.
\<close>

theorem shutdown_answers_everything:
  assumes reach: "(http_step E page)\<^sup>*\<^sup>* (new_httpd rpcworkqueue rpcthreads s) d"
    and returns: "\<forall>item\<in>set (d_busy d). handler_returns E item"
  shows "\<exists>d'. (http_step E page)\<^sup>*\<^sup>* d d' \<and> d_queue d' = None \<and> d_next d' = d_next d
           \<and> mset (map fst (d_replies d')) = mset [0..<d_next d]"
proof (cases "d_queue d")
  case None
  with httpd_ok_reachable [OF reach] have "mset (map fst (d_replies d)) = mset [0..<d_next d]"
    by (auto simp: httpd_ok_defs)
  with None show ?thesis by blast
next
  case (Some q)
  let ?d = "interrupt_http_server d"
  have q: "d_queue ?d = Some (wq_interrupt q)" "d_busy ?d = d_busy d" "d_next ?d = d_next d" "d_rejecting ?d"
    using Some by (simp_all add: interrupt_http_server_def)
  obtain d1 where d1: "(http_step E page)\<^sup>*\<^sup>* ?d d1" "d_busy d1 = []" "d_queue d1 = Some (wq_interrupt q)"
      "d_rejecting d1" "d_next d1 = d_next d"
    using busy_finishes [of ?d E page] returns q by auto
  let ?d2 = "d1\<lparr>d_workers := 0\<rparr>"
  have d2: "(http_step E page)\<^sup>*\<^sup>* d1 ?d2"
    using d1 by (intro workers_leave [of d1 "wq_interrupt q"]) (simp_all add: wq_interrupt_def)
  have d3: "http_step E page ?d2 (stop_http_server (wq_interrupt q) ?d2)"
    using d1 by (intro http_step.Stop) simp_all
  have all: "(http_step E page)\<^sup>*\<^sup>* d (stop_http_server (wq_interrupt q) ?d2)"
    using d1(1) d2 d3 http_step.Interrupt [of E page d]
    by (meson converse_rtranclp_into_rtranclp rtranclp.rtrancl_into_rtrancl rtranclp_trans)
  have "httpd_ok (max rpcworkqueue 1) (max rpcthreads 1) (stop_http_server (wq_interrupt q) ?d2)"
    by (rule httpd_ok_reachable [OF rtranclp_trans [OF reach all]])
  then have "mset (map fst (d_replies (stop_http_server (wq_interrupt q) ?d2))) = mset [0..<d_next d]"
    using d1 by (simp add: httpd_ok_defs stop_http_server_def)
  with all d1(5) show ?thesis
    by (intro exI [of _ "stop_http_server (wq_interrupt q) ?d2"]) (simp add: stop_http_server_def)
qed

definition a_get :: "string \<Rightarrow> http_request" where
  "a_get uri = \<lparr>hr_method = GET, hr_uri = uri, hr_headers = [], hr_body = '''', hr_out_headers = [], hr_reply = None\<rparr>"

definition headers_item :: work_item where
  "headers_item = \<lparr>wi_id = 0, wi_req = a_get ''/rest/headers/1/x.hex'', wi_path = ''1/x.hex'', wi_handler = HRestHeaders\<rparr>"

definition at_work :: httpd where
  "at_work = (new_httpd 16 4 idle_server)\<lparr>d_next := 1, d_busy := [headers_item]\<rparr>"

lemma at_work_reachable: "(http_step E page)\<^sup>*\<^sup>* (new_httpd 16 4 idle_server) at_work"
proof -
  let ?d = "new_httpd 16 4 idle_server"
  let ?q = "new_work_queue 16 :: work_item work_queue"
  let ?d1 = "arrive ''localhost'' (a_get ''/rest/headers/1/x.hex'') ?q ?d"
  have q: "d_queue ?d = Some ?q" "\<not> d_rejecting ?d"
    by (simp_all add: new_httpd_def start_http_rpc_def)
  have a: "?d1 = ?d\<lparr>d_next := 1, d_queue := Some (?q\<lparr>wq_queue := [headers_item]\<rparr>)\<rparr>"
    by (simp add: arrive_def http_request_cb_def client_allowed_def new_httpd_def start_http_rpc_def start_rest_def
        uri_prefixes_def register_http_handler_def handler_matches_def a_get_def wq_enqueue_def new_work_queue_def
        headers_item_def idle_server_def)
  have s1: "http_step E page ?d ?d1"
    by (rule http_step.Arrive) (simp_all add: q a_get_def)
  have s2: "http_step E page ?d1 (?d1\<lparr>d_queue := Some ?q, d_busy := d_busy ?d1 @ [headers_item]\<rparr>)"
    unfolding a by (rule http_step.Take [where q = "?q\<lparr>wq_queue := [headers_item]\<rparr>"])
       (simp_all add: wq_take_def new_work_queue_def new_httpd_def start_http_rpc_def)
  have s3: "?d1\<lparr>d_queue := Some ?q, d_busy := d_busy ?d1 @ [headers_item]\<rparr> = at_work"
    unfolding a by (simp add: at_work_def new_httpd_def start_http_rpc_def)
  from s2 have "http_step E page ?d1 at_work" unfolding s3 .
  with s1 show ?thesis by (rule rtranclp.rtrancl_into_rtrancl [OF r_into_rtranclp])
qed

lemma headers_item_returns: "handler_returns E headers_item"
  by (simp add: handler_returns_def headers_item_def run_handler_def rest_headers_def check_warmup_def
      rpc_is_in_warmup_def on_server_def bindp_def prog_simps rest_err_def rest_reply_def on_request_def
      write_header_def write_reply_def a_get_def parse_data_format_def find_last_def rf_names_def atoi64_def
      strto_def c_str_def split_sign_def is_space_def is_digit_def digits_val_def digit_val_def Let_def) auto

lemma at_work_parts [simp]:
  "d_busy at_work = [headers_item]" "d_next at_work = 1" "d_replies at_work = []" "queued_items at_work = []"
  by (simp_all add: at_work_def new_httpd_def start_http_rpc_def queued_items_def new_work_queue_def)

theorem shutdown_answers_everything_witness:
  "\<exists>d'. (http_step quiet (\<lambda>_. ''''))\<^sup>*\<^sup>* at_work d' \<and> d_queue d' = None \<and> d_next d' = d_next at_work
           \<and> mset (map fst (d_replies d')) = mset [0..<d_next at_work]"
  by (rule shutdown_answers_everything [OF at_work_reachable]) (simp add: headers_item_returns)

theorem requests_answered_at_most_once_witness:
  "live_request at_work 0 \<and> 0 \<notin> fst ` set (d_replies at_work)"
  using requests_answered_at_most_once [OF at_work_reachable [of quiet "\<lambda>_. ''''"], of 0] by simp

subsection \<open>Replies that cannot be printed\<close>

text \<open>
  C36: A \<open>POST\<close> whose body does not parse ends the process when the error text cannot be printed
  (the parser quotes the body, and text that is not UTF-8 makes \<open>dump\<close> throw): the exception leaves
  the handler, in every state of the server.
\<close>

theorem unprintable_error_ends_server:
  assumes "wi_handler item = HJsonRpc" "hr_method (wi_req item) = POST"
    and "json_parse E (hr_body (wi_req item)) = Exc (ParseError msg)"
    and "json_dump E (json_rpc_reply_obj JNull (json_rpc_error (- 32700) msg) (JObj [])) = Exc e"
  shows "handler_crashes E d item"
  using assms
  by (simp add: handler_crashes_def run_handler_def http_jsonrpc_def jsonrpc_try_def answer_body_def read_body_apply
      Let_def json_error_reply_def json_rpc_reply_def rpc_codes bindp_def prog_simps new_request_def)
     (simp add: json_rpc_error_def mk_obj_def prog_simps)

theorem unprintable_error_ends_server_witness:
  "handler_crashes (quiet\<lparr>json_dump := \<lambda>_. Exc (TypeError 316 ''invalid UTF-8 byte at index 0'')\<rparr>) at_work
     \<lparr>wi_id = 1, wi_req = a_post, wi_path = '''', wi_handler = HJsonRpc\<rparr>"
  by (rule unprintable_error_ends_server [where msg = "''{}''"]) (simp_all add: a_post_def quiet_def lonely_def)


subsection \<open>Strings on a data stream\<close>

lemma le_value_le_bytes: "v < 256 ^ n \<Longrightarrow> le_value (le_bytes n v) = v"
proof (induction n arbitrary: v)
  case 0
  then show ?case by (simp add: le_value_def le_bytes_def)
next
  case (Suc n)
  have u: "unat (of_nat v :: byte) = v mod 256" by (simp add: unat_of_nat)
  have "le_bytes (Suc n) v = of_nat v # le_bytes n (v div 256)"
    by (simp add: le_bytes_def upt_conv_Cons map_Suc_upt [symmetric] comp_def div_mult2_eq mult.commute del: upt_Suc)
  moreover have "v div 256 < 256 ^ n" using Suc.prems by (simp add: less_mult_imp_div_less mult.commute)
  ultimately show ?case using Suc.IH [of "v div 256"] by (simp add: le_value_def u)
qed

lemma length_le_bytes [simp]: "length (le_bytes n v) = n"
  by (simp add: le_bytes_def)

lemma read_data_le_bytes:
  "v < 256 ^ n \<Longrightarrow> read_data n (le_bytes n v @ bs) = Val (v, bs)"
  by (simp add: read_data_def le_value_le_bytes)

lemma compact_size_roundtrip:
  assumes "n < 2 ^ 64"
  shows "read_compact_size (write_compact_size n @ bs) =
     (if n \<le> MAX_SIZE then Val (n, bs) else Exc (StdError ''ReadCompactSize(): size too large: iostream error''))"
proof -
  consider "n < 253" | "253 \<le> n" "n \<le> 0xFFFF" | "0xFFFF < n" "n \<le> 0xFFFFFFFF" | "0xFFFFFFFF < n"
    by linarith
  then show ?thesis
  proof cases
    case 1
    then have "unat (of_nat n :: byte) = n" by (simp add: unat_of_nat)
    moreover have "(of_nat n :: byte) < 253" using 1 by (simp add: word_less_nat_alt unat_of_nat)
    ultimately show ?thesis using 1
      by (simp add: read_compact_size_def write_compact_size_def le_bytes_def compact_size_limits_def)
  next
    case 2
    then show ?thesis using read_data_le_bytes [of n 2 bs]
      by (simp add: read_compact_size_def write_compact_size_def compact_size_limits_def)
  next
    case 3
    then show ?thesis using read_data_le_bytes [of n 4 bs]
      by (simp add: read_compact_size_def write_compact_size_def compact_size_limits_def)
  next
    case 4
    then show ?thesis using read_data_le_bytes [of n 8 bs] assms
      by (simp add: read_compact_size_def write_compact_size_def compact_size_limits_def)
  qed
qed

lemma byte_chr_chr_byte: "byte_chr (chr_byte c) = c"
proof -
  have "unat (of_char c :: byte) = of_char c"
    by (simp flip: of_nat_of_char [where ?'a = "8 word"] add: unat_of_nat)
  then show ?thesis by (simp add: byte_chr_def chr_byte_def)
qed

text \<open>
  A string written to a data stream is read back, with the rest of the stream left over, when it
  is not longer than \<open>MAX_SIZE\<close>; a longer one is refused by the reader, on all four widths of the
  length prefix.
\<close>

theorem string_stream_roundtrip:
  assumes "length str < 2 ^ 64"
  shows "unserialize_string (serialize_string str @ rest) =
     (if length str \<le> MAX_SIZE then Val (str, rest)
      else Exc (StdError ''ReadCompactSize(): size too large: iostream error''))"
  using compact_size_roundtrip [OF assms, of "map chr_byte str @ rest"]
  by (simp add: unserialize_string_def serialize_string_def byte_chr_chr_byte comp_def)

theorem string_stream_roundtrip_witness:
  "unserialize_string (serialize_string ''ab'' @ [7]) = Val (''ab'', [7])"
  using string_stream_roundtrip [of "''ab''" "[7]"] by (simp add: MAX_SIZE_def)

end
