(* ===== verification/HttpService.thy ===== *)
theory HttpService
  imports HttpdProps
begin

section \<open>The service the HTTP server gives\<close>

text \<open>
  An abstract request service: tickets wait in the order of their arrival, are worked on, and are
  answered, each once; the service can be closed. The threads of the HTTP server refine it
  (\<open>abs_httpd\<close>): every run of \<open>http_step\<close> is a run of the service. The locale \<open>forward_simulation\<close>
  is what carries facts of the service over to the server.
\<close>

record service =
  sv_waiting :: "nat list"
  sv_working :: "nat multiset"
  sv_answers :: "(nat \<times> int \<times> string) list"
  sv_next :: nat
  sv_closed :: bool

inductive service_step :: "nat \<Rightarrow> nat \<Rightarrow> service \<Rightarrow> service \<Rightarrow> bool" for depth threads where
  Accept: "\<not> sv_closed v \<Longrightarrow> length (sv_waiting v) < depth \<Longrightarrow>
    service_step depth threads v (v\<lparr>sv_waiting := sv_waiting v @ [sv_next v], sv_next := Suc (sv_next v)\<rparr>)"
| Refuse: "service_step depth threads v
    (v\<lparr>sv_answers := sv_answers v @ [(sv_next v, r)], sv_next := Suc (sv_next v)\<rparr>)"
| Begin: "sv_waiting v = i # w \<Longrightarrow> \<not> sv_closed v \<Longrightarrow> size (sv_working v) < threads \<Longrightarrow>
    service_step depth threads v (v\<lparr>sv_waiting := w, sv_working := add_mset i (sv_working v)\<rparr>)"
| Done: "sv_working v = add_mset i w \<Longrightarrow>
    service_step depth threads v (v\<lparr>sv_working := w, sv_answers := sv_answers v @ [(i, r)]\<rparr>)"
| Close: "service_step depth threads v (v\<lparr>sv_closed := True\<rparr>)"
| Drop: "sv_waiting v = i # w \<Longrightarrow> sv_closed v \<Longrightarrow> sv_working v = {#} \<Longrightarrow>
    service_step depth threads v (v\<lparr>sv_waiting := w, sv_answers := sv_answers v @ [(i, r)]\<rparr>)"

definition fresh_service :: service where
  "fresh_service = \<lparr>sv_waiting = [], sv_working = {#}, sv_answers = [], sv_next = 0, sv_closed = False\<rparr>"

text \<open>
  First come, first served: the waiting tickets are in the order of their arrival, and every ticket
  that is worked on came before every one that waits.
\<close>

definition in_turn :: "service \<Rightarrow> bool" where
  "in_turn v \<longleftrightarrow> sorted_wrt (<) (sv_waiting v) \<and> (\<forall>i\<in>set (sv_waiting v). i < sv_next v)
     \<and> (\<forall>i\<in>#sv_working v. i < sv_next v \<and> (\<forall>j\<in>set (sv_waiting v). i < j))"

lemma in_turn_fresh: "in_turn fresh_service"
  by (simp add: in_turn_def fresh_service_def)

lemma in_turn_step: "service_step depth threads v v' \<Longrightarrow> in_turn v \<Longrightarrow> in_turn v'"
  by (induction rule: service_step.induct)
     (auto simp: in_turn_def sorted_wrt_append less_Suc_eq)

subsection \<open>Simulation\<close>

locale forward_simulation =
  fixes conc :: "'c \<Rightarrow> 'c \<Rightarrow> bool" and abst :: "'a \<Rightarrow> 'a \<Rightarrow> bool" and abs_fun :: "'c \<Rightarrow> 'a"
    and good :: "'c \<Rightarrow> bool"
  assumes good_step: "conc c c' \<Longrightarrow> good c \<Longrightarrow> good c'"
    and sim_step: "conc c c' \<Longrightarrow> good c \<Longrightarrow> abst\<^sup>*\<^sup>* (abs_fun c) (abs_fun c')"
begin

lemma good_run: "conc\<^sup>*\<^sup>* c c' \<Longrightarrow> good c \<Longrightarrow> good c'"
  by (induction rule: rtranclp_induct) (auto intro: good_step)

lemma sim_run: "conc\<^sup>*\<^sup>* c c' \<Longrightarrow> good c \<Longrightarrow> abst\<^sup>*\<^sup>* (abs_fun c) (abs_fun c')"
proof (induction rule: rtranclp_induct)
  case (step d d')
  then have "abst\<^sup>*\<^sup>* (abs_fun d) (abs_fun d')" by (intro sim_step) (auto intro: good_run)
  with step show ?case by auto
qed simp

lemma transfer_invariant:
  assumes "\<And>a a'. abst a a' \<Longrightarrow> I a \<Longrightarrow> I a'" and "conc\<^sup>*\<^sup>* c c'" "good c" "I (abs_fun c)"
  shows "I (abs_fun c')"
proof -
  have "I a'" if "abst\<^sup>*\<^sup>* a a'" "I a" for a a'
    using that by (induction rule: rtranclp_induct) (auto intro: assms(1))
  then show ?thesis using sim_run [OF assms(2,3)] assms(4) by blast
qed

end

subsection \<open>The server as a service\<close>

definition abs_httpd :: "httpd \<Rightarrow> service" where
  "abs_httpd d =
     \<lparr>sv_waiting = map wi_id (queued_items d), sv_working = mset (map wi_id (d_busy d)),
      sv_answers = d_replies d, sv_next = d_next d, sv_closed = d_rejecting d\<rparr>"

text \<open>The invariant, with the bit that the queue runs as long as the server takes requests.\<close>

definition server_good :: "nat \<Rightarrow> nat \<Rightarrow> httpd \<Rightarrow> bool" where
  "server_good depth threads d \<longleftrightarrow> httpd_ok depth threads d
     \<and> (case d_queue d of Some q \<Rightarrow> wq_running q = (\<not> d_rejecting d) | None \<Rightarrow> True)"

lemma server_good_new: "server_good (max depth 1) (max threads 1) (new_httpd depth threads s)"
proof -
  have "case d_queue (new_httpd depth threads s) of
      Some q \<Rightarrow> wq_running q = (\<not> d_rejecting (new_httpd depth threads s)) | None \<Rightarrow> True"
    by (simp add: new_httpd_def start_http_rpc_def new_work_queue_def)
  then show ?thesis unfolding server_good_def using httpd_ok_new by blast
qed

lemma abs_new: "abs_httpd (new_httpd depth threads s) = fresh_service"
  by (simp add: abs_httpd_def fresh_service_def new_httpd_def start_http_rpc_def queued_items_def new_work_queue_def)

lemma http_request_cb_running: "http_request_cb i peer req hs q = (a, q') \<Longrightarrow> wq_running q' = wq_running q"
  by (auto simp: http_request_cb_def wq_enqueue_def split: if_splits option.splits)

lemma server_good_step: "http_step E page d d' \<Longrightarrow> server_good depth threads d \<Longrightarrow> server_good depth threads d'"
proof -
  assume st: "http_step E page d d'" and g: "server_good depth threads d"
  have "httpd_ok depth threads d'" using st g by (auto simp: server_good_def intro: httpd_ok_step)
  moreover have "case d_queue d' of Some q \<Rightarrow> wq_running q = (\<not> d_rejecting d') | None \<Rightarrow> True"
    using st
  proof cases
    case (Arrive q req peer)
    then show ?thesis using g
      by (auto simp: server_good_def arrive_def split: prod.splits arrival.splits dest: http_request_cb_running)
  qed (use g in \<open>auto simp: server_good_def finish_def interrupt_http_server_def stop_http_server_def
        wq_interrupt_def wq_take_def split: option.splits if_splits list.splits\<close>)
  ultimately show ?thesis by (simp add: server_good_def)
qed

lemma drop_all:
  "sv_working v = {#} \<Longrightarrow> sv_closed v \<Longrightarrow> sv_waiting v = map fst rs \<Longrightarrow>
   (service_step depth threads)\<^sup>*\<^sup>* v (v\<lparr>sv_waiting := [], sv_answers := sv_answers v @ rs\<rparr>)"
proof (induction rs arbitrary: v)
  case Nil
  then have "v = v\<lparr>sv_waiting := [], sv_answers := sv_answers v @ []\<rparr>" by simp
  then show ?case by (metis rtranclp.rtrancl_refl)
next
  case (Cons x rs)
  let ?v = "v\<lparr>sv_waiting := map fst rs, sv_answers := sv_answers v @ [x]\<rparr>"
  have "service_step depth threads v ?v"
    using Drop [of v "fst x" "map fst rs" depth threads "snd x"] Cons.prems by simp
  moreover have "(service_step depth threads)\<^sup>*\<^sup>* ?v (?v\<lparr>sv_waiting := [], sv_answers := sv_answers ?v @ rs\<rparr>)"
    using Cons.prems by (intro Cons.IH) simp_all
  ultimately show ?case by simp
qed

lemma abs_step:
  assumes "http_step E page d d'" and "server_good depth threads d"
  shows "(service_step depth threads)\<^sup>*\<^sup>* (abs_httpd d) (abs_httpd d')"
  using assms(1)
proof cases
  case (Arrive q req peer)
  then obtain a q' where cb: "http_request_cb (d_next d) peer req (d_handlers d) q = (a, q')" by fastforce
  have d: "length (wq_queue q) \<le> wq_max_depth q" "wq_max_depth q = depth"
    using assms(2) Arrive by (simp_all add: server_good_def httpd_ok_def)
  note q' = http_request_cb_queue [OF cb d(1)]
  have w: "map wi_id (queued_items d) = map wi_id (wq_queue q)" using Arrive by (simp add: queued_items_def)
  show ?thesis
  proof (cases a)
    case (Replied st msg)
    then have "abs_httpd d' = abs_httpd d\<lparr>sv_answers := sv_answers (abs_httpd d) @ [(sv_next (abs_httpd d), st, msg)],
        sv_next := Suc (sv_next (abs_httpd d))\<rparr>"
      using q' cb Arrive w by (simp add: abs_httpd_def arrive_def queued_items_def)
    then show ?thesis using Refuse by (metis r_into_rtranclp)
  next
    case Queued
    then have e: "abs_httpd d' = abs_httpd d\<lparr>sv_waiting := sv_waiting (abs_httpd d) @ [sv_next (abs_httpd d)],
        sv_next := Suc (sv_next (abs_httpd d))\<rparr>"
      using q' cb Arrive w by (simp add: abs_httpd_def arrive_def queued_items_def)
    have "length (map wi_id (wq_queue q')) = Suc (length (wq_queue q))" using q'(3) Queued by simp
    then have "length (sv_waiting (abs_httpd d)) < depth" using q'(1,2) d(2) w by (simp add: abs_httpd_def)
    moreover have "\<not> sv_closed (abs_httpd d)" using Arrive by (simp add: abs_httpd_def)
    ultimately show ?thesis using Accept e by (metis r_into_rtranclp)
  qed
next
  case Reject
  then have "abs_httpd d' = abs_httpd d\<lparr>sv_answers := sv_answers (abs_httpd d) @ [(sv_next (abs_httpd d), 503, page 503)],
        sv_next := Suc (sv_next (abs_httpd d))\<rparr>"
    by (simp add: abs_httpd_def queued_items_def)
  then show ?thesis using Refuse by (metis r_into_rtranclp)
next
  case (Take q item q')
  note f = wq.deq_front [OF Take(4)]
  have "wq_running q" using Take(4) by (auto simp: wq_take_def split: if_splits)
  then have "\<not> sv_closed (abs_httpd d)"
    using assms(2) Take by (simp add: server_good_def abs_httpd_def)
  moreover have "sv_waiting (abs_httpd d) = wi_id item # map wi_id (wq_queue q')"
    using f Take by (simp add: abs_httpd_def queued_items_def)
  moreover have "size (sv_working (abs_httpd d)) < threads"
    using assms(2) Take by (simp add: server_good_def httpd_ok_def abs_httpd_def)
  moreover have "abs_httpd d' = abs_httpd d\<lparr>sv_waiting := map wi_id (wq_queue q'),
      sv_working := add_mset (wi_id item) (sv_working (abs_httpd d))\<rparr>"
    using Take by (simp add: abs_httpd_def queued_items_def)
  ultimately show ?thesis using Begin by (metis r_into_rtranclp)
next
  case (Leave q q')
  then have "abs_httpd d' = abs_httpd d" by (simp add: abs_httpd_def queued_items_def)
  then show ?thesis by simp
next
  case (Finish busy1 item busy2 c b)
  have "sv_working (abs_httpd d) = add_mset (wi_id item) (mset (map wi_id (busy1 @ busy2)))"
    using Finish by (simp add: abs_httpd_def)
  moreover have "abs_httpd d' = abs_httpd d\<lparr>sv_working := mset (map wi_id (busy1 @ busy2)),
      sv_answers := sv_answers (abs_httpd d) @ [(wi_id item, final_reply (call_req c))]\<rparr>"
    using Finish by (simp add: abs_httpd_def finish_def queued_items_def)
  ultimately show ?thesis using Done by (metis r_into_rtranclp)
next
  case Interrupt
  then have "abs_httpd d' = abs_httpd d\<lparr>sv_closed := True\<rparr>"
    by (simp add: abs_httpd_def interrupt_http_server_def queued_items_def wq_interrupt_def split: option.split)
  then show ?thesis using Close by (metis r_into_rtranclp)
next
  case (Stop q)
  let ?rs = "map (\<lambda>item. (wi_id item, final_reply (wi_req item))) (wq_queue q)"
  have "length (d_busy d) = 0" using assms(2) Stop by (simp add: server_good_def httpd_ok_def)
  then have "sv_working (abs_httpd d) = {#}" by (simp add: abs_httpd_def)
  moreover have "sv_closed (abs_httpd d)" "sv_waiting (abs_httpd d) = map fst ?rs"
    using Stop by (simp_all add: abs_httpd_def queued_items_def comp_def)
  ultimately have "(service_step depth threads)\<^sup>*\<^sup>* (abs_httpd d)
      (abs_httpd d\<lparr>sv_waiting := [], sv_answers := sv_answers (abs_httpd d) @ ?rs\<rparr>)"
    by (rule drop_all)
  then show ?thesis using Stop by (simp add: abs_httpd_def stop_http_server_def queued_items_def)
qed

interpretation srv: forward_simulation "http_step E page" "service_step depth threads" abs_httpd
  "server_good depth threads" for E page depth threads
  by unfold_locales (rule server_good_step, assumption+, rule abs_step)

text \<open>
  C2: the HTTP server refines the abstract request service, with \<open>rpcworkqueue\<close> places to wait and
  \<open>rpcthreads\<close> workers: whatever its threads do, in whatever order, the requests as seen from outside
  (waiting, worked on, answered) go through a run of the service.
\<close>

theorem server_refines_service:
  assumes "(http_step E page)\<^sup>*\<^sup>* (new_httpd rpcworkqueue rpcthreads s) d"
  shows "(service_step (max rpcworkqueue 1) (max rpcthreads 1))\<^sup>*\<^sup>* fresh_service (abs_httpd d)"
  using srv.sim_run [OF assms server_good_new] by (simp add: abs_new)

lemma server_refines_service_witness:
  "(service_step 16 4)\<^sup>*\<^sup>* fresh_service (abs_httpd (interrupt_http_server (new_httpd 16 4 idle_server)))"
proof -
  have "(http_step quiet (\<lambda>_. ''''))\<^sup>*\<^sup>* (new_httpd 16 4 idle_server) (interrupt_http_server (new_httpd 16 4 idle_server))"
    by (rule r_into_rtranclp) (rule http_step.Interrupt)
  from server_refines_service [OF this] show ?thesis by simp
qed

text \<open>
  requests are worked on in the order of their arrival: in every state the server can reach, the
  requests that wait are in that order, and every request that a worker has taken came before all
  of them.
\<close>

theorem first_come_first_served:
  assumes "(http_step E page)\<^sup>*\<^sup>* (new_httpd rpcworkqueue rpcthreads s) d"
  shows "sorted_wrt (<) (map wi_id (queued_items d))
    \<and> list_all (\<lambda>i. list_all (\<lambda>j. i < j) (map wi_id (queued_items d))) (map wi_id (d_busy d))"
proof -
  have "in_turn (abs_httpd d)"
    using srv.transfer_invariant [where I = in_turn, OF _ assms server_good_new] in_turn_step
    by (simp add: abs_new in_turn_fresh)
  then show ?thesis by (auto simp: in_turn_def abs_httpd_def list_all_iff)
qed

lemma first_come_first_served_witness:
  "sorted_wrt (<) (map wi_id (queued_items at_work))
   \<and> list_all (\<lambda>i. list_all (\<lambda>j. i < j) (map wi_id (queued_items at_work))) (map wi_id (d_busy at_work))"
  by (rule first_come_first_served [OF at_work_reachable [of quiet "\<lambda>_. ''''"]])

end
