(* ===== verification/Scheduler.thy ===== *)
theory Scheduler
  imports Prelude "HOL-Library.Multiset"
begin

section \<open>The scheduler\<close>

text \<open>
  \<open>server/src/scheduler.cpp\<close>, class \<open>CScheduler\<close>: a queue of functions ordered by the time they
  are to run at, serviced by any number of threads. Times are milliseconds; the functions that are
  scheduled are names, what they do to the world is the argument \<open>run\<close> of the step relation.
  The model follows the branch for a current Boost (\<open>wait_until\<close>). A step of a thread reaches from
  one point at which it gives up the lock \<open>newTaskMutex\<close> to the next.
\<close>

subsection \<open>The queue of tasks\<close>

text \<open>
  A scheduled function is called once, or is \<open>Repeat\<close> bound to a function and a delay, which
  schedules itself again after each call.
\<close>

datatype 'f task = Plain 'f | Repeat 'f int

type_synonym 'f timed = "int \<times> 'f task"

text \<open>\<open>std::multimap\<close>: entries in the order of the keys; a new entry goes behind those of its key.\<close>

definition mm_insert :: "int \<Rightarrow> 'a \<Rightarrow> (int \<times> 'a) list \<Rightarrow> (int \<times> 'a) list" where
  "mm_insert t f q = takeWhile (\<lambda>e. fst e \<le> t) q @ (t, f) # dropWhile (\<lambda>e. fst e \<le> t) q"

record 'f scheduler =
  task_queue :: "'f timed list"
  n_threads_servicing :: int
  stop_requested :: bool
  stop_when_empty :: bool

definition new_scheduler :: "'f scheduler" where
  "new_scheduler = \<lparr>task_queue = [], n_threads_servicing = 0, stop_requested = False, stop_when_empty = False\<rparr>"

definition should_stop :: "'f scheduler \<Rightarrow> bool" where
  "should_stop s \<longleftrightarrow> stop_requested s \<or> (stop_when_empty s \<and> task_queue s = [])"

definition sched_stop :: "bool \<Rightarrow> 'f scheduler \<Rightarrow> 'f scheduler" where
  "sched_stop drain s = (if drain then s\<lparr>stop_when_empty := True\<rparr> else s\<lparr>stop_requested := True\<rparr>)"

definition schedule :: "'f task \<Rightarrow> int \<Rightarrow> 'f scheduler \<Rightarrow> 'f scheduler" where
  "schedule f t s = s\<lparr>task_queue := mm_insert t f (task_queue s)\<rparr>"

definition schedule_from_now :: "int \<Rightarrow> 'f task \<Rightarrow> int \<Rightarrow> 'f scheduler \<Rightarrow> 'f scheduler" where
  "schedule_from_now now f delta = schedule f (now + delta)"

definition schedule_every :: "int \<Rightarrow> 'f \<Rightarrow> int \<Rightarrow> 'f scheduler \<Rightarrow> 'f scheduler" where
  "schedule_every now f delta = schedule_from_now now (Repeat f delta) delta"

text \<open>The number of tasks, and the times of the first and the last, which are not set without tasks.\<close>

definition get_queue_info :: "'f scheduler \<Rightarrow> nat \<times> (int \<times> int) option" where
  "get_queue_info s =
     (length (task_queue s),
      if task_queue s \<noteq> [] then Some (fst (hd (task_queue s)), fst (last (task_queue s))) else None)"

definition are_threads_servicing_queue :: "'f scheduler \<Rightarrow> bool" where
  "are_threads_servicing_queue s \<longleftrightarrow> n_threads_servicing s \<noteq> 0"

text \<open>The destructor asserts that no thread services the queue.\<close>

definition destroy_scheduler :: "'f scheduler \<Rightarrow> (unit, unit) outcome" where
  "destroy_scheduler s = (if n_threads_servicing s = 0 then Val () else Fault AssertFailed)"

subsection \<open>The loop of \<open>serviceQueue\<close>\<close>

text \<open>
  Where a thread is when it does not hold the lock: before the call, in \<open>RandAddSeedSleep\<close>, waiting
  for a task, waiting until a time, in a task, back from \<open>serviceQueue\<close>, or thrown out of it.
\<close>

datatype 'f phase = Entering | Seeding | WaitTask | WaitUntil int | Busy "'f task" | Returned | Threw

definition leave :: "'f scheduler \<Rightarrow> 'f scheduler" where
  "leave s = s\<lparr>n_threads_servicing := n_threads_servicing s - 1\<rparr>"

text \<open>From the head of the outer loop, with the lock.\<close>

definition loop_top :: "'f scheduler \<Rightarrow> 'f scheduler \<times> 'f phase" where
  "loop_top s =
     (if should_stop s then (leave s, Returned)
      else if task_queue s = [] then (s, Seeding)
      else (s, WaitUntil (fst (hd (task_queue s)))))"

text \<open>From the loop that waits for a task.\<close>

definition await_task :: "'f scheduler \<Rightarrow> 'f scheduler \<times> 'f phase" where
  "await_task s =
     (if \<not> should_stop s \<and> task_queue s = [] then (s, WaitTask)
      else if should_stop s then loop_top s
      else (s, WaitUntil (fst (hd (task_queue s)))))"

text \<open>Woken before the time the thread waits for: the loop looks at the first task anew.\<close>

definition notified :: "'f scheduler \<Rightarrow> 'f scheduler \<times> 'f phase" where
  "notified s =
     (if \<not> should_stop s \<and> task_queue s \<noteq> [] then (s, WaitUntil (fst (hd (task_queue s)))) else loop_top s)"

text \<open>The wait timed out: the first task of the queue is taken, whatever its time is.\<close>

definition timed_out :: "'f scheduler \<Rightarrow> 'f scheduler \<times> 'f phase" where
  "timed_out s =
     (if should_stop s then loop_top s
      else case task_queue s of
             [] \<Rightarrow> loop_top s
           | (t, f) # rest \<Rightarrow> (s\<lparr>task_queue := rest\<rparr>, Busy f))"

text \<open>The function returned: \<open>Repeat\<close> puts itself back, and the thread goes on with the loop.\<close>

definition after_call :: "int \<Rightarrow> 'f task \<Rightarrow> 'f scheduler \<Rightarrow> 'f scheduler" where
  "after_call now f s =
     (case f of Plain g \<Rightarrow> s | Repeat g delta \<Rightarrow> schedule_from_now now (Repeat g delta) delta s)"

fun task_fun :: "'f task \<Rightarrow> 'f" where
  "task_fun (Plain f) = f"
| "task_fun (Repeat f delta) = f"

subsection \<open>Threads\<close>

text \<open>
  The scheduler with its threads, the clock, the world the functions work on, and two records kept
  for the properties: the tasks scheduled, and the tasks started with their times and the clock.
\<close>

record ('f, 'w) sched_state =
  sched :: "'f scheduler"
  threads :: "'f phase list"
  clock :: int
  world :: 'w
  scheduled :: "'f timed list"
  started :: "(int \<times> 'f timed) list"

definition put_thread :: "nat \<Rightarrow> 'f scheduler \<times> 'f phase \<Rightarrow> ('f, 'w) sched_state \<Rightarrow> ('f, 'w) sched_state" where
  "put_thread i r d = d\<lparr>sched := fst r, threads := (threads d)[i := snd r]\<rparr>"

text \<open>The first task of the queue is recorded as started when the thread takes it.\<close>

definition note_start :: "'f scheduler \<times> 'f phase \<Rightarrow> ('f, 'w) sched_state \<Rightarrow> ('f, 'w) sched_state" where
  "note_start r d =
     (case snd r of Busy f \<Rightarrow> d\<lparr>started := started d @ [(clock d, hd (task_queue (sched d)))]\<rparr> | _ \<Rightarrow> d)"

lemma note_start_keeps [simp]:
  "world (note_start r d) = world d" "threads (note_start r d) = threads d"
  "sched (note_start r d) = sched d" "scheduled (note_start r d) = scheduled d"
  by (simp_all add: note_start_def split: phase.split)

definition call_returned :: "nat \<Rightarrow> 'f task \<Rightarrow> 'w \<Rightarrow> ('f, 'w) sched_state \<Rightarrow> ('f, 'w) sched_state" where
  "call_returned i f w d =
     put_thread i (loop_top (after_call (clock d) f (sched d)))
       (d\<lparr>world := w,
          scheduled := scheduled d @ (case f of Plain g \<Rightarrow> [] | Repeat g delta \<Rightarrow> [(clock d + delta, f)])\<rparr>)"

text \<open>The steps of the threads themselves.\<close>

inductive thread_step ::
  "('f \<Rightarrow> ('w, 'e, unit) prog) \<Rightarrow> ('f, 'w) sched_state \<Rightarrow> ('f, 'w) sched_state \<Rightarrow> bool" for run where
  Enter: "i < length (threads d) \<Longrightarrow> threads d ! i = Entering \<Longrightarrow>
    thread_step run d
      (put_thread i (loop_top ((sched d)\<lparr>n_threads_servicing := n_threads_servicing (sched d) + 1\<rparr>)) d)"
| Seeded: "i < length (threads d) \<Longrightarrow> threads d ! i = Seeding \<Longrightarrow>
    thread_step run d (put_thread i (await_task (sched d)) d)"
| Woken: "i < length (threads d) \<Longrightarrow> threads d ! i = WaitTask \<Longrightarrow>
    thread_step run d (put_thread i (await_task (sched d)) d)"
| Notified: "i < length (threads d) \<Longrightarrow> threads d ! i = WaitUntil t \<Longrightarrow>
    thread_step run d (put_thread i (notified (sched d)) d)"
| Timeout: "i < length (threads d) \<Longrightarrow> threads d ! i = WaitUntil t \<Longrightarrow> t \<le> clock d \<Longrightarrow>
    thread_step run d (put_thread i (timed_out (sched d)) (note_start (timed_out (sched d)) d))"
| Returns: "i < length (threads d) \<Longrightarrow> threads d ! i = Busy f \<Longrightarrow> run (task_fun f) (world d) = (w, Val ()) \<Longrightarrow>
    thread_step run d (call_returned i f w d)"
| Throws: "i < length (threads d) \<Longrightarrow> threads d ! i = Busy f \<Longrightarrow> run (task_fun f) (world d) = (w, Exc e) \<Longrightarrow>
    thread_step run d (put_thread i (leave (sched d), Threw) (d\<lparr>world := w\<rparr>))"

text \<open>
  With what happens around them: calls from other threads, the clock (which may be set back), and
  the interruption of a thread where it waits.
\<close>

inductive sched_step ::
  "('f \<Rightarrow> ('w, 'e, unit) prog) \<Rightarrow> ('f, 'w) sched_state \<Rightarrow> ('f, 'w) sched_state \<Rightarrow> bool" for run where
  Thread: "thread_step run d d' \<Longrightarrow> sched_step run d d'"
| Schedule: "sched_step run d (d\<lparr>sched := schedule f t (sched d), scheduled := scheduled d @ [(t, f)]\<rparr>)"
| StopIt: "sched_step run d (d\<lparr>sched := sched_stop drain (sched d)\<rparr>)"
| Tick: "sched_step run d (d\<lparr>clock := t\<rparr>)"
| Interrupted: "i < length (threads d) \<Longrightarrow> threads d ! i \<in> {Seeding, WaitTask} \<union> range WaitUntil \<Longrightarrow>
    sched_step run d (put_thread i (leave (sched d), Threw) d)"

inductive_cases thread_stepE: "thread_step run d d'"
inductive_cases sched_stepE: "sched_step run d d'"

definition fresh_sched :: "nat \<Rightarrow> 'w \<Rightarrow> ('f, 'w) sched_state" where
  "fresh_sched n w = \<lparr>sched = new_scheduler, threads = replicate n Entering, clock = 0, world = w,
                      scheduled = [], started = []\<rparr>"

subsection \<open>The queue as a stable priority queue\<close>

text \<open>
  What the users of the queue rely on: entries are taken in the order of their times, and entries
  of the same time in the order they were put in.
\<close>

locale stable_timed_queue =
  fixes entries :: "'q \<Rightarrow> (int \<times> 'a) list"
    and none :: 'q
    and put :: "int \<Rightarrow> 'a \<Rightarrow> 'q \<Rightarrow> 'q"
  assumes none: "entries none = []"
    and put_sorted: "sorted (map fst (entries q)) \<Longrightarrow> sorted (map fst (entries (put t a q)))"
    and put_mset: "mset (entries (put t a q)) = add_mset (t, a) (mset (entries q))"
    and put_stable: "sorted (map fst (entries q)) \<Longrightarrow>
      [e \<leftarrow> entries (put t a q). fst e = k] = [e \<leftarrow> entries q. fst e = k] @ (if t = k then [(t, a)] else [])"
begin

definition put_all :: "(int \<times> 'a) list \<Rightarrow> 'q" where
  "put_all es = foldl (\<lambda>q e. put (fst e) (snd e) q) none es"

lemma put_all_snoc: "put_all (es @ [e]) = put (fst e) (snd e) (put_all es)"
  by (simp add: put_all_def)

lemma put_all_sorted: "sorted (map fst (entries (put_all es)))"
  by (induction es rule: rev_induct) (simp_all add: put_all_snoc put_sorted, simp add: put_all_def none)

lemma put_all_mset: "mset (entries (put_all es)) = mset es"
  by (induction es rule: rev_induct) (simp_all add: put_all_snoc put_mset, simp add: put_all_def none)

lemma put_all_stable: "[e \<leftarrow> entries (put_all es). fst e = k] = [e \<leftarrow> es. fst e = k]"
proof (induction es rule: rev_induct)
  case Nil
  show ?case by (simp add: put_all_def none)
next
  case (snoc e es)
  then show ?case by (cases e) (simp add: put_all_snoc put_stable [OF put_all_sorted])
qed

theorem put_all_is_stable_sort: "entries (put_all es) = sort_key fst es"
proof (rule sym, rule properties_for_sort_key)
  show "filter (\<lambda>x. fst k = fst x) (entries (put_all es)) = filter (\<lambda>x. fst k = fst x) es" for k
    using put_all_stable [where es = es and k = "fst k"] by (simp add: eq_commute [of "fst k"])
qed (simp_all add: put_all_mset put_all_sorted)

end

lemma mm_insert_split:
  obtains a b where "q = a @ b" "mm_insert t f q = a @ (t, f) # b" "\<forall>e\<in>set a. fst e \<le> t"
    "b = [] \<or> t < fst (hd b)"
proof
  show "q = takeWhile (\<lambda>e. fst e \<le> t) q @ dropWhile (\<lambda>e. fst e \<le> t) q" by simp
  show "mm_insert t f q = takeWhile (\<lambda>e. fst e \<le> t) q @ (t, f) # dropWhile (\<lambda>e. fst e \<le> t) q"
    by (rule mm_insert_def)
  show "\<forall>e\<in>set (takeWhile (\<lambda>e. fst e \<le> t) q). fst e \<le> t" by (auto dest: set_takeWhileD)
  show "dropWhile (\<lambda>e. fst e \<le> t) q = [] \<or> t < fst (hd (dropWhile (\<lambda>e. fst e \<le> t) q))"
    using hd_dropWhile [of "\<lambda>e. fst e \<le> t" q] by fastforce
qed

lemma sorted_above:
  "sorted (map fst b) \<Longrightarrow> b = [] \<or> t < fst (hd b) \<Longrightarrow> e \<in> set b \<Longrightarrow> (t::int) < fst e"
  by (cases b) auto

lemma mset_mm_insert [simp]: "mset (mm_insert t f q) = add_mset (t, f) (mset q)"
  by (rule mm_insert_split [of q t f]) simp

lemma set_mm_insert [simp]: "set (mm_insert t f q) = insert (t, f) (set q)"
  by (rule mm_insert_split [of q t f]) auto

lemma mm_insert_not_Nil [simp]: "mm_insert t f q \<noteq> []"
  by (simp add: mm_insert_def)

lemma mm_insert_sorted: "sorted (map fst q) \<Longrightarrow> sorted (map fst (mm_insert t f q))"
proof (rule mm_insert_split [of q t f])
  fix a b
  assume q: "q = a @ b" "mm_insert t f q = a @ (t, f) # b" "\<forall>e\<in>set a. fst e \<le> t" "b = [] \<or> t < fst (hd b)"
    and s: "sorted (map fst q)"
  then have "\<forall>e\<in>set b. t < fst e" using sorted_above by (fastforce simp: sorted_append)
  with q s show ?thesis by (force simp: sorted_append)
qed

lemma mm_insert_stable:
  assumes "sorted (map fst q)"
  shows "[e \<leftarrow> mm_insert t f q. fst e = k] = [e \<leftarrow> q. fst e = k] @ (if t = k then [(t, f)] else [])"
proof (rule mm_insert_split [of q t f])
  fix a b
  assume q: "q = a @ b" "mm_insert t f q = a @ (t, f) # b" "b = [] \<or> t < fst (hd b)"
  then have "\<forall>e\<in>set b. t < fst e" using assms sorted_above by (fastforce simp: sorted_append)
  then have "[e \<leftarrow> b. fst e = t] = []" by (auto simp: filter_empty_conv)
  with q show ?thesis by auto
qed

interpretation tq: stable_timed_queue task_queue new_scheduler "\<lambda>t f. schedule f t"
  by unfold_locales (simp_all add: new_scheduler_def schedule_def mm_insert_sorted mm_insert_stable)

subsection \<open>The invariant of the scheduler\<close>

text \<open>A thread between its entry into \<open>serviceQueue\<close> and its leaving it.\<close>

fun servicing :: "'f phase \<Rightarrow> bool" where
  "servicing Entering = False"
| "servicing Returned = False"
| "servicing Threw = False"
| "servicing p = True"

definition sched_ok :: "('f, 'w) sched_state \<Rightarrow> bool" where
  "sched_ok d \<longleftrightarrow>
     n_threads_servicing (sched d) = int (length (filter servicing (threads d)))
     \<and> sorted (map fst (task_queue (sched d)))
     \<and> mset (scheduled d) = mset (map snd (started d)) + mset (task_queue (sched d))"

text \<open>A step of thread \<open>i\<close> leaves the lock with the count of threads right.\<close>

lemma count_servicing_put:
  assumes "i < length ps"
  shows "int (length (filter servicing (ps[i := p]))) =
         int (length (filter servicing ps)) + (if servicing p then 1 else 0) - (if servicing (ps ! i) then 1 else 0)"
proof -
  have e: "ps = take i ps @ ps ! i # drop (Suc i) ps" using assms by (rule id_take_nth_drop)
  have u: "ps[i := p] = take i ps @ p # drop (Suc i) ps" using assms by (rule upd_conv_take_nth_drop)
  show ?thesis unfolding u by (subst (3) e) simp
qed

definition lock_released :: "'f scheduler \<Rightarrow> 'f scheduler \<times> 'f phase \<Rightarrow> bool" where
  "lock_released s r \<longleftrightarrow> task_queue (fst r) = task_queue s \<and> (\<forall>f. snd r \<noteq> Busy f)
     \<and> stop_requested (fst r) = stop_requested s \<and> stop_when_empty (fst r) = stop_when_empty s
     \<and> n_threads_servicing (fst r) = n_threads_servicing s - (if servicing (snd r) then 0 else 1)"

lemma loop_top_releases: "lock_released s (loop_top s)"
  by (simp add: lock_released_def loop_top_def leave_def)

lemma await_task_releases: "lock_released s (await_task s)"
  by (simp add: await_task_def loop_top_releases) (simp add: lock_released_def)

lemma notified_releases: "lock_released s (notified s)"
  by (simp add: notified_def loop_top_releases) (simp add: lock_released_def)

lemma timed_out_cases:
  obtains "timed_out s = loop_top s" "should_stop s \<or> task_queue s = []"
  | t f rest where "timed_out s = (s\<lparr>task_queue := rest\<rparr>, Busy f)" "task_queue s = (t, f) # rest" "\<not> should_stop s"
  by (cases "should_stop s"; cases "task_queue s") (auto simp: timed_out_def)

lemma sched_ok_put:
  assumes "sched_ok d" "i < length (threads d)" "lock_released s r"
    and "task_queue s = task_queue (sched d)"
    and "n_threads_servicing s = n_threads_servicing (sched d) + (if servicing (threads d ! i) then 0 else 1)"
  shows "sched_ok (put_thread i r d)"
  using assms by (simp add: sched_ok_def put_thread_def lock_released_def count_servicing_put)

lemma sched_ok_put_same:
  assumes "sched_ok d" "i < length (threads d)" "lock_released (sched d) r" "servicing (threads d ! i)"
  shows "sched_ok (put_thread i r d)"
  by (rule sched_ok_put [OF assms(1-3)]) (simp_all add: assms(4))

lemma sched_ok_leave:
  assumes "sched_ok d" "i < length (threads d)" "servicing (threads d ! i)"
  shows "sched_ok (put_thread i (leave (sched d), Threw) d)"
  by (rule sched_ok_put_same [OF assms(1,2) _ assms(3)]) (simp add: lock_released_def leave_def)

lemma sched_ok_world: "sched_ok (d\<lparr>world := w\<rparr>) = sched_ok d"
  by (simp add: sched_ok_def)

lemma sched_ok_returned:
  assumes "sched_ok d" "i < length (threads d)" "threads d ! i = Busy f"
  shows "sched_ok (call_returned i f w d)"
proof -
  let ?s = "after_call (clock d) f (sched d)"
  have s: "n_threads_servicing ?s = n_threads_servicing (sched d)"
    by (simp add: after_call_def schedule_from_now_def schedule_def split: task.split)
  let ?d = "d\<lparr>sched := ?s, world := w,
      scheduled := scheduled d @ (case f of Plain g \<Rightarrow> [] | Repeat g delta \<Rightarrow> [(clock d + delta, f)])\<rparr>"
  have ok: "sched_ok ?d"
    using assms(1) by (cases f)
      (simp_all add: sched_ok_def after_call_def schedule_from_now_def schedule_def mm_insert_sorted)
  have "sched_ok (put_thread i (loop_top ?s) ?d)"
    by (rule sched_ok_put_same [OF ok]) (simp_all add: assms loop_top_releases)
  then show ?thesis by (simp add: call_returned_def put_thread_def)
qed

lemma sched_ok_thread: "thread_step run d d' \<Longrightarrow> sched_ok d \<Longrightarrow> sched_ok d'"
proof (induction rule: thread_step.induct)
  case (Enter i d)
  show ?case
    by (rule sched_ok_put [OF Enter.prems Enter.hyps(1) loop_top_releases]) (simp_all add: Enter)
next
  case (Seeded i d)
  then show ?case by (simp add: sched_ok_put_same await_task_releases)
next
  case (Woken i d)
  then show ?case by (simp add: sched_ok_put_same await_task_releases)
next
  case (Notified i d t)
  then show ?case by (simp add: sched_ok_put_same notified_releases)
next
  case (Timeout i d t)
  show ?case
  proof (rule timed_out_cases [of "sched d"])
    assume "timed_out (sched d) = loop_top (sched d)"
    moreover have "note_start (loop_top (sched d)) d = d"
      by (simp add: note_start_def loop_top_def)
    ultimately show ?thesis using Timeout by (simp add: sched_ok_put_same loop_top_releases)
  next
    fix t' f rest
    assume "timed_out (sched d) = ((sched d)\<lparr>task_queue := rest\<rparr>, Busy f)" "task_queue (sched d) = (t', f) # rest"
    with Timeout show ?thesis
      by (simp add: sched_ok_def put_thread_def note_start_def count_servicing_put)
  qed
next
  case (Returns i d f w)
  then show ?case by (simp add: sched_ok_returned)
next
  case (Throws i d f w e)
  then show ?case using sched_ok_leave [of "d\<lparr>world := w\<rparr>" i] by (simp add: sched_ok_world)
qed

lemma sched_ok_step: "sched_step run d d' \<Longrightarrow> sched_ok d \<Longrightarrow> sched_ok d'"
proof (induction rule: sched_step.induct)
  case (Thread d d')
  then show ?case by (blast intro: sched_ok_thread)
next
  case (Schedule d f t)
  then show ?case by (simp add: sched_ok_def schedule_def mm_insert_sorted)
next
  case (StopIt d drain)
  then show ?case by (simp add: sched_ok_def sched_stop_def)
next
  case (Tick d t)
  then show ?case by (simp add: sched_ok_def)
next
  case (Interrupted i d)
  then show ?case by (auto simp: sched_ok_leave)
qed

lemma sched_ok_reachable:
  "(sched_step run)\<^sup>*\<^sup>* (fresh_sched n w) d \<Longrightarrow> sched_ok d"
proof (induction rule: rtranclp_induct)
  case base
  show ?case by (simp add: sched_ok_def fresh_sched_def new_scheduler_def)
next
  case (step d d')
  then show ?case by (blast intro: sched_ok_step)
qed

subsection \<open>Tasks that repeat\<close>

text \<open>How often a task is waiting in the queue or running in a thread.\<close>

definition pending :: "('f, 'w) sched_state \<Rightarrow> 'f task \<Rightarrow> nat" where
  "pending d f = length (filter (\<lambda>e. snd e = f) (task_queue (sched d)))
               + length (filter (\<lambda>p. p = Busy f) (threads d))"

definition none_threw :: "('f, 'w) sched_state \<Rightarrow> bool" where
  "none_threw d \<longleftrightarrow> Threw \<notin> set (threads d)"

text \<open>The number of elements with a property, as a sum: it goes well with updates.\<close>

lemma count_put:
  assumes "i < length ps"
  shows "int (length (filter P (ps[i := p]))) =
         int (length (filter P ps)) + (if P p then 1 else 0) - (if P (ps ! i) then 1 else 0)"
proof -
  have e: "ps = take i ps @ ps ! i # drop (Suc i) ps" using assms by (rule id_take_nth_drop)
  have u: "ps[i := p] = take i ps @ p # drop (Suc i) ps" using assms by (rule upd_conv_take_nth_drop)
  show ?thesis unfolding u by (subst (3) e) simp
qed

lemma filter_mm_insert:
  "length (filter P (mm_insert t f q)) = length (filter P q) + (if P (t, f) then 1 else 0)"
proof -
  have "length (filter P q) = length (filter P (takeWhile (\<lambda>e. fst e \<le> t) q @ dropWhile (\<lambda>e. fst e \<le> t) q))"
    by simp
  then show ?thesis unfolding mm_insert_def filter_append length_append by simp
qed

lemma pending_put_released:
  assumes "i < length (threads d)" "lock_released s r" "\<And>g. threads d ! i \<noteq> Busy g"
    "task_queue s = task_queue (sched d)"
  shows "pending (put_thread i r d) f = pending d f"
proof -
  have "int (length (filter (\<lambda>p. p = Busy f) ((threads d)[i := snd r]))) = int (length (filter (\<lambda>p. p = Busy f) (threads d)))"
    using assms by (simp add: count_put lock_released_def)
  then show ?thesis using assms by (simp add: pending_def put_thread_def lock_released_def)
qed

lemma pending_taken:
  assumes "i < length (threads d)" "\<And>g. threads d ! i \<noteq> Busy g" "task_queue (sched d) = (t, g) # rest"
  shows "pending (put_thread i ((sched d)\<lparr>task_queue := rest\<rparr>, Busy g) d) f = pending d f"
proof -
  have "int (length (filter (\<lambda>p. p = Busy f) ((threads d)[i := Busy g])))
      = int (length (filter (\<lambda>p. p = Busy f) (threads d))) + (if f = g then 1 else 0)"
    using assms by (auto simp: count_put)
  then show ?thesis using assms(3) by (auto simp: pending_def put_thread_def)
qed

lemma pending_returned:
  assumes "i < length (threads d)" "threads d ! i = Busy f"
  shows "pending (call_returned i f w d) (Repeat g delta) = pending d (Repeat g delta)"
proof -
  let ?s = "after_call (clock d) f (sched d)"
  have q: "length (filter (\<lambda>e. snd e = Repeat g delta) (task_queue (fst (loop_top ?s))))
         = length (filter (\<lambda>e. snd e = Repeat g delta) (task_queue (sched d))) + (if f = Repeat g delta then 1 else 0)"
    using loop_top_releases [of ?s] by (cases f)
      (simp_all add: lock_released_def after_call_def schedule_from_now_def schedule_def filter_mm_insert)
  have "int (length (filter (\<lambda>p. p = Busy (Repeat g delta)) ((threads d)[i := snd (loop_top ?s)])))
      = int (length (filter (\<lambda>p. p = Busy (Repeat g delta)) (threads d))) - (if f = Repeat g delta then 1 else 0)"
    using assms loop_top_releases [of ?s] by (auto simp: count_put lock_released_def)
  with q show ?thesis by (auto simp: pending_def call_returned_def put_thread_def)
qed

lemma put_threw: "i < length (threads d) \<Longrightarrow> \<not> none_threw (put_thread i (s, Threw) d)"
  by (simp add: none_threw_def put_thread_def set_update_memI)

text \<open>Unless a thread is thrown out, no step loses a task that repeats.\<close>

lemma pending_thread:
  "thread_step run d d' \<Longrightarrow> none_threw d' \<Longrightarrow> pending d' (Repeat f delta) = pending d (Repeat f delta)"
proof (induction rule: thread_step.induct)
  case (Enter i d)
  then show ?case by (simp add: pending_put_released [OF _ loop_top_releases])
next
  case (Seeded i d)
  then show ?case by (simp add: pending_put_released [OF _ await_task_releases])
next
  case (Woken i d)
  then show ?case by (simp add: pending_put_released [OF _ await_task_releases])
next
  case (Notified i d t)
  then show ?case by (simp add: pending_put_released [OF _ notified_releases])
next
  case (Timeout i d t)
  have n: "pending (put_thread i r (note_start r' d)) = pending (put_thread i r d)" for r r'
    by (auto simp: pending_def put_thread_def note_start_def fun_eq_iff split: phase.split)
  show ?case
  proof (rule timed_out_cases [of "sched d"])
    assume "timed_out (sched d) = loop_top (sched d)"
    with Timeout show ?thesis by (simp add: n pending_put_released [OF _ loop_top_releases])
  next
    fix t' g rest
    assume "timed_out (sched d) = ((sched d)\<lparr>task_queue := rest\<rparr>, Busy g)" "task_queue (sched d) = (t', g) # rest"
    with Timeout show ?thesis by (simp add: n pending_taken)
  qed
next
  case (Returns i d g w)
  then show ?case by (simp add: pending_returned)
next
  case (Throws i d g w e)
  then show ?case using put_threw [of i "d\<lparr>world := w\<rparr>"] by simp
qed

lemma pending_step:
  "sched_step run d d' \<Longrightarrow> none_threw d' \<Longrightarrow> pending d (Repeat f delta) \<le> pending d' (Repeat f delta)"
proof (induction rule: sched_step.induct)
  case (Thread d d')
  then show ?case by (simp add: pending_thread)
next
  case (Schedule d g t)
  then show ?case by (simp add: pending_def schedule_def filter_mm_insert)
next
  case (StopIt d drain)
  then show ?case by (simp add: pending_def sched_stop_def)
next
  case (Tick d t)
  then show ?case by (simp add: pending_def)
next
  case (Interrupted i d)
  then show ?case by (simp add: put_threw)
qed

text \<open>A thread that was thrown out stays so.\<close>

lemma threw_kept:
  "thread_step run d d' \<Longrightarrow> threads d ! j = Threw \<Longrightarrow>
   length (threads d') = length (threads d) \<and> threads d' ! j = Threw"
  by (induction rule: thread_step.induct)
     (auto simp: put_thread_def call_returned_def note_start_def nth_list_update split: phase.split)

lemma threw_stays: "sched_step run d d' \<Longrightarrow> none_threw d' \<Longrightarrow> none_threw d"
proof (rule ccontr)
  assume s: "sched_step run d d'" and n': "none_threw d'" and "\<not> none_threw d"
  then obtain j where j: "j < length (threads d)" "threads d ! j = Threw"
    by (auto simp: none_threw_def in_set_conv_nth)
  from s have "length (threads d') = length (threads d) \<and> threads d' ! j = Threw"
    using j by (cases rule: sched_step.cases)
      (auto simp: put_thread_def nth_list_update threw_kept)
  with j n' show False by (metis none_threw_def nth_mem)
qed

subsection \<open>Leaving the loop\<close>

lemma loop_top_returned: "snd (loop_top s) = Returned \<Longrightarrow> should_stop (fst (loop_top s))"
  by (auto simp: loop_top_def leave_def should_stop_def split: if_splits)

lemma releases_returned:
  "snd (await_task s) = Returned \<Longrightarrow> should_stop (fst (await_task s))"
  "snd (notified s) = Returned \<Longrightarrow> should_stop (fst (notified s))"
  "snd (timed_out s) = Returned \<Longrightarrow> should_stop (fst (timed_out s))"
  by (auto simp: await_task_def notified_def timed_out_def loop_top_returned split: if_splits list.splits)

text \<open>A thread comes back only when the scheduler is to stop.\<close>

lemma returned_should_stop:
  "thread_step run d d' \<Longrightarrow> threads d' ! j = Returned \<Longrightarrow> threads d ! j \<noteq> Returned \<Longrightarrow> should_stop (sched d')"
  by (induction rule: thread_step.induct)
     (auto simp: put_thread_def call_returned_def note_start_def nth_list_update loop_top_returned
        releases_returned split: if_splits phase.splits)

lemma thread_step_keeps:
  "thread_step run d d' \<Longrightarrow> stop_requested (sched d') = stop_requested (sched d)
     \<and> stop_when_empty (sched d') = stop_when_empty (sched d) \<and> length (threads d') = length (threads d)"
proof (induction rule: thread_step.induct)
  case (Timeout i d t)
  then show ?case
    by (cases rule: timed_out_cases [of "sched d"])
       (auto simp: put_thread_def note_start_def loop_top_def leave_def split: phase.split)
next
  case (Returns i d f w)
  then show ?case
    by (auto simp: call_returned_def put_thread_def after_call_def loop_top_def leave_def
        schedule_from_now_def schedule_def split: task.split)
qed (auto simp: put_thread_def loop_top_def await_task_def notified_def leave_def)

subsection \<open>One thread\<close>

text \<open>
  A thread that is alone waits for a time at which its first task is due: only it takes tasks away,
  and tasks that are added do not delay the first one.
\<close>

definition alone_ok :: "('f, 'w) sched_state \<Rightarrow> bool" where
  "alone_ok d \<longleftrightarrow> length (threads d) = 1
     \<and> (\<forall>t. threads d ! 0 = WaitUntil t \<longrightarrow> task_queue (sched d) \<noteq> [] \<and> fst (hd (task_queue (sched d))) \<le> t)
     \<and> list_all (\<lambda>(n, e). fst e \<le> n) (started d)"

lemma hd_mm_insert: "q \<noteq> [] \<Longrightarrow> fst (hd q) \<le> u \<Longrightarrow> fst (hd (mm_insert t f q)) \<le> u"
  by (cases q) (auto simp: mm_insert_def)

definition waits_for_first :: "'f scheduler \<times> 'f phase \<Rightarrow> bool" where
  "waits_for_first r \<longleftrightarrow>
     (\<forall>t. snd r = WaitUntil t \<longrightarrow> task_queue (fst r) \<noteq> [] \<and> fst (hd (task_queue (fst r))) \<le> t)"

lemma waits_for_first_intros [simp]:
  "waits_for_first (loop_top s)" "waits_for_first (await_task s)" "waits_for_first (notified s)"
  "waits_for_first (s, Busy f)" "waits_for_first (s, Threw)"
  by (auto simp: waits_for_first_def loop_top_def await_task_def notified_def should_stop_def)

lemma waits_for_first_timed_out [simp]: "waits_for_first (timed_out s)"
  by (cases rule: timed_out_cases [of s]) simp_all

lemma alone_put: "alone_ok d \<Longrightarrow> i < length (threads d) \<Longrightarrow> waits_for_first r \<Longrightarrow> alone_ok (put_thread i r d)"
  by (simp add: alone_ok_def put_thread_def waits_for_first_def)

lemma alone_other: "alone_ok (d\<lparr>world := w\<rparr>) = alone_ok d" "alone_ok (d\<lparr>scheduled := l\<rparr>) = alone_ok d"
  "alone_ok (d\<lparr>clock := t\<rparr>) = alone_ok d"
  by (simp_all add: alone_ok_def)

lemma alone_thread: "thread_step run d d' \<Longrightarrow> alone_ok d \<Longrightarrow> alone_ok d'"
proof (induction rule: thread_step.induct)
  case (Timeout i d t)
  have "alone_ok (note_start (timed_out (sched d)) d)"
    using Timeout
    by (cases rule: timed_out_cases [of "sched d"], auto simp: alone_ok_def note_start_def loop_top_def)
  then show ?case using Timeout by (simp add: alone_put)
qed (simp_all add: alone_put call_returned_def alone_other)

lemma alone_step: "sched_step run d d' \<Longrightarrow> alone_ok d \<Longrightarrow> alone_ok d'"
proof (induction rule: sched_step.induct)
  case (Thread d d')
  then show ?case by (simp add: alone_thread)
next
  case (Interrupted i d)
  then show ?case by (simp add: alone_put)
qed (simp_all add: alone_ok_def schedule_def sched_stop_def hd_mm_insert)

end
