(* ===== verification/ServerMain.thy ===== *)
theory ServerMain
  imports Httpd WalletInit WalletAddress Scheduler
begin

section \<open>The server program\<close>

text \<open>
  \<open>server/src/main.cpp\<close>: the start-up, the scheduler thread with its five jobs, and the process they
  make together with the threads of the HTTP server. The world of the scheduler is the HTTP server:
  both change the wallet inside of it, without a lock of their own.
\<close>

subsection \<open>The jobs\<close>

definition job_names :: "string list" where
  "job_names = [''BTC'', ''ETH'', ''XRP'', ''EOS'', ''USDT'']"

definition run_address_job :: "'x server_env_scheme \<Rightarrow> string \<Rightarrow> (httpd, exn, unit) prog" where
  "run_address_job E coin_name d =
     (case on_wallet (create_job E coin_name) (d_server d) of (s, r) \<Rightarrow> (d\<lparr>d_server := s\<rparr>, r))"

definition schedule_jobs :: "int \<Rightarrow> string scheduler \<Rightarrow> string scheduler" where
  "schedule_jobs now s = foldl (\<lambda>s coin_name. schedule_every now coin_name 10000 s) s job_names"

subsection \<open>The start-up\<close>

text \<open>The server before \<open>main\<close>: static objects with their initial values.\<close>

definition static_server :: "wallet \<Rightarrow> server" where
  "static_server w =
     \<lparr>relay_wallet = w, usercoin_account = [], rpc_running = False, rpc_in_warmup = True,
      rpc_warmup_status = ''RPC server started'', map_commands = new_table, shutdown_requested = False,
      timer_interface = False, deadline_timers = []\<rparr>"

text \<open>
  \<open>AppInitServers\<close>: \<open>http_ok\<close> says whether libevent could be set up and the ports bound,
  \<open>auth_ok\<close> whether the authentication cookie could be written.
\<close>

definition app_init_servers :: "bool \<Rightarrow> bool \<Rightarrow> nat \<Rightarrow> nat \<Rightarrow> server \<Rightarrow> httpd option" where
  "app_init_servers http_ok auth_ok rpcworkqueue rpcthreads s =
     (if \<not> http_ok then None
      else case start_rpc s of
             (s', Val True) \<Rightarrow> if auth_ok then Some (new_httpd rpcworkqueue rpcthreads s') else None
           | _ \<Rightarrow> None)"

type_synonym process = "(string, httpd) sched_state"

text \<open>
  How \<open>AppInitMain\<close> ends: it joins the scheduler thread of a running process; it throws, and \<open>main\<close>
  prints the exception and returns; or it returns from the function with the scheduler thread
  neither joined nor detached, upon which \<open>std::thread\<close> terminates the process.
\<close>

datatype boot = Serving process | Printed exn | Terminated | Aborted fault

definition app_init_main ::
  "'x server_env_scheme \<Rightarrow> bool \<Rightarrow> bool \<Rightarrow> nat \<Rightarrow> nat \<Rightarrow> int \<Rightarrow> wallet \<Rightarrow> boot" where
  "app_init_main E http_ok auth_ok rpcworkqueue rpcthreads now w =
     (case wallet_init E w of
        (w', Exc e) \<Rightarrow> Printed e
      | (w', Fault k) \<Rightarrow> Aborted k
      | (w', Val init_result) \<Rightarrow>
          (case app_init_servers http_ok auth_ok rpcworkqueue rpcthreads
                  (fst (register_relay_commands (static_server w'))) of
             None \<Rightarrow> Terminated
           | Some d \<Rightarrow>
               (case set_rpc_warmup_finished (d_server d) of
                  (s, Val _) \<Rightarrow>
                    Serving \<lparr>sched = schedule_jobs now new_scheduler, threads = [Entering], clock = now,
                             world = d\<lparr>d_server := s\<rparr>, scheduled = task_queue (schedule_jobs now new_scheduler),
                             started = []\<rparr>
                | (s, Exc e) \<Rightarrow> Printed e
                | (s, Fault k) \<Rightarrow> Aborted k)))"

subsection \<open>The process\<close>

text \<open>
  The scheduler thread, the clock and the threads of the HTTP server, in any order, for as long as
  no exception leaves the scheduler thread: \<open>TraceThread\<close> passes it on, and an exception that leaves
  a \<open>std::thread\<close> terminates the process. \<open>Interrupt\<close> and \<open>Shutdown\<close> of \<open>main.cpp\<close> have no caller, so
  the server is never told to reject requests.
\<close>

inductive process_step :: "'x server_env_scheme \<Rightarrow> (int \<Rightarrow> string) \<Rightarrow> process \<Rightarrow> process \<Rightarrow> bool"
  for E error_page where
  SchedulerThread: "none_threw p \<Longrightarrow> thread_step (run_address_job E) p p' \<Longrightarrow> process_step E error_page p p'"
| Clock: "none_threw p \<Longrightarrow> process_step E error_page p (p\<lparr>clock := t\<rparr>)"
| Http: "none_threw p \<Longrightarrow> http_step E error_page (world p) d \<Longrightarrow> \<not> d_rejecting d \<Longrightarrow>
    process_step E error_page p (p\<lparr>world := d\<rparr>)"

inductive_cases process_stepE: "process_step E error_page p p'"

subsection \<open>What every run of the process keeps\<close>

text \<open>
  The scheduler thread is not back, every job is scheduled or running, just once, no job ran before
  its time, and the HTTP server takes requests.
\<close>

definition process_ok :: "process \<Rightarrow> bool" where
  "process_ok p \<longleftrightarrow>
     alone_ok p \<and> sched_ok p \<and> \<not> stop_requested (sched p) \<and> \<not> stop_when_empty (sched p)
     \<and> threads p \<noteq> [Returned]
     \<and> (none_threw p \<longrightarrow> list_all (\<lambda>c. pending p (Repeat c 10000) = 1) job_names)
     \<and> \<not> d_rejecting (world p) \<and> (case d_queue (world p) of Some q \<Rightarrow> wq_running q | None \<Rightarrow> False)"

lemma length_one: "length xs = 1 \<Longrightarrow> xs = [xs ! 0]"
  by (cases xs) auto

lemma process_ok_thread:
  assumes "process_ok p" "none_threw p" "thread_step (run_address_job E) p p'"
  shows "process_ok p'"
proof -
  have k: "stop_requested (sched p') = stop_requested (sched p)" "stop_when_empty (sched p') = stop_when_empty (sched p)"
    "length (threads p') = length (threads p)"
    using thread_step_keeps [OF assms(3)] by simp_all
  have one: "threads p = [threads p ! 0]" "threads p' = [threads p' ! 0]"
    using assms(1) k(3) by (auto simp: process_ok_def alone_ok_def intro: length_one)
  have "threads p' ! 0 \<noteq> Returned"
  proof
    assume r: "threads p' ! 0 = Returned"
    have "threads p ! 0 \<noteq> Returned" using one(1) assms(1) by (auto simp: process_ok_def)
    with r have "should_stop (sched p')" by (rule returned_should_stop [OF assms(3)])
    with k assms(1) show False by (simp add: process_ok_def should_stop_def)
  qed
  then have "threads p' \<noteq> [Returned]" using one(2) by auto
  moreover have "d_rejecting (world p') = d_rejecting (world p) \<and> d_queue (world p') = d_queue (world p)"
    using assms(3)
    by (cases rule: thread_stepE)
       (auto simp: put_thread_def call_returned_def run_address_job_def split: prod.splits)
  ultimately show ?thesis
    using assms(1,2) k alone_thread [OF assms(3)] sched_ok_thread [OF assms(3)] pending_thread [OF assms(3)]
    by (simp add: process_ok_def)
qed

lemma arrive_running: "wq_running q \<Longrightarrow> \<exists>q'. d_queue (arrive peer req q d) = Some q' \<and> wq_running q'"
  by (auto simp: arrive_def http_request_cb_def wq_enqueue_def split: option.split)

lemma http_step_running:
  assumes "http_step E page d d'" "\<not> d_rejecting d'" "d_queue d = Some q" "wq_running q"
  shows "\<exists>q'. d_queue d' = Some q' \<and> wq_running q'"
  using assms
  by (cases rule: http_stepE)
     (auto simp: arrive_running wq_take_def finish_def interrupt_http_server_def stop_http_server_def
        split: if_splits list.splits)

lemma process_ok_step: "process_step E page p p' \<Longrightarrow> process_ok p \<Longrightarrow> process_ok p'"
proof (induction rule: process_step.induct)
  case (SchedulerThread p p')
  then show ?case by (blast intro: process_ok_thread)
next
  case (Clock p t)
  then show ?case by (simp add: process_ok_def alone_other sched_ok_def none_threw_def pending_def)
next
  case (Http p d)
  then obtain q where "d_queue (world p) = Some q" "wq_running q"
    by (auto simp: process_ok_def split: option.splits)
  then obtain q' where "d_queue d = Some q'" "wq_running q'"
    using http_step_running Http.hyps by blast
  with Http show ?case by (simp add: process_ok_def alone_other sched_ok_def none_threw_def pending_def)
qed

lemma process_ok_boot:
  assumes "app_init_main E http_ok auth_ok rpcworkqueue rpcthreads now w = Serving p"
  shows "process_ok p"
proof -
  from assms obtain d s where d: "d = new_httpd rpcworkqueue rpcthreads s"
    and p: "sched p = schedule_jobs now new_scheduler" "threads p = [Entering]" "started p = []"
      "scheduled p = task_queue (schedule_jobs now new_scheduler)"
      "d_rejecting (world p) = d_rejecting d" "d_queue (world p) = d_queue d"
    by (auto simp: app_init_main_def app_init_servers_def split: prod.splits outcome.splits option.splits bool.splits if_splits)
  show ?thesis
    by (simp add: process_ok_def alone_ok_def sched_ok_def none_threw_def pending_def p d new_httpd_def
        start_http_rpc_def new_work_queue_def job_names_def schedule_jobs_def schedule_every_def
        schedule_from_now_def schedule_def new_scheduler_def mm_insert_def)
qed

lemma process_ok_reachable:
  assumes "app_init_main E http_ok auth_ok rpcworkqueue rpcthreads now w = Serving p0"
    and "(process_step E page)\<^sup>*\<^sup>* p0 p"
  shows "process_ok p"
  using assms(2)
proof (induction rule: rtranclp_induct)
  case base
  show ?case by (rule process_ok_boot [OF assms(1)])
next
  case (step p p')
  then show ?case by (blast intro: process_ok_step)
qed

end
