(* ===== verification/SchedClient.thy ===== *)
theory SchedClient
  imports Prelude "HOL-Library.Multiset"
begin

section \<open>Callbacks run one at a time\<close>

text \<open>
  \<open>server/src/scheduler.cpp\<close>, class \<open>SingleThreadedSchedulerClient\<close>: callbacks are queued and run
  serially, in the order they were added, by whichever scheduler thread runs \<open>ProcessQueue\<close>. The
  routines are given twice: as programs, for \<open>EmptyQueue\<close>, which runs alone, and cut at the points
  where the lock \<open>m_cs_callbacks_pending\<close> is free, for any interleaving of them.
\<close>

subsection \<open>The routines\<close>

record ('c, 'w) client =
  callbacks_pending :: "'c list"
  callbacks_running :: bool
  process_tasks :: nat
  client_world :: 'w

type_synonym ('c, 'w, 'e, 'a) client_prog = "(('c, 'w) client, 'e, 'a) prog"

text \<open>\<open>process_tasks\<close> counts the \<open>ProcessQueue\<close> tasks put into the scheduler.\<close>

definition maybe_schedule_process_queue :: "('c, 'w) client \<Rightarrow> ('c, 'w) client" where
  "maybe_schedule_process_queue c =
     (if callbacks_running c then c
      else if callbacks_pending c = [] then c
      else c\<lparr>process_tasks := process_tasks c + 1\<rparr>)"

definition add_to_process_queue :: "'c \<Rightarrow> ('c, 'w) client \<Rightarrow> ('c, 'w) client" where
  "add_to_process_queue f c =
     maybe_schedule_process_queue (c\<lparr>callbacks_pending := callbacks_pending c @ [f]\<rparr>)"

definition callbacks_pending_count :: "('c, 'w) client \<Rightarrow> nat" where
  "callbacks_pending_count c = length (callbacks_pending c)"

text \<open>The destructor of the guard runs however the callback ends.\<close>

definition process_queue ::
  "('c \<Rightarrow> ('c, 'w, 'e, unit) client_prog) \<Rightarrow> ('c, 'w, 'e, unit) client_prog" where
  "process_queue run c =
     (if callbacks_running c then (c, Val ())
      else case callbacks_pending c of
             [] \<Rightarrow> (c, Val ())
           | f # fs \<Rightarrow>
               (case run f (c\<lparr>callbacks_running := True, callbacks_pending := fs\<rparr>) of
                  (c', r) \<Rightarrow> (maybe_schedule_process_queue (c'\<lparr>callbacks_running := False\<rparr>), r)))"

text \<open>The loop of \<open>EmptyQueue\<close> ends when nothing is pending after a round; it need not end.\<close>

partial_function (option) empty_loop ::
  "('c \<Rightarrow> ('c, 'w, 'e, unit) client_prog) \<Rightarrow> ('c, 'w) client \<Rightarrow> (('c, 'w) client \<times> ('e, unit) outcome) option" where
  "empty_loop run c =
     (case process_queue run c of
        (c', Val _) \<Rightarrow> if callbacks_pending c' = [] then Some (c', Val ()) else empty_loop run c'
      | (c', r) \<Rightarrow> Some (c', r))"

definition empty_queue ::
  "('c \<Rightarrow> ('c, 'w, 'e, unit) client_prog) \<Rightarrow> bool \<Rightarrow> ('c, 'w) client \<Rightarrow> (('c, 'w) client \<times> ('e, unit) outcome) option" where
  "empty_queue run threads_servicing c =
     (if threads_servicing then Some (c, Fault AssertFailed) else empty_loop run c)"

text \<open>A callback that only works on the world, and returns.\<close>

definition plain_callback :: "('c \<Rightarrow> 'w \<Rightarrow> 'w) \<Rightarrow> 'c \<Rightarrow> ('c, 'w, 'e, unit) client_prog" where
  "plain_callback act f c = (c\<lparr>client_world := act f (client_world c)\<rparr>, Val ())"

lemma empty_loop_runs_all:
  fixes c :: "('c, 'w) client"
  assumes "callbacks_pending c = fs" "\<not> callbacks_running c"
  shows "\<exists>n. empty_loop (plain_callback act) c =
    Some (c\<lparr>callbacks_pending := [], process_tasks := n, client_world := fold act fs (client_world c)\<rparr>, Val () :: ('e, unit) outcome)"
  using assms
proof (induction fs arbitrary: c)
  case Nil
  then have "c = c\<lparr>callbacks_pending := []\<rparr>" by simp
  with Nil have "empty_loop (plain_callback act) c = Some (c\<lparr>callbacks_pending := []\<rparr>, Val ())"
    by (simp add: empty_loop.simps [of _ c] process_queue_def)
  with Nil show ?case by (intro exI [of _ "process_tasks c"]) simp
next
  case (Cons f fs)
  let ?c = "maybe_schedule_process_queue
    (c\<lparr>callbacks_pending := fs, client_world := act f (client_world c)\<rparr>)"
  have r: "process_queue (plain_callback act) c = (?c, Val () :: ('e, unit) outcome)"
    using Cons.prems by (cases c) (simp add: process_queue_def plain_callback_def)
  have p: "callbacks_pending ?c = fs" "\<not> callbacks_running ?c" "client_world ?c = act f (client_world c)"
    using Cons.prems(2) by (simp_all add: maybe_schedule_process_queue_def)
  show ?case
  proof (cases "fs = []")
    case True
    with r p Cons.prems show ?thesis
      by (intro exI [of _ "process_tasks c"]) (simp add: empty_loop.simps [of _ c] maybe_schedule_process_queue_def)
  next
    case False
    with r p have "empty_loop (plain_callback act) c =
        (empty_loop (plain_callback act) ?c :: (('c, 'w) client \<times> ('e, unit) outcome) option)"
      by (subst empty_loop.simps) simp
    moreover obtain n where "empty_loop (plain_callback act) ?c =
        Some (?c\<lparr>callbacks_pending := [], process_tasks := n, client_world := fold act fs (client_world ?c)\<rparr>,
              Val () :: ('e, unit) outcome)"
      using Cons.IH [OF p(1,2)] by blast
    ultimately show ?thesis using p by (intro exI [of _ n]) (simp add: maybe_schedule_process_queue_def)
  qed
qed

subsection \<open>The routines interleaved\<close>

text \<open>
  Where a thread is inside one of the routines: about to look whether to schedule, about to put
  \<open>ProcessQueue\<close> into the scheduler, at the entry of \<open>ProcessQueue\<close>, or in a callback. The records
  \<open>added\<close> and \<open>begun\<close> are kept for the properties.
\<close>

datatype 'c agent = Checking | Scheduling | Processing | Calling 'c

record 'c client_state =
  cl_pending :: "'c list"
  cl_running :: bool
  cl_tasks :: nat
  agents :: "'c agent multiset"
  added :: "'c list"
  begun :: "'c list"

definition new_client :: "'c client_state" where
  "new_client = \<lparr>cl_pending = [], cl_running = False, cl_tasks = 0, agents = {#}, added = [], begun = []\<rparr>"

inductive client_step :: "'c client_state \<Rightarrow> 'c client_state \<Rightarrow> bool" where
  Add: "client_step d
    (d\<lparr>cl_pending := cl_pending d @ [c], added := added d @ [c], agents := add_mset Checking (agents d)\<rparr>)"
| CheckNo: "agents d = add_mset Checking as \<Longrightarrow> cl_running d \<or> cl_pending d = [] \<Longrightarrow>
    client_step d (d\<lparr>agents := as\<rparr>)"
| CheckYes: "agents d = add_mset Checking as \<Longrightarrow> \<not> cl_running d \<Longrightarrow> cl_pending d \<noteq> [] \<Longrightarrow>
    client_step d (d\<lparr>agents := add_mset Scheduling as\<rparr>)"
| Put: "agents d = add_mset Scheduling as \<Longrightarrow> client_step d (d\<lparr>agents := as, cl_tasks := Suc (cl_tasks d)\<rparr>)"
| TaskStarts: "cl_tasks d = Suc n \<Longrightarrow> client_step d (d\<lparr>cl_tasks := n, agents := add_mset Processing (agents d)\<rparr>)"
| ProcessNo: "agents d = add_mset Processing as \<Longrightarrow> cl_running d \<or> cl_pending d = [] \<Longrightarrow>
    client_step d (d\<lparr>agents := as\<rparr>)"
| ProcessYes: "agents d = add_mset Processing as \<Longrightarrow> \<not> cl_running d \<Longrightarrow> cl_pending d = c # cs \<Longrightarrow>
    client_step d (d\<lparr>cl_running := True, cl_pending := cs, begun := begun d @ [c],
                     agents := add_mset (Calling c) as\<rparr>)"
| CallEnds: "agents d = add_mset (Calling c) as \<Longrightarrow>
    client_step d (d\<lparr>cl_running := False, agents := add_mset Checking as\<rparr>)"

text \<open>
  Callbacks begin in the order they were added, each once; one runs at a time; and a callback that
  is pending has somebody to see to it.
\<close>

definition is_call :: "'c agent \<Rightarrow> bool" where
  "is_call a \<longleftrightarrow> (case a of Calling c \<Rightarrow> True | _ \<Rightarrow> False)"

lemma is_call_simps [simp]:
  "\<not> is_call Checking" "\<not> is_call Scheduling" "\<not> is_call Processing" "is_call (Calling c)"
  by (simp_all add: is_call_def)

definition client_ok :: "'c client_state \<Rightarrow> bool" where
  "client_ok d \<longleftrightarrow>
     begun d @ cl_pending d = added d
     \<and> size (filter_mset is_call (agents d)) = (if cl_running d then 1 else 0)
     \<and> (cl_pending d = [] \<or> cl_running d \<or> 0 < cl_tasks d
        \<or> Checking \<in># agents d \<or> Scheduling \<in># agents d \<or> Processing \<in># agents d)"

lemma client_ok_new: "client_ok new_client"
  by (simp add: client_ok_def new_client_def)

lemma client_ok_step: "client_step d d' \<Longrightarrow> client_ok d \<Longrightarrow> client_ok d'"
  by (induction rule: client_step.induct) (auto simp: client_ok_def split: if_splits)

lemma client_ok_steps: "client_step\<^sup>*\<^sup>* d d' \<Longrightarrow> client_ok d \<Longrightarrow> client_ok d'"
  by (induction rule: rtranclp_induct) (blast intro: client_ok_step)+

text \<open>Whoever is there to see to it, the first pending callback can be begun.\<close>

lemma begin_from_process:
  assumes "Processing \<in># agents d" "\<not> cl_running d" "cl_pending d = c # cs"
  shows "\<exists>d'. client_step\<^sup>*\<^sup>* d d' \<and> cl_pending d' = cs \<and> added d' = added d"
proof -
  from assms(1) obtain as where a: "agents d = add_mset Processing as" by (blast dest: multi_member_split)
  show ?thesis
    by (rule exI, rule conjI, rule r_into_rtranclp, rule client_step.ProcessYes [OF a assms(2,3)]) simp
qed

lemma begin_from_task:
  assumes "0 < cl_tasks d" "\<not> cl_running d" "cl_pending d = c # cs"
  shows "\<exists>d'. client_step\<^sup>*\<^sup>* d d' \<and> cl_pending d' = cs \<and> added d' = added d"
proof -
  from assms(1) obtain n where n: "cl_tasks d = Suc n" by (cases "cl_tasks d") auto
  let ?d = "d\<lparr>cl_tasks := n, agents := add_mset Processing (agents d)\<rparr>"
  have "\<exists>d'. client_step\<^sup>*\<^sup>* ?d d' \<and> cl_pending d' = cs \<and> added d' = added ?d"
    using assms by (intro begin_from_process) simp_all
  then show ?thesis using client_step.TaskStarts [OF n] by (auto intro: converse_rtranclp_into_rtranclp)
qed

lemma begin_from_schedule:
  assumes "Scheduling \<in># agents d" "\<not> cl_running d" "cl_pending d = c # cs"
  shows "\<exists>d'. client_step\<^sup>*\<^sup>* d d' \<and> cl_pending d' = cs \<and> added d' = added d"
proof -
  from assms(1) obtain as where a: "agents d = add_mset Scheduling as" by (blast dest: multi_member_split)
  let ?d = "d\<lparr>agents := as, cl_tasks := Suc (cl_tasks d)\<rparr>"
  have "\<exists>d'. client_step\<^sup>*\<^sup>* ?d d' \<and> cl_pending d' = cs \<and> added d' = added ?d"
    using assms by (intro begin_from_task) simp_all
  then show ?thesis using client_step.Put [OF a] by (auto intro: converse_rtranclp_into_rtranclp)
qed

lemma begin_from_check:
  assumes "Checking \<in># agents d" "\<not> cl_running d" "cl_pending d = c # cs"
  shows "\<exists>d'. client_step\<^sup>*\<^sup>* d d' \<and> cl_pending d' = cs \<and> added d' = added d"
proof -
  from assms(1) obtain as where a: "agents d = add_mset Checking as" by (blast dest: multi_member_split)
  let ?d = "d\<lparr>agents := add_mset Scheduling as\<rparr>"
  have "\<exists>d'. client_step\<^sup>*\<^sup>* ?d d' \<and> cl_pending d' = cs \<and> added d' = added ?d"
    using assms by (intro begin_from_schedule) simp_all
  then show ?thesis using client_step.CheckYes [OF a] assms by (auto intro: converse_rtranclp_into_rtranclp)
qed

lemma begin_from_call:
  assumes "client_ok d" "cl_running d" "cl_pending d = c # cs"
  shows "\<exists>d'. client_step\<^sup>*\<^sup>* d d' \<and> cl_pending d' = cs \<and> added d' = added d"
proof -
  have "size (filter_mset is_call (agents d)) = 1" using assms(1,2) by (simp add: client_ok_def)
  then obtain b where "filter_mset is_call (agents d) = {#b#}" by (metis size_1_singleton_mset)
  then have "b \<in># filter_mset is_call (agents d)" by simp
  then have b: "b \<in># agents d" "is_call b" by simp_all
  then obtain x where "b = Calling x" by (cases b) auto
  with b obtain as where a: "agents d = add_mset (Calling x) as" by (blast dest: multi_member_split)
  let ?d = "d\<lparr>cl_running := False, agents := add_mset Checking as\<rparr>"
  have "\<exists>d'. client_step\<^sup>*\<^sup>* ?d d' \<and> cl_pending d' = cs \<and> added d' = added ?d"
    using assms by (intro begin_from_check) simp_all
  then show ?thesis using client_step.CallEnds [OF a] by (auto intro: converse_rtranclp_into_rtranclp)
qed

lemma next_can_begin:
  assumes "client_ok d" "cl_pending d = c # cs"
  shows "\<exists>d'. client_step\<^sup>*\<^sup>* d d' \<and> cl_pending d' = cs \<and> added d' = added d"
proof (cases "cl_running d")
  case True
  with assms show ?thesis by (intro begin_from_call)
next
  case False
  with assms have "0 < cl_tasks d \<or> Checking \<in># agents d \<or> Scheduling \<in># agents d \<or> Processing \<in># agents d"
    by (auto simp: client_ok_def)
  with False assms(2) show ?thesis
    by (auto intro: begin_from_task begin_from_check begin_from_schedule begin_from_process)
qed

lemma all_can_begin:
  "client_ok d \<Longrightarrow> \<exists>d'. client_step\<^sup>*\<^sup>* d d' \<and> cl_pending d' = [] \<and> added d' = added d"
proof (induction "cl_pending d" arbitrary: d)
  case Nil
  then show ?case by (intro exI [of _ d]) simp
next
  case (Cons c cs)
  from next_can_begin [OF Cons.prems Cons.hyps(2) [symmetric]] obtain d1 where
    d1: "client_step\<^sup>*\<^sup>* d d1" "cl_pending d1 = cs" "added d1 = added d" by blast
  from Cons.hyps(1) [OF d1(2) [symmetric]] client_ok_steps [OF d1(1) Cons.prems] d1(3)
  obtain d2 where "client_step\<^sup>*\<^sup>* d1 d2" "cl_pending d2 = []" "added d2 = added d" by auto
  with d1 show ?case by (intro exI [of _ d2]) (auto intro: rtranclp_trans)
qed

end
