(* ===== verification/SchedulerProps.thy ===== *)
theory SchedulerProps
  imports ServerMain SchedClient RpcProps
begin

section \<open>Properties of the scheduler and of the server process\<close>

text \<open>
  What the scheduler promises for any functions and threads, what becomes of it with the jobs of
  the server, and the queue of callbacks of a client of the scheduler.
\<close>

subsection \<open>The scheduler\<close>

text \<open>
  A queue filled by \<open>schedule\<close> is the stable sort of the calls by their times: tasks of the same
  time stay in the order in which they were scheduled.
\<close>

theorem queue_is_stable_sort:
  "task_queue (foldl (\<lambda>s e. schedule (snd e) (fst e) s) new_scheduler es) = sort_key fst es"
  using tq.put_all_is_stable_sort [of es] by (simp add: tq.put_all_def)

text \<open>
  C18: In every state the scheduler can reach, with any number of threads, the counter is the number of
  threads in \<open>serviceQueue\<close>, the queue is in the order of the times, and every task scheduled is either
  queued or was started, once.
\<close>

theorem scheduler_loses_no_task:
  assumes "(sched_step run)\<^sup>*\<^sup>* (fresh_sched n w) d"
  shows "n_threads_servicing (sched d) = int (length (filter servicing (threads d)))
     \<and> sorted (map fst (task_queue (sched d)))
     \<and> mset (scheduled d) = mset (map snd (started d)) + mset (task_queue (sched d))"
  using sched_ok_reachable [OF assms] by (simp add: sched_ok_def)

definition one_scheduled :: "(string, unit) sched_state" where
  "one_scheduled = (fresh_sched 1 ())\<lparr>sched := schedule (Plain ''f'') 5 new_scheduler, scheduled := [(5, Plain ''f'')]\<rparr>"

lemma one_scheduled_reachable: "(sched_step run)\<^sup>*\<^sup>* (fresh_sched 1 ()) one_scheduled"
proof -
  have "sched_step run (fresh_sched 1 ()) one_scheduled"
    using sched_step.Schedule [where run = run and d = "fresh_sched 1 ()" and f = "Plain ''f''" and t = 5]
    by (simp add: one_scheduled_def fresh_sched_def)
  then show ?thesis by simp
qed

theorem scheduler_loses_no_task_witness:
  "mset [(5, Plain ''f'')] = mset (map snd (started one_scheduled)) + mset (task_queue (sched one_scheduled))"
  using scheduler_loses_no_task [OF one_scheduled_reachable [of "\<lambda>f. ret ()"]]
  by (simp add: one_scheduled_def)

text \<open>
  Serviced by one thread, as in the server, no task is started before its time, whatever is
  scheduled meanwhile and however the clock is set.
\<close>

theorem lone_thread_never_early:
  assumes "(sched_step run)\<^sup>*\<^sup>* (fresh_sched 1 w) d"
  shows "list_all (\<lambda>(now, t, f). t \<le> now) (started d)"
proof -
  have "alone_ok d"
    using assms
  proof (induction rule: rtranclp_induct)
    case base
    show ?case by (simp add: alone_ok_def fresh_sched_def)
  next
    case (step d d')
    then show ?case by (blast intro: alone_step)
  qed
  then show ?thesis by (auto simp: alone_ok_def list_all_iff)
qed

theorem lone_thread_never_early_witness: "list_all (\<lambda>(now, t, f). t \<le> now) (started one_scheduled)"
  by (rule lone_thread_never_early [OF one_scheduled_reachable [of "\<lambda>f. ret ()"]])

text \<open>With two threads a task can be started early: one takes the task the other waited for.\<close>

theorem two_threads_run_early:
  "\<exists>d. (sched_step (\<lambda>f. ret () :: (unit, unit, unit) prog))\<^sup>*\<^sup>* (fresh_sched 2 ()) d \<and> started d = [(0, 0, Plain ''a''), (0, 9, Plain ''b'')]"
proof -
  note st = put_thread_def note_start_def loop_top_def timed_out_def should_stop_def schedule_def
    fresh_sched_def new_scheduler_def mm_insert_def
  let ?run = "\<lambda>f::string. ret () :: (unit, unit, unit) prog"
  let ?s = "\<lambda>q n. \<lparr>task_queue = q, n_threads_servicing = n, stop_requested = False, stop_when_empty = False\<rparr>"
  let ?l = "[(0, Plain ''a''), (9, Plain ''b'')]"
  let ?d = "\<lambda>q n ts st. \<lparr>sched = ?s q n, threads = ts, clock = 0, world = (), scheduled = ?l, started = st\<rparr>"
  let ?st = "sched_step ?run"
  have 1: "?st\<^sup>*\<^sup>* (fresh_sched 2 ()) (?d ?l 0 [Entering, Entering] [])"
  proof -
    have "?st (fresh_sched 2 ()) ((fresh_sched 2 ())\<lparr>sched := ?s [(0, Plain ''a'')] 0, scheduled := [(0, Plain ''a'')]\<rparr>)"
      using sched_step.Schedule [where run = ?run and d = "fresh_sched 2 ()" and f = "Plain ''a''" and t = 0] by (simp add: st)
    moreover have "?st ((fresh_sched 2 ())\<lparr>sched := ?s [(0, Plain ''a'')] 0, scheduled := [(0, Plain ''a'')]\<rparr>) (?d ?l 0 [Entering, Entering] [])"
      using sched_step.Schedule [where run = ?run and f = "Plain ''b''" and t = 9
          and d = "(fresh_sched 2 ())\<lparr>sched := ?s [(0, Plain ''a'')] 0, scheduled := [(0, Plain ''a'')]\<rparr>"]
      by (simp add: st numeral_2_eq_2)
    ultimately show ?thesis by simp
  qed
  have 2: "?st (?d ?l 0 [Entering, Entering] []) (?d ?l 1 [WaitUntil 0, Entering] [])"
    using sched_step.Thread [OF thread_step.Enter [where i = 0 and d = "?d ?l 0 [Entering, Entering] []"]] by (simp add: st)
  have 3: "?st (?d ?l 1 [WaitUntil 0, Entering] []) (?d ?l 2 [WaitUntil 0, WaitUntil 0] [])"
    using sched_step.Thread [OF thread_step.Enter [where i = 1 and d = "?d ?l 1 [WaitUntil 0, Entering] []"]] by (simp add: st)
  have 4: "?st (?d ?l 2 [WaitUntil 0, WaitUntil 0] []) (?d [(9, Plain ''b'')] 2 [Busy (Plain ''a''), WaitUntil 0] [(0, 0, Plain ''a'')])"
    using sched_step.Thread [OF thread_step.Timeout [where i = 0 and t = 0 and d = "?d ?l 2 [WaitUntil 0, WaitUntil 0] []"]] by (simp add: st)
  have 5: "?st (?d [(9, Plain ''b'')] 2 [Busy (Plain ''a''), WaitUntil 0] [(0, 0, Plain ''a'')])
      (?d [] 2 [Busy (Plain ''a''), Busy (Plain ''b'')] [(0, 0, Plain ''a''), (0, 9, Plain ''b'')])"
    using sched_step.Thread [OF thread_step.Timeout [where i = 1 and t = 0
        and d = "?d [(9, Plain ''b'')] 2 [Busy (Plain ''a''), WaitUntil 0] [(0, 0, Plain ''a'')]"]] by (simp add: st)
  note steps = rtranclp.rtrancl_into_rtrancl [of ?st]
  have "?st\<^sup>*\<^sup>* (fresh_sched 2 ()) (?d [] 2 [Busy (Plain ''a''), Busy (Plain ''b'')] [(0, 0, Plain ''a''), (0, 9, Plain ''b'')])"
    using steps [OF steps [OF steps [OF steps [OF 1 2] 3] 4] 5] .
  then show ?thesis by (intro exI conjI) (assumption, simp)
qed

subsection \<open>Callbacks of a client\<close>

text \<open>
  C28: However the routines of the client are interleaved, callbacks begin in the order they were added,
  each once, at most one is running, and from every reachable state all that were added can begin:
  no callback is forgotten in the queue.
\<close>

theorem callbacks_serial_and_never_lost:
  assumes "client_step\<^sup>*\<^sup>* new_client d"
  shows "begun d @ cl_pending d = added d
     \<and> size (filter_mset is_call (agents d)) \<le> 1
     \<and> (\<exists>d'. client_step\<^sup>*\<^sup>* d d' \<and> begun d' = added d)"
proof -
  note ok = client_ok_steps [OF assms client_ok_new]
  from all_can_begin [OF ok] obtain d' where d': "client_step\<^sup>*\<^sup>* d d'" "cl_pending d' = []" "added d' = added d" by blast
  then have "begun d' = added d" using client_ok_steps [OF d'(1) ok] by (simp add: client_ok_def)
  with d'(1) ok show ?thesis by (auto simp: client_ok_def)
qed

theorem callbacks_serial_and_never_lost_witness:
  "\<exists>d'. client_step\<^sup>*\<^sup>* (\<lparr>cl_pending = [''c''], cl_running = False, cl_tasks = 0, agents = {#Checking#},
                            added = [''c''], begun = []\<rparr>) d' \<and> begun d' = [''c'']"
proof -
  have "client_step\<^sup>*\<^sup>* new_client \<lparr>cl_pending = [''c''], cl_running = False, cl_tasks = 0,
      agents = {#Checking#}, added = [''c''], begun = []\<rparr>"
    using client_step.Add [where d = new_client and c = "''c''"] by (auto simp: new_client_def)
  from callbacks_serial_and_never_lost [OF this] show ?thesis by simp
qed

text \<open>
  \<open>EmptyQueue\<close> returns when the callbacks return and add none: it has then run every pending
  callback, in order.
\<close>

theorem empty_queue_returns:
  assumes "\<not> callbacks_running c"
  shows "\<exists>n. empty_queue (plain_callback act) False c =
    Some (c\<lparr>callbacks_pending := [], process_tasks := n,
             client_world := fold act (callbacks_pending c) (client_world c)\<rparr>, Val ())"
  using empty_loop_runs_all [OF refl assms, of act] by (simp add: empty_queue_def)

theorem empty_queue_returns_witness:
  "\<exists>n. empty_queue (plain_callback (@)) False
     \<lparr>callbacks_pending = [''a'', ''b''], callbacks_running = False, process_tasks = 0, client_world = ''''\<rparr> =
   Some (\<lparr>callbacks_pending = [], callbacks_running = False, process_tasks = n, client_world = ''ba''\<rparr>, Val ())"
  using empty_queue_returns [of "\<lparr>callbacks_pending = [''a'', ''b''], callbacks_running = False,
      process_tasks = 0, client_world = ''''\<rparr>" "(@)"] by simp

subsection \<open>The process\<close>

text \<open>
  How the start-up ends: an exception of \<open>ClientRpc::init\<close> ends it, but a plain failure of it is
  forgotten, and the process serves with the relay commands registered; when the HTTP server cannot
  be started the process is terminated, its scheduler thread not joined.
\<close>

theorem start_up_outcome:
  "\<exists>p. app_init_main E http_ok auth_ok rpcworkqueue rpcthreads now w =
     (case snd (wallet_init E w) of
        Exc e \<Rightarrow> Printed e
      | Fault k \<Rightarrow> Aborted k
      | Val init_result \<Rightarrow> if http_ok \<and> auth_ok then Serving p else Terminated)
   \<and> rpc_running (d_server (world p)) \<and> \<not> rpc_in_warmup (d_server (world p))
   \<and> relay_wallet (d_server (world p)) = fst (wallet_init E w)
   \<and> map_of (map_commands (d_server (world p))) ''transfer'' = Some (relay_commands ! 1)"
proof -
  obtain w' r where i: "wallet_init E w = (w', r)" by fastforce
  obtain T where T: "fst (register_relay_commands (static_server w')) = (static_server w')\<lparr>map_commands := T\<rparr>"
      "map_of T ''transfer'' = Some (relay_commands ! 1)"
    by (rule that [of "obj_set ''transfer'' (relay_commands ! 1) (obj_set ''getrechargeaddress'' (relay_commands ! 0) new_table)"])
       (simp_all add: register_relay_commands_def relay_commands_def append_command_def static_server_def
        new_table_def control_commands_def bindp_def prog_simps)
  have warm: "rpc_in_warmup (static_server w')" by (simp add: static_server_def)
  let ?s = "(static_server w')\<lparr>map_commands := T, rpc_running := True\<rparr>"
  let ?p = "\<lparr>sched = schedule_jobs now new_scheduler, threads = [Entering], clock = now,
     world = (new_httpd rpcworkqueue rpcthreads ?s)\<lparr>d_server := ?s\<lparr>timer_interface := True, rpc_in_warmup := False\<rparr>\<rparr>,
     scheduled = task_queue (schedule_jobs now new_scheduler), started = []\<rparr>"
  have "app_init_main E http_ok auth_ok rpcworkqueue rpcthreads now w =
     (case snd (wallet_init E w) of Exc e \<Rightarrow> Printed e | Fault k \<Rightarrow> Aborted k
      | Val init_result \<Rightarrow> if http_ok \<and> auth_ok then Serving ?p else Terminated)"
    by (cases r) (simp_all add: app_init_main_def i T(1) app_init_servers_def start_rpc_def prog_simps new_httpd_def
        start_http_rpc_def set_rpc_warmup_finished_def warm)
  then show ?thesis
    by (intro exI [of _ ?p] conjI) (simp_all add: static_server_def T(2) i)
qed

text \<open>
  C34: The scheduler thread the process waits for never comes back: in every state the running process
  can reach each of the five jobs is scheduled or running, exactly once, unless an exception has
  left the thread; and no job was started before its time.
\<close>

theorem server_never_returns:
  assumes "app_init_main E http_ok auth_ok rpcworkqueue rpcthreads now w = Serving p0"
    and "(process_step E page)\<^sup>*\<^sup>* p0 p"
  shows "threads p \<noteq> [Returned]
     \<and> (none_threw p \<longrightarrow> list_all (\<lambda>c. pending p (Repeat c 10000) = 1) job_names)
     \<and> list_all (\<lambda>(now, t, f). t \<le> now) (started p)"
  using process_ok_reachable [OF assms] by (auto simp: process_ok_def alone_ok_def list_all_iff)

definition offline :: server_env where
  "offline = quiet\<lparr>mysql_connects := \<lambda>_. False, config := JObj [(''otc_db'', otc_conf)],
     json_parse := \<lambda>_. Val (JObj [(''id'', JInt 1), (''method'', JStr ''stop''), (''params'', JArr [])])\<rparr>"

lemma wallet_init_offline: "wallet_init offline empty_wallet = (empty_wallet, Val False)"
  by (simp add: wallet_init_def offline_def field_def otc_conf_def open_db_def bindp_def prog_simps)

definition serving_server :: server where
  "serving_server = (static_server empty_wallet)\<lparr>map_commands := map_commands (fst (register_relay_commands (static_server empty_wallet))),
     rpc_running := True, timer_interface := True, rpc_in_warmup := False\<rparr>"

definition offline_process :: process where
  "offline_process =
     \<lparr>sched = schedule_jobs 0 new_scheduler, threads = [Entering], clock = 0,
      world = (new_httpd 16 4 serving_server)\<lparr>d_server := serving_server\<rparr>,
      scheduled = task_queue (schedule_jobs 0 new_scheduler), started = []\<rparr>"

lemma offline_boots: "app_init_main offline True True 16 4 0 empty_wallet = Serving offline_process"
  by (simp add: app_init_main_def wallet_init_offline app_init_servers_def start_rpc_def prog_simps
      new_httpd_def start_http_rpc_def set_rpc_warmup_finished_def offline_process_def serving_server_def
      register_relay_commands_def relay_commands_def append_command_def static_server_def
      new_table_def control_commands_def bindp_def)

theorem server_never_returns_witness:
  "list_all (\<lambda>c. pending offline_process (Repeat c 10000) = 1) job_names"
  using server_never_returns [OF offline_boots rtranclp.rtrancl_refl]
  by (simp add: none_threw_def offline_process_def)

definition stop_request :: http_request where
  "stop_request = \<lparr>hr_method = POST, hr_uri = ''/'', hr_headers = [], hr_body = ''stop'', hr_out_headers = [], hr_reply = None\<rparr>"

definition stop_item :: work_item where
  "stop_item = \<lparr>wi_id = 0, wi_req = stop_request, wi_path = '''', wi_handler = HJsonRpc\<rparr>"

lemma stop_item_handled:
  "run_handler offline HJsonRpc '''' \<lparr>call_server = serving_server, call_req = stop_request\<rparr> =
   (\<lparr>call_server = serving_server\<lparr>shutdown_requested := True\<rparr>,
     call_req = stop_request\<lparr>hr_body := '''', hr_out_headers := [(''Content-Type'', ''application/json'')],
                              hr_reply := Some (200, ''{}'' @ newline)\<rparr>\<rparr>, Val True)"
proof -
  have c: "map_of (map_commands serving_server) ''stop'' = Some (control_commands ! 1)" "\<not> rpc_in_warmup serving_server"
    by (simp_all add: serving_server_def register_relay_commands_def relay_commands_def append_command_def static_server_def
      new_table_def control_commands_def bindp_def prog_simps)
  let ?j = "new_request\<lparr>r_id := JInt 1, r_method := ''stop'', r_params := JArr [], r_uri := ''/''\<rparr>"
  have e: "execute offline ?j serving_server = (serving_server\<lparr>shutdown_requested := True\<rparr>, Val (JStr ''Bitcoin server stopping''))"
    by (simp add: execute_def rpc_is_in_warmup_def catch_def prog_simps c control_commands_def new_request_def run_actor_def cmd_stop_def)
  have p: "parse_request (JObj [(''id'', JInt 1), (''method'', JStr ''stop''), (''params'', JArr [])])
      (new_request\<lparr>r_uri := ''/''\<rparr>) = (?j, Val ())"
    by (simp add: parse_request_def prog_simps new_request_def)
  have "answer_body offline ''stop'' ''/'' serving_server
      = (?j, serving_server\<lparr>shutdown_requested := True\<rparr>, Val (''{}'' @ newline))"
    using p e by (simp add: answer_body_def parse_and_execute_def json_rpc_reply_def new_request_def offline_def quiet_def)
  then show ?thesis
    by (simp add: run_handler_def http_jsonrpc_def jsonrpc_try_def read_body_apply Let_def bindp_def prog_simps
        on_request_def write_header_def write_reply_def HTTP_OK_def stop_request_def new_request_def)
qed

definition stopped_process :: process where
  "stopped_process = offline_process\<lparr>world := (new_httpd 16 4 serving_server)
     \<lparr>d_server := serving_server\<lparr>shutdown_requested := True\<rparr>, d_next := 1,
      d_replies := [(0, 200, ''{}'' @ newline)]\<rparr>\<rparr>"

lemma stopped_process_reachable: "(process_step offline page)\<^sup>*\<^sup>* offline_process stopped_process"
proof -
  let ?d = "world offline_process"
  let ?q = "new_work_queue 16 :: work_item work_queue"
  let ?d1 = "arrive ''localhost'' stop_request ?q ?d"
  let ?d2 = "?d1\<lparr>d_queue := Some ?q, d_busy := d_busy ?d1 @ [stop_item]\<rparr>"
  let ?p = "\<lambda>d. offline_process\<lparr>world := d\<rparr>"
  have q: "d_queue ?d = Some ?q" "\<not> d_rejecting ?d" "none_threw (?p d)" for d
    by (simp_all add: offline_process_def new_httpd_def start_http_rpc_def none_threw_def)
  have a: "?d1 = ?d\<lparr>d_next := 1, d_queue := Some (?q\<lparr>wq_queue := [stop_item]\<rparr>)\<rparr>"
    by (simp add: arrive_def http_request_cb_def client_allowed_def new_httpd_def start_http_rpc_def start_rest_def
        register_http_handler_def handler_matches_def stop_request_def wq_enqueue_def new_work_queue_def
        stop_item_def offline_process_def uri_prefixes_def)
  have s1: "http_step offline page ?d ?d1"
    by (rule http_step.Arrive) (simp_all add: q stop_request_def)
  have s2: "http_step offline page ?d1 ?d2"
    unfolding a by (rule http_step.Take [where q = "?q\<lparr>wq_queue := [stop_item]\<rparr>"])
       (simp_all add: wq_take_def new_work_queue_def new_httpd_def start_http_rpc_def offline_process_def)
  have h: "run_handler offline (wi_handler stop_item) (wi_path stop_item)
      \<lparr>call_server = d_server ?d2, call_req = wi_req stop_item\<rparr> =
     (\<lparr>call_server = serving_server\<lparr>shutdown_requested := True\<rparr>,
       call_req = stop_request\<lparr>hr_body := '''', hr_out_headers := [(''Content-Type'', ''application/json'')],
                                hr_reply := Some (200, ''{}'' @ newline)\<rparr>\<rparr>, Val True)"
    unfolding a using stop_item_handled by (simp add: stop_item_def offline_process_def)
  have s3: "http_step offline page ?d2 (world stopped_process)"
    using http_step.Finish [where d = "?d2" and item = stop_item and ?busy1.0 = "[]" and ?busy2.0 = "[]", OF _ h]
    unfolding a by (simp add: stopped_process_def finish_def final_reply_def destroy_request_def stop_request_def
        offline_process_def stop_item_def new_httpd_def start_http_rpc_def)
  have p1: "process_step offline page offline_process (?p ?d1)"
    using q(3) [of ?d] s1 by (intro process_step.Http) (simp_all add: q a)
  have p2: "process_step offline page (?p ?d1) (?p ?d2)"
    using process_step.Http [OF q(3) [of ?d1], of offline page ?d2] s2 q(2) by (simp add: a)
  have p3: "process_step offline page (?p ?d2) (?p (world stopped_process))"
    using process_step.Http [OF q(3) [of ?d2], of offline page "world stopped_process"] s3 q(2)
    by (simp add: stopped_process_def new_httpd_def start_http_rpc_def)
  have "?p (world stopped_process) = stopped_process" by (simp add: stopped_process_def)
  with p1 p2 p3 show ?thesis by (auto intro: rtranclp_trans r_into_rtranclp)
qed

text \<open>
  The command \<open>stop\<close> only sets a flag: after it, too, the server takes every request that arrives,
  and the scheduler thread, for which the main thread waits, is not back.
\<close>

theorem stop_command_not_obeyed:
  assumes "app_init_main E http_ok auth_ok rpcworkqueue rpcthreads now w = Serving p0"
    and "(process_step E page)\<^sup>*\<^sup>* p0 p" and "none_threw p"
    and "shutdown_requested (d_server (world p))" and "hr_reply req = None"
  shows "threads p \<noteq> [Returned]
     \<and> (\<exists>q. d_queue (world p) = Some q \<and> process_step E page p (p\<lparr>world := arrive (peer :: string) req q (world p)\<rparr>))"
proof -
  have ok: "process_ok p" by (rule process_ok_reachable [OF assms(1,2)])
  then obtain q where q: "d_queue (world p) = Some q" "\<not> d_rejecting (world p)"
    by (auto simp: process_ok_def split: option.splits)
  have "\<not> d_rejecting (arrive peer req q (world p))"
    using q(2) by (simp add: arrive_def split: prod.split arrival.split)
  with assms(3,5) q have "process_step E page p (p\<lparr>world := arrive peer req q (world p)\<rparr>)"
    by (intro process_step.Http http_step.Arrive)
  with ok q show ?thesis by (simp add: process_ok_def)
qed

theorem stop_command_not_obeyed_witness:
  "\<exists>q. d_queue (world stopped_process) = Some q
     \<and> process_step offline (\<lambda>_. '''') stopped_process
         (stopped_process\<lparr>world := arrive ''localhost'' stop_request q (world stopped_process)\<rparr>)"
  by (rule stop_command_not_obeyed [OF offline_boots stopped_process_reachable, THEN conjunct2])
     (simp_all add: stopped_process_def offline_process_def none_threw_def stop_request_def)

text \<open>
  An exception in one of the jobs ends the server: it leaves the scheduler thread, and nothing
  of the process runs on.
\<close>

theorem throwing_job_ends_server:
  assumes "threads p = [Busy (Repeat c delta)]" and "run_address_job E c (world p) = (d, Exc e)"
  shows "\<exists>p'. process_step E page p p' \<and> threads p' = [Threw] \<and> (\<nexists>p''. process_step E page p' p'')"
proof -
  let ?p = "put_thread 0 (leave (sched p), Threw) (p\<lparr>world := d\<rparr>)"
  have t: "threads ?p = [Threw]" using assms(1) by (simp add: put_thread_def)
  have "thread_step (run_address_job E) p ?p" using assms by (intro thread_step.Throws [where f = "Repeat c delta" and e = e]) simp_all
  then have "process_step E page p ?p"
    using assms(1) by (intro process_step.SchedulerThread) (simp_all add: none_threw_def)
  moreover have "\<nexists>p''. process_step E page ?p p''"
    using t by (auto simp: none_threw_def elim: process_stepE)
  ultimately show ?thesis using t by blast
qed

theorem throwing_job_ends_server_witness:
  "\<exists>p'. process_step (quiet\<lparr>config := JInt 0\<rparr>) (\<lambda>_. '''') (offline_process\<lparr>threads := [Busy (Repeat ''BTC'' 10000)]\<rparr>) p'
     \<and> threads p' = [Threw] \<and> (\<nexists>p''. process_step (quiet\<lparr>config := JInt 0\<rparr>) (\<lambda>_. '''') p' p'')"
proof -
  have "run_address_job (quiet\<lparr>config := JInt 0\<rparr>) ''BTC'' (world offline_process) =
      (world offline_process, Exc (TypeError 305 (''cannot use operator[] with '' @ type_name (JInt 0))))"
    by (simp add: run_address_job_def on_wallet_def create_job_def get_new_address_def field_def bindp_def prog_simps)
  then show ?thesis
    by (intro throwing_job_ends_server [where c = "''BTC''" and delta = 10000]) simp_all
qed

end
