(* ===== verification/HashStream.thy ===== *)
theory HashStream
  imports StrEncodings
begin

section \<open>Hash functions fed in pieces\<close>

text \<open>
  What the classes \<open>CSHA1\<close>, \<open>CSHA256\<close>, \<open>CSHA512\<close> and \<open>CRIPEMD160\<close> of \<open>server/src/crypto\<close> have in common:
  a chaining state, a buffer of one block and a byte counter of 64 bits; \<open>Write\<close> takes data in
  pieces of any length, \<open>Finalize\<close> writes the padding and the length. The locale \<open>block_hash\<close> shows
  that the pieces do not matter: the result is the hash of the padded message, block by block.
\<close>

unbundle bit_operations_syntax

subsection \<open>Numbers as bytes\<close>

text \<open>\<open>ReadBE32\<close>, \<open>WriteBE64\<close> and their kin in \<open>crypto/common.h\<close>, for a number of \<open>n\<close> bytes.\<close>

definition write_le :: "nat \<Rightarrow> 'a::len word \<Rightarrow> byte list" where
  "write_le n x = map (\<lambda>i. ucast (drop_bit (8 * i) x)) [0..<n]"

definition write_be :: "nat \<Rightarrow> 'a::len word \<Rightarrow> byte list" where
  "write_be n x = rev (write_le n x)"

fun read_le :: "byte list \<Rightarrow> 'a::len word" where
  "read_le [] = 0"
| "read_le (b # bs) = ucast b OR push_bit 8 (read_le bs)"

definition read_be :: "byte list \<Rightarrow> 'a::len word" where
  "read_be bs = read_le (rev bs)"

lemma length_write_le [simp]: "length (write_le n x) = n"
  by (simp add: write_le_def)

lemma length_write_be [simp]: "length (write_be n x) = n"
  by (simp add: write_be_def)

subsection \<open>The classes\<close>

record 'st hasher =
  h_state :: 'st
  h_buf :: "byte list"
  h_bytes :: "64 word"

text \<open>\<open>memcpy(buf + pos, data, n)\<close> for all of \<open>data\<close>: the bytes behind it stay.\<close>

definition blit :: "byte list \<Rightarrow> nat \<Rightarrow> byte list \<Rightarrow> byte list" where
  "blit buf pos data = take pos buf @ data @ drop (pos + length data) buf"

text \<open>A loop over \<open>n\<close> blocks of \<open>data\<close>.\<close>

primrec each_block :: "nat \<Rightarrow> ('st \<Rightarrow> byte list \<Rightarrow> 'st) \<Rightarrow> 'st \<Rightarrow> byte list \<Rightarrow> nat \<Rightarrow> 'st" where
  "each_block B f s data 0 = s"
| "each_block B f s data (Suc n) = each_block B f (f s (take B data)) (drop B data) n"

text \<open>\<open>Write\<close>: \<open>tr s data n\<close> processes the first \<open>n\<close> blocks of \<open>data\<close>.\<close>

definition fill_buffer ::
  "nat \<Rightarrow> ('st \<Rightarrow> byte list \<Rightarrow> nat \<Rightarrow> 'st) \<Rightarrow> byte list \<Rightarrow> 'st hasher \<Rightarrow> 'st hasher \<times> byte list \<times> nat" where
  "fill_buffer B tr data h =
     (let bufsize = unat (h_bytes h) mod B in
      if bufsize \<noteq> 0 \<and> B \<le> bufsize + length data
      then let buf = blit (h_buf h) bufsize (take (B - bufsize) data) in
           (h\<lparr>h_buf := buf, h_bytes := h_bytes h + of_nat (B - bufsize), h_state := tr (h_state h) buf 1\<rparr>,
            drop (B - bufsize) data, 0)
      else (h, data, bufsize))"

definition whole_blocks ::
  "nat \<Rightarrow> ('st \<Rightarrow> byte list \<Rightarrow> nat \<Rightarrow> 'st) \<Rightarrow> byte list \<Rightarrow> 'st hasher \<Rightarrow> 'st hasher \<times> byte list" where
  "whole_blocks B tr data h =
     (if B \<le> length data
      then let blocks = length data div B in
           (h\<lparr>h_state := tr (h_state h) data blocks, h_bytes := h_bytes h + of_nat (B * blocks)\<rparr>,
            drop (B * blocks) data)
      else (h, data))"

definition stream_write ::
  "nat \<Rightarrow> ('st \<Rightarrow> byte list \<Rightarrow> nat \<Rightarrow> 'st) \<Rightarrow> byte list \<Rightarrow> 'st hasher \<Rightarrow> 'st hasher" where
  "stream_write B tr data h =
     (case fill_buffer B tr data h of
        (h, data, bufsize) \<Rightarrow>
          (case whole_blocks B tr data h of
             (h, data) \<Rightarrow>
               if data \<noteq> []
               then h\<lparr>h_buf := blit (h_buf h) bufsize data, h_bytes := h_bytes h + of_nat (length data)\<rparr>
               else h))"

text \<open>\<open>Finalize\<close> up to the output of the state; \<open>enc\<close> writes the number of bits.\<close>

definition stream_finalize ::
  "nat \<Rightarrow> ('st \<Rightarrow> byte list \<Rightarrow> nat \<Rightarrow> 'st) \<Rightarrow> (64 word \<Rightarrow> byte list) \<Rightarrow> nat \<Rightarrow> 'st hasher \<Rightarrow> 'st" where
  "stream_finalize B tr enc size_len h =
     (let pad = 0x80 # replicate (B - 1) 0;
          sizedesc = enc (push_bit 3 (h_bytes h));
          npad = 1 + (B + (B - size_len - 1) - unat (h_bytes h) mod B) mod B
      in h_state (stream_write B tr sizedesc (stream_write B tr (take npad pad) h)))"

subsection \<open>The message that is hashed\<close>

text \<open>The padded message: a one bit, zeros, and the length in bits, filling the last block.\<close>

definition zeros_needed :: "nat \<Rightarrow> nat \<Rightarrow> nat \<Rightarrow> nat" where
  "zeros_needed B size_len n = (B - (n + 1 + size_len) mod B) mod B"

definition padded_message :: "nat \<Rightarrow> (64 word \<Rightarrow> byte list) \<Rightarrow> nat \<Rightarrow> byte list \<Rightarrow> byte list" where
  "padded_message B enc size_len msg =
     msg @ 0x80 # replicate (zeros_needed B size_len (length msg)) 0 @ enc (of_nat (8 * length msg))"

text \<open>The compression function over the blocks of a message of whole blocks.\<close>

function fold_blocks :: "nat \<Rightarrow> ('st \<Rightarrow> byte list \<Rightarrow> 'st) \<Rightarrow> 'st \<Rightarrow> byte list \<Rightarrow> 'st" where
  "fold_blocks B f s m =
     (if B = 0 \<or> length m < B then s else fold_blocks B f (f s (take B m)) (drop B m))"
  by pat_completeness auto
termination by (relation "measure (\<lambda>(B, f, s, m). length m)") auto

declare fold_blocks.simps [simp del]

lemma fold_blocks_short: "length m < B \<Longrightarrow> fold_blocks B f s m = s"
  by (simp add: fold_blocks.simps)

lemma fold_blocks_block:
  "0 < B \<Longrightarrow> length b = B \<Longrightarrow> fold_blocks B f s (b @ m) = fold_blocks B f (f s b) m"
  by (subst fold_blocks.simps) simp

lemma fold_blocks_one: "0 < B \<Longrightarrow> length b = B \<Longrightarrow> fold_blocks B f s b = f s b"
  using fold_blocks_block [of B b f s "[]"] by (simp add: fold_blocks_short)

lemma fold_blocks_append:
  assumes "0 < B"
  shows "length m = B * n \<Longrightarrow> fold_blocks B f s (m @ m') = fold_blocks B f (fold_blocks B f s m) m'"
proof (induction n arbitrary: s m)
  case 0
  then show ?case using assms by (simp add: fold_blocks_short)
next
  case (Suc n)
  have l: "length (take B m) = B" "length (drop B m) = B * n" using Suc.prems by simp_all
  have "fold_blocks B f s (m @ m') = fold_blocks B f s (take B m @ drop B m @ m')"
    by (metis append.assoc append_take_drop_id)
  also have "\<dots> = fold_blocks B f (fold_blocks B f (f s (take B m)) (drop B m)) m'"
    using assms l by (simp add: fold_blocks_block Suc.IH)
  also have "fold_blocks B f (f s (take B m)) (drop B m) = fold_blocks B f s (take B m @ drop B m)"
    using fold_blocks_block [OF assms l(1), of f s "drop B m"] by simp
  finally show ?case by simp
qed

lemma each_block_fold:
  "0 < B \<Longrightarrow> B * n \<le> length m \<Longrightarrow> each_block B f s m n = fold_blocks B f s (take (B * n) m)"
proof (induction n arbitrary: s m)
  case 0
  then show ?case by (simp add: fold_blocks_short)
next
  case (Suc n)
  then have "take (B * Suc n) m = take B m @ take (B * n) (drop B m)"
    by (simp add: take_add)
  with Suc show ?case by (simp add: fold_blocks_block)
qed

text \<open>Two compression functions that agree on states of \<open>n\<close> words hash alike.\<close>

lemma fold_blocks_agree:
  assumes "length s = n" "\<And>s b. length s = n \<Longrightarrow> f s b = g s b" "\<And>s b. length s = n \<Longrightarrow> length (g s b) = n"
  shows "fold_blocks B f s m = fold_blocks B g s m"
  using assms
proof (induction B f s m rule: fold_blocks.induct)
  case (1 B f s m)
  then show ?case by (subst (1 2) fold_blocks.simps) simp
qed

lemma fold_blocks_length:
  "(\<And>s b. length (f s b) = length s) \<Longrightarrow> length (fold_blocks B f s m) = length s"
proof (induction B f s m rule: fold_blocks.induct)
  case (1 B f s m)
  then show ?case by (subst fold_blocks.simps) simp
qed

subsection \<open>The pieces do not matter\<close>

locale block_hash =
  fixes B :: nat
    and f :: "'st \<Rightarrow> byte list \<Rightarrow> 'st"
    and tr :: "'st \<Rightarrow> byte list \<Rightarrow> nat \<Rightarrow> 'st"
    and enc :: "64 word \<Rightarrow> byte list"
    and size_len :: nat
  assumes tr_blocks: "B * n \<le> length data \<Longrightarrow> tr s data n = each_block B f s data n"
    and enc_length: "length (enc x) = size_len"
    and size_fits: "size_len < B"
    and block_dvd: "B dvd 2 ^ 64"
begin

text \<open>The object holds the message \<open>msg\<close>: full blocks in the state, the rest in the buffer.\<close>

definition holds :: "'st \<Rightarrow> byte list \<Rightarrow> 'st hasher \<Rightarrow> bool" where
  "holds s0 msg h \<longleftrightarrow>
     (\<exists>whole rest n. msg = whole @ rest \<and> length whole = B * n \<and> length rest < B
        \<and> h_state h = fold_blocks B f s0 whole \<and> length (h_buf h) = B
        \<and> take (length rest) (h_buf h) = rest \<and> h_bytes h = of_nat (length msg))"

lemma holdsE:
  assumes "holds s0 msg h"
  obtains whole rest n where "msg = whole @ rest" "length whole = B * n" "length rest < B"
    "h_state h = fold_blocks B f s0 whole" "length (h_buf h) = B" "take (length rest) (h_buf h) = rest"
    "h_bytes h = of_nat (length msg)"
  using assms unfolding holds_def by blast

lemma B_pos: "0 < B"
  using size_fits by simp

lemma bytes_mod: "unat (of_nat n :: 64 word) mod B = n mod B"
  using block_dvd by (simp add: unat_of_nat mod_mod_cancel)

lemma holds_new: "length buf = B \<Longrightarrow> holds s0 [] \<lparr>h_state = s0, h_buf = buf, h_bytes = 0\<rparr>"
  using B_pos by (auto simp: holds_def fold_blocks_short intro!: exI [of _ "[]"] exI [of _ 0])

lemma holds_short:
  assumes "holds s0 msg h" "length msg mod B + length data < B"
  shows "holds s0 (msg @ data) (h\<lparr>h_buf := blit (h_buf h) (length msg mod B) data,
                                   h_bytes := h_bytes h + of_nat (length data)\<rparr>)"
proof -
  from assms(1) obtain whole rest n where w: "msg = whole @ rest" "length whole = B * n" "length rest < B"
    "h_state h = fold_blocks B f s0 whole" "length (h_buf h) = B" "take (length rest) (h_buf h) = rest"
    "h_bytes h = of_nat (length msg)"
    by (rule holdsE)
  then have r: "length msg mod B = length rest" by simp
  have "take (length (rest @ data)) (blit (h_buf h) (length rest) data) = rest @ data"
    using w(6) assms(2) w(5) r by (simp add: blit_def)
  then show ?thesis
    using w assms(2) r unfolding holds_def
    by (intro exI [of _ whole] exI [of _ "rest @ data"] exI [of _ n]) (simp add: blit_def)
qed

lemma holds_blocks:
  assumes "holds s0 msg h" "B dvd length msg" "length data = B * k"
  shows "holds s0 (msg @ data) (h\<lparr>h_state := tr (h_state h) (data @ behind) k,
                                  h_bytes := h_bytes h + of_nat (B * k)\<rparr>)"
proof -
  from assms(1) obtain whole rest n where w: "msg = whole @ rest" "length whole = B * n" "length rest < B"
    "h_state h = fold_blocks B f s0 whole" "length (h_buf h) = B" "h_bytes h = of_nat (length msg)"
    by (elim holdsE) blast
  have "length msg mod B = length rest" using w(1-3) by simp
  with assms(2) have m: "msg = whole" using w(1) by (simp add: dvd_eq_mod_eq_0)
  have "tr (h_state h) (data @ behind) k = fold_blocks B f (h_state h) data"
    using assms(3) by (simp add: tr_blocks each_block_fold B_pos)
  also have "\<dots> = fold_blocks B f s0 (msg @ data)"
    by (simp add: w(4) m fold_blocks_append [OF B_pos w(2)])
  finally show ?thesis
    unfolding holds_def
    by (intro exI [of _ "msg @ data"] exI [of _ "[]"] exI [of _ "n + k"])
       (simp add: w(2,5,6) m assms(3) algebra_simps B_pos)
qed

lemma holds_filled:
  assumes "holds s0 msg h" "length msg mod B \<noteq> 0" "length data = B - length msg mod B"
  shows "holds s0 (msg @ data)
     (h\<lparr>h_buf := blit (h_buf h) (length msg mod B) data, h_bytes := h_bytes h + of_nat (length data),
       h_state := tr (h_state h) (blit (h_buf h) (length msg mod B) data) 1\<rparr>)"
proof -
  from assms(1) obtain whole rest n where w: "msg = whole @ rest" "length whole = B * n" "length rest < B"
    "h_state h = fold_blocks B f s0 whole" "length (h_buf h) = B" "take (length rest) (h_buf h) = rest"
    "h_bytes h = of_nat (length msg)"
    by (rule holdsE)
  have r: "length msg mod B = length rest" using w(1-3) by simp
  have b: "blit (h_buf h) (length rest) data = rest @ data"
    using w(5,6) assms(3) r w(3) by (simp add: blit_def)
  have l: "length (rest @ data) = B" using assms(3) r w(3) by simp
  have "tr (h_state h) (rest @ data) 1 = fold_blocks B f s0 (whole @ rest @ data)"
    using l by (simp add: tr_blocks w(4) fold_blocks_append [OF B_pos w(2)] fold_blocks_one [OF B_pos])
  then have st: "tr (h_state h) (rest @ data) 1 = fold_blocks B f s0 (msg @ data)" by (simp add: w(1))
  have bs: "h_bytes h + of_nat (length data) = of_nat (length (msg @ data))" by (simp only: w(7) of_nat_add length_append)
  have ln: "length (msg @ data) = B * Suc n" using w(1,2) l by simp
  show ?thesis
    unfolding holds_def r b
    by (intro exI [of _ "msg @ data"] exI [of _ "[]"] exI [of _ "Suc n"] conjI ln)
       (simp_all add: B_pos l st [simplified] bs del: length_append of_nat_add)
qed

theorem holds_write: "holds s0 msg h \<Longrightarrow> holds s0 (msg @ data) (stream_write B tr data h)"
proof -
  assume h: "holds s0 msg h"
  let ?b = "length msg mod B"
  have "h_bytes h = of_nat (length msg)" using h by (elim holdsE)
  then have b: "unat (h_bytes h) mod B = ?b" by (simp only: bytes_mod)
  have rest: "holds s0 (m @ d) (case whole_blocks B tr d g of (g, e) \<Rightarrow>
      if e \<noteq> [] then g\<lparr>h_buf := blit (h_buf g) (length m mod B) e, h_bytes := h_bytes g + of_nat (length e)\<rparr> else g)"
    if g: "holds s0 m g" and ok: "B dvd length m \<or> length m mod B + length d < B" for m d g
  proof (cases "B \<le> length d")
    case True
    then have m: "B dvd length m" using ok by auto
    let ?k = "length d div B"
    let ?g = "g\<lparr>h_state := tr (h_state g) d ?k, h_bytes := h_bytes g + of_nat (B * ?k)\<rparr>"
    have s: "d = take (B * ?k) d @ drop (B * ?k) d" "length (take (B * ?k) d) = B * ?k" by simp_all
    have g': "holds s0 (m @ take (B * ?k) d) ?g"
      using holds_blocks [OF g m s(2), of "drop (B * ?k) d"] by simp
    have lm: "length (m @ take (B * ?k) d) mod B = 0" "length m mod B = 0"
      using m s(2) by (simp_all add: dvd_eq_mod_eq_0)
    have short: "length (drop (B * ?k) d) < B"
      by (simp add: minus_mult_div_eq_mod B_pos)
    have "holds s0 ((m @ take (B * ?k) d) @ drop (B * ?k) d)
       (?g\<lparr>h_buf := blit (h_buf ?g) 0 (drop (B * ?k) d), h_bytes := h_bytes ?g + of_nat (length (drop (B * ?k) d))\<rparr>)"
      using holds_short [OF g', of "drop (B * ?k) d"] short unfolding lm by simp
    moreover have "drop (B * ?k) d = [] \<Longrightarrow> holds s0 (m @ d) ?g"
      using g' by (metis append_Nil2 append_take_drop_id)
    ultimately show ?thesis using True lm by (simp add: whole_blocks_def Let_def)
  next
    case False
    then have "length m mod B + length d < B" using ok by (auto simp: dvd_eq_mod_eq_0)
    from holds_short [OF g this] g False show ?thesis by (simp add: whole_blocks_def)
  qed
  show ?thesis
  proof (cases "?b \<noteq> 0 \<and> B \<le> ?b + length data")
    case True
    let ?d = "take (B - ?b) data"
    have "B - ?b \<le> length data" using True by linarith
    then have l: "length ?d = B - ?b" by simp
    note filled = holds_filled [OF h _ l, simplified l]
    have "length (msg @ ?d) = (length msg - ?b) + B"
      using True B_pos l by (simp add: less_imp_le_nat [OF mod_less_divisor])
    then have dv: "B dvd length (msg @ ?d)"
      by (metis dvd_add_triv_right_iff dvd_minus_mod)
    then have z: "length (msg @ ?d) mod B = 0" by (simp only: dvd_eq_mod_eq_0)
    have "holds s0 ((msg @ ?d) @ drop (B - ?b) data) (stream_write B tr data h)"
      unfolding stream_write_def fill_buffer_def b Let_def
      using True rest [OF filled disjI1 [OF dv], of "drop (B - ?b) data", unfolded z] by simp
    then show ?thesis by simp
  next
    case False
    then have "B dvd length msg \<or> ?b + length data < B" by (auto simp: dvd_eq_mod_eq_0)
    with rest [OF h this] False show ?thesis by (auto simp: stream_write_def fill_buffer_def b Let_def)
  qed
qed

lemma holds_writes: "holds s0 msg h \<Longrightarrow> holds s0 (msg @ concat ds) (foldl (\<lambda>h d. stream_write B tr d h) h ds)"
proof (induction ds arbitrary: msg h)
  case Nil
  then show ?case by simp
next
  case (Cons d ds)
  from Cons.IH [OF holds_write [OF Cons.prems, of d]] show ?case by simp
qed

lemma padding_matches:
  "take (1 + (B + (B - size_len - 1) - n mod B) mod B) (0x80 # replicate (B - 1) 0)
   = (0x80 :: byte) # replicate (zeros_needed B size_len n) 0"
proof -
  have r: "n mod B < B" using B_pos by simp
  have "(B + (B - size_len - 1) - n mod B) mod B = zeros_needed B size_len n"
  proof (cases "n mod B + 1 + size_len < B")
    case True
    have "(n + 1 + size_len) mod B = (n mod B + (1 + size_len)) mod B"
      unfolding add.assoc by (rule mod_add_left_eq [symmetric])
    also have "\<dots> = n mod B + 1 + size_len" using True by simp
    finally have m: "(n + 1 + size_len) mod B = n mod B + 1 + size_len" .
    have "B + (B - size_len - 1) - n mod B = (B - (n mod B + 1 + size_len)) + B" using True by simp
    then show ?thesis unfolding zeros_needed_def m by (simp only: mod_add_self2)
  next
    case False
    have "(n + 1 + size_len) mod B = (n mod B + (1 + size_len)) mod B"
      unfolding add.assoc by (rule mod_add_left_eq [symmetric])
    also have "\<dots> = (n mod B + 1 + size_len - B) mod B" using False by (simp add: le_mod_geq)
    also have "\<dots> = n mod B + 1 + size_len - B" using r size_fits by (intro mod_less) linarith
    finally have m: "(n + 1 + size_len) mod B = n mod B + 1 + size_len - B" .
    have "B + (B - size_len - 1) - n mod B = B - (n mod B + 1 + size_len - B)" using False r size_fits by simp
    then show ?thesis unfolding zeros_needed_def m by (simp only:)
  qed
  moreover have "zeros_needed B size_len n < B" using B_pos by (simp add: zeros_needed_def)
  ultimately show ?thesis by simp
qed

lemma length_padded: "B dvd length (padded_message B enc size_len msg)"
proof -
  let ?n = "length msg + 1 + size_len"
  have "(?n + (B - ?n mod B) mod B) mod B = (?n mod B + (B - ?n mod B)) mod B"
    by (simp only: mod_add_right_eq mod_add_left_eq)
  also have "\<dots> = 0" using B_pos by (simp add: less_imp_le_nat)
  finally have "(?n + zeros_needed B size_len (length msg)) mod B = 0" by (simp only: zeros_needed_def)
  moreover have "length (padded_message B enc size_len msg) = ?n + zeros_needed B size_len (length msg)"
    by (simp add: padded_message_def enc_length)
  ultimately show ?thesis by (simp only: dvd_eq_mod_eq_0)
qed

theorem finalize_is_hash:
  assumes "holds s0 msg h"
  shows "stream_finalize B tr enc size_len h = fold_blocks B f s0 (padded_message B enc size_len msg)"
proof -
  have bytes: "h_bytes h = of_nat (length msg)" using assms by (elim holdsE)
  then have b: "unat (h_bytes h) mod B = length msg mod B" by (simp add: bytes_mod)
  have bits: "push_bit 3 (h_bytes h) = of_nat (8 * length msg)"
    by (simp add: bytes push_bit_eq_mult)
  let ?p = "0x80 # replicate (zeros_needed B size_len (length msg)) 0"
  let ?h = "stream_write B tr (enc (of_nat (8 * length msg))) (stream_write B tr ?p h)"
  have "holds s0 (padded_message B enc size_len msg) ?h"
    using holds_write [OF holds_write [OF assms], of ?p "enc (of_nat (8 * length msg))"]
    by (simp add: padded_message_def)
  then obtain whole rest n where w: "padded_message B enc size_len msg = whole @ rest" "length whole = B * n"
    "length rest < B" "h_state ?h = fold_blocks B f s0 whole"
    by (elim holdsE) blast
  have "length rest = length (padded_message B enc size_len msg) mod B" using w(1-3) by simp
  then have "rest = []" using length_padded by (simp add: dvd_eq_mod_eq_0)
  with w have "h_state ?h = fold_blocks B f s0 (padded_message B enc size_len msg)" by simp
  then show ?thesis
    unfolding stream_finalize_def Let_def b bits padding_matches .
qed

text \<open>Writing pieces and finalizing is hashing their concatenation.\<close>

theorem hash_of_pieces:
  assumes "length buf = B"
  shows "stream_finalize B tr enc size_len
      (foldl (\<lambda>h d. stream_write B tr d h) \<lparr>h_state = s0, h_buf = buf, h_bytes = 0\<rparr> ds)
    = fold_blocks B f s0 (padded_message B enc size_len (concat ds))"
  using finalize_is_hash [OF holds_writes [OF holds_new [OF assms], of s0 ds]] by simp

end

end
