(* ===== verification/HashRounds.thy ===== *)
theory HashRounds
  imports HashStream
begin

section \<open>Unrolled rounds\<close>

text \<open>
  The transforms of \<open>sha1.cpp\<close>, \<open>sha256.cpp\<close>, \<open>sha512.cpp\<close> and \<open>ripemd160.cpp\<close> are written out round by
  round: the working variables stay where they are and the arguments of \<open>Round\<close> move by one place
  from call to call; the sixteen words of the message are updated in place. The standards move the
  variables and keep all words. Both forms are defined here, and shown to agree.
\<close>

unbundle bit_operations_syntax

subsection \<open>Working variables\<close>

text \<open>
  Call number \<open>i\<close> of a round \<open>f\<close>: its arguments are the variables moved \<open>i\<close> places to the right, and
  what it assigns goes back to where the variables are.
\<close>

definition call_rotated :: "('a list \<Rightarrow> 'a list) \<Rightarrow> nat \<Rightarrow> 'a list \<Rightarrow> 'a list" where
  "call_rotated f i v = rotate i (f (rotate ((length v - 1) * i) v))"

text \<open>The standard's form: the round, and then every variable moves to the next place.\<close>

definition move_on :: "('a list \<Rightarrow> 'a list) \<Rightarrow> 'a list \<Rightarrow> 'a list" where
  "move_on f v = rotate (length v - 1) (f v)"

lemma length_call_rotated [simp]: "(\<And>v. length (f v) = length v) \<Longrightarrow> length (call_rotated f i v) = length v"
  by (simp add: call_rotated_def)

lemma length_move_on [simp]: "(\<And>v. length (f v) = length v) \<Longrightarrow> length (move_on f v) = length v"
  by (simp add: move_on_def)

lemma rotate_multiple: "rotate (length v * i) v = v"
  by (metis mod_mult_self1_is_0 rotate_conv_mod rotate_id)

lemma rotate_call:
  assumes "\<And>v. length (f v) = length v" "v \<noteq> []"
  shows "rotate ((length v - 1) * Suc i) (call_rotated f i v) = move_on f (rotate ((length v - 1) * i) v)"
proof -
  let ?n = "length v" and ?w = "f (rotate ((length v - 1) * i) v)"
  have n: "length ?w = ?n" by (simp add: assms(1))
  have "(?n - 1) * Suc i + i = (?n - 1) + ?n * i" using assms(2) by (cases ?n) simp_all
  then have "rotate ((?n - 1) * Suc i + i) ?w = rotate (?n - 1) (rotate (?n * i) ?w)"
    by (simp only: rotate_rotate)
  also have "rotate (?n * i) ?w = ?w" using rotate_multiple [of ?w i] n by simp
  finally show ?thesis by (simp add: call_rotated_def move_on_def rotate_rotate)
qed

text \<open>After a number of calls that brings the arguments back, both forms have the same variables.\<close>

lemma calls_are_moves:
  assumes f: "\<And>i v. length (f i v) = length v" and v: "v \<noteq> []"
  shows "rotate ((length v - 1) * n) (foldl (\<lambda>v i. call_rotated (f i) i v) v [0..<n])
       = foldl (\<lambda>v i. move_on (f i) v) v [0..<n]
     \<and> length (foldl (\<lambda>v i. call_rotated (f i) i v) v [0..<n]) = length v"
proof (induction n)
  case 0
  show ?case by simp
next
  case (Suc n)
  let ?c = "foldl (\<lambda>v i. call_rotated (f i) i v) v [0..<n]"
  have l: "length ?c = length v" using Suc.IH by simp
  then have ne: "?c \<noteq> []" using v by auto
  have "rotate ((length v - 1) * Suc n) (call_rotated (f n) n ?c) = move_on (f n) (rotate ((length v - 1) * n) ?c)"
    using rotate_call [OF f ne, of n] l by simp
  then show ?case using Suc.IH l by (simp add: f)
qed

theorem unrolled_rounds:
  assumes "\<And>i v. length (f i v) = length v" "v \<noteq> []" "length v dvd n"
  shows "foldl (\<lambda>v i. call_rotated (f i) i v) v [0..<n] = foldl (\<lambda>v i. move_on (f i) v) v [0..<n]"
proof -
  let ?c = "foldl (\<lambda>v i. call_rotated (f i) i v) v [0..<n]"
  from assms(3) obtain k where k: "n = length v * k" ..
  have l: "length ?c = length v" and e: "rotate ((length v - 1) * n) ?c = foldl (\<lambda>v i. move_on (f i) v) v [0..<n]"
    using calls_are_moves [of f v n, OF assms(1,2)] by simp_all
  have "(length v - 1) * n = length ?c * ((length v - 1) * k)" using k l by simp
  then have "rotate ((length v - 1) * n) ?c = ?c" by (simp only: rotate_multiple)
  with e show ?thesis by simp
qed

subsection \<open>The words of the message\<close>

text \<open>
  The standard's schedule: the sixteen words of the block, and each later word from the sixteen
  before it; \<open>g\<close> is given a function that finds the word \<open>k\<close> places after the oldest.
\<close>

primrec schedule_words :: "((nat \<Rightarrow> 'a) \<Rightarrow> 'a) \<Rightarrow> (nat \<Rightarrow> 'a) \<Rightarrow> nat \<Rightarrow> 'a list" where
  "schedule_words g m 0 = []"
| "schedule_words g m (Suc t) =
     (let w = schedule_words g m t in w @ [if t < 16 then m t else g (\<lambda>k. w ! (t - 16 + k))])"

text \<open>The code: word number \<open>t\<close> is kept in place \<open>t mod 16\<close>.\<close>

definition ring_step :: "((nat \<Rightarrow> 'a) \<Rightarrow> 'a) \<Rightarrow> (nat \<Rightarrow> 'a) \<Rightarrow> nat \<Rightarrow> 'a list \<Rightarrow> 'a list" where
  "ring_step g m t ws = ws[t mod 16 := if t < 16 then m t else g (\<lambda>k. ws ! ((t + k) mod 16))]"

lemma length_schedule_words [simp]: "length (schedule_words g m t) = t"
  by (induction t) (simp_all add: Let_def)

lemma schedule_words_prefix: "k < t \<Longrightarrow> schedule_words g m (t + u) ! k = schedule_words g m t ! k"
  by (induction u) (simp_all add: Let_def nth_append)

lemma schedule_words_nth: "k < t \<Longrightarrow> schedule_words g m t ! k = schedule_words g m (Suc k) ! k"
  using schedule_words_prefix [of k "Suc k" g m "t - Suc k"] by simp

text \<open>\<open>g\<close> looks at the last sixteen words only.\<close>

definition looks_back :: "((nat \<Rightarrow> 'a) \<Rightarrow> 'a) \<Rightarrow> bool" where
  "looks_back g \<longleftrightarrow> (\<forall>p q. (\<forall>k<16. p k = q k) \<longrightarrow> g p = g q)"

lemma looks_backD: "looks_back g \<Longrightarrow> (\<And>k. k < 16 \<Longrightarrow> p k = q k) \<Longrightarrow> g p = g q"
  by (simp add: looks_back_def)

lemma ring_is_schedule:
  assumes g: "looks_back g" and "length ws = 16"
  shows "length (foldl (\<lambda>ws t. ring_step g m t ws) ws [0..<n]) = 16
     \<and> (\<forall>k<n. n \<le> k + 16 \<longrightarrow> foldl (\<lambda>ws t. ring_step g m t ws) ws [0..<n] ! (k mod 16) = schedule_words g m n ! k)"
proof (induction n)
  case 0
  show ?case using assms(2) by simp
next
  case (Suc n)
  let ?r = "foldl (\<lambda>ws t. ring_step g m t ws) ws [0..<n]"
  let ?w = "schedule_words g m n"
  let ?x = "if n < 16 then m n else g (\<lambda>k. ?w ! (n - 16 + k))"
  have l: "length ?r = 16" and r: "\<And>k. k < n \<Longrightarrow> n \<le> k + 16 \<Longrightarrow> ?r ! (k mod 16) = ?w ! k"
    using Suc.IH by auto
  have x: "(if n < 16 then m n else g (\<lambda>k. ?r ! ((n + k) mod 16))) = ?x"
  proof (cases "n < 16")
    case False
    have "?r ! ((n + k) mod 16) = ?w ! (n - 16 + k)" if "k < 16" for k
    proof -
      have "(n + k) mod 16 = (n - 16 + k) mod 16" using False by (simp add: le_mod_geq)
      then show ?thesis using r [of "n - 16 + k"] that False by simp
    qed
    then have "g (\<lambda>k. ?r ! ((n + k) mod 16)) = g (\<lambda>k. ?w ! (n - 16 + k))"
      by (rule looks_backD [OF g])
    with False show ?thesis by simp
  qed simp
  have "(?r[n mod 16 := ?x]) ! (k mod 16) = (?w @ [?x]) ! k" if "k < Suc n" "Suc n \<le> k + 16" for k
  proof (cases "k = n")
    case True
    then show ?thesis using l by (simp add: nth_append)
  next
    case False
    then have "k < n" using that by simp
    moreover have "k mod 16 \<noteq> n mod 16"
    proof
      assume "k mod 16 = n mod 16"
      then have "n mod 16 = k mod 16" by simp
      then have "16 dvd n - k" using \<open>k < n\<close> by (metis mod_eq_dvd_iff_nat less_imp_le)
      with \<open>k < n\<close> that show False by (auto dest: dvd_imp_le)
    qed
    ultimately show ?thesis using r [of k] that by (simp add: nth_append)
  qed
  moreover have "foldl (\<lambda>ws t. ring_step g m t ws) ws [0..<Suc n] = ?r[n mod 16 := ?x]"
    unfolding x [symmetric] by (simp add: ring_step_def [of _ _ n])
  moreover have "schedule_words g m (Suc n) = ?w @ [?x]" by (simp add: Let_def)
  ultimately show ?case using l by (simp del: upt_Suc schedule_words.simps)
qed

lemma ring_newest:
  assumes "looks_back g" "length ws = 16"
  shows "foldl (\<lambda>ws t. ring_step g m t ws) ws [0..<Suc n] ! (n mod 16) = schedule_words g m (Suc n) ! n"
  using ring_is_schedule [OF assms, of m "Suc n"] by (simp del: upt_Suc)

subsection \<open>Both together\<close>

text \<open>
  A transform in the code's form: each step computes its word and calls the round with it. The
  round is given the number of the step and the word.
\<close>

definition unrolled ::
  "(nat \<Rightarrow> 'a \<Rightarrow> 'a list \<Rightarrow> 'a list) \<Rightarrow> ((nat \<Rightarrow> 'a) \<Rightarrow> 'a) \<Rightarrow> (nat \<Rightarrow> 'a) \<Rightarrow> nat \<Rightarrow> 'a list \<times> 'a list \<Rightarrow> 'a list \<times> 'a list" where
  "unrolled f g m n vw =
     foldl (\<lambda>(v, ws) t. let ws = ring_step g m t ws in (call_rotated (f t (ws ! (t mod 16))) t v, ws)) vw [0..<n]"

definition rounds ::
  "(nat \<Rightarrow> 'a \<Rightarrow> 'a list \<Rightarrow> 'a list) \<Rightarrow> ((nat \<Rightarrow> 'a) \<Rightarrow> 'a) \<Rightarrow> (nat \<Rightarrow> 'a) \<Rightarrow> nat \<Rightarrow> 'a list \<Rightarrow> 'a list" where
  "rounds f g m n v = foldl (\<lambda>v t. move_on (f t (schedule_words g m n ! t)) v) v [0..<n]"

lemma unrolled_Suc:
  "unrolled f g m (Suc k) vw =
     (case unrolled f g m k vw of
        (v, ws) \<Rightarrow> (call_rotated (f k (ring_step g m k ws ! (k mod 16))) k v, ring_step g m k ws))"
  by (simp add: unrolled_def Let_def split: prod.split)

lemma unrolled_split:
  assumes "looks_back g" "length ws = 16" "k \<le> n"
  shows "unrolled f g m k (v, ws) =
     (foldl (\<lambda>v t. call_rotated (f t (schedule_words g m n ! t)) t v) v [0..<k],
      foldl (\<lambda>ws t. ring_step g m t ws) ws [0..<k])"
  using assms(3)
proof (induction k)
  case 0
  show ?case by (simp add: unrolled_def)
next
  case (Suc k)
  let ?r = "foldl (\<lambda>ws t. ring_step g m t ws) ws [0..<k]"
  have "ring_step g m k ?r ! (k mod 16) = schedule_words g m (Suc k) ! k"
    using ring_newest [OF assms(1,2), of m k] by (simp del: schedule_words.simps)
  also have "\<dots> = schedule_words g m n ! k" using Suc.prems by (intro schedule_words_nth [symmetric]) simp
  finally have e: "ring_step g m k ?r ! (k mod 16) = schedule_words g m n ! k" .
  have "unrolled f g m k (v, ws) =
     (foldl (\<lambda>v t. call_rotated (f t (schedule_words g m n ! t)) t v) v [0..<k], ?r)"
    using Suc by simp
  then show ?case by (simp only: unrolled_Suc prod.case e) simp
qed

theorem unrolled_is_rounds:
  assumes "looks_back g" "length ws = 16" "\<And>t w v. length (f t w v) = length v" "v \<noteq> []" "length v dvd n"
  shows "fst (unrolled f g m n (v, ws)) = rounds f g m n v"
  using unrolled_split [OF assms(1,2) order_refl, of f m n v]
    unrolled_rounds [of "\<lambda>t. f t (schedule_words g m n ! t)", OF assms(3-5)]
  by (simp add: rounds_def)

end
