(* ===== verification/Sha2.thy ===== *)
theory Sha2
  imports HashRounds
begin

section \<open>SHA-256 and SHA-512\<close>

text \<open>
  \<open>server/src/crypto/sha256.cpp\<close> and \<open>sha512.cpp\<close>: the transforms as they are written (unrolled, words
  in place), the classes, and the functions of FIPS 180-4 they are shown to compute. In the last two
  rounds of \<open>sha256.cpp\<close> the word is computed and not stored; the model stores it, nobody reads it.
\<close>

unbundle bit_operations_syntax

subsection \<open>The functions\<close>

definition Ch :: "'a::len word \<Rightarrow> 'a word \<Rightarrow> 'a word \<Rightarrow> 'a word" where
  "Ch x y z = z XOR (x AND (y XOR z))"

definition Maj :: "'a::len word \<Rightarrow> 'a word \<Rightarrow> 'a word \<Rightarrow> 'a word" where
  "Maj x y z = (x AND y) OR (z AND (x OR y))"

text \<open>\<open>x >> n | x << (w - n)\<close>\<close>

definition ror_by :: "nat \<Rightarrow> 'a::len word \<Rightarrow> 'a word" where
  "ror_by n x = drop_bit n x OR push_bit (LENGTH('a) - n) x"

definition sha256_Sigma0 :: "32 word \<Rightarrow> 32 word" where
  "sha256_Sigma0 x = ror_by 2 x XOR ror_by 13 x XOR ror_by 22 x"
definition sha256_Sigma1 :: "32 word \<Rightarrow> 32 word" where
  "sha256_Sigma1 x = ror_by 6 x XOR ror_by 11 x XOR ror_by 25 x"
definition sha256_sigma0 :: "32 word \<Rightarrow> 32 word" where
  "sha256_sigma0 x = ror_by 7 x XOR ror_by 18 x XOR drop_bit 3 x"
definition sha256_sigma1 :: "32 word \<Rightarrow> 32 word" where
  "sha256_sigma1 x = ror_by 17 x XOR ror_by 19 x XOR drop_bit 10 x"

definition sha512_Sigma0 :: "64 word \<Rightarrow> 64 word" where
  "sha512_Sigma0 x = ror_by 28 x XOR ror_by 34 x XOR ror_by 39 x"
definition sha512_Sigma1 :: "64 word \<Rightarrow> 64 word" where
  "sha512_Sigma1 x = ror_by 14 x XOR ror_by 18 x XOR ror_by 41 x"
definition sha512_sigma0 :: "64 word \<Rightarrow> 64 word" where
  "sha512_sigma0 x = ror_by 1 x XOR ror_by 8 x XOR drop_bit 7 x"
definition sha512_sigma1 :: "64 word \<Rightarrow> 64 word" where
  "sha512_sigma1 x = ror_by 19 x XOR ror_by 61 x XOR drop_bit 6 x"

text \<open>\<open>Round\<close> assigns its fourth and its eighth argument.\<close>

definition sha2_round ::
  "('a::len word \<Rightarrow> 'a word) \<Rightarrow> ('a word \<Rightarrow> 'a word) \<Rightarrow> 'a word \<Rightarrow> 'a word \<Rightarrow> 'a word list \<Rightarrow> 'a word list" where
  "sha2_round S0 S1 k w v =
     (case v of
        [a, b, c, d, e, f, g, h] \<Rightarrow>
          (let t1 = h + S1 e + Ch e f g + k + w; t2 = S0 a + Maj a b c
           in [a, b, c, d + t1, e, f, g, t1 + t2])
      | _ \<Rightarrow> v)"

text \<open>\<open>w0 += sigma1(w14) + w9 + sigma0(w1)\<close>, and so on.\<close>

definition sha2_word :: "('a::len word \<Rightarrow> 'a word) \<Rightarrow> ('a word \<Rightarrow> 'a word) \<Rightarrow> (nat \<Rightarrow> 'a word) \<Rightarrow> 'a word" where
  "sha2_word s0 s1 w = w 0 + (s1 (w 14) + w 9 + s0 (w 1))"

subsection \<open>The transforms\<close>

definition sha256_init :: "32 word list" where
  "sha256_init =
     [0x6a09e667, 0xbb67ae85, 0x3c6ef372, 0xa54ff53a, 0x510e527f, 0x9b05688c, 0x1f83d9ab, 0x5be0cd19]"

definition sha256_K :: "32 word list" where
  "sha256_K =
     [0x428a2f98, 0x71374491, 0xb5c0fbcf, 0xe9b5dba5, 0x3956c25b, 0x59f111f1,
      0x923f82a4, 0xab1c5ed5, 0xd807aa98, 0x12835b01, 0x243185be, 0x550c7dc3,
      0x72be5d74, 0x80deb1fe, 0x9bdc06a7, 0xc19bf174, 0xe49b69c1, 0xefbe4786,
      0x0fc19dc6, 0x240ca1cc, 0x2de92c6f, 0x4a7484aa, 0x5cb0a9dc, 0x76f988da,
      0x983e5152, 0xa831c66d, 0xb00327c8, 0xbf597fc7, 0xc6e00bf3, 0xd5a79147,
      0x06ca6351, 0x14292967, 0x27b70a85, 0x2e1b2138, 0x4d2c6dfc, 0x53380d13,
      0x650a7354, 0x766a0abb, 0x81c2c92e, 0x92722c85, 0xa2bfe8a1, 0xa81a664b,
      0xc24b8b70, 0xc76c51a3, 0xd192e819, 0xd6990624, 0xf40e3585, 0x106aa070,
      0x19a4c116, 0x1e376c08, 0x2748774c, 0x34b0bcb5, 0x391c0cb3, 0x4ed8aa4a,
      0x5b9cca4f, 0x682e6ff3, 0x748f82ee, 0x78a5636f, 0x84c87814, 0x8cc70208,
      0x90befffa, 0xa4506ceb, 0xbef9a3f7, 0xc67178f2]"

definition chunk_word :: "nat \<Rightarrow> byte list \<Rightarrow> nat \<Rightarrow> 'a::len word" where
  "chunk_word n chunk t = read_be (take n (drop (n * t) chunk))"

definition sha256_block :: "32 word list \<Rightarrow> byte list \<Rightarrow> 32 word list" where
  "sha256_block s chunk =
     map2 (+) s (fst (unrolled (\<lambda>t w. sha2_round sha256_Sigma0 sha256_Sigma1 (sha256_K ! t) w)
                       (sha2_word sha256_sigma0 sha256_sigma1) (chunk_word 4 chunk) 64 (s, replicate 16 0)))"

definition sha256_transform :: "32 word list \<Rightarrow> byte list \<Rightarrow> nat \<Rightarrow> 32 word list" where
  "sha256_transform s chunk blocks = each_block 64 sha256_block s chunk blocks"

definition sha512_init :: "64 word list" where
  "sha512_init =
     [0x6a09e667f3bcc908, 0xbb67ae8584caa73b, 0x3c6ef372fe94f82b, 0xa54ff53a5f1d36f1,
      0x510e527fade682d1, 0x9b05688c2b3e6c1f, 0x1f83d9abfb41bd6b, 0x5be0cd19137e2179]"

definition sha512_K :: "64 word list" where
  "sha512_K =
     [0x428a2f98d728ae22, 0x7137449123ef65cd, 0xb5c0fbcfec4d3b2f, 0xe9b5dba58189dbbc,
      0x3956c25bf348b538, 0x59f111f1b605d019, 0x923f82a4af194f9b, 0xab1c5ed5da6d8118,
      0xd807aa98a3030242, 0x12835b0145706fbe, 0x243185be4ee4b28c, 0x550c7dc3d5ffb4e2,
      0x72be5d74f27b896f, 0x80deb1fe3b1696b1, 0x9bdc06a725c71235, 0xc19bf174cf692694,
      0xe49b69c19ef14ad2, 0xefbe4786384f25e3, 0x0fc19dc68b8cd5b5, 0x240ca1cc77ac9c65,
      0x2de92c6f592b0275, 0x4a7484aa6ea6e483, 0x5cb0a9dcbd41fbd4, 0x76f988da831153b5,
      0x983e5152ee66dfab, 0xa831c66d2db43210, 0xb00327c898fb213f, 0xbf597fc7beef0ee4,
      0xc6e00bf33da88fc2, 0xd5a79147930aa725, 0x06ca6351e003826f, 0x142929670a0e6e70,
      0x27b70a8546d22ffc, 0x2e1b21385c26c926, 0x4d2c6dfc5ac42aed, 0x53380d139d95b3df,
      0x650a73548baf63de, 0x766a0abb3c77b2a8, 0x81c2c92e47edaee6, 0x92722c851482353b,
      0xa2bfe8a14cf10364, 0xa81a664bbc423001, 0xc24b8b70d0f89791, 0xc76c51a30654be30,
      0xd192e819d6ef5218, 0xd69906245565a910, 0xf40e35855771202a, 0x106aa07032bbd1b8,
      0x19a4c116b8d2d0c8, 0x1e376c085141ab53, 0x2748774cdf8eeb99, 0x34b0bcb5e19b48a8,
      0x391c0cb3c5c95a63, 0x4ed8aa4ae3418acb, 0x5b9cca4f7763e373, 0x682e6ff3d6b2b8a3,
      0x748f82ee5defb2fc, 0x78a5636f43172f60, 0x84c87814a1f0ab72, 0x8cc702081a6439ec,
      0x90befffa23631e28, 0xa4506cebde82bde9, 0xbef9a3f7b2c67915, 0xc67178f2e372532b,
      0xca273eceea26619c, 0xd186b8c721c0c207, 0xeada7dd6cde0eb1e, 0xf57d4f7fee6ed178,
      0x06f067aa72176fba, 0x0a637dc5a2c898a6, 0x113f9804bef90dae, 0x1b710b35131c471b,
      0x28db77f523047d84, 0x32caab7b40c72493, 0x3c9ebe0a15c9bebc, 0x431d67c49c100d4c,
      0x4cc5d4becb3e42b6, 0x597f299cfc657e2a, 0x5fcb6fab3ad6faec, 0x6c44198c4a475817]"

definition sha512_transform :: "64 word list \<Rightarrow> byte list \<Rightarrow> 64 word list" where
  "sha512_transform s chunk =
     map2 (+) s (fst (unrolled (\<lambda>t w. sha2_round sha512_Sigma0 sha512_Sigma1 (sha512_K ! t) w)
                       (sha2_word sha512_sigma0 sha512_sigma1) (chunk_word 8 chunk) 80 (s, replicate 16 0)))"

subsection \<open>The classes\<close>

text \<open>The buffer is not initialised by the constructors: its content is an argument.\<close>

definition new_sha256 :: "byte list \<Rightarrow> 32 word list hasher" where
  "new_sha256 buf = \<lparr>h_state = sha256_init, h_buf = buf, h_bytes = 0\<rparr>"

definition sha256_write :: "byte list \<Rightarrow> 32 word list hasher \<Rightarrow> 32 word list hasher" where
  "sha256_write data h = stream_write 64 sha256_transform data h"

definition sha256_finalize :: "32 word list hasher \<Rightarrow> byte list" where
  "sha256_finalize h = concat (map (write_be 4) (stream_finalize 64 sha256_transform (write_be 8) 8 h))"

definition sha256_reset :: "32 word list hasher \<Rightarrow> 32 word list hasher" where
  "sha256_reset h = h\<lparr>h_bytes := 0, h_state := sha256_init\<rparr>"

definition new_sha512 :: "byte list \<Rightarrow> 64 word list hasher" where
  "new_sha512 buf = \<lparr>h_state = sha512_init, h_buf = buf, h_bytes = 0\<rparr>"

definition sha512_write :: "byte list \<Rightarrow> 64 word list hasher \<Rightarrow> 64 word list hasher" where
  "sha512_write data h = stream_write 128 (each_block 128 sha512_transform) data h"

definition sha512_size :: "64 word \<Rightarrow> byte list" where
  "sha512_size n = replicate 8 0 @ write_be 8 n"

definition sha512_finalize :: "64 word list hasher \<Rightarrow> byte list" where
  "sha512_finalize h =
     concat (map (write_be 8) (stream_finalize 128 (each_block 128 sha512_transform) sha512_size 16 h))"

definition sha512_reset :: "64 word list hasher \<Rightarrow> 64 word list hasher" where
  "sha512_reset h = h\<lparr>h_bytes := 0, h_state := sha512_init\<rparr>"

subsection \<open>The standard\<close>

text \<open>FIPS 180-4: the functions of section 4.1, the schedule and the rounds of 6.2.2 and 6.4.2.\<close>

definition fips_Ch :: "'a::len word \<Rightarrow> 'a word \<Rightarrow> 'a word \<Rightarrow> 'a word" where
  "fips_Ch x y z = (x AND y) XOR (NOT x AND z)"

definition fips_Maj :: "'a::len word \<Rightarrow> 'a word \<Rightarrow> 'a word \<Rightarrow> 'a word" where
  "fips_Maj x y z = (x AND y) XOR (x AND z) XOR (y AND z)"

definition fips_Sigma :: "nat \<Rightarrow> nat \<Rightarrow> nat \<Rightarrow> 'a::len word \<Rightarrow> 'a word" where
  "fips_Sigma i j k x = word_rotr i x XOR word_rotr j x XOR word_rotr k x"

definition fips_sigma :: "nat \<Rightarrow> nat \<Rightarrow> nat \<Rightarrow> 'a::len word \<Rightarrow> 'a word" where
  "fips_sigma i j k x = word_rotr i x XOR word_rotr j x XOR drop_bit k x"

definition fips_round ::
  "('a::len word \<Rightarrow> 'a word) \<Rightarrow> ('a word \<Rightarrow> 'a word) \<Rightarrow> 'a word \<Rightarrow> 'a word \<Rightarrow> 'a word list \<Rightarrow> 'a word list" where
  "fips_round S0 S1 k w v =
     (case v of
        [a, b, c, d, e, f, g, h] \<Rightarrow>
          (let t1 = h + S1 e + fips_Ch e f g + k + w; t2 = S0 a + fips_Maj a b c
           in [t1 + t2, a, b, c, d + t1, e, f, g])
      | _ \<Rightarrow> v)"

text \<open>\<open>W\<^sub>t\<close>: the words of the block, then \<open>s1 W\<^sub>t\<^sub>-\<^sub>2 + W\<^sub>t\<^sub>-\<^sub>7 + s0 W\<^sub>t\<^sub>-\<^sub>1\<^sub>5 + W\<^sub>t\<^sub>-\<^sub>1\<^sub>6\<close>.\<close>

definition fips_schedule ::
  "('a::len word \<Rightarrow> 'a word) \<Rightarrow> ('a word \<Rightarrow> 'a word) \<Rightarrow> (nat \<Rightarrow> 'a word) \<Rightarrow> nat \<Rightarrow> 'a word list" where
  "fips_schedule s0 s1 = schedule_words (\<lambda>w. s1 (w 14) + w 9 + s0 (w 1) + w 0)"

definition fips_compress ::
  "('a::len word \<Rightarrow> 'a word) \<Rightarrow> ('a word \<Rightarrow> 'a word) \<Rightarrow> ('a word \<Rightarrow> 'a word) \<Rightarrow> ('a word \<Rightarrow> 'a word) \<Rightarrow>
   'a word list \<Rightarrow> nat \<Rightarrow> 'a word list \<Rightarrow> byte list \<Rightarrow> 'a word list" where
  "fips_compress S0 S1 s0 s1 K rs v block =
     map2 (+) v
       (foldl (\<lambda>v t. fips_round S0 S1 (K ! t) (fips_schedule s0 s1 (chunk_word (LENGTH('a) div 8) block) rs ! t) v)
          v [0..<rs])"

definition sha256_compress :: "32 word list \<Rightarrow> byte list \<Rightarrow> 32 word list" where
  "sha256_compress =
     fips_compress (fips_Sigma 2 13 22) (fips_Sigma 6 11 25) (fips_sigma 7 18 3) (fips_sigma 17 19 10) sha256_K 64"

definition sha512_compress :: "64 word list \<Rightarrow> byte list \<Rightarrow> 64 word list" where
  "sha512_compress =
     fips_compress (fips_Sigma 28 34 39) (fips_Sigma 14 18 41) (fips_sigma 1 8 7) (fips_sigma 19 61 6) sha512_K 80"

definition sha256 :: "byte list \<Rightarrow> byte list" where
  "sha256 msg = concat (map (write_be 4)
     (fold_blocks 64 sha256_compress sha256_init (padded_message 64 (write_be 8) 8 msg)))"

definition sha512 :: "byte list \<Rightarrow> byte list" where
  "sha512 msg = concat (map (write_be 8)
     (fold_blocks 128 sha512_compress sha512_init (padded_message 128 sha512_size 16 msg)))"

subsection \<open>The code computes the standard\<close>

lemma Ch_fips: "Ch = fips_Ch"
  by (intro ext bit_eqI) (auto simp: Ch_def fips_Ch_def bit_simps)

lemma Maj_fips: "Maj = fips_Maj"
  by (intro ext bit_eqI) (auto simp: Maj_def fips_Maj_def bit_simps)

lemma ror_by_rotr: "0 < n \<Longrightarrow> n < LENGTH('a) \<Longrightarrow> ror_by n (x :: 'a::len word) = word_rotr n x"
proof (rule bit_word_eqI)
  fix i
  assume n: "0 < n" "n < LENGTH('a)" and i: "i < LENGTH('a)"
  show "bit (ror_by n x) i = bit (word_rotr n x) i"
  proof (cases "i + n < LENGTH('a)")
    case True
    then have "\<not> LENGTH('a) - n \<le> i" by linarith
    with True i n show ?thesis by (simp add: ror_by_def bit_simps ac_simps)
  next
    case False
    with i n have "(i + n) mod LENGTH('a) = i - (LENGTH('a) - n)" by (simp add: le_mod_geq)
    with False i n show ?thesis by (auto simp: ror_by_def bit_simps ac_simps dest: bit_imp_le_length)
  qed
qed

lemma sha2_functions:
  "sha256_Sigma0 = fips_Sigma 2 13 22" "sha256_Sigma1 = fips_Sigma 6 11 25"
  "sha256_sigma0 = fips_sigma 7 18 3" "sha256_sigma1 = fips_sigma 17 19 10"
  "sha512_Sigma0 = fips_Sigma 28 34 39" "sha512_Sigma1 = fips_Sigma 14 18 41"
  "sha512_sigma0 = fips_sigma 1 8 7" "sha512_sigma1 = fips_sigma 19 61 6"
  by (simp_all add: fun_eq_iff sha256_Sigma0_def sha256_Sigma1_def sha256_sigma0_def sha256_sigma1_def
      sha512_Sigma0_def sha512_Sigma1_def sha512_sigma0_def sha512_sigma1_def fips_Sigma_def fips_sigma_def ror_by_rotr)

lemma length_sha2_round [simp]: "length (sha2_round S0 S1 k w v) = length v"
  by (auto simp: sha2_round_def Let_def split: list.split)

lemma length_8: "length v = 8 \<Longrightarrow> \<exists>a b c d e f g h. v = [a, b, c, d, e, f, g, h]"
  by (auto simp: numeral_eq_Suc length_Suc_conv)

lemma move_on_sha2_round: "length v = 8 \<Longrightarrow> move_on (sha2_round S0 S1 k w) v = fips_round S0 S1 k w v"
  by (drule length_8) (auto simp: move_on_def sha2_round_def fips_round_def Let_def Ch_fips Maj_fips rotate_drop_take)

lemma length_fips_round [simp]: "length (fips_round S0 S1 k w v) = length v"
  by (auto simp: fips_round_def Let_def split: list.split)

lemma rounds_fips:
  "length v = 8 \<Longrightarrow> rounds (\<lambda>t w. sha2_round S0 S1 (K t) w) g m n v
     = foldl (\<lambda>v t. fips_round S0 S1 (K t) (schedule_words g m n ! t) v) v [0..<n]"
proof -
  assume v: "length v = 8"
  have "foldl (\<lambda>v t. move_on (sha2_round S0 S1 (K t) (W t)) v) v [0..<k]
      = foldl (\<lambda>v t. fips_round S0 S1 (K t) (W t) v) v [0..<k]
      \<and> length (foldl (\<lambda>v t. fips_round S0 S1 (K t) (W t) v) v [0..<k]) = 8" for k W
    by (induction k) (simp_all add: v move_on_sha2_round)
  then show ?thesis by (simp add: rounds_def)
qed

lemma sha2_word_looks_back: "looks_back (sha2_word s0 s1)"
  by (simp add: looks_back_def sha2_word_def)

lemma sha2_block_is_compress:
  fixes v :: "'a::len word list"
  assumes "length v = 8" "8 dvd n"
  shows "fst (unrolled (\<lambda>t w. sha2_round S0 S1 (K ! t) w) (sha2_word s0 s1) m n (v, replicate 16 0))
       = foldl (\<lambda>v t. fips_round S0 S1 (K ! t) (fips_schedule s0 s1 m n ! t) v) v [0..<n]"
proof -
  have "sha2_word s0 s1 = (\<lambda>w. s1 (w 14) + w 9 + s0 (w 1) + w 0)"
    by (simp add: fun_eq_iff sha2_word_def ac_simps)
  moreover have "v \<noteq> []" using assms(1) by auto
  ultimately show ?thesis
    using unrolled_is_rounds [OF sha2_word_looks_back, of "replicate 16 0" "\<lambda>t w. sha2_round S0 S1 (K ! t) w" v n s0 s1 m]
      assms by (auto simp: rounds_fips fips_schedule_def)
qed

lemma sha256_block_is_compress: "length s = 8 \<Longrightarrow> sha256_block s = sha256_compress s"
  by (simp add: fun_eq_iff sha256_block_def sha256_compress_def fips_compress_def sha2_block_is_compress sha2_functions)

lemma sha512_transform_is_compress: "length s = 8 \<Longrightarrow> sha512_transform s = sha512_compress s"
  by (simp add: fun_eq_iff sha512_transform_def sha512_compress_def fips_compress_def sha2_block_is_compress sha2_functions)

lemma length_fips_compress: "length (fips_compress S0 S1 s0 s1 K rs v b) = length v"
proof -
  have "length (foldl (\<lambda>v t. fips_round S0 S1 (K ! t) (W t) v) v [0..<k]) = length v" for k W
    by (induction k) simp_all
  then show ?thesis by (simp add: fips_compress_def)
qed

interpretation sha256: block_hash 64 sha256_block sha256_transform "write_be 8" 8
  by unfold_locales (simp_all add: sha256_transform_def)

interpretation sha512: block_hash 128 sha512_transform "each_block 128 sha512_transform" sha512_size 16
  by unfold_locales (simp_all add: sha512_size_def)

lemma sha256_holds_finalize:
  assumes "sha256.holds sha256_init msg h"
  shows "sha256_finalize h = sha256 msg"
proof -
  have "fold_blocks 64 sha256_block sha256_init m = fold_blocks 64 sha256_compress sha256_init m" for m
    by (rule fold_blocks_agree [where n = 8]) (simp_all add: sha256_block_is_compress sha256_compress_def length_fips_compress sha256_init_def)
  then show ?thesis by (simp add: sha256_finalize_def sha256_def sha256.finalize_is_hash [OF assms])
qed

lemma sha512_holds_finalize:
  assumes "sha512.holds sha512_init msg h"
  shows "sha512_finalize h = sha512 msg"
proof -
  have "fold_blocks 128 sha512_transform sha512_init m = fold_blocks 128 sha512_compress sha512_init m" for m
    by (rule fold_blocks_agree [where n = 8]) (simp_all add: sha512_transform_is_compress sha512_compress_def length_fips_compress sha512_init_def)
  then show ?thesis by (simp add: sha512_finalize_def sha512_def sha512.finalize_is_hash [OF assms])
qed

lemma sha256_new_holds: "length buf = 64 \<Longrightarrow> sha256.holds sha256_init [] (new_sha256 buf)"
  by (simp add: new_sha256_def sha256.holds_new)

lemma sha512_new_holds: "length buf = 128 \<Longrightarrow> sha512.holds sha512_init [] (new_sha512 buf)"
  by (simp add: new_sha512_def sha512.holds_new)

lemma sha256_write_holds: "sha256.holds s msg h \<Longrightarrow> sha256.holds s (msg @ data) (sha256_write data h)"
  by (simp add: sha256_write_def sha256.holds_write)

lemma sha512_write_holds: "sha512.holds s msg h \<Longrightarrow> sha512.holds s (msg @ data) (sha512_write data h)"
  by (simp add: sha512_write_def sha512.holds_write)

lemma length_concat_words: "length (concat (map (write_be n) ws)) = n * length ws"
  by (induction ws) simp_all

lemma length_sha256 [simp]: "length (sha256 msg) = 32"
  by (simp add: sha256_def length_concat_words fold_blocks_length sha256_compress_def length_fips_compress sha256_init_def)

lemma length_sha512 [simp]: "length (sha512 msg) = 64"
  by (simp add: sha512_def length_concat_words fold_blocks_length sha512_compress_def length_fips_compress sha512_init_def)

end
