(* ===== verification/Sha1Ripemd.thy ===== *)
theory Sha1Ripemd
  imports Sha2
begin

section \<open>SHA-1 and RIPEMD-160\<close>

text \<open>
  \<open>server/src/crypto/sha1.cpp\<close> and \<open>ripemd160.cpp\<close>: the transforms as they are written, the classes,
  and the functions of FIPS 180-4 and of the RIPEMD-160 paper. The two lines of RIPEMD-160 are
  interleaved in the code and share no variable; the model runs one after the other.
\<close>

unbundle bit_operations_syntax

definition rol_by :: "nat \<Rightarrow> 'a::len word \<Rightarrow> 'a word" where
  "rol_by n x = push_bit n x OR drop_bit (LENGTH('a) - n) x"

lemma rol_by_rotl: "0 < n \<Longrightarrow> n < LENGTH('a) \<Longrightarrow> rol_by n (x :: 'a::len word) = word_rotl n x"
proof -
  assume n: "0 < n" "n < LENGTH('a)"
  have "rol_by n x = ror_by (LENGTH('a) - n) x" using n by (simp add: rol_by_def ror_by_def or.commute)
  also have "\<dots> = word_rotr (LENGTH('a) - n) x" using n by (intro ror_by_rotr) simp_all
  also have "\<dots> = word_rotl n x"
    using n by (intro bit_word_eqI) (simp add: bit_word_rotr_iff bit_word_rotl_iff ac_simps)
  finally show ?thesis .
qed

definition five_init :: "32 word list" where
  "five_init = [0x67452301, 0xEFCDAB89, 0x98BADCFE, 0x10325476, 0xC3D2E1F0]"

subsection \<open>SHA-1\<close>

definition sha1_f1 :: "32 word \<Rightarrow> 32 word \<Rightarrow> 32 word \<Rightarrow> 32 word" where
  "sha1_f1 b c d = d XOR (b AND (c XOR d))"
definition sha1_f2 :: "32 word \<Rightarrow> 32 word \<Rightarrow> 32 word \<Rightarrow> 32 word" where
  "sha1_f2 b c d = b XOR c XOR d"
definition sha1_f3 :: "32 word \<Rightarrow> 32 word \<Rightarrow> 32 word \<Rightarrow> 32 word" where
  "sha1_f3 b c d = (b AND c) OR (d AND (b OR c))"

definition sha1_K :: "32 word list" where
  "sha1_K = [0x5A827999, 0x6ED9EBA1, 0x8F1BBCDC, 0xCA62C1D6]"

text \<open>The function and the constant of round \<open>t\<close>.\<close>

definition sha1_f :: "nat \<Rightarrow> 32 word \<Rightarrow> 32 word \<Rightarrow> 32 word \<Rightarrow> 32 word" where
  "sha1_f t = [sha1_f1, sha1_f2, sha1_f3, sha1_f2] ! (t div 20)"

text \<open>\<open>Round\<close> assigns its second and its fifth argument.\<close>

definition sha1_round :: "nat \<Rightarrow> 32 word \<Rightarrow> 32 word list \<Rightarrow> 32 word list" where
  "sha1_round t w v =
     (case v of
        [a, b, c, d, e] \<Rightarrow>
          [a, push_bit 30 b OR drop_bit 2 b, c, d,
           e + ((push_bit 5 a OR drop_bit 27 a) + sha1_f t b c d + sha1_K ! (t div 20) + w)]
      | _ \<Rightarrow> v)"

text \<open>\<open>w0 = left(w0 ^ w13 ^ w8 ^ w2)\<close>, and so on.\<close>

definition sha1_word :: "(nat \<Rightarrow> 32 word) \<Rightarrow> 32 word" where
  "sha1_word w = rol_by 1 (w 0 XOR w 13 XOR w 8 XOR w 2)"

definition sha1_transform :: "32 word list \<Rightarrow> byte list \<Rightarrow> 32 word list" where
  "sha1_transform s chunk =
     map2 (+) s (fst (unrolled sha1_round sha1_word (chunk_word 4 chunk) 80 (s, replicate 16 0)))"

definition new_sha1 :: "byte list \<Rightarrow> 32 word list hasher" where
  "new_sha1 buf = \<lparr>h_state = five_init, h_buf = buf, h_bytes = 0\<rparr>"

definition sha1_write :: "byte list \<Rightarrow> 32 word list hasher \<Rightarrow> 32 word list hasher" where
  "sha1_write data h = stream_write 64 (each_block 64 sha1_transform) data h"

definition sha1_finalize :: "32 word list hasher \<Rightarrow> byte list" where
  "sha1_finalize h = concat (map (write_be 4) (stream_finalize 64 (each_block 64 sha1_transform) (write_be 8) 8 h))"

definition sha1_reset :: "32 word list hasher \<Rightarrow> 32 word list hasher" where
  "sha1_reset h = h\<lparr>h_bytes := 0, h_state := five_init\<rparr>"

text \<open>The standard.\<close>

definition fips_f :: "nat \<Rightarrow> 32 word \<Rightarrow> 32 word \<Rightarrow> 32 word \<Rightarrow> 32 word" where
  "fips_f t x y z =
     (if t < 20 then fips_Ch x y z else if 40 \<le> t \<and> t < 60 then fips_Maj x y z else x XOR y XOR z)"

definition fips_sha1_round :: "nat \<Rightarrow> 32 word \<Rightarrow> 32 word list \<Rightarrow> 32 word list" where
  "fips_sha1_round t w v =
     (case v of
        [a, b, c, d, e] \<Rightarrow> [word_rotl 5 a + fips_f t b c d + e + sha1_K ! (t div 20) + w, a, word_rotl 30 b, c, d]
      | _ \<Rightarrow> v)"

definition sha1_compress :: "32 word list \<Rightarrow> byte list \<Rightarrow> 32 word list" where
  "sha1_compress v block =
     (let W = schedule_words (\<lambda>w. word_rotl 1 (w 13 XOR w 8 XOR w 2 XOR w 0)) (chunk_word 4 block) 80
      in map2 (+) v (foldl (\<lambda>v t. fips_sha1_round t (W ! t) v) v [0..<80]))"

definition sha1 :: "byte list \<Rightarrow> byte list" where
  "sha1 msg = concat (map (write_be 4)
     (fold_blocks 64 sha1_compress five_init (padded_message 64 (write_be 8) 8 msg)))"

lemma length_5: "length v = 5 \<Longrightarrow> \<exists>a b c d e. v = [a, b, c, d, e]"
  by (auto simp: numeral_eq_Suc length_Suc_conv)

lemma length_sha1_round [simp]: "length (sha1_round t w v) = length v"
  by (auto simp: sha1_round_def split: list.split)

lemma length_fips_sha1_round [simp]: "length (fips_sha1_round t w v) = length v"
  by (auto simp: fips_sha1_round_def split: list.split)

lemma sha1_f_fips: "t < 80 \<Longrightarrow> sha1_f t = fips_f t"
proof -
  assume "t < 80"
  then consider "t < 20" "t div 20 = 0" | "20 \<le> t" "t < 40" "t div 20 = 1" | "40 \<le> t" "t < 60" "t div 20 = 2"
    | "60 \<le> t" "t div 20 = 3" by linarith
  moreover have "sha1_f1 = fips_Ch" "sha1_f3 = fips_Maj"
    by (intro ext bit_eqI, auto simp: sha1_f1_def sha1_f3_def fips_Ch_def fips_Maj_def bit_simps)+
  ultimately show ?thesis
    by cases (auto simp: sha1_f_def fips_f_def fun_eq_iff sha1_f2_def)
qed

lemma move_on_sha1_round: "length v = 5 \<Longrightarrow> t < 80 \<Longrightarrow> move_on (sha1_round t w) v = fips_sha1_round t w v"
proof -
  assume "length v = 5" "t < 80"
  moreover have "push_bit 30 b OR drop_bit 2 b = word_rotl 30 b" "push_bit 5 b OR drop_bit 27 b = word_rotl 5 b" for b :: "32 word"
    using rol_by_rotl [of 30 b] rol_by_rotl [of 5 b] by (simp_all add: rol_by_def)
  ultimately show ?thesis
    by (auto dest!: length_5 simp: move_on_def sha1_round_def fips_sha1_round_def sha1_f_fips rotate_drop_take ac_simps)
qed

lemma sha1_word_looks_back: "looks_back sha1_word"
  by (simp add: looks_back_def sha1_word_def)

lemma sha1_transform_is_compress: "length s = 5 \<Longrightarrow> sha1_transform s = sha1_compress s"
proof -
  assume s: "length s = 5"
  then have ne: "s \<noteq> []" by auto
  have f: "foldl (\<lambda>v t. move_on (sha1_round t (W t)) v) s [0..<k]
      = foldl (\<lambda>v t. fips_sha1_round t (W t) v) s [0..<k]
      \<and> length (foldl (\<lambda>v t. fips_sha1_round t (W t) v) s [0..<k]) = 5" if "k \<le> 80" for k W
    using that by (induction k) (simp_all add: s move_on_sha1_round)
  have w: "sha1_word = (\<lambda>w. word_rotl 1 (w 13 XOR w 8 XOR w 2 XOR w 0))"
    by (simp add: fun_eq_iff sha1_word_def rol_by_rotl ac_simps)
  show ?thesis
    using unrolled_is_rounds [OF sha1_word_looks_back, of "replicate 16 0" sha1_round s 80] s ne f [of 80]
    by (simp add: fun_eq_iff sha1_transform_def sha1_compress_def rounds_def Let_def w del: upt_conv_Cons)
qed

subsection \<open>RIPEMD-160\<close>

definition rmd_f1 :: "32 word \<Rightarrow> 32 word \<Rightarrow> 32 word \<Rightarrow> 32 word" where "rmd_f1 x y z = x XOR y XOR z"
definition rmd_f2 :: "32 word \<Rightarrow> 32 word \<Rightarrow> 32 word \<Rightarrow> 32 word" where "rmd_f2 x y z = (x AND y) OR (NOT x AND z)"
definition rmd_f3 :: "32 word \<Rightarrow> 32 word \<Rightarrow> 32 word \<Rightarrow> 32 word" where "rmd_f3 x y z = (x OR NOT y) XOR z"
definition rmd_f4 :: "32 word \<Rightarrow> 32 word \<Rightarrow> 32 word \<Rightarrow> 32 word" where "rmd_f4 x y z = (x AND z) OR (y AND NOT z)"
definition rmd_f5 :: "32 word \<Rightarrow> 32 word \<Rightarrow> 32 word \<Rightarrow> 32 word" where "rmd_f5 x y z = x XOR (y OR NOT z)"

text \<open>\<open>Round\<close> assigns its first and its third argument.\<close>

definition rmd_round ::
  "(32 word \<Rightarrow> 32 word \<Rightarrow> 32 word \<Rightarrow> 32 word) \<Rightarrow> 32 word \<Rightarrow> 32 word \<Rightarrow> nat \<Rightarrow> 32 word list \<Rightarrow> 32 word list" where
  "rmd_round f k x r v =
     (case v of
        [a, b, c, d, e] \<Rightarrow> [rol_by r (a + f b c d + x + k) + e, b, rol_by 10 c, d, e]
      | _ \<Rightarrow> v)"

text \<open>The function and the constant of a call \<open>R11\<close>, ..., \<open>R52\<close>, and the words and shifts of the calls.\<close>

definition rmd_left_f :: "(32 word \<Rightarrow> 32 word \<Rightarrow> 32 word \<Rightarrow> 32 word) list" where
  "rmd_left_f = [rmd_f1, rmd_f2, rmd_f3, rmd_f4, rmd_f5]"
definition rmd_right_f :: "(32 word \<Rightarrow> 32 word \<Rightarrow> 32 word \<Rightarrow> 32 word) list" where
  "rmd_right_f = [rmd_f5, rmd_f4, rmd_f3, rmd_f2, rmd_f1]"
definition rmd_left_k :: "32 word list" where
  "rmd_left_k = [0, 0x5A827999, 0x6ED9EBA1, 0x8F1BBCDC, 0xA953FD4E]"
definition rmd_right_k :: "32 word list" where
  "rmd_right_k = [0x50A28BE6, 0x5C4DD124, 0x6D703EF3, 0x7A6D76E9, 0]"

definition rmd_left_w :: "nat list" where
  "rmd_left_w =
     [0, 1, 2, 3, 4, 5, 6, 7, 8, 9, 10, 11, 12, 13, 14, 15, 7, 4, 13, 1, 10, 6, 15, 3, 12, 0, 9, 5, 2, 14, 11, 8,
      3, 10, 14, 4, 9, 15, 8, 1, 2, 7, 0, 6, 13, 11, 5, 12, 1, 9, 11, 10, 0, 8, 12, 4, 13, 3, 7, 15, 14, 5, 6, 2,
      4, 0, 5, 9, 7, 12, 2, 10, 14, 1, 3, 8, 11, 6, 15, 13]"
definition rmd_left_s :: "nat list" where
  "rmd_left_s =
     [11, 14, 15, 12, 5, 8, 7, 9, 11, 13, 14, 15, 6, 7, 9, 8, 7, 6, 8, 13, 11, 9, 7, 15, 7, 12, 15, 9, 11, 7, 13, 12,
      11, 13, 6, 7, 14, 9, 13, 15, 14, 8, 13, 6, 5, 12, 7, 5, 11, 12, 14, 15, 14, 15, 9, 8, 9, 14, 5, 6, 8, 6, 5, 12,
      9, 15, 5, 11, 6, 8, 13, 12, 5, 12, 13, 14, 11, 8, 5, 6]"
definition rmd_right_w :: "nat list" where
  "rmd_right_w =
     [5, 14, 7, 0, 9, 2, 11, 4, 13, 6, 15, 8, 1, 10, 3, 12, 6, 11, 3, 7, 0, 13, 5, 10, 14, 15, 8, 12, 4, 9, 1, 2,
      15, 5, 1, 3, 7, 14, 6, 9, 11, 8, 12, 2, 10, 0, 4, 13, 8, 6, 4, 1, 3, 11, 15, 0, 5, 12, 2, 13, 9, 7, 10, 14,
      12, 15, 10, 4, 1, 5, 8, 7, 6, 2, 13, 14, 0, 3, 9, 11]"
definition rmd_right_s :: "nat list" where
  "rmd_right_s =
     [8, 9, 9, 11, 13, 15, 15, 5, 7, 7, 8, 11, 14, 14, 12, 6, 9, 13, 15, 7, 12, 8, 9, 11, 7, 7, 12, 7, 6, 15, 13, 11,
      9, 7, 15, 11, 8, 6, 6, 14, 12, 13, 5, 14, 13, 13, 7, 5, 15, 5, 8, 11, 14, 14, 6, 14, 6, 9, 12, 9, 12, 5, 15, 8,
      8, 5, 12, 9, 12, 5, 14, 6, 8, 13, 6, 5, 15, 13, 11, 11]"

definition rmd_line ::
  "(32 word \<Rightarrow> 32 word \<Rightarrow> 32 word \<Rightarrow> 32 word) list \<Rightarrow> 32 word list \<Rightarrow> nat list \<Rightarrow> nat list \<Rightarrow>
   (nat \<Rightarrow> 32 word) \<Rightarrow> 32 word list \<Rightarrow> 32 word list" where
  "rmd_line fs ks ws ss W v =
     foldl (\<lambda>v t. call_rotated (rmd_round (fs ! (t div 16)) (ks ! (t div 16)) (W (ws ! t)) (ss ! t)) t v) v [0..<80]"

definition le_word :: "byte list \<Rightarrow> nat \<Rightarrow> 32 word" where
  "le_word chunk t = read_le (take 4 (drop (4 * t) chunk))"

definition rmd_combine :: "32 word list \<Rightarrow> 32 word list \<Rightarrow> 32 word list \<Rightarrow> 32 word list" where
  "rmd_combine s v1 v2 =
     [s ! 1 + v1 ! 2 + v2 ! 3, s ! 2 + v1 ! 3 + v2 ! 4, s ! 3 + v1 ! 4 + v2 ! 0,
      s ! 4 + v1 ! 0 + v2 ! 1, s ! 0 + v1 ! 1 + v2 ! 2]"

definition ripemd160_transform :: "32 word list \<Rightarrow> byte list \<Rightarrow> 32 word list" where
  "ripemd160_transform s chunk =
     rmd_combine s (rmd_line rmd_left_f rmd_left_k rmd_left_w rmd_left_s (le_word chunk) s)
                   (rmd_line rmd_right_f rmd_right_k rmd_right_w rmd_right_s (le_word chunk) s)"

definition new_ripemd160 :: "byte list \<Rightarrow> 32 word list hasher" where
  "new_ripemd160 buf = \<lparr>h_state = five_init, h_buf = buf, h_bytes = 0\<rparr>"

definition ripemd160_write :: "byte list \<Rightarrow> 32 word list hasher \<Rightarrow> 32 word list hasher" where
  "ripemd160_write data h = stream_write 64 (each_block 64 ripemd160_transform) data h"

definition ripemd160_finalize :: "32 word list hasher \<Rightarrow> byte list" where
  "ripemd160_finalize h =
     concat (map (write_le 4) (stream_finalize 64 (each_block 64 ripemd160_transform) (write_le 8) 8 h))"

definition ripemd160_reset :: "32 word list hasher \<Rightarrow> 32 word list hasher" where
  "ripemd160_reset h = h\<lparr>h_bytes := 0, h_state := five_init\<rparr>"

text \<open>
  The paper: a step makes \<open>T = rol (A + f (B, C, D) + X + K) + E\<close> and moves the variables; the order
  of the words is given by the permutations \<open>\<rho>\<close> and \<open>\<pi> i = 9 i + 5\<close>.
\<close>

definition paper_step ::
  "(32 word \<Rightarrow> 32 word \<Rightarrow> 32 word \<Rightarrow> 32 word) \<Rightarrow> 32 word \<Rightarrow> 32 word \<Rightarrow> nat \<Rightarrow> 32 word list \<Rightarrow> 32 word list" where
  "paper_step f k x r v =
     (case v of
        [a, b, c, d, e] \<Rightarrow> [e, word_rotl r (a + f b c d + x + k) + e, b, word_rotl 10 c, d]
      | _ \<Rightarrow> v)"

definition paper_rho :: "nat \<Rightarrow> nat" where
  "paper_rho i = [7, 4, 13, 1, 10, 6, 15, 3, 12, 0, 9, 5, 2, 14, 11, 8] ! i"

definition paper_pi :: "nat \<Rightarrow> nat" where
  "paper_pi i = (9 * i + 5) mod 16"

definition paper_line ::
  "(32 word \<Rightarrow> 32 word \<Rightarrow> 32 word \<Rightarrow> 32 word) list \<Rightarrow> 32 word list \<Rightarrow> (nat \<Rightarrow> nat) \<Rightarrow> nat list \<Rightarrow>
   (nat \<Rightarrow> 32 word) \<Rightarrow> 32 word list \<Rightarrow> 32 word list" where
  "paper_line fs ks p ss W v =
     foldl (\<lambda>v t. paper_step (fs ! (t div 16)) (ks ! (t div 16)) (W ((paper_rho ^^ (t div 16)) (p (t mod 16)))) (ss ! t) v)
       v [0..<80]"

definition ripemd160_compress :: "32 word list \<Rightarrow> byte list \<Rightarrow> 32 word list" where
  "ripemd160_compress s block =
     rmd_combine s (paper_line rmd_left_f rmd_left_k id rmd_left_s (le_word block) s)
                   (paper_line rmd_right_f rmd_right_k paper_pi rmd_right_s (le_word block) s)"

definition ripemd160 :: "byte list \<Rightarrow> byte list" where
  "ripemd160 msg = concat (map (write_le 4)
     (fold_blocks 64 ripemd160_compress five_init (padded_message 64 (write_le 8) 8 msg)))"

lemma length_rmd_round [simp]: "length (rmd_round f k x r v) = length v"
  by (auto simp: rmd_round_def split: list.split)

lemma length_paper_step [simp]: "length (paper_step f k x r v) = length v"
  by (auto simp: paper_step_def split: list.split)

lemma move_on_rmd_round:
  "length v = 5 \<Longrightarrow> 0 < r \<Longrightarrow> r < 32 \<Longrightarrow> move_on (rmd_round f k x r) v = paper_step f k x r v"
  by (auto dest!: length_5 simp: move_on_def rmd_round_def paper_step_def rol_by_rotl rotate_drop_take)

lemma rmd_word_orders:
  "rmd_left_w = map (\<lambda>t. (paper_rho ^^ (t div 16)) (t mod 16)) [0..<80]"
  "rmd_right_w = map (\<lambda>t. (paper_rho ^^ (t div 16)) (paper_pi (t mod 16))) [0..<80]"
  by code_simp+

lemma rmd_shifts: "list_all (\<lambda>r. 0 < r \<and> r < 32) rmd_left_s" "list_all (\<lambda>r. 0 < r \<and> r < 32) rmd_right_s"
  "length rmd_left_s = 80" "length rmd_right_s = 80"
  by (simp_all add: rmd_left_s_def rmd_right_s_def)

lemma rmd_line_is_paper:
  assumes "length v = 5" "list_all (\<lambda>r. 0 < r \<and> r < 32) ss" "length ss = 80"
    and ws: "ws = map (\<lambda>t. (paper_rho ^^ (t div 16)) (p (t mod 16))) [0..<80]"
  shows "rmd_line fs ks ws ss W v = paper_line fs ks p ss W v"
proof -
  let ?f = "\<lambda>t. rmd_round (fs ! (t div 16)) (ks ! (t div 16)) (W (ws ! t)) (ss ! t)"
  have s: "0 < ss ! t \<and> ss ! t < 32" if "t < 80" for t
    using assms(2,3) that by (simp add: list_all_length)
  have w: "ws ! t = (paper_rho ^^ (t div 16)) (p (t mod 16))" if "t < 80" for t
    using that by (simp add: ws)
  have ne: "v \<noteq> []" using assms(1) by auto
  have "rmd_line fs ks ws ss W v = foldl (\<lambda>v t. move_on (?f t) v) v [0..<80]"
    unfolding rmd_line_def by (rule unrolled_rounds [of ?f, OF _ ne]) (simp_all add: assms(1))
  moreover have "foldl (\<lambda>v t. move_on (?f t) v) v [0..<k] =
      foldl (\<lambda>v t. paper_step (fs ! (t div 16)) (ks ! (t div 16)) (W ((paper_rho ^^ (t div 16)) (p (t mod 16)))) (ss ! t) v) v [0..<k]
      \<and> length (foldl (\<lambda>v t. paper_step (fs ! (t div 16)) (ks ! (t div 16)) (W ((paper_rho ^^ (t div 16)) (p (t mod 16)))) (ss ! t) v) v [0..<k]) = 5"
    if "k \<le> 80" for k
    using that by (induction k) (simp_all add: assms(1) move_on_rmd_round s w)
  ultimately show ?thesis by (simp add: paper_line_def del: upt_conv_Cons)
qed

lemma ripemd160_transform_is_compress: "length s = 5 \<Longrightarrow> ripemd160_transform s = ripemd160_compress s"
  by (simp add: fun_eq_iff ripemd160_transform_def ripemd160_compress_def
      rmd_line_is_paper [OF _ rmd_shifts(1,3), where p = id] rmd_line_is_paper [OF _ rmd_shifts(2,4) rmd_word_orders(2)]
      rmd_word_orders(1))

subsection \<open>The classes compute the standards\<close>

interpretation sha1: block_hash 64 sha1_transform "each_block 64 sha1_transform" "write_be 8" 8
  by unfold_locales simp_all

interpretation ripemd160: block_hash 64 ripemd160_transform "each_block 64 ripemd160_transform" "write_le 8" 8
  by unfold_locales simp_all

lemma length_sha1_compress: "length (sha1_compress s b) = length s"
proof -
  have "length (foldl (\<lambda>v t. fips_sha1_round t (W t) v) s [0..<k]) = length s" for k W
    by (induction k) simp_all
  then show ?thesis by (simp add: sha1_compress_def Let_def del: upt_conv_Cons)
qed

lemma sha1_holds_finalize:
  assumes "sha1.holds five_init msg h"
  shows "sha1_finalize h = sha1 msg"
proof -
  have "fold_blocks 64 sha1_transform five_init m = fold_blocks 64 sha1_compress five_init m" for m
    by (rule fold_blocks_agree [where n = 5])
       (simp_all add: sha1_transform_is_compress length_sha1_compress five_init_def)
  then show ?thesis by (simp add: sha1_finalize_def sha1_def sha1.finalize_is_hash [OF assms])
qed

lemma ripemd160_holds_finalize:
  assumes "ripemd160.holds five_init msg h"
  shows "ripemd160_finalize h = ripemd160 msg"
proof -
  have "fold_blocks 64 ripemd160_transform five_init m = fold_blocks 64 ripemd160_compress five_init m" for m
    by (rule fold_blocks_agree [where n = 5])
       (simp_all add: ripemd160_transform_is_compress ripemd160_compress_def rmd_combine_def five_init_def)
  then show ?thesis by (simp add: ripemd160_finalize_def ripemd160_def ripemd160.finalize_is_hash [OF assms])
qed

lemma sha1_new_holds: "length buf = 64 \<Longrightarrow> sha1.holds five_init [] (new_sha1 buf)"
  by (simp add: new_sha1_def sha1.holds_new)

lemma ripemd160_new_holds: "length buf = 64 \<Longrightarrow> ripemd160.holds five_init [] (new_ripemd160 buf)"
  by (simp add: new_ripemd160_def ripemd160.holds_new)

end
