(* ===== verification/Hmac.thy ===== *)
theory Hmac
  imports Sha1Ripemd
begin

section \<open>Keyed hashes\<close>

text \<open>
  \<open>server/src/crypto/hmac_sha256.cpp\<close> and \<open>hmac_sha512.cpp\<close>: an inner and an outer hash object that
  have taken one block of the padded key each. The locale \<open>keyed_hash\<close> says what they need of the
  hash class; it is interpreted on both.
\<close>

unbundle bit_operations_syntax

record 'h hmac =
  hm_outer :: 'h
  hm_inner :: 'h

definition xor_all :: "byte \<Rightarrow> byte list \<Rightarrow> byte list" where
  "xor_all x bs = map (\<lambda>b. b XOR x) bs"

text \<open>
  The classes for a hash class with the operations \<open>new\<close>, \<open>feed\<close> (\<open>Write\<close>) and \<open>final\<close> (\<open>Finalize\<close>) and blocks of \<open>B\<close>
  bytes: the constructor, \<open>Write\<close> (on the inner object) and \<open>Finalize\<close>.
\<close>

definition hmac_key :: "nat \<Rightarrow> 'h \<Rightarrow> (byte list \<Rightarrow> 'h \<Rightarrow> 'h) \<Rightarrow> ('h \<Rightarrow> byte list) \<Rightarrow> byte list \<Rightarrow> byte list" where
  "hmac_key B new feed final key =
     (if length key \<le> B then key @ replicate (B - length key) 0
      else let digest = final (feed key new) in digest @ replicate (B - length digest) 0)"

definition hmac_new :: "nat \<Rightarrow> 'h \<Rightarrow> (byte list \<Rightarrow> 'h \<Rightarrow> 'h) \<Rightarrow> ('h \<Rightarrow> byte list) \<Rightarrow> byte list \<Rightarrow> 'h hmac" where
  "hmac_new B new feed final key =
     (let rkey = xor_all 0x5c (hmac_key B new feed final key);
          outer = feed rkey new;
          rkey = xor_all (0x5c XOR 0x36) rkey
      in \<lparr>hm_outer = outer, hm_inner = feed rkey new\<rparr>)"

definition hmac_write :: "(byte list \<Rightarrow> 'h \<Rightarrow> 'h) \<Rightarrow> byte list \<Rightarrow> 'h hmac \<Rightarrow> 'h hmac" where
  "hmac_write feed data m = m\<lparr>hm_inner := feed data (hm_inner m)\<rparr>"

definition hmac_finalize :: "(byte list \<Rightarrow> 'h \<Rightarrow> 'h) \<Rightarrow> ('h \<Rightarrow> byte list) \<Rightarrow> 'h hmac \<Rightarrow> byte list" where
  "hmac_finalize feed final m =
     (let temp = final (hm_inner m) in final (feed temp (hm_outer m)))"

definition hmac_sha256_new :: "byte list \<Rightarrow> byte list \<Rightarrow> 32 word list hasher hmac" where
  "hmac_sha256_new buf = hmac_new 64 (new_sha256 buf) sha256_write sha256_finalize"
definition hmac_sha256_write :: "byte list \<Rightarrow> 32 word list hasher hmac \<Rightarrow> 32 word list hasher hmac" where
  "hmac_sha256_write = hmac_write sha256_write"
definition hmac_sha256_finalize :: "32 word list hasher hmac \<Rightarrow> byte list" where
  "hmac_sha256_finalize = hmac_finalize sha256_write sha256_finalize"

definition hmac_sha512_new :: "byte list \<Rightarrow> byte list \<Rightarrow> 64 word list hasher hmac" where
  "hmac_sha512_new buf = hmac_new 128 (new_sha512 buf) sha512_write sha512_finalize"
definition hmac_sha512_write :: "byte list \<Rightarrow> 64 word list hasher hmac \<Rightarrow> 64 word list hasher hmac" where
  "hmac_sha512_write = hmac_write sha512_write"
definition hmac_sha512_finalize :: "64 word list hasher hmac \<Rightarrow> byte list" where
  "hmac_sha512_finalize = hmac_finalize sha512_write sha512_finalize"

subsection \<open>The standard\<close>

text \<open>FIPS 198-1: \<open>H ((K\<^sub>0 \<oplus> opad) || H ((K\<^sub>0 \<oplus> ipad) || text))\<close>.\<close>

definition fips_key :: "nat \<Rightarrow> (byte list \<Rightarrow> byte list) \<Rightarrow> byte list \<Rightarrow> byte list" where
  "fips_key B H key =
     (let k = (if length key \<le> B then key else H key) in k @ replicate (B - length k) 0)"

definition fips_hmac :: "nat \<Rightarrow> (byte list \<Rightarrow> byte list) \<Rightarrow> byte list \<Rightarrow> byte list \<Rightarrow> byte list" where
  "fips_hmac B H key txt =
     H (xor_all 0x5c (fips_key B H key) @ H (xor_all 0x36 (fips_key B H key) @ txt))"

definition hmac_sha256 :: "byte list \<Rightarrow> byte list \<Rightarrow> byte list" where "hmac_sha256 = fips_hmac 64 sha256"
definition hmac_sha512 :: "byte list \<Rightarrow> byte list \<Rightarrow> byte list" where "hmac_sha512 = fips_hmac 128 sha512"

subsection \<open>The classes compute it\<close>

locale keyed_hash =
  fixes B :: nat and new :: 'h and feed :: "byte list \<Rightarrow> 'h \<Rightarrow> 'h" and final :: "'h \<Rightarrow> byte list"
    and H :: "byte list \<Rightarrow> byte list" and holds :: "byte list \<Rightarrow> 'h \<Rightarrow> bool"
  assumes new_holds: "holds [] new"
    and write_holds: "holds msg h \<Longrightarrow> holds (msg @ data) (feed data h)"
    and finalize_holds: "holds msg h \<Longrightarrow> final h = H msg"
begin

lemma finalize_write: "final (feed key new) = H key"
  using finalize_holds [OF write_holds [OF new_holds]] by simp

lemma key_is_fips: "hmac_key B new feed final key = fips_key B H key"
  by (simp add: hmac_key_def fips_key_def Let_def finalize_write)

lemma xor_twice: "xor_all (0x5c XOR 0x36) (xor_all 0x5c bs) = xor_all 0x36 bs"
  by (simp add: xor_all_def xor.assoc)

lemma inner_holds:
  "holds (xor_all 0x36 (fips_key B H key) @ concat ds)
     (hm_inner (foldl (\<lambda>m d. hmac_write feed d m) (hmac_new B new feed final key) ds))
   \<and> hm_outer (foldl (\<lambda>m d. hmac_write feed d m) (hmac_new B new feed final key) ds)
     = feed (xor_all 0x5c (fips_key B H key)) new"
proof (induction ds rule: rev_induct)
  case Nil
  have "holds (xor_all 0x36 (fips_key B H key)) (feed (xor_all 0x36 (fips_key B H key)) new)"
    using write_holds [OF new_holds] by simp
  then show ?case by (simp add: hmac_new_def key_is_fips xor_twice [simplified] Let_def)
next
  case (snoc d ds)
  then show ?case using write_holds by (simp add: hmac_write_def append_assoc [symmetric] del: append_assoc)
qed

theorem hmac_of_pieces:
  "hmac_finalize feed final (foldl (\<lambda>m d. hmac_write feed d m) (hmac_new B new feed final key) ds)
     = fips_hmac B H key (concat ds)"
proof -
  let ?m = "foldl (\<lambda>m d. hmac_write feed d m) (hmac_new B new feed final key) ds"
  have "holds (xor_all 0x5c (fips_key B H key)) (hm_outer ?m)"
    using inner_holds [of key ds] write_holds [OF new_holds, of "xor_all 0x5c (fips_key B H key)"] by simp
  then have "final (feed d (hm_outer ?m)) = H (xor_all 0x5c (fips_key B H key) @ d)" for d
    using finalize_holds [OF write_holds] by blast
  moreover have "final (hm_inner ?m) = H (xor_all 0x36 (fips_key B H key) @ concat ds)"
    using inner_holds [of key ds] finalize_holds by blast
  ultimately show ?thesis using inner_holds [of key ds] by (simp add: hmac_finalize_def fips_hmac_def Let_def)
qed

end

text \<open>The buffer a new object finds is any block.\<close>

definition some_buffer :: "nat \<Rightarrow> byte list \<Rightarrow> byte list" where
  "some_buffer n buf = take n (buf @ replicate n 0)"

lemma length_some_buffer [simp]: "length (some_buffer n buf) = n"
  by (simp add: some_buffer_def)

lemma some_buffer_id: "length buf = n \<Longrightarrow> some_buffer n buf = buf"
  by (simp add: some_buffer_def)

interpretation hm256: keyed_hash 64 "new_sha256 (some_buffer 64 buf)" sha256_write sha256_finalize sha256
  "sha256.holds sha256_init" for buf
  by unfold_locales (simp_all add: sha256_new_holds sha256_write_holds sha256_holds_finalize)

interpretation hm512: keyed_hash 128 "new_sha512 (some_buffer 128 buf)" sha512_write sha512_finalize sha512
  "sha512.holds sha512_init" for buf
  by unfold_locales (simp_all add: sha512_new_holds sha512_write_holds sha512_holds_finalize)

lemma hmac_sha256_of_pieces:
  assumes "length buf = 64"
  shows "hmac_sha256_finalize (foldl (\<lambda>m d. hmac_sha256_write d m) (hmac_sha256_new buf key) ds) = hmac_sha256 key (concat ds)"
  using hm256.hmac_of_pieces [of buf key ds]
  by (simp add: hmac_sha256_finalize_def hmac_sha256_write_def hmac_sha256_new_def hmac_sha256_def some_buffer_id [OF assms])

lemma hmac_sha512_of_pieces:
  assumes "length buf = 128"
  shows "hmac_sha512_finalize (foldl (\<lambda>m d. hmac_sha512_write d m) (hmac_sha512_new buf key) ds) = hmac_sha512 key (concat ds)"
  using hm512.hmac_of_pieces [of buf key ds]
  by (simp add: hmac_sha512_finalize_def hmac_sha512_write_def hmac_sha512_new_def hmac_sha512_def some_buffer_id [OF assms])

lemma length_hmac_sha256 [simp]: "length (hmac_sha256 key txt) = 32"
  by (simp add: hmac_sha256_def fips_hmac_def)

end
