(* ===== verification/HashFuns.thy ===== *)
theory HashFuns
  imports Hmac
begin

section \<open>Hash functions of the server\<close>

text \<open>
  \<open>server/src/hash.cpp\<close> and \<open>hash.h\<close>: the double hashes \<open>CHash256\<close> and \<open>CHash160\<close>, MurmurHash3, the
  BIP 32 hash, SipHash with its two specialised forms; and \<open>uint256.cpp\<close>, blobs of 160 or 256 bits
  and their hexadecimal text.
\<close>

unbundle bit_operations_syntax

subsection \<open>Double hashes\<close>

definition hash256_finalize :: "32 word list hasher \<Rightarrow> byte list" where
  "hash256_finalize sha =
     (let buf = sha256_finalize sha in sha256_finalize (sha256_write buf (sha256_reset sha)))"

definition hash160_finalize :: "byte list \<Rightarrow> 32 word list hasher \<Rightarrow> byte list" where
  "hash160_finalize block sha =
     (let buf = sha256_finalize sha in ripemd160_finalize (ripemd160_write buf (new_ripemd160 block)))"

text \<open>\<open>Hash\<close> and \<open>Hash160\<close> of a byte sequence; the buffer of a new object holds zeros here.\<close>

definition hash256 :: "byte list \<Rightarrow> byte list" where
  "hash256 bs = hash256_finalize (sha256_write bs (new_sha256 (replicate 64 0)))"

definition hash160 :: "byte list \<Rightarrow> byte list" where
  "hash160 bs = hash160_finalize (replicate 64 0) (sha256_write bs (new_sha256 (replicate 64 0)))"

text \<open>\<open>ReadLE64\<close> and the numbers of the BIP 32 hash.\<close>

definition bip32_hash :: "byte list \<Rightarrow> 32 word \<Rightarrow> byte \<Rightarrow> byte list \<Rightarrow> byte list" where
  "bip32_hash chain_code n_child header data =
     (let num = [ucast (drop_bit 24 n_child), ucast (drop_bit 16 n_child), ucast (drop_bit 8 n_child), ucast n_child]
      in hmac_sha512_finalize (hmac_sha512_write num (hmac_sha512_write data (hmac_sha512_write [header]
           (hmac_sha512_new (replicate 128 0) chain_code)))))"

subsection \<open>MurmurHash3\<close>

definition murmur_mix :: "32 word \<Rightarrow> 32 word" where
  "murmur_mix k1 = rol_by 15 (k1 * 0xcc9e2d51) * 0x1b873593"

definition murmur_block :: "byte list \<Rightarrow> 32 word \<Rightarrow> nat \<Rightarrow> 32 word" where
  "murmur_block bs h1 i =
     (let h1 = h1 XOR murmur_mix (read_le (take 4 (drop (4 * i) bs))) in rol_by 13 h1 * 5 + 0xe6546b64)"

text \<open>The cases of the \<open>switch\<close> fall through.\<close>

definition murmur_tail :: "byte list \<Rightarrow> nat \<Rightarrow> 32 word \<Rightarrow> 32 word" where
  "murmur_tail rest n h1 =
     (let k1 = 0;
          k1 = (if 3 \<le> n then k1 XOR push_bit 16 (ucast (rest ! 2)) else k1);
          k1 = (if 2 \<le> n then k1 XOR push_bit 8 (ucast (rest ! 1)) else k1)
      in if 1 \<le> n then h1 XOR murmur_mix (k1 XOR ucast (rest ! 0)) else h1)"

definition murmur_hash3 :: "32 word \<Rightarrow> byte list \<Rightarrow> 32 word" where
  "murmur_hash3 seed bs =
     (let nblocks = length bs div 4;
          h1 = foldl (murmur_block bs) seed [0..<nblocks];
          h1 = murmur_tail (drop (nblocks * 4) bs) (length bs mod 4) h1;
          h1 = h1 XOR of_nat (length bs);
          h1 = (h1 XOR drop_bit 16 h1) * 0x85ebca6b;
          h1 = (h1 XOR drop_bit 13 h1) * 0xc2b2ae35
      in h1 XOR drop_bit 16 h1)"

subsection \<open>SipHash\<close>

type_synonym sip_state = "64 word \<times> 64 word \<times> 64 word \<times> 64 word"

record sip_hasher =
  sip_v :: sip_state
  sip_tmp :: "64 word"
  sip_count :: nat   \<comment> \<open>an \<open>int\<close>: inputs of less than \<open>2 ^ 31\<close> bytes\<close>

definition sip_round :: "sip_state \<Rightarrow> sip_state" where
  "sip_round v =
     (case v of (v0, v1, v2, v3) \<Rightarrow>
      let v0 = v0 + v1; v1 = rol_by 13 v1; v1 = v1 XOR v0;
          v0 = rol_by 32 v0;
          v2 = v2 + v3; v3 = rol_by 16 v3; v3 = v3 XOR v2;
          v0 = v0 + v3; v3 = rol_by 21 v3; v3 = v3 XOR v0;
          v2 = v2 + v1; v1 = rol_by 17 v1; v1 = v1 XOR v2;
          v2 = rol_by 32 v2
      in (v0, v1, v2, v3))"

text \<open>\<open>v3 ^= t; SIPROUND; SIPROUND; v0 ^= t\<close>\<close>

definition sip_absorb :: "64 word \<Rightarrow> sip_state \<Rightarrow> sip_state" where
  "sip_absorb t v =
     (case v of (v0, v1, v2, v3) \<Rightarrow>
      case sip_round (sip_round (v0, v1, v2, v3 XOR t)) of (v0, v1, v2, v3) \<Rightarrow> (v0 XOR t, v1, v2, v3))"

definition sip_init :: "64 word \<Rightarrow> 64 word \<Rightarrow> sip_state" where
  "sip_init k0 k1 =
     (0x736f6d6570736575 XOR k0, 0x646f72616e646f6d XOR k1, 0x6c7967656e657261 XOR k0, 0x7465646279746573 XOR k1)"

definition new_sip :: "64 word \<Rightarrow> 64 word \<Rightarrow> sip_hasher" where
  "new_sip k0 k1 = \<lparr>sip_v = sip_init k0 k1, sip_tmp = 0, sip_count = 0\<rparr>"

definition sip_write_word :: "64 word \<Rightarrow> (sip_hasher, unit, unit) prog" where
  "sip_write_word data h =
     (if sip_count h mod 8 \<noteq> 0 then (h, Fault AssertFailed)
      else (h\<lparr>sip_v := sip_absorb data (sip_v h), sip_count := sip_count h + 8\<rparr>, Val ()))"

definition sip_byte :: "sip_hasher \<Rightarrow> byte \<Rightarrow> sip_hasher" where
  "sip_byte h b =
     (let t = sip_tmp h OR push_bit (8 * (sip_count h mod 8)) (ucast b); c = sip_count h + 1 in
      if c mod 8 = 0 then h\<lparr>sip_v := sip_absorb t (sip_v h), sip_tmp := 0, sip_count := c\<rparr>
      else h\<lparr>sip_tmp := t, sip_count := c\<rparr>)"

definition sip_write :: "byte list \<Rightarrow> sip_hasher \<Rightarrow> sip_hasher" where
  "sip_write data h = foldl sip_byte h data"

text \<open>The last rounds, from the state before \<open>v2 ^= 0xFF\<close>.\<close>

definition sip_end :: "sip_state \<Rightarrow> 64 word" where
  "sip_end v =
     (case v of (v0, v1, v2, v3) \<Rightarrow>
      case sip_round (sip_round (sip_round (sip_round (v0, v1, v2 XOR 0xFF, v3)))) of
        (v0, v1, v2, v3) \<Rightarrow> v0 XOR v1 XOR v2 XOR v3)"

definition sip_finalize :: "sip_hasher \<Rightarrow> 64 word" where
  "sip_finalize h =
     (let t = sip_tmp h OR push_bit 56 (of_nat (sip_count h)) in sip_end (sip_absorb t (sip_v h)))"

text \<open>\<open>base_blob::GetUint64\<close>\<close>

definition get_uint64 :: "byte list \<Rightarrow> nat \<Rightarrow> 64 word" where
  "get_uint64 data pos =
     (let p = drop (pos * 8) data in
      ucast (p ! 0) OR push_bit 8 (ucast (p ! 1)) OR push_bit 16 (ucast (p ! 2)) OR push_bit 24 (ucast (p ! 3))
        OR push_bit 32 (ucast (p ! 4)) OR push_bit 40 (ucast (p ! 5)) OR push_bit 48 (ucast (p ! 6))
        OR push_bit 56 (ucast (p ! 7)))"

text \<open>
  The specialised forms: the first word goes into the initial \<open>v3\<close>, the words are then absorbed in
  turn, and at last the number of bytes (with four more bytes, for the second form).
\<close>

definition sip_first :: "64 word \<Rightarrow> 64 word \<Rightarrow> 64 word \<Rightarrow> sip_state" where
  "sip_first k0 k1 d =
     (case sip_round (sip_round (0x736f6d6570736575 XOR k0, 0x646f72616e646f6d XOR k1, 0x6c7967656e657261 XOR k0,
              0x7465646279746573 XOR k1 XOR d)) of
        (v0, v1, v2, v3) \<Rightarrow> (v0 XOR d, v1, v2, v3))"

definition siphash_uint256 :: "64 word \<Rightarrow> 64 word \<Rightarrow> byte list \<Rightarrow> 64 word" where
  "siphash_uint256 k0 k1 val =
     (let v = sip_first k0 k1 (get_uint64 val 0);
          v = sip_absorb (get_uint64 val 1) v;
          v = sip_absorb (get_uint64 val 2) v;
          v = sip_absorb (get_uint64 val 3) v
      in sip_end (sip_absorb (push_bit 59 4) v))"

definition siphash_uint256_extra :: "64 word \<Rightarrow> 64 word \<Rightarrow> byte list \<Rightarrow> 32 word \<Rightarrow> 64 word" where
  "siphash_uint256_extra k0 k1 val extra =
     (let v = sip_first k0 k1 (get_uint64 val 0);
          v = sip_absorb (get_uint64 val 1) v;
          v = sip_absorb (get_uint64 val 2) v;
          v = sip_absorb (get_uint64 val 3) v
      in sip_end (sip_absorb (push_bit 56 36 OR ucast extra) v))"

subsection \<open>Blobs\<close>

text \<open>\<open>base_blob\<close> of \<open>width\<close> bytes; \<open>SetHex\<close> reads the digits from the last to the first.\<close>

definition blob_from :: "nat \<Rightarrow> byte list \<Rightarrow> (unit, byte list) outcome" where
  "blob_from width vch = (if length vch = width then Val vch else Fault AssertFailed)"

definition is_null_blob :: "byte list \<Rightarrow> bool" where
  "is_null_blob data \<longleftrightarrow> list_all (\<lambda>b. b = 0) data"

definition get_hex :: "byte list \<Rightarrow> string" where
  "get_hex data = hex_str False (rev data)"

text \<open>The bytes from digits given last first: two digits a byte, at most \<open>n\<close> bytes.\<close>

fun fill_hex :: "nat \<Rightarrow> string \<Rightarrow> byte list" where
  "fill_hex 0 cs = []"
| "fill_hex (Suc n) [] = 0 # fill_hex n []"
| "fill_hex (Suc n) [c] = of_int (hex_digit c) # fill_hex n []"
| "fill_hex (Suc n) (c # d # cs) = (of_int (hex_digit c) OR push_bit 4 (of_int (hex_digit d))) # fill_hex n cs"

definition set_hex :: "nat \<Rightarrow> string \<Rightarrow> byte list" where
  "set_hex width str =
     (let psz = dropWhile is_space (c_str str);
          psz = (case psz of
                   z # x # r \<Rightarrow> if z = CHR ''0'' \<and> (x = CHR ''x'' \<or> x = CHR ''X'') then r else psz
                 | _ \<Rightarrow> psz);
          digits = takeWhile (\<lambda>c. hex_digit c \<noteq> - 1) psz
      in fill_hex width (rev digits))"

subsection \<open>Facts\<close>

lemma sha256_reset_holds:
  "sha256.holds s msg h \<Longrightarrow> sha256.holds sha256_init [] (sha256_reset h)"
proof -
  assume "sha256.holds s msg h"
  then have "length (h_buf h) = 64" by (rule sha256.holdsE)
  moreover have "sha256_reset h = \<lparr>h_state = sha256_init, h_buf = h_buf h, h_bytes = 0\<rparr>"
    by (simp add: sha256_reset_def)
  ultimately show ?thesis by (simp add: sha256.holds_new)
qed

lemma ripemd160_write_holds: "ripemd160.holds s msg h \<Longrightarrow> ripemd160.holds s (msg @ data) (ripemd160_write data h)"
  by (simp add: ripemd160_write_def ripemd160.holds_write)

lemma sha1_write_holds: "sha1.holds s msg h \<Longrightarrow> sha1.holds s (msg @ data) (sha1_write data h)"
  by (simp add: sha1_write_def sha1.holds_write)

lemma hash256_holds: "sha256.holds sha256_init msg h \<Longrightarrow> hash256_finalize h = sha256 (sha256 msg)"
  using sha256_holds_finalize [OF sha256_write_holds [OF sha256_reset_holds]]
  by (simp add: hash256_finalize_def sha256_holds_finalize Let_def)

lemma hash160_holds:
  "sha256.holds sha256_init msg h \<Longrightarrow> length block = 64 \<Longrightarrow> hash160_finalize block h = ripemd160 (sha256 msg)"
  using ripemd160_holds_finalize [OF ripemd160_write_holds [OF ripemd160_new_holds]]
  by (simp add: hash160_finalize_def sha256_holds_finalize Let_def)

lemma hash256_is: "hash256 bs = sha256 (sha256 bs)"
  using hash256_holds [OF sha256_write_holds [OF sha256_new_holds]] by (simp add: hash256_def)

lemma hash160_is: "hash160 bs = ripemd160 (sha256 bs)"
  using hash160_holds [OF sha256_write_holds [OF sha256_new_holds]] by (simp add: hash160_def)

lemma sip_write_append: "sip_write (a @ b) h = sip_write b (sip_write a h)"
  by (simp add: sip_write_def)

lemma length_8_bytes: "length v = 8 \<Longrightarrow> \<exists>a b c d e f g h. v = [a, b, c, d, e, f, g, h]"
  by (auto simp: numeral_eq_Suc length_Suc_conv)

text \<open>Eight bytes, from a multiple of eight on, are one word.\<close>

lemma sip_write_eight:
  assumes "length bs = 8" "sip_count h mod 8 = 0" "sip_tmp h = 0"
  shows "sip_write bs h = h\<lparr>sip_v := sip_absorb (get_uint64 bs 0) (sip_v h), sip_count := sip_count h + 8\<rparr>"
proof -
  from assms(2) obtain k where k: "sip_count h = 8 * k" by (meson dvdE mod_0_imp_dvd)
  have m: "Suc (8 * k) mod 8 = 1" "Suc (Suc (8 * k)) mod 8 = 2" "Suc (Suc (Suc (8 * k))) mod 8 = 3"
    "Suc (Suc (Suc (Suc (8 * k)))) mod 8 = 4" "Suc (Suc (Suc (Suc (Suc (8 * k))))) mod 8 = 5"
    "Suc (Suc (Suc (Suc (Suc (Suc (8 * k)))))) mod 8 = 6" "Suc (Suc (Suc (Suc (Suc (Suc (Suc (8 * k))))))) mod 8 = 7"
    "Suc (Suc (Suc (Suc (Suc (Suc (Suc (Suc (8 * k)))))))) mod 8 = 0"
    by presburger+
  from length_8_bytes [OF assms(1)] obtain a b c d e f g x where bs: "bs = [a, b, c, d, e, f, g, x]" by blast
  show ?thesis
    by (simp add: bs sip_write_def sip_byte_def k m assms(3) get_uint64_def or.assoc)
qed

lemma get_uint64_drop: "get_uint64 (drop (8 * i) val) 0 = get_uint64 val i"
  by (simp add: get_uint64_def mult.commute)

lemma get_uint64_take: "8 \<le> length bs \<Longrightarrow> get_uint64 (take 8 bs) 0 = get_uint64 bs 0"
  by (simp add: get_uint64_def)

text \<open>The words of a byte string, one after the other.\<close>

lemma sip_write_words:
  assumes "length bs = 8 * n" "sip_count h mod 8 = 0" "sip_tmp h = 0"
  shows "sip_write bs h = h\<lparr>sip_v := fold sip_absorb (map (get_uint64 bs) [0..<n]) (sip_v h),
                            sip_count := sip_count h + 8 * n\<rparr>"
  using assms(1)
proof (induction n arbitrary: bs)
  case 0
  then show ?case by (simp add: sip_write_def)
next
  case (Suc n)
  let ?a = "take (8 * n) bs" and ?b = "drop (8 * n) bs"
  have g: "get_uint64 ?a i = get_uint64 bs i" if "i < n" for i
  proof -
    have b: "i * 8 + 8 \<le> 8 * n" using that by simp
    have "drop (i * 8) ?a ! j = drop (i * 8) bs ! j" if "j < 8" for j
      using that b Suc.prems by simp
    then show ?thesis by (simp add: get_uint64_def Let_def del: nth_drop)
  qed
  have gs: "map (get_uint64 ?a) [0..<n] = map (get_uint64 bs) [0..<n]"
    using g by simp
  have "sip_write ?a h = h\<lparr>sip_v := fold sip_absorb (map (get_uint64 bs) [0..<n]) (sip_v h), sip_count := sip_count h + 8 * n\<rparr>"
    using Suc.IH [of ?a] Suc.prems gs by simp
  moreover have "sip_write ?b h' = h'\<lparr>sip_v := sip_absorb (get_uint64 bs n) (sip_v h'), sip_count := sip_count h' + 8\<rparr>"
    if "sip_count h' mod 8 = 0" "sip_tmp h' = 0" for h'
    using sip_write_eight [OF _ that, of ?b] Suc.prems by (simp add: get_uint64_drop)
  moreover have "sip_write bs h = sip_write ?b (sip_write ?a h)"
    by (simp add: sip_write_append [symmetric])
  ultimately have "sip_write bs h = h\<lparr>sip_v := fold sip_absorb (map (get_uint64 bs) [0..<Suc n]) (sip_v h),
      sip_count := sip_count h + 8 * Suc n\<rparr>"
    using assms(2,3) by (simp add: add.assoc)
  then show ?case by simp
qed

lemma sip_first_absorb: "sip_first k0 k1 d = sip_absorb d (sip_init k0 k1)"
  by (simp add: sip_first_def sip_absorb_def sip_init_def xor.assoc)

lemma four_words: "map g [0..<4] = [g 0, g (1::nat), g 2, g 3]"
  by (simp add: upt_rec numeral_2_eq_2 numeral_3_eq_3)

end
