(* ===== verification/RpcAuth.thy ===== *)
theory RpcAuth
  imports Hmac EncodingProps
begin

section \<open>Credentials of the RPC server\<close>

text \<open>
  \<open>server/src/httprpc.cpp\<close> and \<open>rpc/protocol.cpp\<close>: the token of the server (a cookie, or user and
  password of the command line), the check of a user against the \<open>-rpcauth\<close> entries, and the check of
  the header \<open>authorization\<close>. The handler of requests has its call to \<open>RPCAuthorized\<close> commented out;
  what the check would accept is shown here.
\<close>

definition str_bytes :: "string \<Rightarrow> byte list" where
  "str_bytes s = map chr_byte s"

definition bytes_str :: "byte list \<Rightarrow> string" where
  "bytes_str bs = map byte_chr bs"

text \<open>\<open>boost::trim\<close>\<close>

definition trim :: "string \<Rightarrow> string" where
  "trim s = rev (dropWhile is_space (rev (dropWhile is_space s)))"

subsection \<open>The token\<close>

text \<open>
  \<open>GenerateAuthCookie\<close>: \<open>opened\<close> and \<open>renamed\<close> say whether the cookie file could be written and moved
  to its place, \<open>rand_pwd\<close> are the random bytes.
\<close>

definition generate_auth_cookie :: "bool \<Rightarrow> bool \<Rightarrow> byte list \<Rightarrow> string option" where
  "generate_auth_cookie opened renamed rand_pwd =
     (let cookie = ''__cookie__'' @ '':'' @ hex_str False rand_pwd in
      if \<not> opened then None else if \<not> renamed then None else Some cookie)"

definition init_rpc_authentication :: "string \<Rightarrow> string \<Rightarrow> bool \<Rightarrow> bool \<Rightarrow> byte list \<Rightarrow> bool \<times> string" where
  "init_rpc_authentication rpcuser rpcpassword opened renamed rand_pwd =
     (if rpcpassword = ''''
      then case generate_auth_cookie opened renamed rand_pwd of
             None \<Rightarrow> (False, '''')
           | Some cookie \<Rightarrow> (True, cookie)
      else (True, rpcuser @ '':'' @ rpcpassword))"

subsection \<open>The checks\<close>

definition password_hash :: "string \<Rightarrow> string \<Rightarrow> byte list" where
  "password_hash salt pass =
     hmac_sha256_finalize (hmac_sha256_write (str_bytes pass) (hmac_sha256_new (replicate 64 0) (str_bytes salt)))"

text \<open>One round of the loop over the entries.\<close>

definition entry_accepts :: "string \<Rightarrow> string \<Rightarrow> string \<Rightarrow> bool" where
  "entry_accepts str_user str_pass str_rpcauth =
     (let fields = split_any '':$'' str_rpcauth in
      if length fields \<noteq> 3 then False
      else if \<not> timing_resistant_equal (fields ! 0) str_user then False
      else timing_resistant_equal (hex_str False (password_hash (fields ! 1) str_pass)) (fields ! 2))"

definition multi_user_authorized :: "string list \<Rightarrow> string \<Rightarrow> bool" where
  "multi_user_authorized rpcauth user_pass =
     (case str_find user_pass '':'' of
        None \<Rightarrow> False
      | Some p \<Rightarrow> list_ex (entry_accepts (take p user_pass) (drop (p + 1) user_pass)) rpcauth)"

text \<open>The result, and the user name it assigns, if it does.\<close>

definition rpc_authorized :: "string \<Rightarrow> string list \<Rightarrow> string \<Rightarrow> bool \<times> string option" where
  "rpc_authorized user_colon_pass rpcauth str_auth =
     (if user_colon_pass = '''' then (False, None)
      else if take 6 str_auth \<noteq> ''Basic '' then (False, None)
      else
        let user_pass = bytes_str (fst (decode_base64 (trim (drop 6 str_auth))));
            username = (case str_find user_pass '':'' of None \<Rightarrow> None | Some p \<Rightarrow> Some (take p user_pass))
        in if timing_resistant_equal user_pass user_colon_pass then (True, username)
           else (multi_user_authorized rpcauth user_pass, username))"

subsection \<open>Facts\<close>

lemma byte_chr_byte [simp]: "byte_chr (chr_byte c) = c"
proof -
  have "(of_char c :: byte) = of_nat (of_char c)" by (simp add: of_nat_of_char)
  then have "unat (of_char c :: byte) = of_char c mod 256" by (simp only: unat_of_nat) simp
  then show ?thesis by (simp add: byte_chr_def chr_byte_def)
qed

lemma bytes_str_bytes [simp]: "bytes_str (str_bytes s) = s"
  by (simp add: bytes_str_def str_bytes_def comp_def)

lemma str_find_char:
  "str_find s [c] = (if c \<in> set s then Some (length (takeWhile (\<lambda>x. x \<noteq> c) s)) else None)"
  by (induction s) auto

lemma password_hash_hmac: "password_hash salt pass = hmac_sha256 (str_bytes salt) (str_bytes pass)"
  using hmac_sha256_of_pieces [of "replicate 64 0" "str_bytes salt" "[str_bytes pass]"]
  by (simp add: password_hash_def)

lemma entry_accepts_iff:
  "entry_accepts user pass entry \<longleftrightarrow>
     (\<exists>salt. split_any '':$'' entry = [user, salt, hex_str False (hmac_sha256 (str_bytes salt) (str_bytes pass))])"
  (is "?l \<longleftrightarrow> ?r")
proof
  assume l: ?l
  then have "length (split_any '':$'' entry) = 3" by (simp add: entry_accepts_def Let_def split: if_splits)
  then obtain a b c where s: "split_any '':$'' entry = [a, b, c]"
    by (auto simp: numeral_3_eq_3 length_Suc_conv)
  with l show ?r by (simp add: entry_accepts_def timing_resistant_equal_iff password_hash_hmac split: if_splits)
next
  assume ?r
  then show ?l by (auto simp: entry_accepts_def timing_resistant_equal_iff password_hash_hmac)
qed

lemma split_at_colon:
  "str_find s '':'' = Some p \<longleftrightarrow> s = take p s @ '':'' @ drop (p + 1) s \<and> CHR '':'' \<notin> set (take p s)"
proof (induction s arbitrary: p)
  case Nil
  show ?case by simp
next
  case (Cons c s)
  show ?case
  proof (cases p)
    case 0
    then show ?thesis by (cases "c = CHR '':''") auto
  next
    case (Suc q)
    then show ?thesis using Cons.IH [of q] by (cases "c = CHR '':''") auto
  qed
qed

lemma multi_user_authorized_iff:
  "multi_user_authorized rpcauth up \<longleftrightarrow>
     (\<exists>user pass salt entry. up = user @ '':'' @ pass \<and> CHR '':'' \<notin> set user \<and> entry \<in> set rpcauth
        \<and> split_any '':$'' entry = [user, salt, hex_str False (hmac_sha256 (str_bytes salt) (str_bytes pass))])"
  (is "_ \<longleftrightarrow> ?r")
proof (cases "CHR '':'' \<in> set up")
  case False
  then show ?thesis by (auto simp: multi_user_authorized_def str_find_char)
next
  case True
  let ?p = "length (takeWhile (\<lambda>x. x \<noteq> CHR '':'') up)"
  have f: "str_find up '':'' = Some ?p" using True by (simp add: str_find_char)
  then have s: "up = take ?p up @ '':'' @ drop (?p + 1) up" "CHR '':'' \<notin> set (take ?p up)"
    using split_at_colon [of up ?p] by simp_all
  have unique: "user = take ?p up \<and> pass = drop (?p + 1) up"
    if "up = user @ '':'' @ pass" "CHR '':'' \<notin> set user" for user pass
  proof -
    have "str_find up '':'' = Some (length user)" using that by (subst split_at_colon) simp
    then have "?p = length user" using f by simp
    with that(1) show ?thesis by simp
  qed
  have "multi_user_authorized rpcauth up \<longleftrightarrow>
      (\<exists>entry\<in>set rpcauth. entry_accepts (take ?p up) (drop (?p + 1) up) entry)"
    by (simp add: multi_user_authorized_def f list_ex_iff)
  also have "\<dots> \<longleftrightarrow> ?r"
  proof
    assume "\<exists>entry\<in>set rpcauth. entry_accepts (take ?p up) (drop (?p + 1) up) entry"
    then obtain entry salt where "entry \<in> set rpcauth" "split_any '':$'' entry =
        [take ?p up, salt, hex_str False (hmac_sha256 (str_bytes salt) (str_bytes (drop (?p + 1) up)))]"
      unfolding entry_accepts_iff by blast
    with s show ?r by (intro exI [of _ "take ?p up"] exI [of _ "drop (?p + 1) up"] exI [of _ salt] exI [of _ entry] conjI)
  next
    assume ?r
    then obtain user pass salt entry where e: "up = user @ '':'' @ pass" "CHR '':'' \<notin> set user" "entry \<in> set rpcauth"
        "split_any '':$'' entry = [user, salt, hex_str False (hmac_sha256 (str_bytes salt) (str_bytes pass))]"
      by (elim exE conjE)
    then have "entry_accepts user pass entry" unfolding entry_accepts_iff by (intro exI)
    with e(3) unique [OF e(1,2)] show "\<exists>entry\<in>set rpcauth. entry_accepts (take ?p up) (drop (?p + 1) up) entry"
      by (intro bexI [of _ entry]) simp_all
  qed
  finally show ?thesis .
qed

lemma base64_not_space: "i < 64 \<Longrightarrow> \<not> is_space (base64_alphabet ! i)"
proof -
  assume "i < 64"
  then have "base64_alphabet ! i \<in> set base64_alphabet" by (intro nth_mem) (simp add: base64_alphabet_def)
  moreover have "list_all (\<lambda>c. \<not> is_space c) base64_alphabet" by (simp add: base64_alphabet_def is_space_def)
  ultimately show ?thesis by (simp add: list_all_iff)
qed

lemma equals_not_space: "\<not> is_space (CHR ''='')"
  by (simp add: is_space_def)

lemma enc64_no_space: "c \<in> set (enc64 bs) \<Longrightarrow> \<not> is_space c"
proof (induction bs rule: enc64.induct)
  case (1 a b c' bs)
  then show ?case by (auto simp: base64_not_space sextet_less byte_less)
qed (auto simp: base64_not_space sextet_less byte_less equals_not_space)

lemma trim_encode_base64: "trim (encode_base64 bs) = encode_base64 bs"
proof -
  have "encode_base64 bs = enc64 bs"
    using encode_base64_enc64 [of "''''" 0 bs] by (simp add: encode_base64_def)
  moreover have d: "dropWhile is_space xs = xs" if "\<And>c. c \<in> set xs \<Longrightarrow> \<not> is_space c" for xs
    using that by (cases xs) auto
  moreover have "dropWhile is_space (enc64 bs) = enc64 bs"
    by (rule d) (rule enc64_no_space)
  moreover have "dropWhile is_space (rev (enc64 bs)) = rev (enc64 bs)"
    by (rule d) (use enc64_no_space in simp)
  ultimately show ?thesis by (simp add: trim_def)
qed

lemma split_any_plain: "set s \<inter> set ds = {} \<Longrightarrow> split_any ds s = [s]"
  by (induction s) auto

lemma split_any_sep: "set s \<inter> set ds = {} \<Longrightarrow> d \<in> set ds \<Longrightarrow> split_any ds (s @ d # r) = s # split_any ds r"
  by (induction s) auto

lemma hex_str_no_sep: "set (hex_str False bs) \<inter> set '':$'' = {}"
proof -
  have "hexmap d \<noteq> CHR '':'' \<and> hexmap d \<noteq> CHR ''$''" if "d < 16" for d
    using sixteen_cases [OF that] by (auto simp: hexmap_def)
  then show ?thesis using nibbles by (force simp: hex_str_plain)
qed

subsection \<open>Who is let in\<close>

text \<open>
  C24: \<open>RPCAuthorized\<close> accepts a header exactly when the server has a token, the header is \<open>Basic\<close> with a
  base 64 text, and the text decodes to the token or to a user and a password of which some \<open>-rpcauth\<close>
  entry holds the user, a salt, and the hexadecimal HMAC-SHA-256 of the password under the salt.
\<close>

theorem rpc_authorized_iff:
  "fst (rpc_authorized token rpcauth str_auth) \<longleftrightarrow>
     token \<noteq> '''' \<and> take 6 str_auth = ''Basic '' \<and>
     (let up = bytes_str (fst (decode_base64 (trim (drop 6 str_auth)))) in
      up = token \<or>
      (\<exists>user pass salt entry. up = user @ '':'' @ pass \<and> CHR '':'' \<notin> set user \<and> entry \<in> set rpcauth
         \<and> split_any '':$'' entry = [user, salt, hex_str False (hmac_sha256 (str_bytes salt) (str_bytes pass))]))"
  by (simp add: rpc_authorized_def Let_def timing_resistant_equal_iff multi_user_authorized_iff)

text \<open>
  Credentials made for a user are accepted, and the user is recognised: with an entry of the user,
  a salt and the hash of the password under it, the header a client builds from user and password passes.
\<close>

theorem issued_credentials_accepted:
  assumes "set user \<inter> set '':$'' = {}" "set salt \<inter> set '':$'' = {}" "token \<noteq> ''''"
    and "user @ '':'' @ salt @ ''$'' @ hex_str False (hmac_sha256 (str_bytes salt) (str_bytes pass)) \<in> set rpcauth"
  shows "rpc_authorized token rpcauth (''Basic '' @ encode_base64 (str_bytes (user @ '':'' @ pass))) = (True, Some user)"
proof -
  let ?h = "hex_str False (hmac_sha256 (str_bytes salt) (str_bytes pass))"
  let ?e = "user @ '':'' @ salt @ ''$'' @ ?h"
  have "split_any '':$'' ?e = [user, salt, ?h]"
    using split_any_sep [OF assms(1), of "CHR '':''" "salt @ ''$'' @ ?h"] split_any_sep [OF assms(2), of "CHR ''$''" ?h]
      split_any_plain [OF hex_str_no_sep] by simp
  moreover have u: "CHR '':'' \<notin> set user" using assms(1) by auto
  ultimately have m: "multi_user_authorized rpcauth (user @ '':'' @ pass)"
    unfolding multi_user_authorized_iff using assms(4) by blast
  have d: "bytes_str (fst (decode_base64 (trim (drop 6 (''Basic '' @ encode_base64 (str_bytes (user @ '':'' @ pass)))))))
      = user @ '':'' @ pass"
    by (simp add: trim_encode_base64 base64_read_back)
  have f: "str_find (user @ '':'' @ pass) '':'' = Some (length user)" using u by (subst split_at_colon) simp
  show ?thesis
    using assms(3) m f by (simp add: rpc_authorized_def Let_def d [simplified])
qed

theorem issued_credentials_accepted_witness:
  "rpc_authorized ''t'' [''alice:ab$'' @ hex_str False (hmac_sha256 (str_bytes ''ab'') (str_bytes ''x:y''))]
     (''Basic '' @ encode_base64 (str_bytes ''alice:x:y'')) = (True, Some ''alice'')"
  using issued_credentials_accepted [of "''alice''" "''ab''" "''t''" "''x:y''"
      "[''alice:ab$'' @ hex_str False (hmac_sha256 (str_bytes ''ab'') (str_bytes ''x:y''))]"] by simp

end
