(* ===== verification/CryptoProps.thy ===== *)
theory CryptoProps
  imports HashFuns RpcAuth
begin

section \<open>Properties of the hash functions\<close>

text \<open>
  The hash classes of \<open>server/src/crypto\<close> compute the hash functions of the standards, however the
  message is split into calls of \<open>Write\<close>; the shortcuts of \<open>hash.cpp\<close> agree with the general
  routines; and the hexadecimal text of a blob determines it.
\<close>

subsection \<open>Pieces\<close>

lemma sha256_writes_hold:
  "sha256.holds s msg h \<Longrightarrow> sha256.holds s (msg @ concat ds) (foldl (\<lambda>h d. sha256_write d h) h ds)"
  using sha256.holds_writes [of s msg h ds] by (simp add: sha256_write_def)

lemma sha512_writes_hold:
  "sha512.holds s msg h \<Longrightarrow> sha512.holds s (msg @ concat ds) (foldl (\<lambda>h d. sha512_write d h) h ds)"
  using sha512.holds_writes [of s msg h ds] by (simp add: sha512_write_def)

lemma sha1_writes_hold:
  "sha1.holds s msg h \<Longrightarrow> sha1.holds s (msg @ concat ds) (foldl (\<lambda>h d. sha1_write d h) h ds)"
  using sha1.holds_writes [of s msg h ds] by (simp add: sha1_write_def)

lemma ripemd160_writes_hold:
  "ripemd160.holds s msg h \<Longrightarrow> ripemd160.holds s (msg @ concat ds) (foldl (\<lambda>h d. ripemd160_write d h) h ds)"
  using ripemd160.holds_writes [of s msg h ds] by (simp add: ripemd160_write_def)

text \<open>
  C12: \<open>CSHA256\<close> and \<open>CSHA512\<close> compute SHA-256 and SHA-512 of FIPS 180-4: whatever the pieces a message
  comes in, and whatever the buffer of the new object held, \<open>Write\<close> of the pieces in order and
  \<open>Finalize\<close> give the hash of their concatenation, although the code works on a rotating set of
  registers and a ring of sixteen message words and the standard on eight variables and a schedule
  of 64 or 80 words.
\<close>

theorem sha2_pieces_are_fips:
  assumes "length b = 64" "length c = 128"
  shows "sha256_finalize (foldl (\<lambda>h d. sha256_write d h) (new_sha256 b) ds) = sha256 (concat ds)
    \<and> sha512_finalize (foldl (\<lambda>h d. sha512_write d h) (new_sha512 c) ds) = sha512 (concat ds)"
  using sha256_holds_finalize [OF sha256_writes_hold [OF sha256_new_holds [OF assms(1)]]]
    sha512_holds_finalize [OF sha512_writes_hold [OF sha512_new_holds [OF assms(2)]]]
  by simp

lemma sha2_pieces_are_fips_witness:
  "sha256_finalize (sha256_write [3] (sha256_write [1, 2] (new_sha256 (replicate 64 0)))) = sha256 [1, 2, 3]
   \<and> sha512_finalize (sha512_write [3] (sha512_write [1, 2] (new_sha512 (replicate 128 9)))) = sha512 [1, 2, 3]"
  using sha2_pieces_are_fips [of "replicate 64 0" "replicate 128 9" "[[1, 2], [3]]"] by simp

text \<open>
  \<open>CSHA1\<close> computes SHA-1 of FIPS 180-4 and \<open>CRIPEMD160\<close> the RIPEMD-160 of its authors' paper, with
  its permutations \<open>\<rho>\<close> and \<open>\<pi>\<close>, for a message that comes in any pieces.
\<close>

theorem sha1_ripemd160_pieces:
  assumes "length b = 64" "length c = 64"
  shows "sha1_finalize (foldl (\<lambda>h d. sha1_write d h) (new_sha1 b) ds) = sha1 (concat ds)
    \<and> ripemd160_finalize (foldl (\<lambda>h d. ripemd160_write d h) (new_ripemd160 c) ds) = ripemd160 (concat ds)"
  using sha1_holds_finalize [OF sha1_writes_hold [OF sha1_new_holds [OF assms(1)]]]
    ripemd160_holds_finalize [OF ripemd160_writes_hold [OF ripemd160_new_holds [OF assms(2)]]]
  by simp

lemma sha1_ripemd160_pieces_witness:
  "sha1_finalize (sha1_write [3] (sha1_write [1, 2] (new_sha1 (replicate 64 0)))) = sha1 [1, 2, 3]
   \<and> ripemd160_finalize (ripemd160_write [3] (ripemd160_write [1, 2] (new_ripemd160 (replicate 64 9)))) = ripemd160 [1, 2, 3]"
  using sha1_ripemd160_pieces [of "replicate 64 0" "replicate 64 9" "[[1, 2], [3]]"] by simp

text \<open>
  \<open>CHMAC_SHA256\<close> and \<open>CHMAC_SHA512\<close> compute the keyed hash of FIPS 198-1, for a key of any length
  (one longer than a block is hashed first) and a message in any pieces.
\<close>

theorem hmac_pieces_are_fips:
  assumes "length b = 64" "length c = 128"
  shows "hmac_sha256_finalize (foldl (\<lambda>m d. hmac_sha256_write d m) (hmac_sha256_new b key) ds)
           = fips_hmac 64 sha256 key (concat ds)
    \<and> hmac_sha512_finalize (foldl (\<lambda>m d. hmac_sha512_write d m) (hmac_sha512_new c key) ds)
           = fips_hmac 128 sha512 key (concat ds)"
  using hmac_sha256_of_pieces [OF assms(1)] hmac_sha512_of_pieces [OF assms(2)]
  by (simp add: hmac_sha256_def hmac_sha512_def)

lemma hmac_pieces_are_fips_witness:
  "hmac_sha256_finalize (hmac_sha256_write [8] (hmac_sha256_new (replicate 64 0) (replicate 70 1)))
     = fips_hmac 64 sha256 (replicate 70 1) [8]
   \<and> hmac_sha512_finalize (hmac_sha512_write [8] (hmac_sha512_new (replicate 128 0) (replicate 70 1)))
     = fips_hmac 128 sha512 (replicate 70 1) [8]"
  using hmac_pieces_are_fips [of "replicate 64 0" "replicate 128 0" "replicate 70 1" "[[8]]"] by simp

text \<open>
  the double hashes: \<open>CHash256\<close> gives SHA-256 of the SHA-256, \<open>CHash160\<close> RIPEMD-160 of the SHA-256,
  of the pieces written; the object can be used again after \<open>Reset\<close>.
\<close>

theorem double_hashes:
  assumes "length b = 64" "length c = 64"
  shows "hash256_finalize (foldl (\<lambda>h d. sha256_write d h) (new_sha256 b) ds) = sha256 (sha256 (concat ds))
    \<and> hash160_finalize c (foldl (\<lambda>h d. sha256_write d h) (new_sha256 b) ds) = ripemd160 (sha256 (concat ds))
    \<and> hash256_finalize (foldl (\<lambda>h d. sha256_write d h)
         (sha256_reset (foldl (\<lambda>h d. sha256_write d h) (new_sha256 b) es)) ds) = sha256 (sha256 (concat ds))"
proof -
  have a: "sha256.holds sha256_init (concat ds) (foldl (\<lambda>h d. sha256_write d h) (new_sha256 b) ds)" for ds
    using sha256_writes_hold [OF sha256_new_holds [OF assms(1)]] by simp
  show ?thesis
    using hash256_holds [OF a] hash160_holds [OF a assms(2)]
      hash256_holds [OF sha256_writes_hold [OF sha256_reset_holds [OF a]]] by simp
qed

lemma double_hashes_witness:
  "hash256_finalize (sha256_write [5] (new_sha256 (replicate 64 0))) = sha256 (sha256 [5])
   \<and> hash160_finalize (replicate 64 1) (sha256_write [5] (new_sha256 (replicate 64 0))) = ripemd160 (sha256 [5])"
  using double_hashes [of "replicate 64 0" "replicate 64 1" "[[5]]" "[[6]]"] by simp

subsection \<open>SipHash\<close>

lemma sip_absorb_count: "sip_end (sip_absorb (push_bit 59 4) v) = sip_end (sip_absorb (push_bit 56 32) v)"
  by simp

lemma get_uint64_append4: "get_uint64 [a, b, c, d, e, f, g, h] 0
   = ucast a OR push_bit 8 (ucast b) OR push_bit 16 (ucast c) OR push_bit 24 (ucast d) OR push_bit 32 (ucast e)
     OR push_bit 40 (ucast f) OR push_bit 48 (ucast g) OR push_bit 56 (ucast h)"
  by (simp add: get_uint64_def)

lemma sip_write_32:
  assumes "length val = 32"
  shows "sip_write val (new_sip k0 k1)
     = \<lparr>sip_v = sip_absorb (get_uint64 val 3) (sip_absorb (get_uint64 val 2) (sip_absorb (get_uint64 val 1)
                  (sip_first k0 k1 (get_uint64 val 0)))),
        sip_tmp = 0, sip_count = 32\<rparr>"
proof -
  have "sip_write val (new_sip k0 k1)
    = new_sip k0 k1\<lparr>sip_v := fold sip_absorb (map (get_uint64 val) [0..<4]) (sip_v (new_sip k0 k1)),
                    sip_count := sip_count (new_sip k0 k1) + 8 * 4\<rparr>"
    by (rule sip_write_words) (simp_all add: assms new_sip_def)
  then show ?thesis unfolding four_words by (simp add: new_sip_def sip_first_absorb)
qed

lemma bit_byte_at:
  "n < 64 \<Longrightarrow> bit (push_bit k (ucast (ucast (drop_bit k (x :: 32 word)) :: byte)) :: 64 word) n
     \<longleftrightarrow> k \<le> n \<and> n < k + 8 \<and> bit x n"
  by (auto simp: bit_simps)

lemma four_bytes: "(ucast (ucast (x :: 32 word) :: byte) OR push_bit 8 (ucast (ucast (drop_bit 8 x) :: byte))
   OR push_bit 16 (ucast (ucast (drop_bit 16 x) :: byte)) OR push_bit 24 (ucast (ucast (drop_bit 24 x) :: byte)) :: 64 word)
   = ucast x" (is "?l = _")
proof (rule bit_word_eqI)
  fix n :: nat assume "n < LENGTH(64)"
  then have n: "n < 64" by simp
  have x: "n < 32" if "bit x n" using bit_imp_le_length [OF that] by simp
  have "bit ?l n \<longleftrightarrow> (n < 8 \<and> bit x n) \<or> (8 \<le> n \<and> n < 16 \<and> bit x n) \<or> (16 \<le> n \<and> n < 24 \<and> bit x n)
      \<or> (24 \<le> n \<and> n < 32 \<and> bit x n)"
    using bit_byte_at [OF n, of 0 x] by (simp add: bit_or_iff bit_byte_at [OF n])
  also have "\<dots> \<longleftrightarrow> bit x n" using x by linarith
  also have "\<dots> \<longleftrightarrow> bit (ucast x :: 64 word) n" using n by (simp add: bit_ucast_iff)
  finally show "bit ?l n = bit (ucast x :: 64 word) n" .
qed

lemma sip_write_four:
  "sip_write (write_le 4 (extra :: 32 word)) \<lparr>sip_v = v, sip_tmp = 0, sip_count = 32\<rparr>
     = \<lparr>sip_v = v, sip_tmp = ucast extra, sip_count = 36\<rparr>"
proof -
  have "write_le 4 extra = [ucast extra, ucast (drop_bit 8 extra), ucast (drop_bit 16 extra), ucast (drop_bit 24 extra)]"
    by (simp add: write_le_def four_words)
  then show ?thesis using four_bytes [of extra] by (simp add: sip_write_def sip_byte_def or.assoc)
qed

text \<open>
  the two specialised SipHash routines agree with the general one: \<open>SipHashUint256\<close> with writing
  the 32 bytes of the blob (or its four words), and \<open>SipHashUint256Extra\<close> with writing the 32 bytes
  and the four little-endian bytes of the extra number.
\<close>

theorem siphash_shortcuts:
  assumes "length val = 32"
  shows "siphash_uint256 k0 k1 val = sip_finalize (sip_write val (new_sip k0 k1))
    \<and> siphash_uint256_extra k0 k1 val extra
        = sip_finalize (sip_write (write_le 4 extra) (sip_write val (new_sip k0 k1)))"
proof
  show "siphash_uint256 k0 k1 val = sip_finalize (sip_write val (new_sip k0 k1))"
    by (simp add: sip_write_32 [OF assms] siphash_uint256_def sip_finalize_def Let_def)
  show "siphash_uint256_extra k0 k1 val extra
      = sip_finalize (sip_write (write_le 4 extra) (sip_write val (new_sip k0 k1)))"
    by (simp add: sip_write_32 [OF assms] sip_write_four siphash_uint256_extra_def sip_finalize_def Let_def or.commute)
qed

lemma siphash_shortcuts_witness:
  "siphash_uint256 1 2 (replicate 32 7) = sip_finalize (sip_write (replicate 32 7) (new_sip 1 2))
   \<and> siphash_uint256_extra 1 2 (replicate 32 7) 9
       = sip_finalize (sip_write [9, 0, 0, 0] (sip_write (replicate 32 7) (new_sip 1 2)))"
  using siphash_shortcuts [of "replicate 32 7" 1 2 9] by (simp add: write_le_def four_words)

subsection \<open>Blobs\<close>

lemma low_nibble_first:
  "rev (get_hex data) = concat (map (\<lambda>b. [hexmap (unat b AND 15), hexmap (drop_bit 4 (unat b))]) data)"
  by (induction data) (simp_all add: get_hex_def hex_str_plain)

lemma nibbles_of_int:
  "(of_int (hex_digit (hexmap (unat b AND 15))) OR push_bit 4 (of_int (hex_digit (hexmap (drop_bit 4 (unat b))))) :: byte) = b"
proof -
  have "(of_nat (unat b AND 15) OR push_bit 4 (of_nat (drop_bit 4 (unat b))) :: byte) = b"
    using join_nibbles [of b] by (simp add: of_nat_or_eq push_bit_of_nat or.commute)
  then show ?thesis using nibbles [of b] by (simp add: hexmap_facts)
qed

lemma fill_hex_zeros: "fill_hex n [] = replicate n 0"
  by (induction n) simp_all

lemma fill_hex_digits:
  "fill_hex n (concat (map (\<lambda>b. [hexmap (unat b AND 15), hexmap (drop_bit 4 (unat b))]) data)) = take n (data @ replicate n 0)"
proof (induction data arbitrary: n)
  case Nil
  show ?case by (simp add: fill_hex_zeros)
next
  case (Cons b data)
  show ?case
  proof (cases n)
    case (Suc k)
    have "take k (data @ replicate (Suc k) 0) = take k (data @ replicate k 0)" by (simp add: min_def del: replicate_Suc)
    then show ?thesis using Cons.IH [of k] Suc by (simp add: nibbles_of_int)
  qed simp
qed

lemma get_hex_digits: "c \<in> set (get_hex data) \<Longrightarrow> \<exists>d<16. c = hexmap d"
  using nibbles by (force simp: get_hex_def hex_str_plain)

lemma hexmap_plain: "d < 16 \<Longrightarrow> hexmap d \<noteq> CHR ''x'' \<and> hexmap d \<noteq> CHR ''X'' \<and> hex_digit (hexmap d) \<noteq> - 1"
  using hexmap_facts(1) [of d] sixteen_cases [of d] by (auto simp: hexmap_def)

lemma get_hex_facts:
  "c_str (get_hex data) = get_hex data" "dropWhile is_space (get_hex data) = get_hex data"
  "takeWhile (\<lambda>c. hex_digit c \<noteq> - 1) (get_hex data) = get_hex data"
  "CHR ''x'' \<notin> set (get_hex data)" "CHR ''X'' \<notin> set (get_hex data)"
proof -
  have all: "c \<noteq> CHR 0x00 \<and> \<not> is_space c \<and> hex_digit c \<noteq> - 1 \<and> c \<noteq> CHR ''x'' \<and> c \<noteq> CHR ''X''"
    if "c \<in> set (get_hex data)" for c
    using get_hex_digits [OF that] hexmap_facts hexmap_plain by auto
  show "c_str (get_hex data) = get_hex data" using all by (auto intro: c_str_id)
  show "dropWhile is_space (get_hex data) = get_hex data"
    using all by (cases "get_hex data") auto
  show "takeWhile (\<lambda>c. hex_digit c \<noteq> - 1) (get_hex data) = get_hex data" using all by (simp add: takeWhile_eq_all_conv)
  show "CHR ''x'' \<notin> set (get_hex data)" "CHR ''X'' \<notin> set (get_hex data)" using all by auto
qed

text \<open>
  the hexadecimal text of a blob (its bytes from the last to the first) is read back by \<open>SetHex\<close>,
  also behind blanks and \<open>0x\<close>; a blob that is too narrow keeps the bytes of the low end, one that is
  too wide fills up with zeros; different blobs of a width have different texts.
\<close>

theorem blob_hex_roundtrip:
  "set_hex n (get_hex data) = take n (data @ replicate n 0)
   \<and> set_hex n (''  0x'' @ get_hex data) = take n (data @ replicate n 0)
   \<and> set_hex (length data) (get_hex data) = data \<and> (get_hex data = get_hex other \<longleftrightarrow> data = other)"
proof -
  have f: "fill_hex n (rev (get_hex data)) = take n (data @ replicate n 0)" for n data
    by (simp add: low_nibble_first fill_hex_digits)
  have plain: "set_hex n (get_hex data) = take n (data @ replicate n 0)" for n data
  proof (cases "get_hex data" rule: remdups_adj.cases)
    case (3 z x r)
    have "\<not> (x = CHR ''x'' \<or> x = CHR ''X'')" using get_hex_facts(4,5) [of data] 3 by auto
    then show ?thesis using get_hex_facts(1-3) [of data] 3 f [of n data] by (simp add: set_hex_def)
  qed (use get_hex_facts(1-3) [of data] f [of n data] in \<open>simp_all add: set_hex_def\<close>)
  have "set_hex n (''  0x'' @ get_hex data) = take n (data @ replicate n 0)"
  proof -
    have "CHR 0x00 \<notin> set (''  0x'' @ get_hex data)"
      using get_hex_digits [of "CHR 0x00" data] hexmap_facts(3) [symmetric] by auto
    then have "c_str (''  0x'' @ get_hex data) = ''  0x'' @ get_hex data" by (rule c_str_id)
    then show ?thesis using f [of n data] by (simp add: set_hex_def is_space_def get_hex_facts(3))
  qed
  moreover have "data = other" if "get_hex data = get_hex other"
  proof -
    have "length (get_hex d) = 2 * length d" for d by (induction d) (simp_all add: get_hex_def hex_str_plain)
    from this [of data] this [of other] have "length data = length other" using that by simp
    then show ?thesis using plain [of "length data" data] plain [of "length data" other] that by simp
  qed
  ultimately show ?thesis using plain by auto
qed

end
