(* ===== verification/TypeCheck.thy ===== *)
theory TypeCheck
  imports RpcServer
begin

section \<open>Type checks of the parameters\<close>

text \<open>
  \<open>RPCTypeCheck\<close> of \<open>server/src/rpc/server.cpp\<close>, for positional parameters, beside the checks of one
  value and of an object that \<open>RpcServer\<close> has; and what a check that passes is good for: the reads
  of the checked values do not throw.
\<close>

text \<open>
  The loop goes through the expected types and stops when the parameters end. An expected type is
  turned into an empty JSON value and back on the way; the type is the same after it.
\<close>

definition check_param :: "json \<Rightarrow> bool \<Rightarrow> nat \<Rightarrow> json_type \<Rightarrow> ('s, exn, nat ctl) prog" where
  "check_param params allow_null i t =
     (if jsize params \<le> i then ret (Break i)
      else bindp (lift (at_const params i)) (\<lambda>v.
           thenp (if \<not> (allow_null \<and> is_null v) then rpc_type_check_argument v t else ret ())
             (ret (Continue (i + 1)))))"

definition rpc_type_check :: "json \<Rightarrow> json_type list \<Rightarrow> bool \<Rightarrow> ('s, exn, unit) prog" where
  "rpc_type_check params types_expected allow_null =
     bindp (foreach types_expected 0 (check_param params allow_null)) (\<lambda>_. ret ())"

subsection \<open>What can be read\<close>

definition is_val :: "('e, 'a) outcome \<Rightarrow> bool" where
  "is_val r = (case r of Val _ \<Rightarrow> True | _ \<Rightarrow> False)"

text \<open>The value answers the reads that its type promises.\<close>

fun readable_as :: "json_type \<Rightarrow> json \<Rightarrow> bool" where
  "readable_as TString v = is_val (get_string v)"
| "readable_as TBoolean v = is_val (get_bool v)"
| "readable_as TInteger v = (is_val (get_int v) \<and> is_val (get_u64 v) \<and> is_val (get_double v))"
| "readable_as TUnsigned v = (is_val (get_int v) \<and> is_val (get_u64 v) \<and> is_val (get_double v))"
| "readable_as TFloat v = is_val (get_double v)"
| "readable_as TArray v = is_val (at_idx v (jsize v))"
| "readable_as TObject v = is_val (at_key v '''')"
| "readable_as TNull v = is_null v"

lemma is_null_iff: "is_null v \<longleftrightarrow> v = JNull"
  by (cases v) simp_all

lemma readable_as_type_of: "readable_as (type_of v) v"
  by (cases v) (simp_all add: is_val_def)

lemma readable_as_type: "readable_as t v \<Longrightarrow> t \<in> {TString, TBoolean, TArray, TObject, TNull} \<Longrightarrow> type_of v = t \<or> v = JNull"
  by (cases v; cases t) (simp_all add: is_val_def)

subsection \<open>The checks\<close>

lemma check_argument_iff: "rpc_type_check_argument v t s = (s, Val ()) \<longleftrightarrow> type_of v = t"
  by (simp add: rpc_type_check_argument_def throw_def ret_def)

text \<open>The positional check is the pointwise one, as far as there are parameters: the first misfit is reported.\<close>

definition fits :: "bool \<Rightarrow> json \<Rightarrow> json_type \<Rightarrow> bool" where
  "fits allow_null v t \<longleftrightarrow> type_of v = t \<or> allow_null \<and> is_null v"

definition misfit_error :: "json \<Rightarrow> exn" where
  "misfit_error v = ThrownJson (json_rpc_error RPC_TYPE_ERROR (''Expected type , got '' @ type_name v))"

lemma check_param_array:
  "check_param (JArr vs) allow_null i t s
     = (s, if length vs \<le> i then Val (Break i) else if fits allow_null (vs ! i) t then Val (Continue (Suc i))
           else Exc (misfit_error (vs ! i)))"
  by (auto simp: check_param_def fits_def misfit_error_def rpc_type_check_argument_def bindp_def prog_simps)

lemma type_check_loop:
  "i \<le> length vs \<Longrightarrow>
   bindp (foreach ts i (check_param (JArr vs) allow_null)) (\<lambda>_. ret ()) s
     = (s, case find (\<lambda>(v, t). \<not> fits allow_null v t) (zip (drop i vs) ts) of
             None \<Rightarrow> Val () | Some (v, t) \<Rightarrow> Exc (misfit_error v))"
proof (induction ts arbitrary: i)
  case Nil
  show ?case by (simp add: bindp_def prog_simps)
next
  case (Cons t ts)
  show ?case
  proof (cases "i < length vs")
    case True
    then have d: "drop i vs = vs ! i # drop (Suc i) vs" by (simp add: Cons_nth_drop_Suc)
    show ?thesis using Cons.IH [of "Suc i"] True by (simp add: bindp_def check_param_array d)
  qed (simp add: bindp_def check_param_array prog_simps)
qed

lemma type_check_outcome:
  "rpc_type_check (JArr vs) ts allow_null s
     = (s, case find (\<lambda>(v, t). \<not> fits allow_null v t) (zip vs ts) of
             None \<Rightarrow> Val () | Some (v, t) \<Rightarrow> Exc (misfit_error v))"
  using type_check_loop [of 0 vs ts allow_null s] by (simp add: rpc_type_check_def)

text \<open>
  C35: \<open>RPCTypeCheck\<close> on an array of parameters changes nothing, and either passes or throws
  \<open>RPC_TYPE_ERROR\<close> for the first parameter that does not fit. When it passes, every parameter that has a
  type is null, which happens only if null is admitted or is the type, or can be read at its type without an
  exception; parameters beyond the types, and types beyond the parameters, are not looked at.
\<close>

theorem type_check_sound:
  "case rpc_type_check (JArr vs) ts allow_null s of
     (t, Val _) \<Rightarrow> t = s \<and> list_all2 (\<lambda>ty v. readable_as ty v \<or> allow_null \<and> v = JNull) (take (length vs) ts) (take (length ts) vs)
   | (t, Exc e) \<Rightarrow> t = s \<and> (\<exists>i. i < length vs \<and> i < length ts \<and> e = misfit_error (vs ! i)
       \<and> \<not> fits allow_null (vs ! i) (ts ! i) \<and> (\<forall>j<i. fits allow_null (vs ! j) (ts ! j)))
   | (t, Fault k) \<Rightarrow> False"
proof (cases "find (\<lambda>(v, t). \<not> fits allow_null v t) (zip vs ts)")
  case None
  have fit: "fits allow_null (vs ! i) (ts ! i)" if "i < length vs" "i < length ts" for i
    using None that by (auto simp: find_None_iff set_zip)
  have "readable_as (ts ! i) (vs ! i) \<or> allow_null \<and> vs ! i = JNull" if "i < length vs" "i < length ts" for i
    using fit [OF that] readable_as_type_of [of "vs ! i"] by (auto simp: fits_def is_null_iff)
  then have "list_all2 (\<lambda>ty v. readable_as ty v \<or> allow_null \<and> v = JNull) (take (length vs) ts) (take (length ts) vs)"
    by (simp add: list_all2_conv_all_nth)
  then show ?thesis using None by (simp add: type_check_outcome)
next
  case (Some p)
  then obtain i where i: "i < length (zip vs ts)" "\<not> fits allow_null (fst (zip vs ts ! i)) (snd (zip vs ts ! i))"
      "p = zip vs ts ! i" "\<forall>j<i. fits allow_null (fst (zip vs ts ! j)) (snd (zip vs ts ! j))"
    by (auto simp: find_Some_iff case_prod_unfold)
  have "e = misfit_error (vs ! i)" if "e = (case p of (v, t) \<Rightarrow> misfit_error v)" for e
    using that i(1,3) by simp
  moreover have "fits allow_null (vs ! j) (ts ! j)" if "j < i" for j using i(1,4) that by simp
  ultimately show ?thesis using Some i by (auto simp: type_check_outcome split: prod.splits)
qed

lemma type_check_sound_witness:
  "rpc_type_check (JArr [JStr ''a'', JNull, JBool True]) [TString, TInteger] True () = ((), Val ())
   \<and> list_all2 (\<lambda>ty v. readable_as ty v \<or> v = JNull) [TString, TInteger] [JStr ''a'', JNull]"
proof -
  have "rpc_type_check (JArr [JStr ''a'', JNull, JBool True]) [TString, TInteger] True () = ((), Val ())"
    by (simp add: type_check_outcome fits_def)
  then show ?thesis using type_check_sound [where vs = "[JStr ''a'', JNull, JBool True]" and ts = "[TString, TInteger]" and allow_null = True and s = "()"]
    by simp
qed

subsection \<open>Objects\<close>

definition field_fits :: "bool \<Rightarrow> json \<Rightarrow> json_type option \<Rightarrow> bool" where
  "field_fits allow_null v t \<longleftrightarrow>
     (is_null v \<longrightarrow> allow_null) \<and> (t = None \<or> t = Some (type_of v) \<or> is_null v)"

lemma forall_do_passes:
  assumes "\<And>x. x \<in> set xs \<Longrightarrow> f x s = (s, Val ()) \<longleftrightarrow> P x" "\<And>x. fst (f x s) = s"
  shows "forall_do xs f s = (s, Val ()) \<longleftrightarrow> list_all P xs" "fst (forall_do xs f s) = s"
proof -
  have "(forall_do xs f s = (s, Val ()) \<longleftrightarrow> list_all P xs) \<and> fst (forall_do xs f s) = s"
    using assms
  proof (induction xs)
    case (Cons x xs)
    obtain r where r: "f x s = (s, r)" using Cons.prems(2) [of x] by (metis prod.collapse)
    have px: "P x \<longleftrightarrow> r = Val ()" using Cons.prems(1) [of x] r by auto
    have IH: "(forall_do xs f s = (s, Val ()) \<longleftrightarrow> list_all P xs) \<and> fst (forall_do xs f s) = s"
      using Cons by simp
    show ?case using IH by (cases r) (simp_all add: bindp_def r px)
  qed (simp add: prog_simps)
  then show "forall_do xs f s = (s, Val ()) \<longleftrightarrow> list_all P xs" "fst (forall_do xs f s) = s" by simp_all
qed

lemma type_check_obj_passes:
  "rpc_type_check_obj (JObj m) types allow_null strict s = (s, Val ()) \<longleftrightarrow>
     list_all (\<lambda>(k, t). case map_of m k of Some v \<Rightarrow> field_fits allow_null v t | None \<Rightarrow> False) types
     \<and> (strict \<longrightarrow> set (map fst m) \<subseteq> set (map fst types))"
proof -
  define f where "f = (\<lambda>(k, t). bindp (lift (key_const (JObj m) k)) (\<lambda>v.
              if \<not> allow_null \<and> is_null v
              then throw (ThrownJson (json_rpc_error RPC_TYPE_ERROR (''Missing '' @ k)))
              else if \<not> (t = None \<or> t = Some (type_of v) \<or> allow_null \<and> is_null v)
              then throw (ThrownJson (json_rpc_error RPC_TYPE_ERROR
                            (''Expected type s for '' @ k @ '', got '' @ type_name v)))
              else (ret () :: ('a, exn, unit) prog)))"
  define g where "g = (\<lambda>k. if k \<notin> fst ` set types
      then throw (ThrownJson (json_rpc_error RPC_TYPE_ERROR (''Unexpected key '' @ k))) else (ret () :: ('a, exn, unit) prog))"
  let ?P = "\<lambda>(k, t). case map_of m k of Some v \<Rightarrow> field_fits allow_null v t | None \<Rightarrow> False"
  have fk: "(f (k, t) s = (s, Val ()) \<longleftrightarrow> ?P (k, t)) \<and> fst (f (k, t) s) = s" for k t
    by (cases "map_of m k") (simp_all add: f_def bindp_def prog_simps field_fits_def)
  have f: "f p s = (s, Val ()) \<longleftrightarrow> ?P p" "fst (f p s) = s" for p
    using fk [of "fst p" "snd p"] unfolding prod.collapse by blast+
  have g: "g k s = (s, Val ()) \<longleftrightarrow> k \<in> fst ` set types" "fst (g k s) = s" for k
    by (simp_all add: g_def prog_simps)
  have fs: "forall_do types f s = (s, Val ()) \<longleftrightarrow> list_all ?P types" "fst (forall_do types f s) = s"
    using forall_do_passes [of types f s ?P, OF f] by blast+
  have gs: "forall_do (map fst m) g s = (s, Val ()) \<longleftrightarrow> set (map fst m) \<subseteq> set (map fst types)"
    using forall_do_passes(1) [of "map fst m" g s "\<lambda>k. k \<in> fst ` set types", OF g] by (auto simp: list_all_iff)
  obtain r where r: "forall_do types f s = (s, r)" using fs(2) by (metis prod.collapse)
  have "rpc_type_check_obj (JObj m) types allow_null strict
      = bindp (forall_do types f) (\<lambda>_. if strict then forall_do (map fst m) g else ret ())"
    unfolding rpc_type_check_obj_def f_def g_def by simp
  then show ?thesis using fs(1) gs r by (cases r; cases strict) (simp_all add: bindp_def ret_def)
qed

text \<open>
  \<open>RPCTypeCheckObj\<close> passes exactly when every expected key is there with a value of its type (or
  null, where null is admitted) and, if it is strict, no other key is there. After a check that
  passes without admitting null, a field with an expected type can be read at that type without an
  exception.
\<close>

theorem type_check_obj_sound:
  assumes "rpc_type_check_obj (JObj m) types False strict s = (s, Val ())" and "(k, Some t) \<in> set types"
  shows "(case map_of m k of Some v \<Rightarrow> readable_as t v \<and> at_key (JObj m) k = Val v | None \<Rightarrow> False)
    \<and> (strict \<longrightarrow> set (map fst m) \<subseteq> set (map fst types))"
  using assms readable_as_type_of unfolding type_check_obj_passes
  by (fastforce simp: list_all_iff field_fits_def split: option.splits)

lemma type_check_obj_sound_witness:
  "readable_as TString (JStr ''x'') \<and> at_key (JObj [(''a'', JStr ''x''), (''b'', JBool True)]) ''a'' = Val (JStr ''x'')"
  using type_check_obj_sound [of "[(''a'', JStr ''x''), (''b'', JBool True)]" "[(''a'', Some TString), (''b'', None)]" True "()" "''a''" TString]
  by (simp add: type_check_obj_passes field_fits_def)

text \<open>
  A key that is missing is not reported as \<open>Missing\<close>: the object is constant, so the access asserts
  that the key is there, and the server ends.
\<close>

theorem missing_field_aborts:
  "map_of m k = None \<Longrightarrow> rpc_type_check_obj (JObj m) ((k, t) # types) allow_null strict s = (s, Fault AssertFailed)"
  by (simp add: rpc_type_check_obj_def bindp_def prog_simps)

lemma missing_field_aborts_witness:
  "rpc_type_check_obj (JObj []) [(''a'', Some TString)] False False () = ((), Fault AssertFailed)"
  by (rule missing_field_aborts) simp

end
