(* ===== verification/Base58.thy ===== *)
theory Base58
  imports HashFuns EncodingProps
begin

section \<open>Base 58\<close>

text \<open>
  \<open>server/src/base58.cpp\<close>: bytes as text in base 58 and back, by schoolbook multiplication on a digit
  array whose size is fixed beforehand; the variant with a checksum; and \<open>CBase58Data\<close>. The digit
  array is kept here from its last digit to its first, the order in which the loops go.
\<close>

definition base58_alphabet :: string where
  "base58_alphabet = ''123456789ABCDEFGHJKLMNPQRSTUVWXYZabcdefghijkmnopqrstuvwxyz''"

subsection \<open>The loops\<close>

text \<open>
  \<open>carry += m * digit; digit = carry % b; carry /= b\<close>, from the last digit on, as long as there is a
  carry or the digit is one of the \<open>len\<close> in use; the digits, the carry and the number of rounds.
\<close>

fun mul_add :: "nat \<Rightarrow> nat \<Rightarrow> nat \<Rightarrow> nat \<Rightarrow> nat \<Rightarrow> nat list \<Rightarrow> nat list \<times> nat \<times> nat" where
  "mul_add m b len carry i [] = ([], carry, i)"
| "mul_add m b len carry i (d # ds) =
     (if carry \<noteq> 0 \<or> i < len then
        (let c = carry + m * d in
         case mul_add m b len (c div b) (i + 1) ds of (ds', c', i') \<Rightarrow> (c mod b # ds', c', i'))
      else (d # ds, carry, i))"

text \<open>One digit more: the array and the number of digits in use, with \<open>assert(carry == 0)\<close>.\<close>

definition radix_step :: "nat \<Rightarrow> nat \<Rightarrow> nat list \<times> nat \<Rightarrow> nat \<Rightarrow> (unit, nat list \<times> nat) outcome" where
  "radix_step m b st x =
     (case mul_add m b (snd st) x 0 (fst st) of
        (ds, carry, i) \<Rightarrow> if carry \<noteq> 0 then Fault AssertFailed else Val (ds, i))"

fun encode58_loop :: "byte list \<Rightarrow> nat list \<times> nat \<Rightarrow> (unit, nat list \<times> nat) outcome" where
  "encode58_loop [] st = Val st"
| "encode58_loop (x # xs) st =
     (case radix_step 256 58 st (unat x) of Val st' \<Rightarrow> encode58_loop xs st' | r \<Rightarrow> r)"

text \<open>The characters up to a blank or the end; \<open>Exc ()\<close> is the return value \<open>false\<close>.\<close>

fun decode58_loop :: "string \<Rightarrow> nat list \<times> nat \<Rightarrow> (unit, (nat list \<times> nat) \<times> string) outcome" where
  "decode58_loop [] st = Val (st, [])"
| "decode58_loop (c # cs) st =
     (if is_space c then Val (st, c # cs)
      else case index_in base58_alphabet c of
             None \<Rightarrow> Exc ()
           | Some n \<Rightarrow> (case radix_step 58 256 st n of
               Val st' \<Rightarrow> decode58_loop cs st' | Exc e \<Rightarrow> Exc e | Fault k \<Rightarrow> Fault k))"

text \<open>The digits in use without leading zeros, from the first on.\<close>

definition digits_used :: "nat list \<times> nat \<Rightarrow> nat list" where
  "digits_used st = dropWhile (\<lambda>d. d = 0) (drop (length (fst st) - snd st) (rev (fst st)))"

text \<open>
  The sizes of the arrays, \<open>int\<close> in the code: they are exact for texts and byte strings of less than
  \<open>2\<^sup>3\<^sup>0\<close> characters (\<open>sizes_fit\<close> below), and the model is of those.
\<close>

definition decode_size :: "nat \<Rightarrow> nat" where
  "decode_size n = n * 733 div 1000 + 1"

definition encode_size :: "nat \<Rightarrow> nat" where
  "encode_size n = n * 138 div 100 + 1"

lemma sizes_fit: "n < 2 ^ 30 \<Longrightarrow> decode_size n < 2 ^ 31 \<and> encode_size n < 2 ^ 31"
proof -
  assume n: "n < 2 ^ 30"
  have "n * 733 div 1000 \<le> n * 1000 div 1000" "n * 138 div 100 \<le> n * 200 div 100"
    by (rule div_le_mono; simp)+
  then show ?thesis using n by (simp add: decode_size_def encode_size_def)
qed

definition decode_base58 :: "string \<Rightarrow> (unit, byte list) outcome" where
  "decode_base58 str =
     (let psz = dropWhile is_space (c_str str);
          zeroes = length (takeWhile (\<lambda>c. c = CHR ''1'') psz);
          psz = dropWhile (\<lambda>c. c = CHR ''1'') psz;
          n = decode_size (length psz)
      in case decode58_loop psz (replicate n 0, 0) of
           Exc e \<Rightarrow> Exc e
         | Fault k \<Rightarrow> Fault k
         | Val (st, rest) \<Rightarrow>
             if dropWhile is_space rest \<noteq> [] then Exc ()
             else Val (replicate zeroes 0 @ map of_nat (digits_used st)))"

definition encode_base58 :: "byte list \<Rightarrow> (unit, string) outcome" where
  "encode_base58 bs =
     (let zeroes = length (takeWhile (\<lambda>d. d = 0) bs);
          rest = dropWhile (\<lambda>d. d = 0) bs;
          n = encode_size (length rest)
      in case encode58_loop rest (replicate n 0, 0) of
           Exc e \<Rightarrow> Exc e
         | Fault k \<Rightarrow> Fault k
         | Val st \<Rightarrow> Val (replicate zeroes (CHR ''1'') @ map (\<lambda>d. base58_alphabet ! d) (digits_used st)))"

subsection \<open>With a checksum\<close>

definition encode_base58_check :: "byte list \<Rightarrow> (unit, string) outcome" where
  "encode_base58_check bs = encode_base58 (bs @ take 4 (hash256 bs))"

definition decode_base58_check :: "string \<Rightarrow> (unit, byte list) outcome" where
  "decode_base58_check str =
     (case decode_base58 str of
        Val vch \<Rightarrow>
          if length vch < 4 then Exc ()
          else if take 4 (hash256 (take (length vch - 4) vch)) \<noteq> drop (length vch - 4) vch then Exc ()
          else Val (take (length vch - 4) vch)
      | r \<Rightarrow> r)"

record base58_data =
  vch_version :: "byte list"
  vch_data :: "byte list"

text \<open>\<open>SetString\<close> clears both vectors when the text is no data with a version.\<close>

definition set_string :: "string \<Rightarrow> nat \<Rightarrow> (base58_data, unit, bool) prog" where
  "set_string str n_version_bytes d =
     (case decode_base58_check str of
        Fault k \<Rightarrow> (d, Fault k)
      | Exc e \<Rightarrow> (\<lparr>vch_version = [], vch_data = []\<rparr>, Val False)
      | Val vch \<Rightarrow>
          if length vch < n_version_bytes then (\<lparr>vch_version = [], vch_data = []\<rparr>, Val False)
          else (\<lparr>vch_version = take n_version_bytes vch, vch_data = drop n_version_bytes vch\<rparr>, Val True))"

definition base58_to_string :: "base58_data \<Rightarrow> (unit, string) outcome" where
  "base58_to_string d = encode_base58_check (vch_version d @ vch_data d)"

subsection \<open>Numbers in a base\<close>

text \<open>The value of digits from the last on and from the first on, and the digits of a number.\<close>

primrec val_le :: "nat \<Rightarrow> nat list \<Rightarrow> nat" where
  "val_le b [] = 0"
| "val_le b (d # ds) = d + b * val_le b ds"

definition val_be :: "nat \<Rightarrow> nat list \<Rightarrow> nat" where
  "val_be b xs = foldl (\<lambda>a x. b * a + x) 0 xs"

function digits_be :: "nat \<Rightarrow> nat \<Rightarrow> nat list" where
  "digits_be b n = (if n = 0 \<or> b < 2 then [] else digits_be b (n div b) @ [n mod b])"
  by pat_completeness auto
termination by (relation "measure snd") (auto intro: div_less_dividend)

declare digits_be.simps [simp del]

abbreviation zeros :: "nat list \<Rightarrow> bool" where
  "zeros ds \<equiv> list_all (\<lambda>d. d = 0) ds"

lemma val_le_zeros: "zeros ds \<Longrightarrow> val_le b ds = 0"
  by (induction ds) auto

lemma val_le_0_iff: "0 < b \<Longrightarrow> val_le b ds = 0 \<longleftrightarrow> zeros ds"
  by (induction ds) auto

lemma val_le_append: "val_le b (xs @ ys) = val_le b xs + b ^ length xs * val_le b ys"
  by (induction xs) (simp_all add: algebra_simps)

lemma val_be_rev: "val_be b xs = val_le b (rev xs)"
  by (induction xs rule: rev_induct) (simp_all add: val_be_def)

lemma val_be_snoc: "val_be b (xs @ [x]) = b * val_be b xs + x"
  by (simp add: val_be_def)

lemma val_be_less: "list_all (\<lambda>d. d < b) xs \<Longrightarrow> val_be b xs < b ^ length xs"
proof (induction xs rule: rev_induct)
  case (snoc x xs)
  then have "val_be b xs + 1 \<le> b ^ length xs" "x < b" by simp_all
  then have "b * (val_be b xs + 1) \<le> b * b ^ length xs" "x < b" by (simp_all del: One_nat_def)
  then show ?case by (simp add: val_be_snoc)
qed (simp add: val_be_def)

lemma digits_be_0 [simp]: "digits_be b 0 = []"
  by (simp add: digits_be.simps)

lemma digits_be_small: "0 < n \<Longrightarrow> n < b \<Longrightarrow> digits_be b n = [n]"
  by (simp add: digits_be.simps [of b n])

lemma drop_leading_zeros_rev:
  "2 \<le> b \<Longrightarrow> list_all (\<lambda>d. d < b) ds \<Longrightarrow> dropWhile (\<lambda>d. d = 0) (rev ds) = digits_be b (val_le b ds)"
proof (induction ds)
  case (Cons d ds)
  show ?case
  proof (cases "zeros ds")
    case True
    then have "\<forall>x\<in>set (rev ds). x = 0" by (simp add: list_all_iff)
    then have "dropWhile (\<lambda>d. d = 0) (rev ds @ [d]) = dropWhile (\<lambda>d. d = 0) [d]" by (intro dropWhile_append2) auto
    then show ?thesis using True Cons.prems
      by (cases "d = 0") (simp_all add: val_le_zeros digits_be_small)
  next
    case False
    then have v: "val_le b ds \<noteq> 0" using Cons.prems val_le_0_iff [of b ds] by simp
    obtain x where x: "x \<in> set (rev ds)" "x \<noteq> 0" using False by (auto simp: list_all_iff)
    have "digits_be b (d + b * val_le b ds) = digits_be b (val_le b ds) @ [d]"
      using Cons.prems v by (simp add: digits_be.simps [of b "d + b * val_le b ds"])
    then show ?thesis using Cons x by (simp add: dropWhile_append1 [of x "rev ds" "\<lambda>d. d = 0"])
  qed
qed simp

lemma digits_be_val: "2 \<le> b \<Longrightarrow> list_all (\<lambda>d. d < b) xs \<Longrightarrow> digits_be b (val_be b xs) = dropWhile (\<lambda>d. d = 0) xs"
  using drop_leading_zeros_rev [of b "rev xs"] by (simp add: val_be_rev list_all_iff)

lemma digits_be_less: "2 \<le> b \<Longrightarrow> list_all (\<lambda>d. d < b) (digits_be b n)"
  by (induction b n rule: digits_be.induct) (subst digits_be.simps, simp)

lemma val_digits: "2 \<le> b \<Longrightarrow> val_be b (digits_be b n) = n"
proof (induction b n rule: digits_be.induct)
  case (1 b n)
  then show ?case by (subst digits_be.simps) (auto simp: val_be_snoc val_be_def)
qed

lemma digits_be_no_zero: "2 \<le> b \<Longrightarrow> dropWhile (\<lambda>d. d = 0) (digits_be b n) = digits_be b n"
  using digits_be_val [OF _ digits_be_less, of b n] by (simp add: val_digits)

subsection \<open>The loops compute it\<close>

lemma mul_add_value:
  "0 < b \<Longrightarrow> zeros (drop (len - i) ds) \<Longrightarrow> mul_add m b len carry i ds = (ds', c', i') \<Longrightarrow>
   length ds' = length ds \<and> val_le b ds' + c' * b ^ length ds = m * val_le b ds + carry
   \<and> i \<le> i' \<and> i' \<le> i + length ds \<and> zeros (drop (i' - i) ds')
   \<and> (list_all (\<lambda>d. d < b) ds \<longrightarrow> list_all (\<lambda>d. d < b) ds')"
proof (induction m b len carry i ds arbitrary: ds' c' i' rule: mul_add.induct)
  case (1 m b len carry i)
  then show ?case by simp
next
  case (2 m b len carry i d ds)
  show ?case
  proof (cases "carry \<noteq> 0 \<or> i < len")
    case True
    define c where "c = carry + m * d"
    obtain es k where e: "mul_add m b len (c div b) (i + 1) ds = (es, c', k)" "ds' = c mod b # es" "i' = k"
      using 2(4) True by (auto simp: c_def Let_def split: prod.splits)
    have "zeros (drop (len - (i + 1)) ds)"
    proof (cases "len - i")
      case 0
      then show ?thesis using 2(3) by (auto simp: list_all_iff dest: in_set_dropD)
    next
      case (Suc j)
      then have "len - (i + 1) = j" by simp
      then show ?thesis using 2(3) Suc by simp
    qed
    from 2(1) [OF True refl 2(2) this, folded c_def, OF e(1)[unfolded e(3)[symmetric]]] e(3)
    have IH: "length es = length ds" "val_le b es + c' * b ^ length ds = m * val_le b ds + c div b"
      "i + 1 \<le> i'" "i' \<le> i + 1 + length ds" "zeros (drop (i' - (i + 1)) es)"
      "list_all (\<lambda>d. d < b) ds \<longrightarrow> list_all (\<lambda>d. d < b) es" by auto
    have "c mod b + b * val_le b es + c' * (b * b ^ length ds)
        = c mod b + b * (val_le b es + c' * b ^ length ds)" by (simp add: algebra_simps)
    also have "\<dots> = b * (m * val_le b ds) + (b * (c div b) + c mod b)" by (simp add: IH(2) algebra_simps)
    also have "\<dots> = m * (d + b * val_le b ds) + carry" by (simp add: c_def algebra_simps)
    finally have v: "val_le b ds' + c' * b ^ length (d # ds) = m * val_le b (d # ds) + carry" by (simp add: e(2))
    have "drop (i' - i) ds' = drop (i' - (i + 1)) es" using IH(3) e(2) by (simp add: Suc_diff_le drop_Suc flip: Suc_diff_Suc)
    then show ?thesis using v IH 2(2) e(2) by simp
  next
    case False
    then have "zeros (d # ds)" using 2(3) by simp
    then show ?thesis using False 2(4) by (auto simp: val_le_zeros)
  qed
qed

text \<open>The digit array: digits below the base, zeros beyond the digits in use.\<close>

definition digits_ok :: "nat \<Rightarrow> nat \<Rightarrow> nat list \<times> nat \<Rightarrow> bool" where
  "digits_ok b n st \<longleftrightarrow> length (fst st) = n \<and> snd st \<le> n \<and> zeros (drop (snd st) (fst st)) \<and> list_all (\<lambda>d. d < b) (fst st)"

lemma radix_step_value:
  assumes "0 < b" "digits_ok b n st" "m * val_le b (fst st) + x < b ^ n"
  obtains st' where "radix_step m b st x = Val st'" "digits_ok b n st'" "val_le b (fst st') = m * val_le b (fst st) + x"
proof -
  obtain ds c i where r: "mul_add m b (snd st) x 0 (fst st) = (ds, c, i)" by (metis prod_cases3)
  have z: "zeros (drop (snd st - 0) (fst st))" using assms(2) by (simp add: digits_ok_def)
  note v = mul_add_value [OF assms(1) z r]
  have "val_le b ds + c * b ^ n < b ^ n" using v assms(2,3) by (simp add: digits_ok_def)
  then have "c * b ^ n < 1 * b ^ n" by linarith
  then have "c = 0" unfolding mult_less_cancel2 by simp
  then show ?thesis using v r assms(2) that [of "(ds, i)"] by (simp add: radix_step_def digits_ok_def)
qed

lemma digits_used_value:
  assumes "2 \<le> b" "digits_ok b n st"
  shows "digits_used st = digits_be b (val_le b (fst st))"
proof -
  let ?ds = "fst st" and ?l = "snd st"
  have "rev ?ds = rev (drop ?l ?ds) @ rev (take ?l ?ds)" by (simp flip: rev_append)
  then have "dropWhile (\<lambda>d. d = 0) (rev ?ds) = dropWhile (\<lambda>d. d = 0) (rev (take ?l ?ds))"
    using assms(2) dropWhile_append2 [of "rev (drop ?l ?ds)" "\<lambda>d. d = 0" "rev (take ?l ?ds)"]
    by (simp add: digits_ok_def list_all_iff)
  moreover have "drop (length ?ds - ?l) (rev ?ds) = rev (take ?l ?ds)" using assms(2) by (simp add: drop_rev digits_ok_def)
  ultimately show ?thesis using drop_leading_zeros_rev [of b ?ds] assms by (simp add: digits_used_def digits_ok_def)
qed

lemma digits_ok_start: "0 < b \<Longrightarrow> digits_ok b n (replicate n 0, 0)"
  by (simp add: digits_ok_def list_all_iff)

lemma val_le_start [simp]: "val_le b (replicate n 0) = 0"
  by (rule val_le_zeros) (simp add: list_all_iff)

subsection \<open>Encoding and decoding\<close>

text \<open>Both loops are this one, over the digits of the input.\<close>

fun radix_loop :: "nat \<Rightarrow> nat \<Rightarrow> nat list \<Rightarrow> nat list \<times> nat \<Rightarrow> (unit, nat list \<times> nat) outcome" where
  "radix_loop m b [] st = Val st"
| "radix_loop m b (x # xs) st = (case radix_step m b st x of Val st' \<Rightarrow> radix_loop m b xs st' | r \<Rightarrow> r)"

lemma encode58_loop_radix: "encode58_loop bs st = radix_loop 256 58 (map unat bs) st"
  by (induction bs arbitrary: st) (auto split: outcome.split)

lemma radix_loop_value:
  assumes "0 < b" "digits_ok b n st" "list_all (\<lambda>d. d < m) xs" "val_le b (fst st) < m ^ k" "m ^ (k + length xs) \<le> b ^ n"
  shows "\<exists>st'. radix_loop m b xs st = Val st' \<and> digits_ok b n st'
           \<and> val_le b (fst st') = foldl (\<lambda>a x. m * a + x) (val_le b (fst st)) xs"
  using assms(2-)
proof (induction xs arbitrary: st k)
  case (Cons x xs)
  have "m * (val_le b (fst st) + 1) \<le> m * m ^ k"
    using Cons.prems(3) by (intro mult_le_mono2) simp
  moreover have "x < m" using Cons.prems(2) by simp
  ultimately have less: "m * val_le b (fst st) + x < m ^ Suc k" by simp
  also have "m ^ Suc k \<le> m ^ (k + length (x # xs))" using Cons.prems(2) by (intro power_increasing) auto
  finally have "m * val_le b (fst st) + x < b ^ n" using Cons.prems(4) by simp
  then obtain st' where st': "radix_step m b st x = Val st'" "digits_ok b n st'"
    "val_le b (fst st') = m * val_le b (fst st) + x"
    by (rule radix_step_value [OF assms(1) Cons.prems(1)])
  show ?case using Cons.IH [of st' "Suc k"] Cons.prems st' less by simp
qed simp

lemma radix_convert:
  assumes "2 \<le> b" "list_all (\<lambda>d. d < m) xs" "m ^ length xs \<le> b ^ n"
  shows "\<exists>st. radix_loop m b xs (replicate n 0, 0) = Val st \<and> digits_used st = digits_be b (val_be m xs)"
proof -
  from radix_loop_value [of b n "(replicate n 0, 0)" m xs 0] assms obtain st where
    "radix_loop m b xs (replicate n 0, 0) = Val st" "digits_ok b n st" "val_le b (fst st) = val_be m xs"
    by (auto simp: digits_ok_start val_be_def)
  then show ?thesis using digits_used_value [OF assms(1), of n st] by auto
qed

text \<open>The size of the array is enough: \<open>log 256 / log 58\<close> and \<open>log 58 / log 256\<close>, rounded up.\<close>

lemma size_enough:
  fixes m b p q n :: nat
  assumes "m ^ q \<le> b ^ p" "0 < q" "1 \<le> b"
  shows "m ^ n \<le> b ^ (n * p div q + 1)"
proof -
  have "n * p < (n * p div q + 1) * q"
    using dividend_less_div_times [OF assms(2), of "n * p"] by simp
  then have le: "n * p \<le> (n * p div q + 1) * q" by simp
  have "(m ^ n) ^ q = (m ^ q) ^ n" by (simp add: mult.commute flip: power_mult)
  also have "\<dots> \<le> (b ^ p) ^ n" using assms(1) by (intro power_mono) simp_all
  also have "\<dots> = b ^ (n * p)" by (simp add: mult.commute flip: power_mult)
  also have "\<dots> \<le> b ^ ((n * p div q + 1) * q)" using le assms(3) by (intro power_increasing)
  also have "\<dots> = (b ^ (n * p div q + 1)) ^ q" by (rule power_mult)
  finally show ?thesis using assms(2) by (simp add: power_mono_iff)
qed

lemma size_encode: "(256 :: nat) ^ n \<le> 58 ^ (n * 138 div 100 + 1)"
  by (rule size_enough) simp_all

lemma size_decode: "(58 :: nat) ^ n \<le> 256 ^ (n * 733 div 1000 + 1)"
proof (rule size_enough)
  have "(58 :: nat) ^ 1000 = 58 ^ (71 * 14 + 6)" by (rule arg_cong [where f = "\<lambda>k. 58 ^ k"]) simp
  also have "\<dots> = (58 ^ 71) ^ 14 * 58 ^ 6" by (simp only: power_add power_mult)
  also have "\<dots> \<le> (256 ^ 52) ^ 14 * 256 ^ 5" by (intro mult_le_mono power_mono) simp_all
  also have "\<dots> = (256 :: nat) ^ (52 * 14 + 5)" by (simp only: power_add power_mult)
  also have "\<dots> = 256 ^ 733" by (rule arg_cong [where f = "\<lambda>k. 256 ^ k"]) simp
  finally show "(58 :: nat) ^ 1000 \<le> 256 ^ 733" .
qed simp_all

subsection \<open>What the routines compute\<close>

abbreviation b58 :: "char \<Rightarrow> nat option" where
  "b58 \<equiv> index_in base58_alphabet"

lemma base58_alphabet_facts: "length base58_alphabet = 58" "distinct base58_alphabet"
  by (simp_all add: base58_alphabet_def)

lemma base58_alphabet_chars:
  "list_all (\<lambda>c. \<not> is_space c \<and> c \<noteq> CHR 0x00) base58_alphabet" "base58_alphabet ! 0 = CHR ''1''"
  by (simp_all add: base58_alphabet_def is_space_def)

lemma b58_nth: "i < 58 \<Longrightarrow> b58 (base58_alphabet ! i) = Some i"
  by (rule index_in_nth) (simp_all add: base58_alphabet_facts)

lemma index_in_Some: "index_in as c = Some i \<Longrightarrow> i < length as \<and> as ! i = c"
  by (induction as arbitrary: i) (auto split: if_splits)

lemma b58_Some: "b58 c = Some i \<Longrightarrow> i < 58 \<and> base58_alphabet ! i = c"
  using index_in_Some [of base58_alphabet c i] by (simp add: base58_alphabet_facts)

lemma b58_not_space: "b58 c = Some i \<Longrightarrow> \<not> is_space c \<and> c \<noteq> CHR 0x00"
  using b58_Some [of c i] base58_alphabet_chars(1) base58_alphabet_facts(1) by (auto simp: list_all_length)

lemma b58_one: "b58 (CHR ''1'') = Some 0"
  by (simp add: base58_alphabet_def)

lemma b58_zero_iff: "b58 c = Some 0 \<longleftrightarrow> c = CHR ''1''"
  using b58_Some [of c 0] b58_one base58_alphabet_chars(2) by auto

text \<open>A text of characters of the alphabet as digits.\<close>

definition b58_digits :: "string \<Rightarrow> nat list" where
  "b58_digits cs = map (\<lambda>c. the (b58 c)) cs"

lemma b58_digits_less: "list_all (\<lambda>c. b58 c \<noteq> None) cs \<Longrightarrow> list_all (\<lambda>d. d < 58) (b58_digits cs)"
  using b58_Some by (force simp: b58_digits_def list_all_iff)

lemma b58_digits_text: "list_all (\<lambda>c. b58 c \<noteq> None) cs \<Longrightarrow> map (\<lambda>d. base58_alphabet ! d) (b58_digits cs) = cs"
  using b58_Some by (force simp: b58_digits_def list_all_iff intro: map_idI)

lemma b58_digits_map: "list_all (\<lambda>d. d < 58) ds \<Longrightarrow> b58_digits (map (\<lambda>d. base58_alphabet ! d) ds) = ds"
  by (auto simp: b58_digits_def list_all_iff b58_nth intro: map_idI)

lemma decode58_loop_good:
  "list_all (\<lambda>c. b58 c \<noteq> None) cs \<Longrightarrow>
   decode58_loop (cs @ rest) st =
     (case radix_loop 58 256 (b58_digits cs) st of
        Val st' \<Rightarrow> decode58_loop rest st' | Exc e \<Rightarrow> Exc e | Fault k \<Rightarrow> Fault k)"
proof (induction cs arbitrary: st)
  case Nil
  then show ?case by (simp add: b58_digits_def)
next
  case (Cons c cs)
  then obtain n where n: "b58 c = Some n" by auto
  then show ?case using Cons b58_not_space [OF n]
    by (auto simp: b58_digits_def split: outcome.split)
qed

lemma dropWhile_zeros_val: "val_be m (dropWhile (\<lambda>d. d = 0) xs) = val_be m xs"
proof (induction xs)
  case (Cons x xs)
  then show ?case by (cases "x = 0") (simp_all add: val_be_def)
qed simp

text \<open>
  \<open>EncodeBase58\<close> never fails its assertion: it gives a \<open>1\<close> for each leading zero byte, followed by
  the digits in base 58 of the number the bytes are in base 256.
\<close>

theorem encode_base58_is:
  "encode_base58 bs = Val (replicate (length (takeWhile (\<lambda>b. b = 0) bs)) (CHR ''1'')
     @ map (\<lambda>d. base58_alphabet ! d) (digits_be 58 (val_be 256 (map unat bs))))"
proof -
  let ?r = "dropWhile (\<lambda>b. b = 0) bs"
  have d: "map unat ?r = dropWhile (\<lambda>d. d = 0) (map unat bs)"
    by (simp add: dropWhile_map comp_def unat_eq_0)
  have "list_all (\<lambda>d. d < 256) (map unat ?r)" using byte_less by (simp add: list_all_iff)
  moreover define n where "n = encode_size (length ?r)"
  moreover have "256 ^ length (map unat ?r) \<le> (58 :: nat) ^ n" unfolding n_def encode_size_def length_map by (rule size_encode)
  ultimately obtain st where st: "radix_loop 256 58 (map unat ?r) (replicate n 0, 0) = Val st"
    "digits_used st = digits_be 58 (val_be 256 (map unat ?r))"
    using radix_convert [of 58 256 "map unat ?r" n] by auto
  have "encode58_loop ?r (replicate n 0, 0) = Val st" by (simp add: encode58_loop_radix st(1))
  then show ?thesis unfolding encode_base58_def Let_def n_def [symmetric] by (simp add: st(2) d dropWhile_zeros_val)
qed

text \<open>
  \<open>DecodeBase58\<close> never fails its assertion, whatever the text: it accepts a text of characters of
  the alphabet between blanks, and gives a zero byte for each leading \<open>1\<close>, followed by the bytes of
  the number that the text is in base 58; it refuses every other text.
\<close>

theorem decode_base58_is:
  "decode_base58 str =
     (let psz = dropWhile is_space (c_str str); cs = takeWhile (\<lambda>c. \<not> is_space c) psz in
      if list_all (\<lambda>c. b58 c \<noteq> None) cs \<and> list_all is_space (drop (length cs) psz)
      then Val (replicate (length (takeWhile (\<lambda>c. c = CHR ''1'') cs)) 0
                @ map of_nat (digits_be 256 (val_be 58 (b58_digits cs))))
      else Exc ())"
proof -
  define psz where "psz = dropWhile is_space (c_str str)"
  define ones where "ones = takeWhile (\<lambda>c. c = CHR ''1'') psz"
  define p where "p = dropWhile (\<lambda>c. c = CHR ''1'') psz"
  define cs where "cs = takeWhile (\<lambda>c. \<not> is_space c) p"
  define rest where "rest = dropWhile (\<lambda>c. \<not> is_space c) p"
  define n where "n = decode_size (length p)"
  have psz: "psz = ones @ p" and p: "p = cs @ rest" by (simp_all add: ones_def p_def cs_def rest_def)
  have one: "\<not> is_space (CHR ''1'')" using b58_not_space [OF b58_one] by simp
  have ones: "x = CHR ''1''" if "x \<in> set ones" for x using that by (auto simp: ones_def dest: set_takeWhileD)
  have mid: "takeWhile (\<lambda>c. \<not> is_space c) psz = ones @ cs"
    unfolding psz cs_def using ones one by (intro takeWhile_append2) auto
  have "p = [] \<or> hd p \<noteq> CHR ''1''" using hd_dropWhile [of "\<lambda>c. c = CHR ''1''" psz] by (auto simp: p_def)
  then have "takeWhile (\<lambda>c. c = CHR ''1'') cs = []" using one by (cases p) (auto simp: cs_def)
  then have lead: "takeWhile (\<lambda>c. c = CHR ''1'') (ones @ cs) = ones"
    using ones by (simp add: takeWhile_append2)
  have val: "val_be 58 (b58_digits (ones @ cs)) = val_be 58 (b58_digits cs)"
  proof -
    have "b58_digits ones = replicate (length ones) 0"
      using ones b58_one by (auto simp: b58_digits_def intro!: replicate_eqI)
    moreover have "val_be 58 (replicate k 0 @ xs) = val_be 58 xs" for k xs
      by (induction k) (simp_all add: val_be_def)
    ultimately show ?thesis by (simp add: b58_digits_def)
  qed
  have alpha: "list_all (\<lambda>c. b58 c \<noteq> None) (ones @ cs) \<longleftrightarrow> list_all (\<lambda>c. b58 c \<noteq> None) cs"
    using ones b58_one by (auto simp: list_all_iff)
  have size: "58 ^ length xs \<le> (256 :: nat) ^ n" if "length xs \<le> length p" for xs :: "nat list"
    using power_increasing [OF that, of "58 :: nat"] size_decode [of "length p"] unfolding n_def decode_size_def by linarith
  have dec: "decode_base58 str = (case decode58_loop p (replicate n 0, 0) of
        Exc e \<Rightarrow> Exc e | Fault k \<Rightarrow> Fault k
      | Val (st, rest) \<Rightarrow> if dropWhile is_space rest \<noteq> [] then Exc ()
                          else Val (replicate (length ones) 0 @ map of_nat (digits_used st)))"
    by (simp only: decode_base58_def Let_def psz_def [symmetric] ones_def [symmetric] p_def [symmetric] n_def [symmetric])
  have convert: "\<exists>st. radix_loop 58 256 (b58_digits ds) (replicate n 0, 0) = Val st
      \<and> digits_used st = digits_be 256 (val_be 58 (b58_digits ds))"
    if "list_all (\<lambda>c. b58 c \<noteq> None) ds" "length ds \<le> length p" for ds
    by (rule radix_convert [OF _ b58_digits_less [OF that(1)] size]) (simp_all add: b58_digits_def that(2))
  show ?thesis
  proof (cases "list_all (\<lambda>c. b58 c \<noteq> None) cs")
    case True
    then obtain st where st: "radix_loop 58 256 (b58_digits cs) (replicate n 0, 0) = Val st"
      "digits_used st = digits_be 256 (val_be 58 (b58_digits cs))"
      using convert [of cs] p by auto
    have "decode58_loop rest st = Val (st, rest)"
    proof (cases rest)
      case (Cons c r)
      then have "is_space c" using hd_dropWhile [of "\<lambda>c. \<not> is_space c" p] by (simp add: rest_def)
      then show ?thesis using Cons by simp
    qed simp
    then have "decode58_loop p (replicate n 0, 0) = Val (st, rest)"
      by (simp add: p decode58_loop_good [OF True] st(1))
    moreover have "drop (length (ones @ cs)) psz = rest" by (simp add: psz p)
    moreover have "dropWhile is_space rest = [] \<longleftrightarrow> list_all is_space rest" by (simp add: list_all_iff)
    ultimately show ?thesis
      unfolding psz_def [symmetric] Let_def mid dec alpha val lead using True st(2) by (auto simp: list_all_iff)
  next
    case False
    then have "\<exists>c\<in>set cs. b58 c = None" by (simp add: list_all_iff)
    from split_list_first_prop [OF this] obtain good c more
      where c: "cs = good @ c # more" "b58 c = None" and good: "list_all (\<lambda>c. b58 c \<noteq> None) good"
      by (auto simp: list_all_iff)
    have "c \<in> set cs" using c(1) by simp
    then have "\<not> is_space c" unfolding cs_def by (blast dest: set_takeWhileD)
    obtain st where "radix_loop 58 256 (b58_digits good) (replicate n 0, 0) = Val st"
      using convert [OF good] c(1) p by auto
    then have "decode58_loop (good @ c # more @ rest) (replicate n 0, 0) = Exc ()"
      using decode58_loop_good [OF good, of "c # more @ rest"] c(2) \<open>\<not> is_space c\<close> by simp
    then have "decode58_loop p (replicate n 0, 0) = Exc ()" by (simp add: p c(1))
    then show ?thesis unfolding psz_def [symmetric] Let_def mid dec alpha using False by simp
  qed
qed

subsection \<open>Round trips\<close>

lemma map_of_nat_unat: "list_all (\<lambda>d. d < 256) ds \<Longrightarrow> map unat (map (of_nat :: nat \<Rightarrow> byte) ds) = ds"
  by (auto simp: list_all_iff unat_of_nat intro!: map_idI)

lemma unat_map_of_nat: "map of_nat (map unat (bs :: byte list)) = bs"
  by (simp add: comp_def)

text \<open>A list is its leading elements of a kind and the rest.\<close>

lemma leading: "replicate (length (takeWhile (\<lambda>x. x = a) xs)) a @ dropWhile (\<lambda>x. x = a) xs = xs"
proof -
  have e: "takeWhile (\<lambda>x. x = a) xs = replicate (length (takeWhile (\<lambda>x. x = a) xs)) a"
    by (rule replicate_eqI) (auto dest: set_takeWhileD)
  show ?thesis unfolding e [symmetric] by (rule takeWhile_dropWhile_id)
qed

lemma take_leading:
  assumes "xs = [] \<or> hd xs \<noteq> a"
  shows "takeWhile (\<lambda>x. x = a) (replicate n a @ xs) = replicate n a"
proof -
  have "takeWhile (\<lambda>x. x = a) (replicate n a @ xs) = replicate n a @ takeWhile (\<lambda>x. x = a) xs"
    by (rule takeWhile_append2) simp
  then show ?thesis using assms by (cases xs) auto
qed

lemma digits_be_hd: "2 \<le> b \<Longrightarrow> digits_be b n = [] \<or> hd (digits_be b n) \<noteq> 0"
  using digits_be_no_zero [of b n] hd_dropWhile [of "\<lambda>d. d = 0" "digits_be b n"] by metis

text \<open>The text of some bytes.\<close>

definition b58_text :: "byte list \<Rightarrow> string" where
  "b58_text bs = replicate (length (takeWhile (\<lambda>b. b = 0) bs)) (CHR ''1'')
     @ map (\<lambda>d. base58_alphabet ! d) (digits_be 58 (val_be 256 (map unat bs)))"

lemma b58_text_facts:
  "list_all (\<lambda>c. b58 c \<noteq> None) (b58_text bs)"
  "length (takeWhile (\<lambda>c. c = CHR ''1'') (b58_text bs)) = length (takeWhile (\<lambda>b. b = 0) bs)"
  "val_be 58 (b58_digits (b58_text bs)) = val_be 256 (map unat bs)"
proof -
  let ?ds = "digits_be 58 (val_be 256 (map unat bs))" and ?z = "length (takeWhile (\<lambda>b. b = 0) bs)"
  have less: "list_all (\<lambda>d. d < 58) ?ds" by (rule digits_be_less) simp
  show "list_all (\<lambda>c. b58 c \<noteq> None) (b58_text bs)"
    using less b58_nth b58_one by (auto simp: b58_text_def list_all_iff)
  have "map (\<lambda>d. base58_alphabet ! d) ?ds = [] \<or> hd (map (\<lambda>d. base58_alphabet ! d) ?ds) \<noteq> CHR ''1''"
  proof (cases ?ds)
    case (Cons d ds)
    then have "d \<noteq> 0" "d < 58" using digits_be_hd [of 58 "val_be 256 (map unat bs)"] less by simp_all
    then have "base58_alphabet ! d \<noteq> CHR ''1''" using b58_nth [of d] b58_zero_iff [of "base58_alphabet ! d"] by auto
    then show ?thesis using Cons by simp
  qed simp
  then show "length (takeWhile (\<lambda>c. c = CHR ''1'') (b58_text bs)) = ?z"
    unfolding b58_text_def by (subst take_leading) simp_all
  have "b58_digits (b58_text bs) = replicate ?z 0 @ ?ds"
    using b58_digits_map [OF less] b58_one by (simp add: b58_text_def b58_digits_def comp_def)
  moreover have "val_be 58 (replicate k 0 @ xs) = val_be 58 xs" for k xs
    by (induction k) (simp_all add: val_be_def)
  ultimately show "val_be 58 (b58_digits (b58_text bs)) = val_be 256 (map unat bs)" by (simp add: val_digits)
qed

lemma b58_text_back:
  "replicate (length (takeWhile (\<lambda>b. b = 0) bs)) 0 @ map of_nat (digits_be 256 (val_be 256 (map unat bs))) = (bs :: byte list)"
proof -
  have "list_all (\<lambda>d. d < 256) (map unat bs)" by (simp add: list_all_iff byte_less)
  then have "digits_be 256 (val_be 256 (map unat bs)) = dropWhile (\<lambda>d. d = 0) (map unat bs)"
    by (rule digits_be_val [rotated]) simp
  also have "\<dots> = map unat (dropWhile (\<lambda>b. b = 0) bs)" by (simp add: dropWhile_map comp_def unat_eq_0)
  finally show ?thesis using leading [of 0 bs] by (simp add: comp_def)
qed

lemma b58_no_blank: "list_all (\<lambda>c. b58 c \<noteq> None) cs \<Longrightarrow> x \<in> set cs \<Longrightarrow> \<not> is_space x \<and> x \<noteq> CHR 0x00"
  using b58_not_space by (auto simp: list_all_iff)

lemma decode_between_blanks:
  assumes "list_all (\<lambda>c. b58 c \<noteq> None) cs" "list_all is_space pre" "list_all is_space post"
  shows "decode_base58 (pre @ cs @ post)
    = Val (replicate (length (takeWhile (\<lambda>c. c = CHR ''1'') cs)) 0 @ map of_nat (digits_be 256 (val_be 58 (b58_digits cs))))"
proof -
  have nul: "\<not> is_space (CHR 0x00)" by (simp add: is_space_def)
  have "CHR 0x00 \<notin> set (pre @ cs @ post)"
    using b58_no_blank [OF assms(1)] assms(2,3) nul by (auto simp: list_all_iff)
  then have c: "c_str (pre @ cs @ post) = pre @ cs @ post" by (rule c_str_id)
  have "dropWhile is_space (pre @ cs @ post) = dropWhile is_space (cs @ post)"
    using assms(2) by (simp add: list_all_iff dropWhile_append2)
  show ?thesis
  proof (cases cs)
    case Nil
    then have d: "dropWhile is_space (pre @ cs @ post) = []" using assms(2,3) by (simp add: list_all_iff)
    show ?thesis unfolding decode_base58_is c Let_def d by (simp add: Nil b58_digits_def val_be_def)
  next
    case (Cons a as)
    then have d: "dropWhile is_space (pre @ cs @ post) = cs @ post"
      using assms(2) b58_no_blank [OF assms(1), of a] by (simp add: list_all_iff dropWhile_append2)
    have t: "takeWhile (\<lambda>c. \<not> is_space c) (cs @ post) = cs"
      using b58_no_blank [OF assms(1)] assms(3) by (cases post) (auto simp: takeWhile_append2)
    show ?thesis unfolding decode_base58_is c Let_def d t using assms(1,3) by simp
  qed
qed

end
