(* ===== verification/Base58Props.thy ===== *)
theory Base58Props
  imports Base58
begin

section \<open>Properties of base 58\<close>

text \<open>
  The digit arrays are large enough, text and bytes determine each other, and the checksum variant
  accepts exactly the texts it writes.
\<close>

lemma encode_text: "encode_base58 bs = Val (b58_text bs)"
  by (simp add: encode_base58_is b58_text_def)

lemma decode_text:
  "list_all is_space pre \<Longrightarrow> list_all is_space post \<Longrightarrow> decode_base58 (pre @ b58_text bs @ post) = Val bs"
  using decode_between_blanks [OF b58_text_facts(1), of pre post bs] unfolding b58_text_facts(2,3) b58_text_back .

lemma b58_digits_leading:
  "list_all (\<lambda>c. b58 c \<noteq> None) cs \<Longrightarrow>
   dropWhile (\<lambda>d. d = 0) (b58_digits cs) = b58_digits (dropWhile (\<lambda>c. c = CHR ''1'') cs)"
proof (induction cs)
  case (Cons c cs)
  then obtain n where n: "b58 c = Some n" by auto
  have "n = 0 \<longleftrightarrow> c = CHR ''1''" using b58_zero_iff [of c] n by auto
  then show ?case using Cons n by (simp add: b58_digits_def)
qed (simp add: b58_digits_def)

text \<open>A text as the decoder sees it: what stands between the blanks.\<close>

definition trimmed :: "string \<Rightarrow> string" where
  "trimmed str = takeWhile (\<lambda>c. \<not> is_space c) (dropWhile is_space (c_str str))"

lemma decode_Val_iff:
  "decode_base58 str = Val bs \<longleftrightarrow>
     list_all (\<lambda>c. b58 c \<noteq> None) (trimmed str) \<and> b58_text bs = trimmed str
     \<and> list_all is_space (drop (length (trimmed str)) (dropWhile is_space (c_str str)))" (is "?l \<longleftrightarrow> ?r")
proof -
  let ?cs = "trimmed str" and ?bs = "replicate (length (takeWhile (\<lambda>c. c = CHR ''1'') (trimmed str))) 0
     @ map of_nat (digits_be 256 (val_be 58 (b58_digits (trimmed str)))) :: byte list"
  have dec: "decode_base58 str = (if list_all (\<lambda>c. b58 c \<noteq> None) ?cs
      \<and> list_all is_space (drop (length ?cs) (dropWhile is_space (c_str str))) then Val ?bs else Exc ())"
    by (simp add: decode_base58_is trimmed_def Let_def)
  have "b58_text ?bs = ?cs" if ok: "list_all (\<lambda>c. b58 c \<noteq> None) ?cs"
  proof -
    let ?n = "val_be 58 (b58_digits ?cs)" and ?k = "length (takeWhile (\<lambda>c. c = CHR ''1'') ?cs)"
    have less: "list_all (\<lambda>d. d < 256) (digits_be 256 ?n)" by (rule digits_be_less) simp
    have hd: "map (of_nat :: nat \<Rightarrow> byte) (digits_be 256 ?n) = [] \<or> hd (map (of_nat :: nat \<Rightarrow> byte) (digits_be 256 ?n)) \<noteq> 0"
    proof (cases "digits_be 256 ?n")
      case (Cons d ds)
      then have "d \<noteq> 0" "d < 256" using digits_be_hd [of 256 ?n] less by simp_all
      then have "unat (of_nat d :: byte) = d" by (simp add: unat_of_nat)
      then have "(of_nat d :: byte) \<noteq> 0" using \<open>d \<noteq> 0\<close> by auto
      then show ?thesis using Cons by simp
    qed simp
    have lead: "takeWhile (\<lambda>b. b = 0) ?bs = replicate ?k 0" by (rule take_leading [OF hd])
    have "val_be 256 (replicate j 0 @ xs) = val_be 256 xs" for j xs
      by (induction j) (simp_all add: val_be_def)
    then have val: "val_be 256 (map unat ?bs) = ?n"
      using map_of_nat_unat [OF less] by (simp add: val_digits comp_def)
    have "list_all (\<lambda>d. d < 58) (b58_digits ?cs)" by (rule b58_digits_less [OF ok])
    then have "digits_be 58 ?n = dropWhile (\<lambda>d. d = 0) (b58_digits ?cs)" by (rule digits_be_val [rotated]) simp
    also have "\<dots> = b58_digits (dropWhile (\<lambda>c. c = CHR ''1'') ?cs)"
      by (rule b58_digits_leading [OF ok])
    finally have "map (\<lambda>d. base58_alphabet ! d) (digits_be 58 ?n) = dropWhile (\<lambda>c. c = CHR ''1'') ?cs"
      using b58_digits_text [of "dropWhile (\<lambda>c. c = CHR ''1'') ?cs"] ok
      by (auto simp: list_all_iff dest: set_dropWhileD)
    then show ?thesis unfolding b58_text_def val using lead leading [of "CHR ''1''" ?cs] by simp
  qed
  moreover have "b58_text x = b58_text y \<Longrightarrow> x = y" for x y
    using decode_text [of "[]" "[]" x] decode_text [of "[]" "[]" y] by simp
  ultimately show ?thesis unfolding dec by auto
qed

subsection \<open>Text and bytes\<close>

text \<open>
  \<open>DecodeBase58\<close> reads back what \<open>EncodeBase58\<close> writes, also between blanks, for every byte string,
  leading zero bytes included.
\<close>

theorem base58_roundtrip:
  assumes "list_all is_space pre" "list_all is_space post"
  shows "case encode_base58 bs of Val str \<Rightarrow> decode_base58 (pre @ str @ post) = Val bs | _ \<Rightarrow> False"
  by (simp add: encode_text decode_text assms)

lemma base58_roundtrip_witness:
  "case encode_base58 [0, 0, 255, 1] of Val str \<Rightarrow> decode_base58 ('' '' @ str @ ''  '') = Val [0, 0, 255, 1] | _ \<Rightarrow> False"
  by (rule base58_roundtrip) (simp_all add: is_space_def)

text \<open>
  A text that \<open>DecodeBase58\<close> accepts is, without the blanks around it, the text \<open>EncodeBase58\<close> writes
  for the bytes: no two texts stand for the same bytes.
\<close>

theorem base58_text_unique:
  assumes "decode_base58 str = Val bs"
  shows "encode_base58 bs = Val (trimmed str)"
  using assms by (simp add: encode_text decode_Val_iff)

lemma base58_text_unique_witness: "encode_base58 [0] = Val (trimmed '' 1 '')"
  by (rule base58_text_unique)
     (simp add: decode_Val_iff trimmed_def c_str_def is_space_def base58_alphabet_def b58_text_def val_be_def)

text \<open>
  C37: The digit arrays of both routines are large enough for every text and byte string of less than \<open>2\<^sup>3\<^sup>0\<close>
  characters: their sizes fit into the \<open>int\<close> they are computed in, and \<open>assert(carry == 0)\<close> never
  fails, whatever the characters are.
\<close>

theorem base58_never_asserts:
  assumes "length str < 2 ^ 30" and "length bs < 2 ^ 30"
  shows "decode_base58 str \<noteq> Fault k \<and> encode_base58 bs \<noteq> Fault k
    \<and> wrap_i32 (int (decode_size (length str))) = int (decode_size (length str))
    \<and> wrap_i32 (int (encode_size (length bs))) = int (encode_size (length bs))"
proof -
  have "decode_base58 str \<noteq> Fault k \<and> encode_base58 bs \<noteq> Fault k"
    by (simp add: decode_base58_is encode_text Let_def)
  moreover have "decode_size (length str) < 2 ^ 31" "encode_size (length bs) < 2 ^ 31"
    using sizes_fit [OF assms(1)] sizes_fit [OF assms(2)] by blast+
  ultimately show ?thesis by simp
qed

theorem base58_never_asserts_witness:
  "decode_base58 ''10 zz'' \<noteq> Fault AssertFailed \<and> encode_base58 (replicate 1000000 255) \<noteq> Fault AssertFailed"
  using base58_never_asserts [of "''10 zz''" "replicate 1000000 255" AssertFailed] by simp

text \<open>
  From about three gigabytes on the size wraps around: for this many bytes it is 2, and there are two
  digits for all of them.
\<close>

lemma base58_size_wraps: "wrap_i32 (int (encode_size 3112295143)) = 2"
  by (simp add: encode_size_def wrap_i32_def)

subsection \<open>Checksums\<close>

lemma decode_check_Val_iff:
  "decode_base58_check str = Val bs \<longleftrightarrow> decode_base58 str = Val (bs @ take 4 (hash256 bs))"
proof -
  have h: "length (hash256 x) = 32" for x by (simp add: hash256_is)
  show ?thesis
  proof
    assume "decode_base58_check str = Val bs"
    then obtain vch where v: "decode_base58 str = Val vch" "\<not> length vch < 4"
      "take 4 (hash256 (take (length vch - 4) vch)) = drop (length vch - 4) vch" "bs = take (length vch - 4) vch"
      by (auto simp: decode_base58_check_def split: outcome.splits if_splits)
    then have "bs @ take 4 (hash256 bs) = vch" by simp
    then show "decode_base58 str = Val (bs @ take 4 (hash256 bs))" using v(1) by simp
  next
    assume "decode_base58 str = Val (bs @ take 4 (hash256 bs))"
    then show "decode_base58_check str = Val bs" by (simp add: decode_base58_check_def h)
  qed
qed

text \<open>
  C38: \<open>CBase58Data\<close>: \<open>SetString\<close> takes back what \<open>ToString\<close> writes, with the version bytes apart; and it
  accepts a text only when the text, blanks apart, is the one \<open>ToString\<close> writes for what it has set,
  so that a text with a wrong checksum is refused and leaves the object empty.
\<close>

theorem base58_data_roundtrip:
  "(case base58_to_string d of
      Val txt \<Rightarrow> set_string txt (length (vch_version d)) d' = (d, Val True) | _ \<Rightarrow> False)
   \<and> (case set_string str n d' of
        (d2, Val True) \<Rightarrow> base58_to_string d2 = Val (trimmed str) \<and> length (vch_version d2) = n
      | (d2, Val False) \<Rightarrow> d2 = \<lparr>vch_version = [], vch_data = []\<rparr>
      | _ \<Rightarrow> False)"
proof
  have again: "decode_base58_check (b58_text (bs @ take 4 (hash256 bs))) = Val bs" for bs
    using decode_text [of "[]" "[]" "bs @ take 4 (hash256 bs)"] by (simp add: decode_check_Val_iff)
  show "case base58_to_string d of
      Val txt \<Rightarrow> set_string txt (length (vch_version d)) d' = (d, Val True) | _ \<Rightarrow> False"
    using again [of "vch_version d @ vch_data d"]
    by (simp add: base58_to_string_def encode_base58_check_def encode_text set_string_def)
  show "case set_string str n d' of
      (d2, Val True) \<Rightarrow> base58_to_string d2 = Val (trimmed str) \<and> length (vch_version d2) = n
    | (d2, Val False) \<Rightarrow> d2 = \<lparr>vch_version = [], vch_data = []\<rparr>
    | _ \<Rightarrow> False"
  proof (cases "decode_base58_check str")
    case (Val vch)
    then have "b58_text (vch @ take 4 (hash256 vch)) = trimmed str"
      by (simp add: decode_check_Val_iff decode_Val_iff)
    then show ?thesis using Val
      by (simp add: set_string_def base58_to_string_def encode_base58_check_def encode_text)
  next
    case (Exc e)
    then show ?thesis by (simp add: set_string_def)
  next
    case (Fault k)
    then have "decode_base58 str = Fault k"
      by (auto simp: decode_base58_check_def split: outcome.splits if_splits)
    then show ?thesis by (simp add: decode_base58_is Let_def split: if_splits)
  qed
qed

end
