(* ===== verification/Bech32.thy ===== *)
theory Bech32
  imports EncodingProps
begin

section \<open>Bech32\<close>

text \<open>
  \<open>server/src/bech32.cpp\<close>: the checksum over \<open>GF(32)\<close>, encoding and decoding. A failed decoding is
  the pair of an empty text and no values, as in the code.
\<close>

unbundle bit_operations_syntax

definition bech32_charset :: string where
  "bech32_charset = ''qpzry9x8gf2tvdw0s3jn54khce6mua7l''"

definition bech32_charset_rev :: "int list" where
  "bech32_charset_rev =
    [-1, -1, -1, -1, -1, -1, -1, -1, -1, -1, -1, -1, -1, -1, -1, -1,
     -1, -1, -1, -1, -1, -1, -1, -1, -1, -1, -1, -1, -1, -1, -1, -1,
     -1, -1, -1, -1, -1, -1, -1, -1, -1, -1, -1, -1, -1, -1, -1, -1,
     15, -1, 10, 17, 21, 20, 26, 30,  7,  5, -1, -1, -1, -1, -1, -1,
     -1, 29, -1, 24, 13, 25,  9,  8, 23, -1, 18, 22, 31, 27, 19, -1,
      1,  0,  3, 16, 11, 28, 12, 14,  6,  4,  2, -1, -1, -1, -1, -1,
     -1, 29, -1, 24, 13, 25,  9,  8, 23, -1, 18, 22, 31, 27, 19, -1,
      1,  0,  3, 16, 11, 28, 12, 14,  6,  4,  2, -1, -1, -1, -1, -1]"

text \<open>\<open>PolyMod\<close>: a round takes the top five bits off, shifts, adds the value, and adds a multiple of \<open>g\<close>.\<close>

definition gen_part :: "byte \<Rightarrow> 32 word" where
  "gen_part c0 =
     (if bit c0 0 then 0x3b6a57b2 else 0) XOR (if bit c0 1 then 0x26508e6d else 0)
       XOR (if bit c0 2 then 0x1ea119fa else 0) XOR (if bit c0 3 then 0x3d4233dd else 0)
       XOR (if bit c0 4 then 0x2a1462b3 else 0)"

definition polymod_step :: "32 word \<Rightarrow> byte \<Rightarrow> 32 word" where
  "polymod_step c v =
     (let c0 = ucast (drop_bit 25 c) in (push_bit 5 (c AND 0x1ffffff) XOR ucast v) XOR gen_part c0)"

definition polymod :: "byte list \<Rightarrow> 32 word" where
  "polymod v = foldl polymod_step 1 v"

abbreviation code :: "char \<Rightarrow> nat" where
  "code c \<equiv> of_char c"

abbreviation is_lower :: "char \<Rightarrow> bool" where
  "is_lower c \<equiv> 97 \<le> code c \<and> code c \<le> 122"

abbreviation is_upper :: "char \<Rightarrow> bool" where
  "is_upper c \<equiv> 65 \<le> code c \<and> code c \<le> 90"

definition lower_case :: "char \<Rightarrow> char" where
  "lower_case c = (if is_upper c then char_of (code c - 65 + 97) else c)"

definition expand_hrp :: "string \<Rightarrow> byte list" where
  "expand_hrp hrp = map (\<lambda>c. drop_bit 5 (chr_byte c)) hrp @ [0] @ map (\<lambda>c. chr_byte c AND 0x1f) hrp"

definition verify_checksum :: "string \<Rightarrow> byte list \<Rightarrow> bool" where
  "verify_checksum hrp values \<longleftrightarrow> polymod (expand_hrp hrp @ values) = 1"

definition create_checksum :: "string \<Rightarrow> byte list \<Rightarrow> byte list" where
  "create_checksum hrp values =
     (let enc = expand_hrp hrp @ values @ replicate 6 0; m = polymod enc XOR 1
      in map (\<lambda>i. ucast (drop_bit (5 * (5 - i)) m) AND 31) [0..<6])"

text \<open>\<open>CHARSET[c]\<close>: the value 32 reads the zero at the end, a larger one beyond the text.\<close>

definition bech32_char :: "byte \<Rightarrow> (unit, char) outcome" where
  "bech32_char c =
     (if unat c < 32 then Val (bech32_charset ! unat c) else if unat c = 32 then Val (CHR 0x00)
      else Fault UndefinedBehaviour)"

fun bech32_chars :: "byte list \<Rightarrow> (unit, string) outcome" where
  "bech32_chars [] = Val []"
| "bech32_chars (c # cs) =
     (case bech32_char c of
        Val x \<Rightarrow> (case bech32_chars cs of Val xs \<Rightarrow> Val (x # xs) | r \<Rightarrow> r)
      | Exc e \<Rightarrow> Exc e | Fault k \<Rightarrow> Fault k)"

definition bech32_encode :: "string \<Rightarrow> byte list \<Rightarrow> (unit, string) outcome" where
  "bech32_encode hrp values =
     (case bech32_chars (values @ create_checksum hrp values) of
        Val cs \<Rightarrow> Val (hrp @ ''1'' @ cs) | r \<Rightarrow> r)"

text \<open>The value of a character, or -1.\<close>

definition bech32_rev :: "char \<Rightarrow> int" where
  "bech32_rev c =
     (let u = code c in if u < 33 \<or> 126 < u then -1 else bech32_charset_rev ! u)"

text \<open>\<open>str.rfind('1')\<close>\<close>

definition last_one :: "string \<Rightarrow> nat option" where
  "last_one str =
     (if CHR ''1'' \<in> set str
      then Some (length str - 1 - length (takeWhile (\<lambda>c. c \<noteq> CHR ''1'') (rev str))) else None)"

definition bech32_decode :: "string \<Rightarrow> string \<times> byte list" where
  "bech32_decode str =
     (let lower = list_ex is_lower str;
          upper = list_ex is_upper str
      in if list_ex (\<lambda>c. code c < 33 \<or> 126 < code c) str then ('''', [])
         else if lower \<and> upper then ('''', [])
         else case last_one str of
                None \<Rightarrow> ('''', [])
              | Some pos \<Rightarrow>
                  if 90 < length str \<or> pos = 0 \<or> length str < pos + 7 then ('''', [])
                  else
                    let revs = map bech32_rev (drop (pos + 1) str); values = map of_int revs;
                        hrp = map lower_case (take pos str)
                    in if - 1 \<in> set revs then ('''', [])
                       else if \<not> verify_checksum hrp values then ('''', [])
                       else (hrp, take (length values - 6) values))"

subsection \<open>The checksum is linear\<close>

lemma gen_part_xor: "gen_part (x XOR y) = gen_part x XOR gen_part y"
  by (simp add: gen_part_def bit_xor_iff xor.left_commute xor.assoc)

lemma gen_part_0 [simp]: "gen_part 0 = 0"
  by (simp add: gen_part_def)

lemma polymod_step_xor: "polymod_step (x XOR y) (v XOR w) = polymod_step x v XOR polymod_step y w"
proof -
  have "push_bit 5 ((x XOR y) AND 0x1ffffff) = push_bit 5 (x AND 0x1ffffff) XOR push_bit 5 (y AND 0x1ffffff)"
    by (rule bit_word_eqI) (auto simp: bit_simps)
  moreover have "(ucast (drop_bit 25 (x XOR y)) :: byte) = ucast (drop_bit 25 x) XOR ucast (drop_bit 25 y)"
    by (rule bit_word_eqI) (auto simp: bit_simps)
  moreover have "(ucast (v XOR w) :: 32 word) = ucast v XOR ucast w"
    by (rule bit_word_eqI) (auto simp: bit_simps)
  ultimately show ?thesis by (simp add: polymod_step_def gen_part_xor Let_def xor.assoc xor.left_commute)
qed

lemma polymod_step_0 [simp]: "polymod_step 0 0 = 0"
  by (simp add: polymod_step_def)

subsection \<open>Packed values\<close>

text \<open>A number of at most \<open>n\<close> bits.\<close>

definition bits_below :: "nat \<Rightarrow> 'a::len word \<Rightarrow> bool" where
  "bits_below n x \<longleftrightarrow> (\<forall>k. bit x k \<longrightarrow> k < n)"

lemma bits_below_xor: "bits_below n x \<Longrightarrow> bits_below n y \<Longrightarrow> bits_below n (x XOR y)"
  by (auto simp: bits_below_def bit_xor_iff)

lemma bits_below_mono: "bits_below n x \<Longrightarrow> n \<le> m \<Longrightarrow> bits_below m x"
  by (auto simp: bits_below_def intro: less_le_trans)

lemma bits_below_byte: "bits_below 8 (v :: byte)"
  using bit_imp_le_length [of v] by (auto simp: bits_below_def)

lemma low_25_bits: "x AND 0x1ffffff = take_bit 25 (x :: 32 word)"
  by (simp add: take_bit_eq_mask mask_eq_exp_minus_1)

lemma bits_below_unat: "bits_below n x \<longleftrightarrow> unat x < 2 ^ n"
proof -
  have "bits_below n x \<longleftrightarrow> take_bit n x = x"
    unfolding bits_below_def by (metis (mono_tags) bit_take_bit_iff bit_eq_iff)
  also have "\<dots> \<longleftrightarrow> take_bit n (unat x) = unat x"
    by (metis unsigned_take_bit_eq unsigned_word_eqI)
  finally show ?thesis by (simp add: take_bit_nat_eq_self_iff)
qed

lemma polymod_step_small:
  assumes "bits_below 25 x"
  shows "polymod_step x v = push_bit 5 x XOR ucast v"
proof -
  have "drop_bit 25 x = 0" "x AND 0x1ffffff = x"
    using assms by (auto intro!: bit_word_eqI simp: low_25_bits bit_simps bits_below_def)
  then show ?thesis by (simp add: polymod_step_def)
qed

lemma gen_part_below: "bits_below 30 (gen_part c)"
proof -
  have "bits_below 30 (0x3b6a57b2 :: 32 word)" "bits_below 30 (0x26508e6d :: 32 word)" "bits_below 30 (0x1ea119fa :: 32 word)"
    "bits_below 30 (0x3d4233dd :: 32 word)" "bits_below 30 (0x2a1462b3 :: 32 word)" "bits_below 30 (0 :: 32 word)"
    by (simp_all add: bits_below_unat)
  then show ?thesis unfolding gen_part_def by (intro bits_below_xor) simp_all
qed

lemma polymod_step_below: "bits_below 30 (polymod_step c v)"
proof -
  have "bits_below 30 (push_bit 5 (c AND 0x1ffffff))"
    by (auto simp: low_25_bits bits_below_def bit_simps)
  moreover have "bits_below 30 (ucast v :: 32 word)"
    using bits_below_byte [of v] by (auto simp: bits_below_def bit_simps)
  ultimately show ?thesis
    unfolding polymod_step_def Let_def by (intro bits_below_xor gen_part_below)
qed

lemma fold_polymod_below: "bits_below 30 s \<Longrightarrow> bits_below 30 (foldl polymod_step s vs)"
  by (induction vs arbitrary: s) (auto intro: polymod_step_below)

lemma polymod_below: "bits_below 30 (polymod vs)"
  unfolding polymod_def by (rule fold_polymod_below) (simp add: bits_below_unat)

lemma fold_polymod_xor:
  "length vs = length ws \<Longrightarrow>
   foldl polymod_step (x XOR y) (map2 (XOR) vs ws) = foldl polymod_step x vs XOR foldl polymod_step y ws"
  by (induction vs ws arbitrary: x y rule: list_induct2) (simp_all add: polymod_step_xor)

text \<open>Up to six values of five bits are packed side by side.\<close>

lemma fold_polymod_packed:
  "length vs \<le> 6 \<Longrightarrow> list_all (bits_below 5) vs \<Longrightarrow>
   bits_below (5 * length vs) (foldl polymod_step 0 vs) \<and> (foldl polymod_step 0 vs = 0 \<longrightarrow> list_all (\<lambda>v. v = 0) vs)"
proof (induction vs rule: rev_induct)
  case Nil
  show ?case by (simp add: bits_below_def)
next
  case (snoc v vs)
  let ?x = "foldl polymod_step 0 vs"
  have IH: "bits_below (5 * length vs) ?x" "?x = 0 \<longrightarrow> list_all (\<lambda>v. v = 0) vs" and v: "bits_below 5 v"
    using snoc by simp_all
  have "bits_below 25 ?x" using bits_below_mono [OF IH(1)] snoc.prems(1) by simp
  then have s: "polymod_step ?x v = push_bit 5 ?x XOR ucast v" by (rule polymod_step_small)
  have b: "bits_below (5 * length vs + 5) (push_bit 5 ?x)" "bits_below (5 * length vs + 5) (ucast v :: 32 word)"
    using IH(1) v by (auto simp: bits_below_def bit_simps)
  have "?x = 0 \<and> v = 0" if z: "push_bit 5 ?x XOR (ucast v :: 32 word) = 0"
  proof -
    have e: "bit (push_bit 5 ?x) n = bit (ucast v :: 32 word) n" for n
    proof -
      have "\<not> bit (push_bit 5 ?x XOR (ucast v :: 32 word)) n" unfolding z by simp
      then show ?thesis by (simp add: bit_xor_iff)
    qed
    have "\<not> bit v n" for n
      using e [of n] v bit_imp_le_length [of v n] by (auto simp: bits_below_def bit_simps)
    then have "v = 0" by (simp add: bit_eq_iff)
    moreover have "\<not> bit ?x n" for n
      using e [of "n + 5"] \<open>bits_below 25 ?x\<close> \<open>v = 0\<close> by (auto simp: bits_below_def bit_simps)
    then have "?x = 0" by (simp add: bit_eq_iff)
    ultimately show ?thesis by simp
  qed
  then show ?case using IH b by (simp add: s add.commute bits_below_xor)
qed

subsection \<open>The checksum made is accepted\<close>

lemma low_5_bits: "x AND 31 = take_bit 5 (x :: byte)"
  by (simp add: take_bit_eq_mask mask_eq_exp_minus_1)

lemma bit_group:
  "k \<le> 25 \<Longrightarrow> n < 32 \<Longrightarrow>
   bit (push_bit k (ucast (ucast (drop_bit k (m :: 32 word)) AND 31 :: byte)) :: 32 word) n \<longleftrightarrow> k \<le> n \<and> n < k + 5 \<and> bit m n"
  unfolding low_5_bits by (auto simp: bit_simps)

text \<open>The six values of a 30-bit number, packed again.\<close>

definition groups :: "32 word \<Rightarrow> byte list" where
  "groups m = map (\<lambda>i. ucast (drop_bit (5 * (5 - i)) m) AND 31) [0..<6]"

lemma upto_six: "[0..<6] = [0, 1, 2, 3, 4, 5 :: nat]"
  by code_simp

lemma groups_list: "groups m = [ucast (drop_bit 25 m) AND 31, ucast (drop_bit 20 m) AND 31, ucast (drop_bit 15 m) AND 31,
   ucast (drop_bit 10 m) AND 31, ucast (drop_bit 5 m) AND 31, ucast m AND 31]"
  by (simp add: groups_def upto_six)

lemma groups_below: "list_all (bits_below 5) (groups m)"
  unfolding groups_list low_5_bits by (simp add: bits_below_def bit_take_bit_iff)

lemma polymod_step_groups:
  assumes "list_all (bits_below 5) [a, b, c, d, e, f]"
  shows "foldl polymod_step 0 [a, b, c, d, e, f]
    = push_bit 25 (ucast a) XOR push_bit 20 (ucast b) XOR push_bit 15 (ucast c) XOR push_bit 10 (ucast d)
      XOR push_bit 5 (ucast e) XOR ucast f"
proof -
  have below: "bits_below 25 (foldl polymod_step 0 vs)" if "length vs \<le> 5" "list_all (bits_below 5) vs" for vs
    using fold_polymod_packed [of vs] that bits_below_mono by force
  note small = polymod_step_small [OF below]
  have 1: "foldl polymod_step 0 [a] = ucast a" using small [of "[]" a] by simp
  have 2: "foldl polymod_step 0 [a, b] = push_bit 5 (ucast a) XOR ucast b" using small [of "[a]" b] assms 1 by simp
  have 3: "foldl polymod_step 0 [a, b, c] = push_bit 10 (ucast a) XOR push_bit 5 (ucast b) XOR ucast c"
    using small [of "[a, b]" c] assms 2 by (simp add: push_bit_xor xor.assoc)
  have 4: "foldl polymod_step 0 [a, b, c, d]
      = push_bit 15 (ucast a) XOR push_bit 10 (ucast b) XOR push_bit 5 (ucast c) XOR ucast d"
    using small [of "[a, b, c]" d] assms 3 by (simp add: push_bit_xor xor.assoc)
  have 5: "foldl polymod_step 0 [a, b, c, d, e]
      = push_bit 20 (ucast a) XOR push_bit 15 (ucast b) XOR push_bit 10 (ucast c) XOR push_bit 5 (ucast d) XOR ucast e"
    using small [of "[a, b, c, d]" e] assms 4 by (simp add: push_bit_xor xor.assoc)
  show ?thesis using small [of "[a, b, c, d, e]" f] assms 5 by (simp add: push_bit_xor xor.assoc)
qed

lemma groups_packed:
  assumes "bits_below 30 m"
  shows "foldl polymod_step 0 (groups m) = m" (is "?l = m")
proof (rule bit_word_eqI)
  fix n :: nat assume "n < LENGTH(32)"
  then have n: "n < 32" by simp
  have "bit ?l n \<longleftrightarrow> (25 \<le> n \<and> n < 30 \<and> bit m n) \<noteq> ((20 \<le> n \<and> n < 25 \<and> bit m n) \<noteq> ((15 \<le> n \<and> n < 20 \<and> bit m n)
      \<noteq> ((10 \<le> n \<and> n < 15 \<and> bit m n) \<noteq> ((5 \<le> n \<and> n < 10 \<and> bit m n) \<noteq> (n < 5 \<and> bit m n)))))"
    using polymod_step_groups [OF groups_below [of m, unfolded groups_list]] bit_group [OF _ n, of 0 m]
    by (simp add: groups_list bit_xor_iff bit_group [OF _ n] xor.assoc)
  also have "\<dots> \<longleftrightarrow> bit m n" using assms by (auto simp: bits_below_def)
  finally show "bit ?l n = bit m n" .
qed

lemma create_checksum_groups:
  "create_checksum hrp values = groups (polymod (expand_hrp hrp @ values @ replicate 6 0) XOR 1)"
  by (simp add: create_checksum_def groups_def Let_def)

lemma length_create_checksum [simp]: "length (create_checksum hrp values) = 6"
  by (simp add: create_checksum_groups groups_list)

lemma checksum_accepted: "verify_checksum hrp (values @ create_checksum hrp values)"
proof -
  let ?e = "expand_hrp hrp @ values"
  let ?m = "polymod (?e @ replicate 6 0)" and ?c = "create_checksum hrp values"
  have c: "?c = groups (?m XOR 1)" by (simp add: create_checksum_groups)
  have "bits_below 30 (?m XOR 1)"
    by (intro bits_below_xor polymod_below) (simp add: bits_below_unat)
  then have p: "foldl polymod_step 0 ?c = ?m XOR 1" unfolding c by (rule groups_packed)
  have z: "map2 (XOR) (replicate (length ws) 0) ws = ws" for ws :: "byte list"
    by (induction ws) simp_all
  have "foldl polymod_step (polymod ?e XOR 0) (map2 (XOR) (replicate 6 0) ?c)
      = foldl polymod_step (polymod ?e) (replicate 6 0) XOR foldl polymod_step 0 ?c"
    by (rule fold_polymod_xor) simp
  moreover have "map2 (XOR) (replicate 6 0) ?c = ?c" using z [of ?c] by simp
  ultimately have "polymod (?e @ ?c) = ?m XOR (?m XOR 1)" by (simp add: polymod_def p)
  then show ?thesis by (simp add: verify_checksum_def xor.assoc [symmetric] del: xor.assoc)
qed

subsection \<open>Errors are noticed\<close>

lemma gen_part_low:
  assumes "take_bit 5 (gen_part c) = 0" "bits_below 5 c"
  shows "c = 0"
proof -
  have "\<forall>k<5. \<not> bit (gen_part c) k"
    using assms(1) by (metis bit_0_eq bit_take_bit_iff bot_apply bot_bool_def)
  then have "\<not> bit (gen_part c) 0" "\<not> bit (gen_part c) 1" "\<not> bit (gen_part c) 2" "\<not> bit (gen_part c) 3" "\<not> bit (gen_part c) 4"
    by simp_all
  then have "\<not> bit c 0" "\<not> bit c 1" "\<not> bit c 2" "\<not> bit c 3" "\<not> bit c 4"
    by (auto simp: gen_part_def bit_xor_iff split: if_splits)
  moreover have "k = 0 \<or> k = 1 \<or> k = 2 \<or> k = 3 \<or> k = 4" if "k < 5" for k :: nat using that by presburger
  ultimately have "\<not> bit c k" for k using assms(2) by (metis bits_below_def)
  then show ?thesis by (simp add: bit_eq_iff)
qed

lemma polymod_step_zero:
  assumes "polymod_step x 0 = 0" "bits_below 30 x"
  shows "x = 0"
proof -
  let ?c0 = "ucast (drop_bit 25 x) :: byte"
  have z: "push_bit 5 (take_bit 25 x) XOR gen_part ?c0 = 0"
    using assms(1) by (simp add: polymod_step_def low_25_bits)
  have e: "bit (push_bit 5 (take_bit 25 x)) n = bit (gen_part ?c0) n" for n
  proof -
    have "\<not> bit (push_bit 5 (take_bit 25 x) XOR gen_part ?c0) n" unfolding z by simp
    then show ?thesis by (simp add: bit_xor_iff)
  qed
  have "\<not> bit (take_bit 5 (gen_part ?c0)) n" for n
    using e [of n] by (auto simp: bit_simps)
  then have "take_bit 5 (gen_part ?c0) = 0" by (simp add: bit_eq_iff)
  moreover have "bits_below 5 ?c0" using assms(2) by (auto simp: bits_below_def bit_simps)
  ultimately have c0: "?c0 = 0" by (rule gen_part_low)
  have "\<not> bit x n" for n
  proof (cases "n < 25")
    case True
    then show ?thesis using e [of "n + 5"] by (simp add: c0 bit_simps)
  next
    case False
    have "bit x n = bit ?c0 (n - 25)" if "n < 30" using that False by (auto simp: bit_simps)
    then show ?thesis using assms(2) by (auto simp: c0 bits_below_def)
  qed
  then show ?thesis by (simp add: bit_eq_iff)
qed

lemma fold_polymod_inj:
  "bits_below 30 x \<Longrightarrow> bits_below 30 y \<Longrightarrow> foldl polymod_step x vs = foldl polymod_step y vs \<Longrightarrow> x = y"
proof (induction vs arbitrary: x y)
  case (Cons v vs)
  have "polymod_step x v = polymod_step y v"
    using Cons.IH [OF polymod_step_below polymod_step_below] Cons.prems(3) by simp
  then have "polymod_step (x XOR y) (v XOR v) = 0" by (subst polymod_step_xor) simp
  then have "polymod_step (x XOR y) 0 = 0" by simp
  moreover have "bits_below 30 (x XOR y)" using Cons.prems(1,2) by (rule bits_below_xor)
  ultimately have "x XOR y = 0" by (rule polymod_step_zero)
  then have "(x XOR y) XOR y = 0 XOR y" by simp
  then show ?case by (simp only: xor.assoc xor_self_eq xor.right_neutral xor.left_neutral)
qed simp

text \<open>Two accepted lists of values that differ only within six places are the same.\<close>

lemma checksum_burst:
  assumes "verify_checksum hrp (p @ x @ q)" "verify_checksum hrp (p @ y @ q)" "length x = length y" "length x \<le> 6"
    and "list_all (bits_below 5) x" "list_all (bits_below 5) y"
  shows "x = y"
proof -
  let ?s = "polymod (expand_hrp hrp @ p)"
  have "foldl polymod_step (foldl polymod_step ?s x) q = foldl polymod_step (foldl polymod_step ?s y) q"
    using assms(1,2) by (simp add: verify_checksum_def polymod_def)
  then have "foldl polymod_step ?s x = foldl polymod_step ?s y"
    by (rule fold_polymod_inj [rotated 2]) (intro fold_polymod_below polymod_below)+
  then have "foldl polymod_step (?s XOR ?s) (map2 (XOR) x y) = 0"
    by (subst fold_polymod_xor [OF assms(3)]) simp
  then have "foldl polymod_step 0 (map2 (XOR) x y) = 0" by simp
  moreover have "list_all (bits_below 5) (map2 (XOR) x y)"
    using assms(3,5,6) by (induction x y rule: list_induct2) (simp_all add: bits_below_xor)
  ultimately have "list_all (\<lambda>v. v = 0) (map2 (XOR) x y)"
    using fold_polymod_packed [of "map2 (XOR) x y"] assms(3,4) by simp
  with assms(3) show ?thesis
  proof (induction x y rule: list_induct2)
    case (Cons a x b y)
    then have "a XOR b = 0" by simp
    then have "(a XOR b) XOR b = 0 XOR b" by simp
    then have "a = b" by (simp only: xor.assoc xor_self_eq xor.right_neutral xor.left_neutral)
    then show ?case using Cons by simp
  qed simp
qed

subsection \<open>The character set\<close>

lemma charset_facts:
  "list_all (\<lambda>i. bech32_rev (bech32_charset ! i) = int i \<and> bech32_rev (toupper_char (bech32_charset ! i)) = int i
     \<and> 33 \<le> code (bech32_charset ! i) \<and> code (bech32_charset ! i) \<le> 126 \<and> \<not> is_upper (bech32_charset ! i)
     \<and> bech32_charset ! i \<noteq> CHR ''1'') [0..<32]"
  by code_simp

lemma rev_table_below: "list_all (\<lambda>r. r = - 1 \<or> 0 \<le> r \<and> r < 32) bech32_charset_rev" "length bech32_charset_rev = 128"
  by (simp_all add: bech32_charset_rev_def)

lemma bech32_rev_range: "bech32_rev c = - 1 \<or> 0 \<le> bech32_rev c \<and> bech32_rev c < 32"
  using rev_table_below by (auto simp: bech32_rev_def Let_def list_all_length)

lemma bech32_rev_one: "bech32_rev (CHR ''1'') = - 1"
  by code_simp

subsection \<open>Decoding\<close>

lemma last_one_sep: "CHR ''1'' \<notin> set s \<Longrightarrow> last_one (hrp @ ''1'' @ s) = Some (length hrp)"
proof -
  assume "CHR ''1'' \<notin> set s"
  then have "takeWhile (\<lambda>c. c \<noteq> CHR ''1'') (rev s @ CHR ''1'' # rev hrp) = rev s"
    by (subst takeWhile_append2) auto
  then show ?thesis by (simp add: last_one_def)
qed

text \<open>The decoder on a text whose last \<open>1\<close> stands behind \<open>hrp\<close>.\<close>

lemma bech32_decode_parts:
  assumes "CHR ''1'' \<notin> set s"
  shows "bech32_decode (hrp @ ''1'' @ s) =
    (if list_all (\<lambda>c. 33 \<le> code c \<and> code c \<le> 126) (hrp @ s)
        \<and> \<not> (list_ex is_lower (hrp @ s) \<and> list_ex is_upper (hrp @ s))
        \<and> length hrp + length s < 90 \<and> hrp \<noteq> '''' \<and> 6 \<le> length s
        \<and> - 1 \<notin> set (map bech32_rev s) \<and> verify_checksum (map lower_case hrp) (map (\<lambda>c. of_int (bech32_rev c)) s)
     then (map lower_case hrp, take (length s - 6) (map (\<lambda>c. of_int (bech32_rev c)) s)) else ('''', []))"
proof -
  have one: "33 \<le> code (CHR ''1'')" "code (CHR ''1'') \<le> 126" "\<not> is_lower (CHR ''1'')" "\<not> is_upper (CHR ''1'')" by simp_all
  have bad: "list_ex (\<lambda>c. code c < 33 \<or> 126 < code c) (hrp @ ''1'' @ s)
      \<longleftrightarrow> \<not> list_all (\<lambda>c. 33 \<le> code c \<and> code c \<le> 126) (hrp @ s)"
    by (auto simp: list_ex_iff list_all_iff not_le)
  have cases_of: "list_ex is_lower (hrp @ ''1'' @ s) = list_ex is_lower (hrp @ s)"
    "list_ex is_upper (hrp @ ''1'' @ s) = list_ex is_upper (hrp @ s)" by simp_all
  have len: "90 < length (hrp @ ''1'' @ s) \<or> length hrp = 0 \<or> length (hrp @ ''1'' @ s) < length hrp + 7
      \<longleftrightarrow> \<not> (length hrp + length s < 90 \<and> hrp \<noteq> '''' \<and> 6 \<le> length s)" by auto
  have parts: "drop (length hrp + 1) (hrp @ ''1'' @ s) = s" "take (length hrp) (hrp @ ''1'' @ s) = hrp" by simp_all
  have vals: "map of_int (map bech32_rev s) = map (\<lambda>c. of_int (bech32_rev c) :: byte) s" by simp
  show ?thesis
    unfolding bech32_decode_def Let_def bad cases_of last_one_sep [OF assms] option.case len parts vals length_map
    by auto
qed

lemma bech32_chars_values:
  "list_all (\<lambda>v. unat v < 32) vs \<Longrightarrow> bech32_chars vs = Val (map (\<lambda>v. bech32_charset ! unat v) vs)"
  by (induction vs) (simp_all add: bech32_char_def)

lemma charset_at:
  assumes "unat v < 32"
  shows "bech32_rev (bech32_charset ! unat v) = int (unat v)" "bech32_rev (toupper_char (bech32_charset ! unat v)) = int (unat v)"
    "33 \<le> code (bech32_charset ! unat v)" "code (bech32_charset ! unat v) \<le> 126" "\<not> is_upper (bech32_charset ! unat v)"
    "bech32_charset ! unat v \<noteq> CHR ''1''"
  using charset_facts assms by (auto simp: list_all_iff)

end
