(* ===== verification/Bech32Props.thy ===== *)
theory Bech32Props
  imports Bech32
begin

section \<open>Properties of bech32\<close>

text \<open>What is encoded is read back, in capitals as well; and the checksum notices every error within six characters.\<close>

lemma toupper_no_lower: "\<not> is_lower (toupper_char c)"
  by (auto simp: toupper_char_def)

lemma toupper_printable: "33 \<le> code c \<Longrightarrow> code c \<le> 126 \<Longrightarrow> 33 \<le> code (toupper_char c) \<and> code (toupper_char c) \<le> 126"
  by (auto simp: toupper_char_def)

lemma lower_case_id: "\<not> is_upper c \<Longrightarrow> lower_case c = c"
  by (auto simp: lower_case_def)

lemma lower_case_toupper: "\<not> is_upper c \<Longrightarrow> lower_case (toupper_char c) = c"
  by (auto simp: lower_case_def toupper_char_def)

text \<open>
  C39: \<open>Decode\<close> reads back what \<open>Encode\<close> writes: for a readable part that is not empty, printable and
  without capitals, and values of five bits, together at most 90 characters, and also when the text
  is written in capitals.
\<close>

theorem bech32_roundtrip:
  assumes "hrp \<noteq> ''''" "list_all (\<lambda>c. 33 \<le> code c \<and> code c \<le> 126 \<and> \<not> is_upper c) hrp"
    and "list_all (\<lambda>v. unat v < 32) values" "length hrp + length values \<le> 83"
  shows "case bech32_encode hrp values of
      Val str \<Rightarrow> bech32_decode str = (hrp, values) \<and> bech32_decode (toupper str) = (hrp, values) | _ \<Rightarrow> False"
proof -
  let ?vs = "values @ create_checksum hrp values"
  let ?s = "map (\<lambda>v. bech32_charset ! unat v) ?vs"
  have v: "unat v < 32" if "v \<in> set ?vs" for v
    using that assms(3) groups_below by (auto simp: list_all_iff create_checksum_groups bits_below_unat)
  have enc: "bech32_encode hrp values = Val (hrp @ ''1'' @ ?s)"
    using bech32_chars_values [of ?vs] v by (simp add: bech32_encode_def list_all_iff)
  have rv: "bech32_rev (bech32_charset ! unat v) = uint v" "bech32_rev (toupper_char (bech32_charset ! unat v)) = uint v"
    if "v \<in> set ?vs" for v
    using charset_at(1,2) [OF v [OF that]] by simp_all
  have low: "map lower_case hrp = hrp" "map lower_case (toupper hrp) = hrp"
    using assms(2) by (auto simp: toupper_def list_all_iff lower_case_id lower_case_toupper intro!: map_idI)
  have vals: "map (\<lambda>c. of_int (bech32_rev c)) ?s = ?vs" "map (\<lambda>c. of_int (bech32_rev c)) (toupper ?s) = ?vs"
    using rv by (auto simp: toupper_def intro!: map_idI)
  have pos: "- 1 \<noteq> uint (x :: byte)" for x
    using uint_ge_0 [of x] by linarith
  have revs: "- 1 \<notin> set (map bech32_rev ?s)" "- 1 \<notin> set (map bech32_rev (toupper ?s))"
    using rv pos by (auto simp: toupper_def)
  have none: "CHR ''1'' \<notin> set ?s" "CHR ''1'' \<notin> set (toupper ?s)"
    using revs bech32_rev_one by (auto simp: image_iff)
  have len: "length ?s = length values + 6" "length (toupper ?s) = length values + 6" by simp_all
  have chars: "list_all (\<lambda>c. 33 \<le> code c \<and> code c \<le> 126 \<and> \<not> is_upper c) (hrp @ ?s)"
    using v charset_at(3-5) assms(2) by (auto simp: list_all_iff)
  have upper: "list_all (\<lambda>c. 33 \<le> code c \<and> code c \<le> 126 \<and> \<not> is_lower c) (toupper hrp @ toupper ?s)"
    using chars toupper_printable toupper_no_lower by (auto simp: toupper_def list_all_iff)
  have "bech32_decode (hrp @ ''1'' @ ?s) = (hrp, values)"
    unfolding bech32_decode_parts [OF none(1)] low vals len
    using chars assms(1,4) revs(1) checksum_accepted [of hrp "values"] by (auto simp: list_all_iff list_ex_iff)
  moreover have "bech32_decode (toupper hrp @ ''1'' @ toupper ?s) = (hrp, values)"
    unfolding bech32_decode_parts [OF none(2)] low vals len
    using upper assms(1,4) revs(2) checksum_accepted [of hrp "values"] by (auto simp: list_all_iff list_ex_iff toupper_def)
  moreover have "toupper (hrp @ ''1'' @ ?s) = toupper hrp @ ''1'' @ toupper ?s"
    by (simp add: toupper_def toupper_char_def)
  ultimately show ?thesis by (simp add: enc)
qed

lemma bech32_roundtrip_witness:
  "case bech32_encode ''bc'' [0, 14, 31] of
      Val str \<Rightarrow> bech32_decode str = (''bc'', [0, 14, 31]) \<and> bech32_decode (toupper str) = (''bc'', [0, 14, 31]) | _ \<Rightarrow> False"
  by (rule bech32_roundtrip) simp_all

text \<open>
  C40: Behind the separator, the checksum notices every error in up to six characters next to each
  other: of two texts with the same readable part that differ only there (and have no further separator),
  not both are accepted, unless the characters mean the same. In the readable part, whose characters have
  eight bits, this is not so: lemma \<open>readable_burst_unnoticed\<close>.
\<close>

theorem bech32_notices_burst:
  assumes "bech32_decode (hrp @ ''1'' @ p @ x @ q) \<noteq> ('''', [])" "bech32_decode (hrp @ ''1'' @ p @ y @ q) \<noteq> ('''', [])"
    and "CHR ''1'' \<notin> set (p @ x @ y @ q)" "length x = length y" "length x \<le> 6"
  shows "map bech32_rev x = map bech32_rev y"
proof -
  let ?v = "\<lambda>s. map (\<lambda>c. of_int (bech32_rev c) :: byte) s"
  have n: "CHR ''1'' \<notin> set (p @ x @ q)" "CHR ''1'' \<notin> set (p @ y @ q)" using assms(3) by auto
  have ok: "verify_checksum (map lower_case hrp) (?v (p @ x @ q))" "- 1 \<notin> set (map bech32_rev (p @ x @ q))"
    "verify_checksum (map lower_case hrp) (?v (p @ y @ q))" "- 1 \<notin> set (map bech32_rev (p @ y @ q))"
    using assms(1,2) unfolding bech32_decode_parts [OF n(1)] bech32_decode_parts [OF n(2)] by (auto split: if_splits)
  have r: "0 \<le> bech32_rev c \<and> bech32_rev c < 32" if "c \<in> set x \<union> set y" for c
    using that ok(2,4) bech32_rev_range [of c] by (fastforce simp: image_iff)
  have "unat (of_int i :: byte) = nat i" if "0 \<le> i" "i < 32" for i
  proof -
    have "(of_int i :: byte) = of_nat (nat i)" using that by simp
    then show ?thesis using that by (simp only: unat_of_nat) simp
  qed
  then have u: "int (unat (of_int (bech32_rev c) :: byte)) = bech32_rev c" if "c \<in> set x \<union> set y" for c
    using r [OF that] by simp
  then have five: "list_all (bits_below 5) (?v x)" "list_all (bits_below 5) (?v y)"
  proof -
    have "unat (of_int (bech32_rev c) :: byte) < 32" if "c \<in> set x \<union> set y" for c
      using u [OF that] r [OF that] by linarith
    then show "list_all (bits_below 5) (?v x)" "list_all (bits_below 5) (?v y)"
      by (simp_all add: list_all_iff bits_below_unat)
  qed
  have "?v x = ?v y"
    by (rule checksum_burst [of "map lower_case hrp" "?v p" _ "?v q"]) (use ok assms(4,5) five in simp_all)
  then have "map (\<lambda>b. int (unat b)) (?v x) = map (\<lambda>b. int (unat b)) (?v y)" by (rule arg_cong)
  moreover have "map (\<lambda>b. int (unat b)) (?v x) = map bech32_rev x"
    "map (\<lambda>b. int (unat b)) (?v y) = map bech32_rev y" using u by auto
  ultimately show ?thesis by simp
qed

lemma bech32_notices_burst_witness: "map bech32_rev ''ezyfcl'' = map bech32_rev ''EZYFCL''"
proof -
  have "bech32_decode ''?1ezyfcl'' = (''?'', [])" "bech32_decode ''?1EZYFCL'' = (''?'', [])" by code_simp+
  then show ?thesis using bech32_notices_burst [of "''?''" "''''" "''ezyfcl''" "''''" "''EZYFCL''"] by simp
qed

lemma readable_burst_unnoticed:
  "bech32_decode ''/~uicu1vq0kp0'' = (''/~uicu'', [])" "bech32_decode ''_=o{h:1vq0kp0'' = (''_=o{h:'', [])"
  by code_simp+

end
