(* ===== verification/EthCommon.thy ===== *)
theory EthCommon
  imports Base58 "HOL-Library.Signed_Division"
begin

section \<open>Common routines of the Ethereum library\<close>

text \<open>
  \<open>server/ethereum/libethereum/Common.h\<close>, \<open>Common.cpp\<close> and \<open>vector_ref.h\<close>: references into byte
  arrays, hexadecimal text, nibbles, big-endian numbers, the common prefix of two sequences. A
  \<open>std::string\<close> of the library holds any bytes and is a byte list here. A number of type \<open>bigint\<close> is a
  natural number, one of type \<open>u256\<close> or \<open>u160\<close> a word of that width.
\<close>

datatype eth_exn = BadHexCharacter | BadCast

type_synonym 'a eth = "(eth_exn, 'a) outcome"

text \<open>Computations without a state.\<close>

definition obind :: "('e, 'a) outcome \<Rightarrow> ('a \<Rightarrow> ('e, 'b) outcome) \<Rightarrow> ('e, 'b) outcome" where
  "obind r f = (case r of Val a \<Rightarrow> f a | Exc e \<Rightarrow> Exc e | Fault k \<Rightarrow> Fault k)"

lemma obind_simps [simp]:
  "obind (Val a) f = f a" "obind (Exc e) f = Exc e" "obind (Fault k) f = Fault k"
  by (simp_all add: obind_def)

lemma obind_eq_Val: "obind r f = Val b \<longleftrightarrow> (\<exists>a. r = Val a \<and> f a = Val b)"
  by (cases r) simp_all

lemma obind_cong [fundef_cong]: "r = r' \<Longrightarrow> (\<And>a. r' = Val a \<Longrightarrow> f a = g a) \<Longrightarrow> obind r f = obind r' g"
  by (cases r') simp_all

subsection \<open>References into byte arrays\<close>

text \<open>
  A \<open>vector_ref\<close> is a pointer and a count; here the bytes it covers, with \<open>None\<close> for the null pointer.
  Where the count would run past the bytes the reference is undefined: \<open>cropped\<close> adds its two
  arguments without a check of the sum, and the default count is the largest number of 64 bits.
  (No array has that many bytes; the first test of \<open>cropped\<close> only says so.)
  The assertions of the subscript are always on here (\<open>view_at\<close>), as they are in the repository's build.
\<close>

type_synonym view = "byte list option"

definition npos :: nat where "npos = 2 ^ 64 - 1"

definition view_size :: "view \<Rightarrow> nat" where
  "view_size v = (case v of None \<Rightarrow> 0 | Some bs \<Rightarrow> length bs)"

definition view_bytes :: "view \<Rightarrow> byte list" where
  "view_bytes v = (case v of None \<Rightarrow> [] | Some bs \<Rightarrow> bs)"

definition view_at :: "view \<Rightarrow> nat \<Rightarrow> byte eth" where
  "view_at v i =
     (case v of
        None \<Rightarrow> Fault AssertFailed
      | Some bs \<Rightarrow> if i < length bs then Val (bs ! i) else Fault AssertFailed)"

definition cropped :: "nat \<Rightarrow> nat \<Rightarrow> view \<Rightarrow> view eth" where
  "cropped begin count v =
     (case v of
        None \<Rightarrow> Val None
      | Some bs \<Rightarrow>
          if npos \<le> length bs then Fault UndefinedBehaviour
          else if (begin + count) mod 2 ^ 64 \<le> length bs then
            (let n = if count = npos then (int (length bs) - int begin) mod 2 ^ 64 else int count in
             if int begin + n \<le> int (length bs) then Val (Some (take (nat n) (drop begin bs)))
             else Fault UndefinedBehaviour)
          else Val None)"

lemma view_simps [simp]:
  "view_size None = 0" "view_size (Some bs) = length bs"
  "view_bytes None = []" "view_bytes (Some bs) = bs"
  by (simp_all add: view_size_def view_bytes_def)

lemma view_at_Some [simp]: "i < length bs \<Longrightarrow> view_at (Some bs) i = Val (bs ! i)"
  by (simp add: view_at_def)

text \<open>The ordinary uses: a prefix, and a suffix that is not the whole.\<close>

lemma cropped_prefix:
  assumes "length bs < npos" and "n < npos"
  shows "cropped 0 n (Some bs) = Val (if n \<le> length bs then Some (take n bs) else None)"
  using assms by (simp add: cropped_def Let_def npos_def)

lemma cropped_suffix:
  assumes "0 < n" and "n \<le> length bs" and "length bs < npos"
  shows "cropped n npos (Some bs) = Val (Some (drop n bs))"
proof -
  have "n + npos = (n - 1) + 2 ^ 64" using assms(1) by (simp add: npos_def)
  moreover have "n - 1 < 2 ^ 64" using assms unfolding npos_def by linarith
  ultimately have s: "(n + npos) mod 2 ^ 64 = n - 1" by (simp only: mod_add_self2 mod_less)
  have "(int (length bs) - int n) mod 2 ^ 64 = int (length bs - n)"
    using assms by (simp add: npos_def of_nat_diff)
  then show ?thesis using assms unfolding cropped_def option.case s by (simp add: Let_def)
qed

text \<open>
  The two surprises of the sum that wraps around: with the default count the whole is not a part of
  itself, and one step behind the end is taken for a part.
\<close>

lemma cropped_whole: "length bs < npos \<Longrightarrow> cropped 0 npos (Some bs) = Val None"
  by (simp add: cropped_def npos_def)

lemma cropped_behind_end:
  assumes "length bs < npos"
  shows "cropped (length bs + 1) npos (Some bs) = Fault UndefinedBehaviour"
proof -
  have "length bs + 1 + npos = length bs + 2 ^ 64" by (simp add: npos_def)
  moreover have "length bs < 2 ^ 64" using assms unfolding npos_def by linarith
  ultimately have s: "(length bs + 1 + npos) mod 2 ^ 64 = length bs" by (simp only: mod_add_self2 mod_less)
  have "(int (length bs) - int (length bs + 1)) mod 2 ^ 64 = 2 ^ 64 - 1"
    by simp
  then show ?thesis unfolding cropped_def option.case s by (simp add: Let_def)
qed

subsection \<open>Hexadecimal text\<close>

text \<open>\<open>fromHex\<close> takes a \<open>char\<close>, which is signed.\<close>

definition from_hex :: "byte \<Rightarrow> int eth" where
  "from_hex i =
     (let c = sint i in
      if 48 \<le> c \<and> c \<le> 57 then Val (c - 48)
      else if 97 \<le> c \<and> c \<le> 102 then Val (c - 97 + 10)
      else if 65 \<le> c \<and> c \<le> 70 then Val (c - 65 + 10)
      else Exc BadHexCharacter)"

fun user_hex_pairs :: "byte list \<Rightarrow> byte list eth" where
  "user_hex_pairs (a # b # cs) =
     obind (from_hex a) (\<lambda>x. obind (from_hex b) (\<lambda>y. obind (user_hex_pairs cs) (\<lambda>r. Val (of_int (x * 16 + y) # r))))"
| "user_hex_pairs _ = Val []"

definition from_user_hex :: "byte list \<Rightarrow> byte list eth" where
  "from_user_hex s =
     (if length s mod 2 \<noteq> 0 then Fault AssertFailed
      else if length s < 2 then Val []
      else user_hex_pairs (drop (if s ! 0 = 48 \<and> s ! 1 = 120 then 2 else 0) s))"

definition hex_letter :: "nat \<Rightarrow> byte" where
  "hex_letter d = (if d < 10 then of_nat (48 + d) else of_nat (87 + d))"

definition as_hex :: "byte list \<Rightarrow> byte list" where
  "as_hex bs = concat (map (\<lambda>b. [hex_letter (unat b div 16), hex_letter (unat b mod 16)]) bs)"

text \<open>\<open>escaped\<close>: the characters of a C literal.\<close>

definition escape_char :: "bool \<Rightarrow> byte \<Rightarrow> byte list" where
  "escape_char every i =
     (if i = 34 \<and> \<not> every then [92, 34]
      else if i = 92 \<and> \<not> every then [92, 92]
      else if sint i < 32 \<or> 127 < sint i \<or> every
        then [92, 120, hex_letter (unat i div 16), hex_letter (unat i mod 16)]
      else [i])"

definition escaped :: "byte list \<Rightarrow> bool \<Rightarrow> byte list" where
  "escaped s every = [34] @ concat (map (escape_char every) s) @ [34]"

text \<open>
  \<open>toHex\<close>: the nibbles of a string. The loop variable is a \<open>char\<close> and the division rounds to zero, so
  a byte from 128 on gives two numbers that are no nibbles.
\<close>

definition to_hex :: "byte list \<Rightarrow> byte list" where
  "to_hex s = concat (map (\<lambda>c. [of_int (signed_divide (sint c) 16), of_int (signed_modulo (sint c) 16)]) s)"

subsection \<open>Numbers as bytes\<close>

text \<open>\<open>toBigEndian\<close> into a collection of \<open>n\<close> bytes: the value is cut or filled with zeros in front.\<close>

definition to_big_endian :: "nat \<Rightarrow> nat \<Rightarrow> byte list" where
  "to_big_endian n v = rev (map (\<lambda>i. of_nat (v div 256 ^ i)) [0..<n])"

text \<open>\<open>fromBigEndian\<close> for \<open>bigint\<close>; for a type of \<open>w\<close> bits the value is taken modulo \<open>2\<^sup>w\<close>.\<close>

definition from_big_endian :: "byte list \<Rightarrow> nat" where
  "from_big_endian bs = foldl (\<lambda>r i. r * 256 + unat i) 0 bs"

fun bytes_required :: "nat \<Rightarrow> nat" where
  "bytes_required i = (if i = 0 then 0 else bytes_required (i div 256) + 1)"

declare bytes_required.simps [simp del]

definition to_compact_big_endian :: "nat \<Rightarrow> byte list" where
  "to_compact_big_endian v = to_big_endian (bytes_required v) v"

subsection \<open>Collections\<close>

fun common_prefix :: "'a list \<Rightarrow> 'a list \<Rightarrow> nat" where
  "common_prefix (x # xs) (y # ys) = (if x = y then common_prefix xs ys + 1 else 0)"
| "common_prefix _ _ = 0"

definition trim_front :: "nat \<Rightarrow> 'a list \<Rightarrow> 'a list" where
  "trim_front n xs = drop n xs"

definition push_front :: "'a list \<Rightarrow> 'a \<Rightarrow> 'a list" where
  "push_front xs x = x # xs"


subsection \<open>Big-endian numbers are read back\<close>

lemma length_to_big_endian [simp]: "length (to_big_endian n v) = n"
  by (simp add: to_big_endian_def)

lemma to_big_endian_Suc: "to_big_endian (Suc n) v = to_big_endian n (v div 256) @ [of_nat v]"
  by (simp add: to_big_endian_def upt_rec [of 0 "Suc n"] map_Suc_upt [symmetric] div_mult2_eq rev_map comp_def
      del: upt_Suc)

lemma to_big_endian_0 [simp]: "to_big_endian 0 v = []"
  by (simp add: to_big_endian_def)

lemma from_big_endian_snoc: "from_big_endian (bs @ [b]) = from_big_endian bs * 256 + unat b"
  by (simp add: from_big_endian_def)

lemma from_big_endian_Nil [simp]: "from_big_endian [] = 0"
  by (simp add: from_big_endian_def)

lemma unat_byte_less [simp]: "unat (b::byte) < 256"
  using unsigned_less [of b] by simp

lemma unat_byte: "unat (of_nat v :: byte) = v mod 256"
  by (simp add: unat_of_nat)

lemma from_to_big_endian: "from_big_endian (to_big_endian n v) = v mod 256 ^ n"
proof (induction n arbitrary: v)
  case (Suc n)
  have "v mod (256 * 256 ^ n) = 256 * (v div 256 mod 256 ^ n) + v mod 256"
    by (rule mod_mult2_eq)
  then show ?case by (simp add: to_big_endian_Suc from_big_endian_snoc Suc.IH unat_byte mult.commute)
qed simp

lemma to_from_big_endian: "to_big_endian (length bs) (from_big_endian bs) = bs"
proof (induction bs rule: rev_induct)
  case (snoc b bs)
  have "(from_big_endian bs * 256 + unat b) div 256 = from_big_endian bs" by simp
  moreover have "of_nat (from_big_endian bs * 256 + unat b) = b"
    by (simp add: word_unat_eq_iff unat_of_nat del: of_nat_add of_nat_mult)
  ultimately show ?case using snoc
    by (simp add: to_big_endian_Suc from_big_endian_snoc del: of_nat_add of_nat_mult)
qed simp

lemma from_big_endian_less: "from_big_endian bs < 256 ^ length bs"
proof (induction bs rule: rev_induct)
  case (snoc b bs)
  have "from_big_endian bs + 1 \<le> 256 ^ length bs" using snoc by simp
  then have "(from_big_endian bs + 1) * 256 \<le> 256 ^ length bs * 256" by (rule mult_le_mono1)
  then have "from_big_endian bs * 256 + 256 \<le> 256 ^ length bs * 256" by (simp add: add_mult_distrib)
  then have "from_big_endian bs * 256 + unat b < 256 ^ length bs * 256" using unat_byte_less [of b] by linarith
  then show ?case by (simp add: from_big_endian_snoc mult.commute)
qed simp

lemma bytes_required_0 [simp]: "bytes_required 0 = 0"
  by (simp add: bytes_required.simps)

lemma bytes_required_pos: "0 < v \<Longrightarrow> bytes_required v = Suc (bytes_required (v div 256))"
  by (simp add: bytes_required.simps [of v])

lemma bytes_required_le_iff: "bytes_required v \<le> n \<longleftrightarrow> v < 256 ^ n"
proof (induction n arbitrary: v)
  case 0
  show ?case by (cases "v = 0") (simp_all add: bytes_required_pos)
next
  case (Suc n)
  show ?case by (cases "v = 0") (auto simp: bytes_required_pos Suc.IH div_less_iff_less_mult mult.commute)
qed

lemma bytes_required_0_iff [simp]: "bytes_required v = 0 \<longleftrightarrow> v = 0"
  by (cases "v = 0") (simp_all add: bytes_required_pos)

lemma from_compact_big_endian [simp]: "from_big_endian (to_compact_big_endian v) = v"
  using bytes_required_le_iff [of v "bytes_required v"]
  by (simp add: to_compact_big_endian_def from_to_big_endian)

lemma length_compact_big_endian [simp]: "length (to_compact_big_endian v) = bytes_required v"
  by (simp add: to_compact_big_endian_def)

lemma compact_big_endian_Nil_iff [simp]: "to_compact_big_endian v = [] \<longleftrightarrow> v = 0"
  using length_compact_big_endian [of v] by (metis bytes_required_0_iff length_0_conv)

text \<open>No leading zero, and the only such text of its value.\<close>

lemma compact_big_endian_unique:
  assumes "bs = [] \<or> hd bs \<noteq> 0"
  shows "to_compact_big_endian (from_big_endian bs) = bs"
proof -
  have "bytes_required (from_big_endian bs) = length bs"
    using assms
  proof (induction bs rule: rev_induct)
    case (snoc b bs)
    show ?case
    proof (cases "bs = []")
      case True
      with snoc.prems have "0 < unat b" "unat b < 256"
        by (auto simp: word_neq_0_conv unat_gt_0)
      then show ?thesis using True by (simp add: from_big_endian_def bytes_required_pos)
    next
      case False
      with snoc have l: "bytes_required (from_big_endian bs) = length bs" by simp
      then have p: "0 < from_big_endian bs" using False by (metis bytes_required_0_iff length_0_conv neq0_conv)
      have "unat b < 256" by simp
      with p l show ?thesis by (simp add: from_big_endian_snoc bytes_required_pos)
    qed
  qed simp
  then show ?thesis by (simp add: to_compact_big_endian_def to_from_big_endian)
qed

lemma compact_big_endian_hd:
  assumes "0 < v" shows "hd (to_compact_big_endian v) \<noteq> 0"
proof
  assume z: "hd (to_compact_big_endian v) = 0"
  obtain bs where bs: "to_compact_big_endian v = 0 # bs"
    using assms z by (cases "to_compact_big_endian v") auto
  have "from_big_endian (0 # bs) = from_big_endian bs" by (simp add: from_big_endian_def)
  then have "v < 256 ^ length bs" using from_compact_big_endian [of v] bs from_big_endian_less [of bs] by simp
  then have "bytes_required v \<le> length bs" by (simp add: bytes_required_le_iff)
  then show False using bs by (metis length_compact_big_endian length_Cons Suc_n_not_le_n)
qed

subsection \<open>Hexadecimal text and nibbles\<close>

lemma hex_letter_read: "d < 16 \<Longrightarrow> from_hex (hex_letter d) = Val (int d)"
proof -
  have "\<forall>d\<in>set [0..<16]. from_hex (hex_letter d) = Val (int d)" by code_simp
  then show "d < 16 \<Longrightarrow> ?thesis" by simp
qed

lemma user_hex_pairs_as_hex: "user_hex_pairs (as_hex bs) = Val bs"
proof (induction bs)
  case (Cons b bs)
  define h l where "h = unat b div 16" and "l = unat b mod 16"
  have d: "h < 16" "l < 16" using less_mult_imp_div_less [of "unat b" 16 16] by (simp_all add: h_def l_def)
  have "h * 16 + l = unat b" by (simp add: h_def l_def)
  then have "int h * 16 + int l = int (unat b)" by linarith
  then have b: "(of_int (int h * 16 + int l) :: byte) = b" by simp
  have "as_hex (b # bs) = hex_letter h # hex_letter l # as_hex bs" by (simp add: as_hex_def h_def l_def)
  then show ?case using Cons b by (simp add: hex_letter_read [OF d(1)] hex_letter_read [OF d(2)])
qed (simp add: as_hex_def)

definition nibbles :: "byte list \<Rightarrow> byte list" where
  "nibbles s = concat (map (\<lambda>c. [of_nat (unat c div 16), of_nat (unat c mod 16)]) s)"

lemma sint_ascii: "(c::byte) < 128 \<Longrightarrow> sint c = int (unat c)"
proof -
  assume "c < 128"
  then have "unat c < 128" by (simp add: word_less_nat_alt)
  then have "int (unat c) < 2 ^ 7" by (simp del: of_nat_unat int_nat_eq)
  moreover have "- (2 ^ 7) \<le> int (unat c)" by (rule order_trans [of _ 0]) simp_all
  ultimately have "- (2 ^ 7) \<le> int (unat c) \<and> int (unat c) < 2 ^ 7" by blast
  then have "signed_take_bit 7 (int (unat c)) = int (unat c)" by (intro signed_take_bit_int_eq_self) blast+
  then show "sint c = int (unat c)" by (simp add: sint_uint)
qed

lemma to_hex_ascii: "list_all (\<lambda>c. c < 128) s \<Longrightarrow> to_hex s = nibbles s"
proof (induction s)
  case (Cons c s)
  have q: "signed_divide (int n) 16 = int (n div 16)" and r: "signed_modulo (int n) 16 = int (n mod 16)" for n
    by (simp_all add: signed_divide_int_def signed_modulo_int_def sgn_if zdiv_int zmod_int)
  from Cons show ?case
    by (simp add: to_hex_def nibbles_def sint_ascii q r del: of_nat_unat int_nat_eq)
qed (simp add: to_hex_def nibbles_def)

lemma nibbles_less: "n \<in> set (nibbles s) \<Longrightarrow> n < 16"
proof -
  have "of_nat (unat c div 16) < (16 :: byte)" "of_nat (unat c mod 16) < (16 :: byte)" for c :: byte
    using less_mult_imp_div_less [of "unat c" 16 16] by (simp_all add: word_less_nat_alt unat_byte)
  then show "n \<in> set (nibbles s) \<Longrightarrow> ?thesis" by (auto simp: nibbles_def)
qed

text \<open>What the signed \<open>char\<close> does to a byte from 128 on.\<close>

lemma to_hex_high: "to_hex [0xFF] = [0, 0xFF]"
  by code_simp

end
