(* ===== verification/RlpStream.thy ===== *)
theory RlpStream
  imports EthCommon
begin

section \<open>Writing RLP\<close>

text \<open>
  The class \<open>RLPStream\<close> of \<open>server/ethereum/libethereum/RLP.h\<close> and \<open>RLP.cpp\<close>: items are appended to
  a byte array; a list is announced with its number of items, and its header is put in front of them
  when the last one has come. The operations are programs over the stream. Beside them stands the
  encoding \<open>enc\<close> of a tree of items, and the rule that a list written item by item is the encoding
  of that list appended at once, however deep the lists are nested. The sizes of the arrays are natural
  numbers: no array has \<open>2\<^sup>6\<^sup>4\<close> bytes.
\<close>

subsection \<open>The stream\<close>

text \<open>The lists begun, the innermost first: the items still missing and where the list begins.\<close>

record rlp_stream =
  rs_out :: "byte list"
  rs_lists :: "(nat \<times> nat) list"

type_synonym 'a rlp_prog = "(rlp_stream, eth_exn, 'a) prog"

definition new_stream :: rlp_stream where
  "new_stream = \<lparr>rs_out = [], rs_lists = []\<rparr>"

text \<open>\<open>pushInt\<close>: \<open>br\<close> bytes more, and the number written backwards from the last.\<close>

definition push_int :: "nat \<Rightarrow> nat \<Rightarrow> byte list \<Rightarrow> byte list" where
  "push_int i br out =
     (let m = out @ replicate br 0; n = bytes_required i in take (length m - n) m @ to_big_endian n i)"

definition push_count :: "nat \<Rightarrow> byte \<Rightarrow> byte list \<Rightarrow> byte list" where
  "push_count count base out =
     (let br = bytes_required count in push_int count br (out @ [of_nat br + base]))"

text \<open>The header of a list that begins at \<open>p\<close>, moved in front of its items.\<close>

definition close_list :: "nat \<Rightarrow> byte list \<Rightarrow> byte list" where
  "close_list p out =
     (let s = length out - p; brs = bytes_required s in
      if s < 56 then take p out @ [0xC0 + of_nat s] @ drop p out
      else take p out @ [0xF7 + of_nat brs] @ to_big_endian brs s @ drop p out)"

fun note_lists :: "nat \<Rightarrow> (nat \<times> nat) list \<Rightarrow> byte list \<Rightarrow> (nat \<times> nat) list \<times> byte list \<times> bool" where
  "note_lists n [] out = ([], out, True)"
| "note_lists n ((c, p) # ls) out =
     (if c < n then ((c, p) # ls, out, False)
      else if c - n \<noteq> 0 then ((c - n, p) # ls, out, True)
      else note_lists 1 ls (close_list p out))"

definition note_appended :: "nat \<Rightarrow> unit rlp_prog" where
  "note_appended n s =
     (if n = 0 then (s, Val ())
      else case note_lists n (rs_lists s) (rs_out s) of
             (ls, out, ok) \<Rightarrow> (s\<lparr>rs_lists := ls, rs_out := out\<rparr>, if ok then Val () else Fault AssertFailed))"

definition push_byte :: "byte \<Rightarrow> unit rlp_prog" where
  "push_byte b = modify (\<lambda>s. s\<lparr>rs_out := rs_out s @ [b]\<rparr>)"

definition append_raw :: "byte list \<Rightarrow> nat \<Rightarrow> unit rlp_prog" where
  "append_raw d n = thenp (modify (\<lambda>s. s\<lparr>rs_out := rs_out s @ d\<rparr>)) (note_appended n)"

definition append_list_data :: "byte list \<Rightarrow> unit rlp_prog" where
  "append_list_data d =
     thenp (if length d < 56 then push_byte (of_nat (length d) + 0xC0)
            else modify (\<lambda>s. s\<lparr>rs_out := push_count (length d) 0xF7 (rs_out s)\<rparr>))
       (append_raw d 1)"

definition append_list :: "32 word \<Rightarrow> unit rlp_prog" where
  "append_list n =
     (if n \<noteq> 0 then modify (\<lambda>s. s\<lparr>rs_lists := (unat n, length (rs_out s)) # rs_lists s\<rparr>)
      else append_list_data [])"

definition append_data :: "byte list \<Rightarrow> bool \<Rightarrow> unit rlp_prog" where
  "append_data d strip =
     (let d = (if strip then dropWhile (\<lambda>b. b = 0) d else d); s = length d in
      thenp
        (if s = 1 \<and> d ! 0 < 0x80 then push_byte (d ! 0)
         else thenp (if s < 56 then push_byte (of_nat s + 0x80)
                     else modify (\<lambda>st. st\<lparr>rs_out := push_count s 0xB7 (rs_out st)\<rparr>))
                (append_raw d 0))
        (note_appended 1))"

definition append_int :: "nat \<Rightarrow> unit rlp_prog" where
  "append_int i =
     thenp
       (if i = 0 then push_byte 0x80
        else if i < 0x80 then push_byte (of_nat i)
        else let br = bytes_required i in
             thenp (if br < 56 then push_byte (of_nat br + 0x80)
                    else modify (\<lambda>s. s\<lparr>rs_out := push_int br (bytes_required br)
                                                     (rs_out s @ [0xB7 + of_nat (bytes_required br)])\<rparr>))
               (modify (\<lambda>s. s\<lparr>rs_out := push_int i br (rs_out s)\<rparr>)))
       (note_appended 1)"

text \<open>\<open>out()\<close>, with its assertion that every list is complete; \<open>rlp(x)\<close>, a stream of one item.\<close>

definition stream_out :: "rlp_stream \<Rightarrow> byte list eth" where
  "stream_out s = (if rs_lists s \<noteq> [] then Fault AssertFailed else Val (rs_out s))"

definition streamed :: "unit rlp_prog \<Rightarrow> byte list eth" where
  "streamed m = (case m new_stream of (s, r) \<Rightarrow> obind r (\<lambda>_. stream_out s))"

definition rlp_null :: "byte list eth" where
  "rlp_null = streamed (append_data [] False)"

definition rlp_empty_list :: "byte list eth" where
  "rlp_empty_list = streamed (append_list 0)"

subsection \<open>The encoding of a tree\<close>

datatype item = Data "byte list" | List "item list"

definition header :: "byte \<Rightarrow> nat \<Rightarrow> byte list" where
  "header base n =
     (if n < 56 then [base + of_nat n]
      else (base + 55 + of_nat (bytes_required n)) # to_compact_big_endian n)"

definition enc_data :: "byte list \<Rightarrow> byte list" where
  "enc_data d = (if length d = 1 \<and> d ! 0 < 0x80 then d else header 0x80 (length d) @ d)"

definition enc_list :: "byte list \<Rightarrow> byte list" where
  "enc_list payload = header 0xC0 (length payload) @ payload"

fun enc :: "item \<Rightarrow> byte list" where
  "enc (Data d) = enc_data d"
| "enc (List ts) = enc_list (concat (map enc ts))"

abbreviation enc_int :: "nat \<Rightarrow> byte list" where
  "enc_int i \<equiv> enc_data (to_compact_big_endian i)"

text \<open>One complete item appended.\<close>

definition put_item :: "byte list \<Rightarrow> unit rlp_prog" where
  "put_item e = append_raw e 1"

lemma push_int_fit: "push_int i (bytes_required i) out = out @ to_compact_big_endian i"
  by (simp add: push_int_def to_compact_big_endian_def Let_def)

lemma push_count_eq: "push_count n base out = out @ (of_nat (bytes_required n) + base) # to_compact_big_endian n"
  by (simp add: push_count_def Let_def push_int_fit)

lemma close_list_eq: "close_list (length out) (out @ payload) = out @ enc_list payload"
  by (simp add: close_list_def enc_list_def header_def Let_def to_compact_big_endian_def)

lemma put_item_apply:
  "put_item e s = (case note_lists 1 (rs_lists s) (rs_out s @ e) of
     (ls, out, ok) \<Rightarrow> (s\<lparr>rs_lists := ls, rs_out := out\<rparr>, if ok then Val () else Fault AssertFailed))"
  by (simp add: put_item_def append_raw_def note_appended_def split: prod.split)

lemmas put_item_Suc = put_item_apply [unfolded One_nat_def]

lemma append_data_eq: "append_data d False = put_item (enc_data d)"
  by (auto simp: append_data_def Let_def put_item_def append_raw_def push_byte_def enc_data_def header_def push_count_eq note_appended_def
      fun_eq_iff bindp_def prog_simps add.commute length_Suc_conv split: prod.split)

lemma append_data_compact_eq: "append_data d True = put_item (enc_data (dropWhile (\<lambda>b. b = 0) d))"
  unfolding append_data_eq [symmetric] by (simp add: append_data_def Let_def)

lemma append_list_data_eq: "append_list_data d = put_item (enc_list d)"
  by (auto simp: append_list_data_def put_item_def append_raw_def push_byte_def enc_list_def header_def push_count_eq note_appended_def
      fun_eq_iff bindp_def prog_simps add.commute split: prod.split)

lemma append_list_0: "append_list 0 = put_item (enc_list [])"
  by (simp add: append_list_def append_list_data_eq)

lemma append_int_eq: "append_int i = put_item (enc_int i)"
proof -
  have one: "bytes_required i = 1 \<longleftrightarrow> 0 < i \<and> i < 256"
    using bytes_required_le_iff [of i 1] bytes_required_0_iff [of i] by (simp del: bytes_required_0_iff) linarith
  consider "i = 0" | "0 < i" "i < 0x80" | "0x80 \<le> i" by linarith
  then show ?thesis
  proof cases
    case 1
    then show ?thesis
      by (auto simp: append_int_def put_item_def append_raw_def push_byte_def enc_data_def header_def note_appended_def
          to_compact_big_endian_def fun_eq_iff bindp_def prog_simps split: prod.split)
  next
    case 2
    then have c: "to_compact_big_endian i = [of_nat i]"
      using one by (simp add: to_compact_big_endian_def to_big_endian_Suc)
    have "(of_nat i :: byte) < 0x80" using 2 by (simp add: word_less_nat_alt unat_byte)
    with 2 c show ?thesis
      by (auto simp: append_int_def put_item_def append_raw_def push_byte_def enc_data_def note_appended_def
          fun_eq_iff bindp_def prog_simps split: prod.split)
  next
    case 3
    have f: "\<not> (length (to_compact_big_endian i) = 1 \<and> to_compact_big_endian i ! 0 < 0x80)"
    proof
      assume a: "length (to_compact_big_endian i) = 1 \<and> to_compact_big_endian i ! 0 < 0x80"
      with one have "i < 256" "to_compact_big_endian i = [of_nat i]"
        by (simp_all add: to_compact_big_endian_def to_big_endian_Suc)
      with a 3 show False by (simp add: word_less_nat_alt unat_byte)
    qed
    with 3 show ?thesis
      by (auto simp: append_int_def Let_def put_item_def append_raw_def push_byte_def enc_data_def header_def note_appended_def push_int_fit
          fun_eq_iff bindp_def prog_simps add.commute split: prod.split)
  qed
qed

subsection \<open>A list written item by item\<close>

lemma puts_in_list:
  assumes "es \<noteq> []" and "rs_lists s = (length es, length out) # ls" and "rs_out s = out @ payload"
  shows "forall_do es put_item s = put_item (enc_list (payload @ concat es)) (s\<lparr>rs_out := out, rs_lists := ls\<rparr>)"
  using assms
proof (induction es arbitrary: s payload)
  case (Cons e es)
  show ?case
  proof (cases "es = []")
    case True
    have c: "close_list (length out) (out @ payload @ e) = out @ enc_list (payload @ e)"
      using close_list_eq [of out "payload @ e"] by simp
    show ?thesis using Cons.prems True
      by (auto simp: put_item_Suc c bindp_def prog_simps split: prod.split)
  next
    case False
    let ?s = "s\<lparr>rs_lists := (length es, length out) # ls, rs_out := out @ payload @ e\<rparr>"
    have "put_item e s = (?s, Val ())" using Cons.prems False by (simp add: put_item_Suc)
    then show ?thesis using Cons.IH [of ?s "payload @ e"] False by (simp add: bindp_def)
  qed
qed simp

lemma list_of_items:
  assumes "length es < 2 ^ 32"
  shows "thenp (append_list (of_nat (length es))) (forall_do es put_item) = put_item (enc_list (concat es))"
proof (cases "es = []")
  case True
  then show ?thesis by (simp add: append_list_0)
next
  case False
  let ?n = "of_nat (length es) :: 32 word"
  have u: "unat ?n = length es" using assms by (simp add: unat_of_nat)
  with False have n: "?n \<noteq> 0" by auto
  show ?thesis
  proof
    fix s
    show "thenp (append_list ?n) (forall_do es put_item) s = put_item (enc_list (concat es)) s"
      using puts_in_list [OF False, of "s\<lparr>rs_lists := (length es, length (rs_out s)) # rs_lists s\<rparr>" "rs_out s" "rs_lists s" "[]"]
      by (simp add: append_list_def n u)
  qed
qed

lemma forall_do_cong [fundef_cong]:
  "xs = ys \<Longrightarrow> (\<And>x. x \<in> set ys \<Longrightarrow> f x = g x) \<Longrightarrow> forall_do xs f = forall_do ys g"
  by (induction ys arbitrary: xs) auto

lemma forall_do_map:
  "(\<And>x. x \<in> set xs \<Longrightarrow> f x = g (h x)) \<Longrightarrow> forall_do xs f = forall_do (map h xs) g"
  by (induction xs) simp_all

text \<open>A tree written with the operations of the stream.\<close>

fun write_item :: "item \<Rightarrow> unit rlp_prog" where
  "write_item (Data d) = append_data d False"
| "write_item (List ts) = thenp (append_list (of_nat (length ts))) (forall_do ts write_item)"

fun narrow :: "item \<Rightarrow> bool" where
  "narrow (Data d) \<longleftrightarrow> True"
| "narrow (List ts) \<longleftrightarrow> length ts < 2 ^ 32 \<and> (\<forall>t\<in>set ts. narrow t)"

lemma write_item_eq: "narrow t \<Longrightarrow> write_item t = put_item (enc t)"
proof (induction t)
  case (Data d)
  show ?case by (simp add: append_data_eq)
next
  case (List ts)
  then have "forall_do ts write_item = forall_do (map enc ts) put_item"
    by (intro forall_do_map) simp
  then show ?case using List.prems list_of_items [of "map enc ts"] by simp
qed

lemma streamed_item: "streamed (put_item e) = Val e"
  by (simp add: streamed_def new_stream_def put_item_Suc stream_out_def)

text \<open>Whatever the nesting, the bytes written are the encoding of the tree.\<close>

lemma written_item: "narrow t \<Longrightarrow> streamed (write_item t) = Val (enc t)"
  by (simp add: write_item_eq streamed_item)

lemma rlp_null_eq: "rlp_null = Val [0x80]"
  by (simp add: rlp_null_def append_data_eq streamed_item) (simp add: enc_data_def header_def)

lemma rlp_empty_list_eq: "rlp_empty_list = Val [0xC0]"
  by (simp add: rlp_empty_list_def append_list_0 streamed_item) (simp add: enc_list_def header_def)

text \<open>More items than announced, or a list left open, end in a failed assertion.\<close>

lemma open_list_asserts: "streamed (append_list 1) = Fault AssertFailed"
  by (simp add: streamed_def append_list_def new_stream_def prog_simps stream_out_def)

end
