(* ===== verification/RlpRead.thy ===== *)
theory RlpRead
  imports RlpStream
begin

section \<open>Reading RLP\<close>

text \<open>
  The class \<open>RLP\<close> of \<open>server/ethereum/libethereum/RLP.h\<close> and \<open>RLP.cpp\<close>: a reference to bytes whose
  header is looked at when something is asked for. The conversions, the number of items, the subscript
  operator with its cache of the last item, and the iterator. The bytes may come from a peer, so
  every operation is modelled on any bytes.
\<close>

subsection \<open>The header\<close>

definition head_byte :: "view \<Rightarrow> byte" where
  "head_byte v = view_bytes v ! 0"

definition rlp_is_null :: "view \<Rightarrow> bool" where
  "rlp_is_null v \<longleftrightarrow> view_size v = 0"

definition is_empty :: "view \<Rightarrow> bool" where
  "is_empty v \<longleftrightarrow> \<not> rlp_is_null v \<and> (head_byte v = 0x80 \<or> head_byte v = 0xC0)"

definition is_data :: "view \<Rightarrow> bool" where
  "is_data v \<longleftrightarrow> \<not> rlp_is_null v \<and> head_byte v < 0xC0"

definition is_list :: "view \<Rightarrow> bool" where
  "is_list v \<longleftrightarrow> \<not> rlp_is_null v \<and> 0xC0 \<le> head_byte v"

definition is_single_byte :: "view \<Rightarrow> bool" where
  "is_single_byte v \<longleftrightarrow> \<not> rlp_is_null v \<and> head_byte v < 0x80"

definition is_int :: "view \<Rightarrow> bool eth" where
  "is_int v =
     obind (view_at v 0) (\<lambda>n.
       if n < 0x80 then Val (n \<noteq> 0)
       else if n = 0x80 then Val True
       else if n \<le> 0xB7 then obind (view_at v 1) (\<lambda>b. Val (b \<noteq> 0))
       else if n < 0xC0 then obind (view_at v (1 + unat n - 0xB7)) (\<lambda>b. Val (b \<noteq> 0))
       else Val False)"

definition length_size :: "view \<Rightarrow> nat" where
  "length_size v =
     (if is_data v \<and> 0xB7 < head_byte v then unat (head_byte v) - 0xB7
      else if is_list v \<and> 0xF7 < head_byte v then unat (head_byte v) - 0xF7
      else 0)"

text \<open>The length in \<open>k \<le> 8\<close> bytes behind the first; reading past the end fails the assertion.\<close>

definition read_length :: "view \<Rightarrow> nat \<Rightarrow> nat eth" where
  "read_length v k =
     (if k < view_size v then Val (from_big_endian (take k (drop 1 (view_bytes v)))) else Fault AssertFailed)"

definition rlp_length :: "view \<Rightarrow> nat eth" where
  "rlp_length v =
     obind (view_at v 0) (\<lambda>n.
       if n < 0x80 then Val 1
       else if n \<le> 0xB7 then Val (unat n - 0x80)
       else if n < 0xC0 then read_length v (unat n - 0xB7)
       else if n \<le> 0xF7 then Val (unat n - 0xC0)
       else read_length v (unat n - 0xF7))"

definition payload :: "view \<Rightarrow> view eth" where
  "payload v = (if is_single_byte v then cropped 0 1 v else cropped (1 + length_size v) npos v)"

text \<open>\<open>payload().data() - m_data.data() + length()\<close>: a difference of pointers and a sum of 64 bits.\<close>

definition actual_size :: "view \<Rightarrow> nat eth" where
  "actual_size v =
     (if rlp_is_null v then Val 0
      else if is_single_byte v then Val 1
      else obind (payload v) (\<lambda>p. obind (rlp_length v) (\<lambda>l.
             if p = None then Fault UndefinedBehaviour else Val ((1 + length_size v + l) mod 2 ^ 64))))"

subsection \<open>Conversions\<close>

definition rlp_size :: "view \<Rightarrow> nat eth" where
  "rlp_size v = (if is_data v then rlp_length v else Val 0)"

definition rlp_to_string :: "view \<Rightarrow> byte list eth" where
  "rlp_to_string v =
     (if \<not> is_data v then Val []
      else obind (payload v) (\<lambda>p. obind (rlp_length v) (\<lambda>l. obind (cropped 0 l p) (\<lambda>c. Val (view_bytes c)))))"

definition rlp_to_string_strict :: "view \<Rightarrow> byte list eth" where
  "rlp_to_string_strict v = (if \<not> is_data v then Exc BadCast else rlp_to_string v)"

text \<open>\<open>toBytes\<close> copies \<open>length()\<close> bytes from the payload on, however many there are.\<close>

definition rlp_to_bytes :: "view \<Rightarrow> byte list eth" where
  "rlp_to_bytes v =
     (if \<not> is_data v then Val []
      else obind (payload v) (\<lambda>p. obind (rlp_length v) (\<lambda>l.
             if l \<le> view_size p then Val (take l (view_bytes p)) else Fault UndefinedBehaviour)))"

record int_flags =
  allow_non_canon :: bool
  throw_on_fail :: bool
  fail_if_too_big :: bool

definition strict :: int_flags where
  "strict = \<lparr>allow_non_canon = False, throw_on_fail = True, fail_if_too_big = True\<rparr>"

definition laisez_faire :: int_flags where
  "laisez_faire = \<lparr>allow_non_canon = True, throw_on_fail = False, fail_if_too_big = False\<rparr>"

text \<open>\<open>toInt\<close> into a type of \<open>maxSize\<close> bytes; \<open>None\<close> stands for \<open>bigint\<close>, whose \<open>maxSize\<close> is \<open>~(uint)0\<close>.\<close>

definition max_size :: "nat option \<Rightarrow> nat" where
  "max_size t = (case t of None \<Rightarrow> npos | Some n \<Rightarrow> n)"

definition int_of_type :: "nat option \<Rightarrow> nat \<Rightarrow> nat" where
  "int_of_type t i = (case t of None \<Rightarrow> i | Some n \<Rightarrow> i mod 256 ^ n)"

definition fail_or :: "int_flags \<Rightarrow> 'a \<Rightarrow> 'a eth" where
  "fail_or fl a = (if throw_on_fail fl then Exc BadCast else Val a)"

definition rlp_to_int :: "nat option \<Rightarrow> int_flags \<Rightarrow> view \<Rightarrow> nat eth" where
  "rlp_to_int t fl v =
     obind (is_int v) (\<lambda>i.
       if (\<not> i \<and> \<not> allow_non_canon fl) \<or> is_list v \<or> rlp_is_null v then fail_or fl 0
       else obind (payload v) (\<lambda>p.
         if max_size t < view_size p \<and> fail_if_too_big fl then fail_or fl 0
         else Val (int_of_type t (from_big_endian (view_bytes p)))))"

text \<open>\<open>toHash\<close> into \<open>n\<close> bytes, the data at the end.\<close>

definition rlp_to_hash :: "nat \<Rightarrow> int_flags \<Rightarrow> view \<Rightarrow> byte list eth" where
  "rlp_to_hash n fl v =
     (if \<not> is_data v then fail_or fl (replicate n 0)
      else obind (rlp_length v) (\<lambda>l.
        if n < l \<and> fail_if_too_big fl then fail_or fl (replicate n 0)
        else obind (payload v) (\<lambda>p.
          let s = min n l in
          if s \<le> view_size p then Val (replicate (n - s) 0 @ take s (view_bytes p))
          else Fault UndefinedBehaviour)))"

subsection \<open>Counting items\<close>

lemma cropped_shorter:
  assumes "cropped n npos v = Val d" and "view_size v \<noteq> 0"
  shows "view_size d < view_size v"
proof -
  obtain bs where v: "v = Some bs" "bs \<noteq> []" using assms(2) by (cases v) auto
  show ?thesis
  proof (cases "n = 0")
    case True
    with assms(1) v show ?thesis by (auto simp: cropped_def npos_def split: if_splits)
  next
    case False
    with assms(1) v show ?thesis by (auto simp: cropped_def Let_def split: if_splits)
  qed
qed

function count_items :: "view \<Rightarrow> nat eth" where
  "count_items d =
     (if view_size d = 0 then Val 0
      else obind (actual_size d) (\<lambda>n. obind (cropped n npos d) (\<lambda>d'. obind (count_items d') (\<lambda>i. Val (i + 1)))))"
  by pat_completeness auto
termination by (relation "measure view_size") (auto dest: cropped_shorter)

declare count_items.simps [simp del]

definition rlp_items :: "view \<Rightarrow> nat eth" where
  "rlp_items v =
     (if is_list v
      then obind (payload v) (\<lambda>p. obind (rlp_length v) (\<lambda>l. obind (cropped 0 l p) count_items))
      else Val 0)"

definition item_count :: "view \<Rightarrow> nat eth" where
  "item_count v = (if is_list v then rlp_items v else Val 0)"

definition item_count_strict :: "view \<Rightarrow> nat eth" where
  "item_count_strict v = (if \<not> is_list v then Exc BadCast else rlp_items v)"

subsection \<open>The subscript operator and its cache\<close>

record rlp =
  r_data :: view
  r_index :: nat
  r_end :: nat
  r_item :: view

definition new_rlp :: "view \<Rightarrow> rlp" where
  "new_rlp v = \<lparr>r_data = v, r_index = npos, r_end = 0, r_item = None\<rparr>"

text \<open>The item at the head of a reference: \<open>d.cropped(0, RLP(d).actualSize())\<close>.\<close>

definition head_item :: "view \<Rightarrow> view eth" where
  "head_item d = obind (actual_size d) (\<lambda>n. cropped 0 n d)"

text \<open>\<open>m_lastItem\<close> and \<open>m_lastEnd\<close> moved on from item \<open>k\<close> to item \<open>i\<close>.\<close>

function to_index :: "view \<Rightarrow> nat \<Rightarrow> nat \<times> nat \<times> view \<Rightarrow> (nat \<times> nat \<times> view) eth" where
  "to_index p i (k, e, it) =
     (if k < i \<and> view_size it \<noteq> 0
      then obind (cropped e npos p) (\<lambda>d. obind (head_item d) (\<lambda>it'. to_index p i (k + 1, e + view_size it', it')))
      else Val (k, e, it))"
  by pat_completeness auto
termination by (relation "measure (\<lambda>(p, i, k, _). i - k)") auto

declare to_index.simps [simp del]

definition rlp_at :: "nat \<Rightarrow> (rlp, eth_exn, view) prog" where
  "rlp_at i r =
     (case
        (if i < r_index r
         then obind (payload (r_data r)) (\<lambda>p. obind (actual_size p) (\<lambda>e. obind (cropped 0 e p) (\<lambda>it. Val (0, e, it))))
         else Val (r_index r, r_end r, r_item r)) of
        Exc x \<Rightarrow> (r, Exc x)
      | Fault f \<Rightarrow> (r, Fault f)
      | Val (k, e, it) \<Rightarrow>
          (if k < i \<and> view_size it \<noteq> 0
           then case obind (payload (r_data r)) (\<lambda>p. to_index p i (k, e, it)) of
                  Val (k', e', it') \<Rightarrow> (r\<lparr>r_index := k', r_end := e', r_item := it'\<rparr>, Val it')
                | Exc x \<Rightarrow> (r\<lparr>r_index := k, r_end := e, r_item := it\<rparr>, Exc x)
                | Fault f \<Rightarrow> (r\<lparr>r_index := k, r_end := e, r_item := it\<rparr>, Fault f)
           else (r\<lparr>r_index := k, r_end := e, r_item := it\<rparr>, Val it)))"

text \<open>The operator on a fresh object.\<close>

definition item_at :: "view \<Rightarrow> nat \<Rightarrow> view eth" where
  "item_at v i = snd (rlp_at i (new_rlp v))"

subsection \<open>The iterator\<close>

text \<open>
  A position is a pointer into the bytes of the list, as an offset, and a count. Iteration ends where
  pointer and count equal those of the end of the list.
\<close>

type_synonym position = "nat option \<times> nat"

definition view_from :: "byte list \<Rightarrow> position \<Rightarrow> view" where
  "view_from bs x = (case fst x of None \<Rightarrow> None | Some o' \<Rightarrow> Some (take (snd x) (drop o' bs)))"

definition start_position :: "view \<Rightarrow> (position \<times> nat) eth" where
  "start_position v =
     obind (payload v) (\<lambda>pl. obind (head_item pl) (\<lambda>it.
       Val ((case it of None \<Rightarrow> None | Some _ \<Rightarrow> Some (1 + length_size v), view_size it), view_size pl - view_size it)))"

definition next_position :: "byte list \<Rightarrow> position \<times> nat \<Rightarrow> (position \<times> nat) eth" where
  "next_position bs st =
     (let (x, left) = st; ptr = map_option (\<lambda>a. a + snd x) (fst x) in
      if left \<noteq> 0
      then (case ptr of
              None \<Rightarrow> Fault AssertFailed
            | Some a \<Rightarrow>
                obind (head_item (view_from bs (Some a, left))) (\<lambda>it.
                  Val ((case it of None \<Rightarrow> None | Some _ \<Rightarrow> Some a, view_size it), left - min left (view_size it))))
      else Val ((ptr, 0), 0))"

partial_function (option) iterate :: "byte list \<Rightarrow> position \<times> nat \<Rightarrow> view list \<Rightarrow> view list eth option" where
  "iterate bs st acc =
     (if fst st = (Some (length bs), 0) then Some (Val acc)
      else (let acc' = acc @ [view_from bs (fst st)] in
            case next_position bs st of
              Val st' \<Rightarrow> iterate bs st' acc'
            | Exc e \<Rightarrow> Some (Exc e)
            | Fault f \<Rightarrow> Some (Fault f)))"

text \<open>\<open>toList\<close>; \<open>None\<close> is not returning.\<close>

definition rlp_to_list :: "view \<Rightarrow> view list eth option" where
  "rlp_to_list v =
     (if \<not> is_list v then Some (Val [])
      else case start_position v of
             Val st \<Rightarrow> iterate (view_bytes v) st []
           | Exc e \<Rightarrow> Some (Exc e)
           | Fault f \<Rightarrow> Some (Fault f))"

end
