(* ===== verification/RlpProps.thy ===== *)
theory RlpProps
  imports RlpRead
begin

section \<open>RLP: what was written is read\<close>

text \<open>
  Lemmas and theorems on \<open>RLPStream\<close> and \<open>RLP\<close>: trees and numbers are read back, and what the reader
  does with bytes that no writer wrote.
\<close>

subsection \<open>What was written is read\<close>

lemma unat_header:
  "n < 56 \<Longrightarrow> unat (0x80 + of_nat n :: byte) = 0x80 + n"
  "n < 56 \<Longrightarrow> unat (0xC0 + of_nat n :: byte) = 0xC0 + n"
  "k \<le> 8 \<Longrightarrow> unat (0x80 + 55 + of_nat k :: byte) = 0xB7 + k"
  "k \<le> 8 \<Longrightarrow> unat (0xC0 + 55 + of_nat k :: byte) = 0xF7 + k"
  by (simp_all add: unat_word_ariths unat_of_nat)

lemma few_length_bytes: "n < npos \<Longrightarrow> bytes_required n \<le> 8"
  by (simp add: bytes_required_le_iff npos_def)

lemma bytes_required_ge_1: "56 \<le> n \<Longrightarrow> 1 \<le> bytes_required n"
  using bytes_required_0_iff [of n] by (cases "bytes_required n") simp_all

lemmas byte_order = word_less_nat_alt word_le_nat_alt

lemma length_header: "length (header b n) = (if n < 56 then 1 else 1 + bytes_required n)"
  by (simp add: header_def)

lemma payload_suffix:
  assumes "v = Some (h @ rest)" and "1 + length_size v = length h" and "\<not> is_single_byte v"
    and "length h \<le> 9" and "length rest + 9 < npos"
  shows "payload v = Val (Some rest)"
proof -
  have "cropped (length h) npos v = Val (Some rest)"
    using assms(2,4,5) unfolding assms(1) by (subst cropped_suffix) auto
  then show ?thesis using assms(2,3) by (simp add: payload_def)
qed

text \<open>The header of a list, whatever follows it.\<close>

lemma read_list_header:
  assumes v: "v = Some (header 0xC0 n @ rest)" and n: "n < npos" and len: "length rest + 9 < npos"
  shows "is_list v"
    and "rlp_length v = Val n"
    and "payload v = Val (Some rest)"
    and "1 + length_size v = length (header 0xC0 n)"
proof -
  let ?k = "bytes_required n"
  have "is_list v \<and> rlp_length v = Val n \<and> 1 + length_size v = length (header 0xC0 n)"
  proof (cases "n < 56")
    case True
    then show ?thesis
      by (simp add: v is_list_def rlp_is_null_def is_data_def head_byte_def rlp_length_def length_size_def header_def byte_order unat_header)
  next
    case False
    have k: "1 \<le> ?k" "?k \<le> 8" using False few_length_bytes [OF n] bytes_required_ge_1 [of n] by simp_all
    have "take ?k (to_compact_big_endian n @ rest) = to_compact_big_endian n" by simp
    with False k show ?thesis
      by (simp add: v is_list_def rlp_is_null_def is_data_def head_byte_def rlp_length_def length_size_def header_def byte_order
          unat_header [simplified] read_length_def)
  qed
  then show l: "is_list v" and "rlp_length v = Val n" and s: "1 + length_size v = length (header 0xC0 n)" by simp_all
  have "\<not> is_single_byte v" using l by (simp add: v is_list_def is_single_byte_def byte_order)
  then show "payload v = Val (Some rest)"
    using payload_suffix [OF v s] few_length_bytes [OF n] len by (simp add: length_header)
qed

text \<open>The header of data that is not a single byte of its own.\<close>

lemma read_data_header:
  assumes v: "v = Some (header 0x80 n @ rest)" and n: "n < npos" and len: "length rest + 9 < npos"
  shows "is_data v"
    and "rlp_length v = Val n"
    and "payload v = Val (Some rest)"
    and "1 + length_size v = length (header 0x80 n)"
    and "\<not> is_single_byte v"
proof -
  let ?k = "bytes_required n"
  have "is_data v \<and> rlp_length v = Val n \<and> 1 + length_size v = length (header 0x80 n) \<and> \<not> is_single_byte v"
  proof (cases "n < 56")
    case True
    then show ?thesis
      by (simp add: v is_list_def rlp_is_null_def is_data_def is_single_byte_def head_byte_def rlp_length_def length_size_def header_def
          byte_order unat_header)
  next
    case False
    have k: "1 \<le> ?k" "?k \<le> 8" using False few_length_bytes [OF n] bytes_required_ge_1 [of n] by simp_all
    with False show ?thesis
      by (simp add: v is_list_def rlp_is_null_def is_data_def is_single_byte_def head_byte_def rlp_length_def length_size_def header_def
          byte_order unat_header [simplified] read_length_def)
  qed
  then show "is_data v" and "rlp_length v = Val n" and s: "1 + length_size v = length (header 0x80 n)"
    and b: "\<not> is_single_byte v" by simp_all
  show "payload v = Val (Some rest)"
    using payload_suffix [OF v s b] few_length_bytes [OF n] len by (simp add: length_header)
qed

subsection \<open>Items\<close>

lemma enc_data_cases:
  obtains (Single) b where "d = [b]" "b < 0x80" "enc_data d = [b]"
  | (Long) "enc_data d = header 0x80 (length d) @ d"
proof (cases "length d = 1 \<and> d ! 0 < 0x80")
  case True
  then obtain b where "d = [b]" by (auto simp: length_Suc_conv)
  with True Single show ?thesis by (simp add: enc_data_def)
next
  case False
  then have "enc_data d = header 0x80 (length d) @ d" unfolding enc_data_def by (rule if_not_P)
  then show ?thesis by (rule Long)
qed

lemma header_not_Nil [simp]: "header b n \<noteq> []"
  by (simp add: header_def)

lemma enc_not_Nil [simp]: "enc t \<noteq> []"
proof (cases t)
  case (Data d)
  then show ?thesis by (cases d rule: enc_data_cases) simp_all
qed (simp add: enc_list_def)

lemma single_byte_view: "b < 0x80 \<Longrightarrow> is_single_byte (Some (b # rest)) \<and> is_data (Some (b # rest))"
  by (auto simp: is_single_byte_def is_data_def rlp_is_null_def head_byte_def byte_order)

lemma actual_size_suffix:
  assumes "payload v = Val (Some p)" and "rlp_length v = Val l" and "1 + length_size v = h"
    and "\<not> is_single_byte v" and "\<not> rlp_is_null v" and "h + l < 2 ^ 64"
  shows "actual_size v = Val (h + l)"
  using assms by (simp add: actual_size_def)

lemma actual_size_enc:
  assumes "length (enc t) + length rest + 9 < npos"
  shows "actual_size (Some (enc t @ rest)) = Val (length (enc t))"
proof (cases t)
  case (Data d)
  show ?thesis
  proof (cases d rule: enc_data_cases)
    case (Single b)
    then show ?thesis using Data single_byte_view [of b rest] by (simp add: actual_size_def rlp_is_null_def)
  next
    case Long
    let ?v = "Some (header 0x80 (length d) @ d @ rest)"
    have n: "length d < npos" "length (d @ rest) + 9 < npos" using assms Data Long by simp_all
    have "length (header 0x80 (length d)) + length d < 2 ^ 64" using assms Data Long by (simp add: npos_def)
    then show ?thesis
      using actual_size_suffix [OF read_data_header(3,2,4,5) [OF refl n]] Data Long by (simp add: rlp_is_null_def)
  qed
next
  case (List ts)
  let ?p = "concat (map enc ts)"
  let ?v = "Some (header 0xC0 (length ?p) @ ?p @ rest)"
  have n: "length ?p < npos" "length (?p @ rest) + 9 < npos" using assms List by (simp_all add: enc_list_def)
  have "length (header 0xC0 (length ?p)) + length ?p < 2 ^ 64" using assms List by (simp add: npos_def enc_list_def)
  moreover have "\<not> is_single_byte ?v"
    using read_list_header(1) [OF refl n] by (simp add: is_list_def is_single_byte_def byte_order)
  ultimately show ?thesis
    using actual_size_suffix [OF read_list_header(3,2,4) [OF refl n]] List by (simp add: rlp_is_null_def enc_list_def)
qed

lemma head_item_enc:
  assumes "length (enc t) + length rest + 9 < npos"
  shows "head_item (Some (enc t @ rest)) = Val (Some (enc t))"
proof -
  have "cropped 0 (length (enc t)) (Some (enc t @ rest)) = Val (Some (enc t))"
    using assms by (subst cropped_prefix) auto
  then show ?thesis using actual_size_enc [OF assms] by (simp add: head_item_def)
qed

lemma head_item_Nil: "head_item (Some []) = Val (Some [])"
  by (simp add: head_item_def actual_size_def rlp_is_null_def cropped_prefix npos_def)

lemma count_items_enc:
  "length (concat (map enc ts)) + 9 < npos \<Longrightarrow> count_items (Some (concat (map enc ts))) = Val (length ts)"
proof (induction ts)
  case Nil
  show ?case by (simp add: count_items.simps)
next
  case (Cons t ts)
  let ?r = "concat (map enc ts)"
  have "actual_size (Some (enc t @ ?r)) = Val (length (enc t))" by (rule actual_size_enc) (use Cons.prems in simp)
  moreover have "cropped (length (enc t)) npos (Some (enc t @ ?r)) = Val (Some ?r)"
    using Cons.prems by (subst cropped_suffix) (auto simp: Suc_le_eq)
  ultimately show ?case using Cons by (simp add: count_items.simps [of "Some (enc t @ ?r)"])
qed

text \<open>The number of items is that of the list, whatever follows it.\<close>

lemma item_count_enc:
  assumes "length (enc (List ts)) + length rest + 9 < npos"
  shows "item_count (Some (enc (List ts) @ rest)) = Val (length ts)"
proof -
  let ?p = "concat (map enc ts)"
  have n: "length ?p < npos" "length (?p @ rest) + 9 < npos" using assms by (simp_all add: enc_list_def)
  have "cropped 0 (length ?p) (Some (?p @ rest)) = Val (Some ?p)"
    using n by (subst cropped_prefix) auto
  then show ?thesis
    using read_list_header(1-3) [OF refl n] count_items_enc [of ts] n by (simp add: item_count_def rlp_items_def enc_list_def)
qed

subsection \<open>The subscript operator\<close>

definition nth_item :: "item list \<Rightarrow> nat \<Rightarrow> view" where
  "nth_item ts i = Some (if i < length ts then enc (ts ! i) else [])"

definition items_end :: "item list \<Rightarrow> nat \<Rightarrow> nat" where
  "items_end ts k = length (concat (map enc (take (Suc k) ts)))"

lemma drop_items_end: "drop (items_end ts k) (concat (map enc ts)) = concat (map enc (drop (Suc k) ts))"
  unfolding items_end_def by (metis append_eq_conv_conj append_take_drop_id concat_append map_append)

lemma items_end_le: "items_end ts k \<le> length (concat (map enc ts))"
  unfolding items_end_def by (metis append_take_drop_id concat_append length_append le_add1 map_append)

lemma items_end_pos: "ts \<noteq> [] \<Longrightarrow> 0 < items_end ts k"
  by (cases ts) (simp_all add: items_end_def)

lemma items_end_Suc: "items_end ts (Suc k) = items_end ts k + view_size (nth_item ts (Suc k))"
  by (cases "Suc k < length ts") (simp_all add: items_end_def nth_item_def take_Suc_conv_app_nth)

text \<open>\<open>m_lastIndex\<close>, \<open>m_lastEnd\<close> and \<open>m_lastItem\<close> are those of an item, or nothing was read yet.\<close>

definition cache_ok :: "item list \<Rightarrow> nat \<times> nat \<times> view \<Rightarrow> bool" where
  "cache_ok ts c \<longleftrightarrow> (case c of (k, e, it) \<Rightarrow> k \<le> length ts \<and> e = items_end ts k \<and> it = nth_item ts k)"

lemma to_index_reads:
  assumes len: "length (concat (map enc ts)) + 9 < npos"
  shows "cache_ok ts (k, e, it) \<Longrightarrow> k \<le> i \<Longrightarrow>
     \<exists>k' e'. to_index (Some (concat (map enc ts))) i (k, e, it) = Val (k', e', nth_item ts i) \<and> cache_ok ts (k', e', nth_item ts i)
       \<and> k' \<le> i"
proof (induction "i - k" arbitrary: k e it)
  case 0
  then show ?case by (auto simp: to_index.simps cache_ok_def)
next
  case (Suc d)
  let ?p = "concat (map enc ts)"
  have k: "k \<le> length ts" "e = items_end ts k" "it = nth_item ts k" "k < i"
    using Suc.prems Suc.hyps(2) by (auto simp: cache_ok_def)
  show ?case
  proof (cases "k = length ts")
    case True
    then have "view_size it = 0" "nth_item ts i = it" using k by (simp_all add: nth_item_def)
    then show ?thesis using Suc.prems k by (auto simp: to_index.simps cache_ok_def)
  next
    case False
    then have kl: "k < length ts" using k by simp
    then have ne0: "ts \<noteq> []" by auto
    from kl have ne: "view_size it \<noteq> 0" using k by (simp add: nth_item_def)
    have "items_end ts k \<le> length ?p" by (rule items_end_le)
    then have c: "cropped e npos (Some ?p) = Val (Some (concat (map enc (drop (Suc k) ts))))"
      using len k items_end_pos [OF ne0, of k] by (subst cropped_suffix) (auto simp: drop_items_end)
    have h: "head_item (Some (concat (map enc (drop (Suc k) ts)))) = Val (nth_item ts (Suc k))"
    proof (cases "Suc k < length ts")
      case True
      have "length (concat (map enc (drop (Suc k) ts))) \<le> length ?p"
        unfolding drop_items_end [symmetric] by simp
      then show ?thesis
        using True len by (simp add: Cons_nth_drop_Suc [symmetric] nth_item_def head_item_enc)
    qed (simp add: nth_item_def head_item_Nil)
    have "cache_ok ts (Suc k, items_end ts (Suc k), nth_item ts (Suc k))" using kl by (simp add: cache_ok_def)
    moreover have "d = i - Suc k" "Suc k \<le> i" using Suc.hyps(2) k by simp_all
    moreover have "to_index (Some ?p) i (k, e, it) = to_index (Some ?p) i (Suc k, items_end ts (Suc k), nth_item ts (Suc k))"
      by (subst to_index.simps) (use k ne c h in \<open>simp add: items_end_Suc\<close>)
    ultimately show ?thesis using Suc.hyps(1) [of "Suc k"] by simp
  qed
qed

text \<open>One access: the item asked for, and the cache stays right.\<close>

definition rlp_ok :: "item list \<Rightarrow> rlp \<Rightarrow> bool" where
  "rlp_ok ts r \<longleftrightarrow> r_data r = Some (enc (List ts)) \<and>
     ((r_index r = npos \<and> r_item r = None) \<or> cache_ok ts (r_index r, r_end r, r_item r))"

lemma rlp_at_reads:
  assumes len: "length (enc (List ts)) + 9 < npos" and ok: "rlp_ok ts r" and i: "i < npos"
  shows "\<exists>r'. rlp_at i r = (r', Val (nth_item ts i)) \<and> rlp_ok ts r'"
proof -
  let ?p = "concat (map enc ts)"
  have n: "length ?p < npos" "length (?p @ []) + 9 < npos" using len by (simp_all add: enc_list_def)
  have p: "payload (r_data r) = Val (Some ?p)"
    using ok read_list_header(3) [OF refl n] by (simp add: rlp_ok_def enc_list_def)
  have first: "obind (actual_size (Some ?p)) (\<lambda>e. obind (cropped 0 e (Some ?p)) (\<lambda>it. Val (0, e, it)))
      = Val (0, items_end ts 0, nth_item ts 0)"
  proof (cases ts)
    case Nil
    then show ?thesis using head_item_Nil by (simp add: actual_size_def rlp_is_null_def items_end_def nth_item_def cropped_prefix npos_def)
  next
    case (Cons t us)
    have l: "length (enc t) + length (concat (map enc us)) + 9 < npos" using n Cons by simp
    have "cropped 0 (length (enc t)) (Some (enc t @ concat (map enc us))) = Val (Some (enc t))"
      using l by (subst cropped_prefix) auto
    then show ?thesis using Cons actual_size_enc [OF l] by (simp add: items_end_def nth_item_def)
  qed
  define c where "c = (if i < r_index r then (0, items_end ts 0, nth_item ts 0) else (r_index r, r_end r, r_item r))"
  obtain k e it where kc: "c = (k, e, it)" by (cases c)
  have cok: "cache_ok ts (k, e, it)" and ki: "k \<le> i"
    using ok i kc by (auto simp: c_def rlp_ok_def cache_ok_def split: if_splits)
  obtain k' e' where t: "to_index (Some ?p) i (k, e, it) = Val (k', e', nth_item ts i)"
    and ok': "cache_ok ts (k', e', nth_item ts i)"
    using to_index_reads [OF _ cok ki] n by auto
  have sel: "(if i < r_index r
         then obind (payload (r_data r)) (\<lambda>p. obind (actual_size p) (\<lambda>e. obind (cropped 0 e p) (\<lambda>it. Val (0, e, it))))
         else Val (r_index r, r_end r, r_item r)) = Val (k, e, it)"
    using kc by (simp add: c_def p first split: if_splits)
  show ?thesis
  proof (cases "k < i \<and> view_size it \<noteq> 0")
    case True
    then show ?thesis using ok ok' t unfolding rlp_at_def sel unfolding p by (simp add: rlp_ok_def)
  next
    case False
    then have "k' = k" "e' = e" "nth_item ts i = it" using t by (auto simp: to_index.simps [of _ i k e it] split: if_splits)
    then show ?thesis using ok ok' False unfolding rlp_at_def sel by (auto simp: rlp_ok_def)
  qed
qed

text \<open>Any number of accesses to one object, in any order.\<close>

fun subscripts :: "nat list \<Rightarrow> (rlp, eth_exn, view list) prog" where
  "subscripts [] = ret []"
| "subscripts (i # is) = bindp (rlp_at i) (\<lambda>v. bindp (subscripts is) (\<lambda>vs. ret (v # vs)))"

lemma rlp_ok_new: "rlp_ok ts (new_rlp (Some (enc (List ts))))"
  by (simp add: rlp_ok_def new_rlp_def)

lemma subscripts_read:
  assumes len: "length (enc (List ts)) + 9 < npos"
  shows "rlp_ok ts r \<Longrightarrow> list_all (\<lambda>i. i < npos) is \<Longrightarrow>
    \<exists>r'. subscripts is r = (r', Val (map (nth_item ts) is)) \<and> rlp_ok ts r'"
proof (induction "is" arbitrary: r)
  case (Cons i "is")
  obtain r1 where 1: "rlp_at i r = (r1, Val (nth_item ts i))" "rlp_ok ts r1"
    using rlp_at_reads [OF len Cons.prems(1), of i] Cons.prems(2) by auto
  obtain r2 where 2: "subscripts is r1 = (r2, Val (map (nth_item ts) is))" "rlp_ok ts r2"
    using Cons.IH [OF 1(2)] Cons.prems(2) by auto
  show ?case using 1 2 by (simp add: bindp_def prog_simps)
qed (simp add: prog_simps)

lemma item_at_enc:
  "length (enc (List ts)) + 9 < npos \<Longrightarrow> i < npos \<Longrightarrow> item_at (Some (enc (List ts))) i = Val (nth_item ts i)"
  using rlp_at_reads [OF _ rlp_ok_new, of ts i] by (auto simp: item_at_def)

subsection \<open>The iterator\<close>

lemma iterate_reads:
  assumes len: "length bs + 9 < npos"
  shows "drop a bs = enc t @ concat (map enc us) \<Longrightarrow>
    iterate bs ((Some a, length (enc t)), length (concat (map enc us))) acc
      = Some (Val (acc @ map (\<lambda>u. Some (enc u)) (t # us)))"
proof (induction us arbitrary: a t acc)
  case Nil
  have l: "length bs = a + length (enc t)"
    using arg_cong [OF Nil, of length] enc_not_Nil [of t]
    by (cases "a \<le> length bs") (auto simp del: enc_not_Nil)
  have v: "view_from bs (Some a, length (enc t)) = Some (enc t)" using Nil by (simp add: view_from_def)
  have "next_position bs ((Some a, length (enc t)), 0) = Val ((Some (length bs), 0), 0)"
    using l by (simp add: next_position_def)
  moreover have "iterate bs ((Some (length bs), 0), 0) acc' = Some (Val acc')" for acc'
    by (simp add: iterate.simps [of bs "((Some (length bs), 0), 0)" acc'])
  ultimately show ?case using v
    by (simp add: iterate.simps [of bs "((Some a, length (enc t)), 0)" acc])
next
  case (Cons u us)
  let ?r = "concat (map enc us)"
  have v: "view_from bs (Some a, length (enc t)) = Some (enc t)" using Cons.prems by (simp add: view_from_def)
  have d: "drop (a + length (enc t)) bs = enc u @ ?r"
  proof -
    have "drop (a + length (enc t)) bs = drop (length (enc t)) (drop a bs)" by (simp add: add.commute)
    then show ?thesis by (simp add: Cons.prems)
  qed
  have "length (drop (a + length (enc t)) bs) \<le> length bs" by simp
  then have l: "length (enc u) + length ?r + 9 < npos" using len unfolding d by simp
  have "next_position bs ((Some a, length (enc t)), length (enc u @ ?r))
      = Val ((Some (a + length (enc t)), length (enc u)), length ?r)"
    using head_item_enc [OF l] by (simp add: next_position_def view_from_def d)
  then show ?case using Cons.IH [OF d] v
    by (simp add: iterate.simps [of bs "((Some a, length (enc t)), length (enc u) + length ?r)" acc])
qed

subsection \<open>Data and numbers\<close>

text \<open>Every conversion of a piece of data returns it.\<close>

lemma payload_data:
  assumes "length (enc_data d) + 9 < npos"
  shows "payload (Some (enc_data d)) = Val (Some d)" and "rlp_length (Some (enc_data d)) = Val (length d)"
    and "is_data (Some (enc_data d))"
proof -
  have "payload (Some (enc_data d)) = Val (Some d) \<and> rlp_length (Some (enc_data d)) = Val (length d) \<and> is_data (Some (enc_data d))"
  proof (cases d rule: enc_data_cases)
    case (Single b)
    then show ?thesis using single_byte_view [of b "[]"]
      by (simp add: payload_def rlp_length_def cropped_prefix npos_def)
  next
    case Long
    have n: "length d < npos" "length d + 9 < npos" using assms Long by simp_all
    show ?thesis using read_data_header(1-3) [OF refl n] Long by simp
  qed
  then show "payload (Some (enc_data d)) = Val (Some d)" and "rlp_length (Some (enc_data d)) = Val (length d)"
    and "is_data (Some (enc_data d))" by simp_all
qed

lemma data_read_back:
  assumes "length (enc_data d) + 9 < npos"
  shows "rlp_to_string (Some (enc_data d)) = Val d"
    and "rlp_to_string_strict (Some (enc_data d)) = Val d"
    and "rlp_to_bytes (Some (enc_data d)) = Val d"
    and "rlp_size (Some (enc_data d)) = Val (length d)"
proof -
  have "length d \<le> length (enc_data d)" by (auto simp: enc_data_def)
  then have n: "length d < npos" using assms by simp
  then show "rlp_to_string (Some (enc_data d)) = Val d"
    using payload_data [OF assms] by (simp add: rlp_to_string_def cropped_prefix)
  then show "rlp_to_string_strict (Some (enc_data d)) = Val d"
    using payload_data [OF assms] by (simp add: rlp_to_string_strict_def)
  show "rlp_to_bytes (Some (enc_data d)) = Val d" "rlp_size (Some (enc_data d)) = Val (length d)"
    using payload_data [OF assms] by (simp_all add: rlp_to_bytes_def rlp_size_def)
qed

lemma hash_read_back:
  assumes "length d = n" and "length (enc_data d) + 9 < npos"
  shows "rlp_to_hash n fl (Some (enc_data d)) = Val d"
  using payload_data [OF assms(2)] assms(1) by (simp add: rlp_to_hash_def Let_def)

lemma is_int_enc:
  assumes "length (enc_data d) + 9 < npos" and "d = [] \<or> hd d \<noteq> 0"
  shows "is_int (Some (enc_data d)) = Val True"
proof (cases d rule: enc_data_cases)
  case (Single b)
  with assms(2) show ?thesis by (auto simp: is_int_def)
next
  case Long
  show ?thesis
  proof (cases "d = []")
    case True
    then show ?thesis using Long by (simp add: is_int_def header_def)
  next
    case False
    with assms(2) have h: "d ! 0 \<noteq> 0" by (simp add: hd_conv_nth)
    have n: "length d < npos" using assms Long by simp
    let ?k = "bytes_required (length d)"
    show ?thesis
    proof (cases "length d < 56")
      case True
      then show ?thesis using Long h False
        by (auto simp: is_int_def header_def byte_order unat_header word_unat_eq_iff)
    next
      case f: False
      have k: "1 \<le> ?k" "?k \<le> 8" using f few_length_bytes [OF n] bytes_required_ge_1 [of "length d"] by simp_all
      have u: "unat (0x80 + 55 + of_nat ?k :: byte) = 0xB7 + ?k" using k(2) by (rule unat_header)
      have "view_at (Some (enc_data d)) (1 + ?k) = Val (d ! 0)"
        using Long f False by (simp add: view_at_def header_def nth_append)
      then show ?thesis using Long h k f u
        by (auto simp: is_int_def header_def byte_order word_unat_eq_iff)
    qed
  qed
qed

lemma int_read_back:
  assumes "bytes_required i \<le> max_size t" and "bytes_required i + 18 < npos"
  shows "rlp_to_int t strict (Some (enc_int i)) = Val i"
proof -
  let ?d = "to_compact_big_endian i"
  have "length (enc_int i) \<le> 9 + bytes_required i"
    using few_length_bytes [of "bytes_required i"] assms(2) by (auto simp: enc_data_def length_header)
  then have l: "length (enc_int i) + 9 < npos" using assms(2) by simp
  have "is_int (Some (enc_int i)) = Val True"
    by (rule is_int_enc [OF l]) (metis compact_big_endian_Nil_iff compact_big_endian_hd neq0_conv)
  moreover have "\<not> is_list (Some (enc_int i))" "\<not> rlp_is_null (Some (enc_int i))"
    using payload_data(3) [OF l] by (auto simp: is_list_def is_data_def byte_order)
  moreover have "int_of_type t i = i"
    using assms(1) by (auto simp: int_of_type_def max_size_def bytes_required_le_iff split: option.splits)
  ultimately show ?thesis
    using payload_data(1) [OF l] assms(1) by (simp add: rlp_to_int_def strict_def)
qed

text \<open>A number too wide for the type is refused.\<close>

lemma int_too_wide:
  assumes "max_size t < bytes_required i" and "bytes_required i + 18 < npos"
  shows "rlp_to_int t strict (Some (enc_int i)) = Exc BadCast"
proof -
  have "length (enc_int i) \<le> 9 + bytes_required i"
    using few_length_bytes [of "bytes_required i"] assms(2) by (auto simp: enc_data_def length_header)
  then have l: "length (enc_int i) + 9 < npos" using assms(2) by simp
  have "is_int (Some (enc_int i)) = Val True"
    by (rule is_int_enc [OF l]) (metis compact_big_endian_Nil_iff compact_big_endian_hd neq0_conv)
  moreover have "\<not> is_list (Some (enc_int i))" "\<not> rlp_is_null (Some (enc_int i))"
    using payload_data(3) [OF l] by (auto simp: is_list_def is_data_def byte_order)
  ultimately show ?thesis
    using payload_data(1) [OF l] assms(1) by (simp add: rlp_to_int_def strict_def fail_or_def)
qed

subsection \<open>Trees\<close>

text \<open>Bytes behind a list are no items of it when they are counted, and items when they are iterated over.\<close>

lemma to_list_trailing:
  assumes len: "length (enc (List ts)) + length (concat (map enc us)) + 9 < npos"
  shows "rlp_to_list (Some (enc (List ts) @ concat (map enc us))) = Some (Val (map (\<lambda>t. Some (enc t)) (ts @ us)))"
proof -
  let ?p = "concat (map enc ts)" and ?q = "concat (map enc us)"
  let ?bs = "enc (List ts) @ ?q" and ?all = "concat (map enc (ts @ us))"
  have n: "length ?p < npos" "length (?p @ ?q) + 9 < npos" using len by (simp_all add: enc_list_def)
  have h: "is_list (Some ?bs)" "payload (Some ?bs) = Val (Some ?all)" "1 + length_size (Some ?bs) = length (header 0xC0 (length ?p))"
    using read_list_header(1,3,4) [OF refl n] by (simp_all add: enc_list_def)
  have b: "length ?bs = 1 + length_size (Some ?bs) + length ?all" "drop (1 + length_size (Some ?bs)) ?bs = ?all"
    using h(3) by (simp_all add: enc_list_def)
  show ?thesis
  proof (cases "ts @ us")
    case Nil
    then have "start_position (Some ?bs) = Val ((Some (length ?bs), 0), 0)"
      using h b by (simp add: start_position_def head_item_Nil)
    then show ?thesis using h Nil by (simp add: rlp_to_list_def iterate.simps)
  next
    case (Cons t vs)
    have all: "?all = enc t @ concat (map enc vs)" by (simp only: Cons list.map concat.simps)
    have "length (?p @ ?q) = length (enc t) + length (concat (map enc vs))"
      using arg_cong [OF all, of length] by simp
    then have l: "length (enc t) + length (concat (map enc vs)) + 9 < npos" using n by simp
    have "start_position (Some ?bs) = Val ((Some (1 + length_size (Some ?bs)), length (enc t)), length (concat (map enc vs)))"
      unfolding start_position_def h(2) all using head_item_enc [OF l] by simp
    moreover have "length ?bs + 9 < npos" using len by simp
    ultimately show ?thesis
      using h(1) iterate_reads [of ?bs "1 + length_size (Some ?bs)" t vs "[]"] b(2) all Cons
      by (simp add: rlp_to_list_def del: map_append)
  qed
qed

lemma to_list_enc:
  "length (enc (List ts)) + 9 < npos \<Longrightarrow> rlp_to_list (Some (enc (List ts))) = Some (Val (map (\<lambda>t. Some (enc t)) ts))"
  using to_list_trailing [of ts "[]"] by simp

text \<open>Two trees with the same bytes are the same.\<close>

lemma is_list_enc: "length (enc t) + 9 < npos \<Longrightarrow> is_list (Some (enc t)) \<longleftrightarrow> (\<exists>ts. t = List ts)"
proof (cases t)
  case (Data d)
  assume "length (enc t) + 9 < npos"
  with Data have "is_data (Some (enc_data d))" by (intro payload_data(3)) simp
  then show ?thesis using Data by (simp add: is_data_def is_list_def byte_order)
next
  case (List ts)
  assume "length (enc t) + 9 < npos"
  then show ?thesis using List read_list_header(1) [OF refl, of "length (concat (map enc ts))" "concat (map enc ts)"]
    by (simp add: enc_list_def)
qed

lemma rlp_enc_inj: "enc t = enc u \<Longrightarrow> length (enc t) + 9 < npos \<Longrightarrow> t = u"
proof (induction t arbitrary: u)
  case (Data d)
  obtain e where u: "u = Data e" using is_list_enc [of u] is_list_enc [of "Data d"] Data by (cases u) auto
  have de: "enc_data d = enc_data e" using Data.prems(1) u by simp
  have "rlp_to_string (Some (enc_data d)) = Val d" by (rule data_read_back(1)) (use Data.prems(2) in simp)
  moreover have "rlp_to_string (Some (enc_data e)) = Val e" by (rule data_read_back(1)) (use Data.prems(2) de in simp)
  ultimately show ?case using u unfolding de by simp
next
  case (List ts)
  obtain us where u: "u = List us" using is_list_enc [of u] is_list_enc [of "List ts"] List.prems by (cases u) auto
  have "map (\<lambda>t. Some (enc t)) ts = map (\<lambda>t. Some (enc t)) us"
    using to_list_enc [of ts] to_list_enc [of us] List.prems u by simp
  then have "map the (map (\<lambda>t. Some (enc t)) ts) = map the (map (\<lambda>t. Some (enc t)) us)" by (rule arg_cong)
  then have m: "map enc ts = map enc us" by (simp add: comp_def)
  have "ts ! i = us ! i" if i: "i < length ts" for i
  proof (rule List.IH)
    show "ts ! i \<in> set ts" using i by simp
    show "enc (ts ! i) = enc (us ! i)" using m i by (metis length_map nth_map)
    have "length (enc (ts ! i)) \<le> length (concat (map enc ts))"
      using i by (simp add: length_concat member_le_sum_list)
    also have "\<dots> \<le> length (enc (List ts))" by (simp add: enc_list_def)
    finally show "length (enc (ts ! i)) + 9 < npos" using List.prems by simp
  qed
  moreover have "length ts = length us" using m by (rule map_eq_imp_length_eq)
  ultimately show ?case using u by (simp add: nth_equalityI)
qed

section \<open>Theorems\<close>

text \<open>
  C15: A tree of byte strings and lists that is written with the operations of \<open>RLPStream\<close> is read back
  by \<open>RLP\<close>: a string by each of its conversions; of a list the number of items, the items by iteration,
  and the items by the subscript operator on one object, any number of times and in any order, past
  the end an empty reference. Different trees have different bytes.
\<close>

theorem rlp_tree_roundtrip:
  assumes "narrow t" and "length (enc t) + 9 < npos"
  shows "streamed (write_item t) = Val (enc t) \<and>
    (case t of
       Data d \<Rightarrow> rlp_to_string (Some (enc t)) = Val d \<and> rlp_to_bytes (Some (enc t)) = Val d \<and> rlp_size (Some (enc t)) = Val (length d)
     | List ts \<Rightarrow> item_count (Some (enc t)) = Val (length ts)
         \<and> rlp_to_list (Some (enc t)) = Some (Val (map (\<lambda>u. Some (enc u)) ts))
         \<and> (\<forall>is. list_all (\<lambda>i. i < npos) is \<longrightarrow>
              snd (subscripts is (new_rlp (Some (enc t)))) = Val (map (nth_item ts) is)))
    \<and> (\<forall>u. enc u = enc t \<longrightarrow> u = t)"
proof -
  have "\<forall>u. enc u = enc t \<longrightarrow> u = t" using rlp_enc_inj [of t] assms(2) by metis
  moreover have "streamed (write_item t) = Val (enc t)" by (rule written_item [OF assms(1)])
  moreover have "case t of
       Data d \<Rightarrow> rlp_to_string (Some (enc t)) = Val d \<and> rlp_to_bytes (Some (enc t)) = Val d \<and> rlp_size (Some (enc t)) = Val (length d)
     | List ts \<Rightarrow> item_count (Some (enc t)) = Val (length ts)
         \<and> rlp_to_list (Some (enc t)) = Some (Val (map (\<lambda>u. Some (enc u)) ts))
         \<and> (\<forall>is. list_all (\<lambda>i. i < npos) is \<longrightarrow>
              snd (subscripts is (new_rlp (Some (enc t)))) = Val (map (nth_item ts) is))"
  proof (cases t)
    case (Data d)
    then show ?thesis using data_read_back [of d] assms(2) by simp
  next
    case (List ts)
    have "item_count (Some (enc (List ts))) = Val (length ts)" using item_count_enc [of ts "[]"] assms(2) List by simp
    moreover have "\<forall>is. list_all (\<lambda>i. i < npos) is \<longrightarrow>
        snd (subscripts is (new_rlp (Some (enc (List ts))))) = Val (map (nth_item ts) is)"
      using subscripts_read [OF _ rlp_ok_new, of ts] assms(2) List by fastforce
    ultimately show ?thesis using to_list_enc [of ts] assms(2) List by simp
  qed
  ultimately show ?thesis by blast
qed

theorem rlp_tree_roundtrip_witness:
  "snd (subscripts [1, 0, 1, 5] (new_rlp (Some (enc (List [Data [1], List [Data [200], List []]])))))
     = Val [Some [0xC3, 0x81, 200, 0xC0], Some [1], Some [0xC3, 0x81, 200, 0xC0], Some []]"
proof -
  let ?t = "List [Data [1], List [Data [200], List []]]"
  have e: "enc ?t = [0xC5, 1, 0xC3, 0x81, 200, 0xC0]" by code_simp
  have "narrow ?t" by simp
  moreover have "length (enc ?t) + 9 < npos" by (simp only: e) (simp add: npos_def)
  ultimately have "\<forall>is. list_all (\<lambda>i. i < npos) is \<longrightarrow>
      snd (subscripts is (new_rlp (Some (enc ?t)))) = Val (map (nth_item [Data [1], List [Data [200], List []]]) is)"
    using rlp_tree_roundtrip [of ?t] unfolding item.case by blast
  moreover have "list_all (\<lambda>i. i < npos) [1, 0, 1, 5]" by (simp add: npos_def)
  ultimately have "snd (subscripts [1, 0, 1, 5] (new_rlp (Some (enc ?t))))
      = Val (map (nth_item [Data [1], List [Data [200], List []]]) [1, 0, 1, 5])" by blast
  moreover have "map (nth_item [Data [1], List [Data [200], List []]]) [1, 0, 1, 5]
      = [Some [0xC3, 0x81, 200, 0xC0], Some [1], Some [0xC3, 0x81, 200, 0xC0], Some []]" by code_simp
  ultimately show ?thesis by (simp only:)
qed

text \<open>
  A number written with \<open>append\<close> is read back by \<open>toInt\<close> with the strict flags into every integer
  type it fits into, and a type that is too narrow raises \<open>BadCast\<close>.
\<close>

theorem rlp_int_roundtrip:
  assumes "bytes_required i + 18 < npos"
  shows "streamed (append_int i) = Val (enc_int i) \<and>
    rlp_to_int t strict (Some (enc_int i)) = (if bytes_required i \<le> max_size t then Val i else Exc BadCast)"
  using int_read_back [of i t] int_too_wide [of t i] assms by (simp add: append_int_eq streamed_item)

theorem rlp_int_roundtrip_witness:
  "rlp_to_int (Some 32) strict (Some (enc_int 1000)) = Val 1000 \<and> rlp_to_int (Some 1) strict (Some (enc_int 1000)) = Exc BadCast"
proof -
  have "bytes_required 1000 = 2" by code_simp
  then show ?thesis
    using rlp_int_roundtrip [of 1000 "Some 32"] rlp_int_roundtrip [of 1000 "Some 1"] by (simp add: npos_def max_size_def)
qed

subsection \<open>Bytes that nobody wrote\<close>

definition endless :: "byte list" where
  "endless = [0xBF, 0xFF, 0xFF, 0xFF, 0xFF, 0xFF, 0xFF, 0xFF, 0xF7]"

lemma endless_item: "length rest + 18 < npos \<Longrightarrow> head_item (Some (endless @ rest)) = Val (Some [])"
proof -
  assume len: "length rest + 18 < npos"
  let ?v = "Some (endless @ rest)"
  have h: "is_data ?v" "\<not> is_list ?v" "\<not> rlp_is_null ?v" "\<not> is_single_byte ?v" "length_size ?v = 8"
    by (simp_all add: endless_def is_data_def is_list_def rlp_is_null_def is_single_byte_def head_byte_def length_size_def byte_order)
  have "rlp_length ?v = Val (from_big_endian [0xFF, 0xFF, 0xFF, 0xFF, 0xFF, 0xFF, 0xFF, 0xF7])"
    by (simp add: endless_def rlp_length_def read_length_def byte_order)
  also have "from_big_endian [0xFF, 0xFF, 0xFF, 0xFF, 0xFF, 0xFF, 0xFF, 0xF7] = 2 ^ 64 - 9"
    by (simp add: from_big_endian_def)
  finally have l: "rlp_length ?v = Val (2 ^ 64 - 9)" .
  have "payload ?v = Val (Some rest)"
    using payload_suffix [of ?v endless rest] h len by (simp add: endless_def)
  then have "actual_size ?v = Val 0" using h l by (simp add: actual_size_def)
  then show ?thesis using len by (simp add: head_item_def cropped_prefix endless_def)
qed

lemma iterate_stuck:
  assumes "next_position bs st = Val st" and "fst st \<noteq> (Some (length bs), 0)"
  shows "iterate bs st acc = None"
proof -
  have "next_position bs st = Val st \<longrightarrow> fst st = (Some (length bs), 0)" if "iterate bs st acc = Some r" for r
    using that by (rule iterate.raw_induct [rotated]) (auto split: if_splits, blast+)
  then show ?thesis using assms by (cases "iterate bs st acc") auto
qed

text \<open>
  C30: The iteration over a list whose first item declares a length that overflows the sum of its size,
  as a peer may send it, does not return: \<open>toList\<close> adds empty items for ever.
\<close>

theorem rlp_list_never_ends:
  assumes "length rest + 27 < npos"
  shows "rlp_to_list (Some (enc_list (endless @ rest))) = None"
proof -
  let ?p = "endless @ rest" and ?v = "Some (enc_list (endless @ rest))"
  have n: "length ?p < npos" "length ?p + 9 < npos" using assms by (simp_all add: endless_def)
  have h: "is_list ?v" "payload ?v = Val (Some ?p)" "1 + length_size ?v = length (header 0xC0 (length ?p))"
    using read_list_header(1,3,4) [OF refl n] by (simp_all add: enc_list_def)
  let ?a = "1 + length_size ?v"
  have i: "head_item (Some ?p) = Val (Some [])" using assms by (intro endless_item) simp
  then have s: "start_position ?v = Val ((Some ?a, 0), length ?p)" using h by (simp add: start_position_def)
  have d: "drop ?a (enc_list ?p) = ?p" unfolding h(3) by (simp add: enc_list_def)
  have p: "length ?p \<noteq> 0" by (simp add: endless_def)
  have "view_from (enc_list ?p) (Some ?a, length ?p) = Some ?p"
    unfolding view_from_def fst_conv snd_conv option.case d by simp
  then have "next_position (enc_list ?p) ((Some ?a, 0), length ?p) = Val ((Some ?a, 0), length ?p)"
    unfolding next_position_def using i p by (simp del: length_append)
  moreover have "?a \<noteq> length (enc_list ?p)" using h(3) p by (simp add: enc_list_def)
  ultimately have "iterate (enc_list ?p) ((Some ?a, 0), length ?p) [] = None"
    by (intro iterate_stuck) simp_all
  then show ?thesis using h(1) s by (simp add: rlp_to_list_def)
qed

theorem rlp_list_never_ends_witness:
  "rlp_to_list (Some [0xC9, 0xBF, 0xFF, 0xFF, 0xFF, 0xFF, 0xFF, 0xFF, 0xFF, 0xF7]) = None"
  using rlp_list_never_ends [of "[]"] by (simp add: npos_def enc_list_def header_def endless_def)

text \<open>
  Data that was cut off: \<open>toString\<close> returns the empty string without a word, and \<open>toBytes\<close> reads
  past the end of the bytes.
\<close>

theorem rlp_truncated_data:
  assumes "length rest < n" and "n + 9 < npos"
  shows "rlp_to_string (Some (header 0x80 n @ rest)) = Val [] \<and>
    rlp_to_bytes (Some (header 0x80 n @ rest)) = Fault UndefinedBehaviour"
proof -
  have n: "n < npos" "length rest + 9 < npos" using assms by simp_all
  show ?thesis
    using read_data_header(1-3) [OF refl n] assms
    by (simp add: rlp_to_string_def rlp_to_bytes_def cropped_prefix)
qed

theorem rlp_truncated_data_witness:
  "rlp_to_string (Some [0x83, 1, 2]) = Val [] \<and> rlp_to_bytes (Some [0x83, 1, 2]) = Fault UndefinedBehaviour"
  using rlp_truncated_data [of "[1, 2]" 3] by (simp add: npos_def header_def)

text \<open>A null reference has no integer value: the test of the flags comes after an assertion.\<close>

lemma null_to_int_asserts: "rlp_to_int t fl None = Fault AssertFailed"
  by (simp add: rlp_to_int_def is_int_def view_at_def)

end
