(* ===== verification/MemTrie.thy ===== *)
theory MemTrie
  imports RlpProps
begin

section \<open>The trie in memory\<close>

text \<open>
  \<open>server/ethereum/libethereum/MemTrie.cpp\<close>, with the first form of \<open>hexPrefixEncode\<close> of
  \<open>TrieCommon.cpp\<close>: a radix tree over the nibbles of its keys, with branches of sixteen, leaves that hold
  the rest of a key, and inner nodes that hold a part of it. Nodes own what they point to, so a node is a
  tree and an operation returns the node that takes its place; the null pointer is \<open>None\<close>. \<open>std::array\<close>
  does not check an index: one from 16 on is undefined behaviour. The hash is a parameter.
\<close>

subsection \<open>Hex prefix\<close>

definition hex_prefix_encode :: "byte list \<Rightarrow> bool \<Rightarrow> nat \<Rightarrow> int \<Rightarrow> byte list" where
  "hex_prefix_encode v leaf begin' end' =
     (let e = (if end' < 0 then nat (int (length v) + 1 + end') else nat end');
          odd = ((int e - int begin') mod 2 \<noteq> 0);
          first = ((if leaf then 2 else 0) OR (if odd then 1 else 0)) * 16;
          b = (if odd then begin' + 1 else begin')
      in (if odd then first OR v ! begin' else first)
         # map (\<lambda>j. v ! (b + 2 * j) * 16 + v ! (b + 2 * j + 1)) [0..<(e - b + 1) div 2])"

subsection \<open>Nodes\<close>

datatype mem_node =
    Branch "mem_node option list" "byte list"
  | Leaf "byte list" "byte list"
  | Infix "byte list" mem_node

text \<open>\<open>_key.cropped(n)\<close>, whose default count does not let the whole be a part.\<close>

definition key_from :: "nat \<Rightarrow> byte list \<Rightarrow> byte list" where
  "key_from n key = (case cropped n npos (Some key) of Val v \<Rightarrow> view_bytes v | _ \<Rightarrow> [])"

definition key_upto :: "nat \<Rightarrow> byte list \<Rightarrow> byte list" where
  "key_upto n key = (case cropped 0 n (Some key) of Val v \<Rightarrow> view_bytes v | _ \<Rightarrow> [])"

definition node_at :: "mem_node option list \<Rightarrow> byte \<Rightarrow> mem_node option eth" where
  "node_at ns i = (if unat i < length ns then Val (ns ! unat i) else Fault UndefinedBehaviour)"

definition node_set :: "mem_node option list \<Rightarrow> byte \<Rightarrow> mem_node option \<Rightarrow> mem_node option list eth" where
  "node_set ns i n = (if unat i < length ns then Val (ns[unat i := n]) else Fault UndefinedBehaviour)"

definition no_nodes :: "mem_node option list" where
  "no_nodes = replicate 16 None"

definition branch_one :: "byte \<Rightarrow> mem_node \<Rightarrow> byte list \<Rightarrow> mem_node eth" where
  "branch_one i n v = obind (node_set no_nodes i (Some n)) (\<lambda>ns. Val (Branch ns v))"

definition branch_two :: "byte \<Rightarrow> mem_node \<Rightarrow> byte \<Rightarrow> mem_node \<Rightarrow> mem_node eth" where
  "branch_two i n j m =
     obind (node_set no_nodes i (Some n)) (\<lambda>ns. obind (node_set ns j (Some m)) (\<lambda>ns. Val (Branch ns [])))"

definition new_branch :: "byte list \<Rightarrow> byte list \<Rightarrow> byte list \<Rightarrow> byte list \<Rightarrow> mem_node eth" where
  "new_branch k1 v1 k2 v2 =
     (let p = common_prefix k1 k2 in
      obind
        (if length k1 = p then branch_one (k2 ! p) (Leaf (key_from (p + 1) k2) v2) v1
         else if length k2 = p then branch_one (k1 ! p) (Leaf (key_from (p + 1) k1) v1) v2
         else branch_two (k1 ! p) (Leaf (key_from (p + 1) k1) v1) (k2 ! p) (Leaf (key_from (p + 1) k2) v2))
        (\<lambda>n. Val (if p \<noteq> 0 then Infix (key_upto p k1) n else n)))"

definition infix_contains :: "byte list \<Rightarrow> byte list \<Rightarrow> bool" where
  "infix_contains ext key \<longleftrightarrow> length ext \<le> length key \<and> take (length ext) key = ext"

lemma key_from_shorter: "0 < n \<Longrightarrow> n \<le> length key \<Longrightarrow> length (key_from n key) \<le> length key - n"
  by (cases "length key < npos") (simp add: key_from_def cropped_suffix, simp add: key_from_def cropped_def)

lemma key_from_0 [simp]: "key_from 0 key = []"
  by (simp add: key_from_def cropped_def npos_def)

lemma node_at_size:
  "node_at ns i = Val (Some n) \<Longrightarrow> size n < size (Branch ns v)"
proof -
  assume "node_at ns i = Val (Some n)"
  then have "Some n \<in> set ns" by (auto simp: node_at_def split: if_splits) (metis nth_mem)
  then have "size_option size (Some n) \<le> size_list (size_option size) ns" by (rule size_list_estimation') simp
  then show ?thesis by simp
qed

subsection \<open>Lookup\<close>

function mem_at :: "mem_node \<Rightarrow> byte list \<Rightarrow> byte list eth" where
  "mem_at (Branch ns v) key =
     (if key = [] then Val v
      else obind (node_at ns (key ! 0)) (\<lambda>c. case c of Some n \<Rightarrow> mem_at n (key_from 1 key) | None \<Rightarrow> Val []))"
| "mem_at (Leaf ext v) key = Val (if key = ext then v else [])"
| "mem_at (Infix ext n) key =
     (if infix_contains ext key then mem_at n (key_from (length ext) key) else Val [])"
  by pat_completeness auto
termination by (relation "measure (\<lambda>(n, _). size n)") (auto dest: node_at_size)

subsection \<open>Insertion\<close>

lemma common_prefix_le: "common_prefix xs ys \<le> length xs" "common_prefix xs ys \<le> length ys"
  by (induction xs ys rule: common_prefix.induct) simp_all

fun is_infix :: "mem_node \<Rightarrow> bool" where
  "is_infix (Infix _ _) = True"
| "is_infix _ = False"

function mem_insert :: "mem_node \<Rightarrow> byte list \<Rightarrow> byte list \<Rightarrow> mem_node eth" where
  "mem_insert (Branch ns v) key val =
     (if val = [] then Fault AssertFailed
      else if key = [] then Val (Branch ns val)
      else obind (node_at ns (key ! 0)) (\<lambda>c.
        case c of
          None \<Rightarrow> obind (node_set ns (key ! 0) (Some (Leaf (key_from 1 key) val))) (\<lambda>ns. Val (Branch ns v))
        | Some n \<Rightarrow>
            obind (mem_insert n (key_from 1 key) val) (\<lambda>n'.
              obind (node_set ns (key ! 0) (Some n')) (\<lambda>ns. Val (Branch ns v)))))"
| "mem_insert (Leaf ext v) key val =
     (if val = [] then Fault AssertFailed
      else if key = ext then Val (Leaf ext val)
      else new_branch key val ext v)"
| "mem_insert (Infix ext n) key val =
     (if val = [] then Fault AssertFailed
      else if infix_contains ext key
        then obind (mem_insert n (key_from (length ext) key) val) (\<lambda>n'. Val (Infix ext n'))
      else (let p = common_prefix key ext in
        if p \<noteq> 0 then
          obind (mem_insert (Infix (trim_front p ext) n) (key_from p key) val) (\<lambda>n'. Val (Infix (key_upto p key) n'))
        else
          (let ext' = trim_front 1 ext in
           obind (branch_one (ext ! 0) (if ext' = [] then n else Infix ext' n) []) (\<lambda>b. mem_insert b key val))))"
  by pat_completeness auto
termination
proof (relation "measures [\<lambda>(n, k, _). 2 * length k + (if is_infix n then 1 else 0), \<lambda>(n, _). size n]", goal_cases)
  case 1
  show ?case by simp
next
  case (2 ns v key val c n)
  then have "1 \<le> length key" by (cases key) simp_all
  then have "length (key_from 1 key) \<le> length key - 1" by (intro key_from_shorter) simp_all
  with \<open>1 \<le> length key\<close> have "length (key_from 1 key) + 1 \<le> length key" by linarith
  then show ?case by auto
next
  case (3 ext n key val)
  show ?case
  proof (cases "ext = []")
    case True
    then show ?thesis by simp
  next
    case False
    then have "0 < length ext" by simp
    moreover have "length ext \<le> length key" using 3 by (simp add: infix_contains_def)
    ultimately have "length (key_from (length ext) key) < length key"
      using key_from_shorter [of "length ext" key] by linarith
    then show ?thesis by auto
  qed
next
  case (4 ext n key val p)
  then have "0 < p" "p \<le> length key" using common_prefix_le [of key ext] by simp_all
  then have "length (key_from p key) < length key" using key_from_shorter [of p key] by linarith
  then show ?case by auto
next
  case (5 ext n key val p ext' b)
  then have "\<not> is_infix b" by (auto simp: branch_one_def obind_eq_Val)
  then show ?case by simp
qed

subsection \<open>Removal\<close>

fun active_from :: "nat \<Rightarrow> byte \<Rightarrow> mem_node option list \<Rightarrow> byte" where
  "active_from i n [] = n"
| "active_from i n (c # cs) =
     (if c \<noteq> None then (if n = 255 then active_from (i + 1) (of_nat i) cs else 16)
      else active_from (i + 1) n cs)"

definition active_branch :: "mem_node option list \<Rightarrow> byte" where
  "active_branch ns = active_from 0 255 ns"

definition rejig :: "mem_node option list \<Rightarrow> byte list \<Rightarrow> mem_node eth" where
  "rejig ns v =
     (let n = active_branch ns in
      if n = 255 \<and> v \<noteq> [] then Val (Leaf [] v)
      else if n < 16 \<and> v = [] then
        (case ns ! unat n of
           Some (Branch ms w) \<Rightarrow> Val (Infix [n] (Branch ms w))
         | Some (Leaf ext w) \<Rightarrow> Val (Leaf (push_front ext n) w)
         | Some (Infix ext m) \<Rightarrow> Val (Infix (push_front ext n) m)
         | None \<Rightarrow> Fault AssertFailed)
      else Val (Branch ns v))"

function mem_remove :: "mem_node \<Rightarrow> byte list \<Rightarrow> mem_node option eth" where
  "mem_remove (Branch ns v) key =
     (if key = [] then
        (if v \<noteq> [] then obind (rejig ns []) (\<lambda>n. Val (Some n)) else Val (Some (Branch ns v)))
      else obind (node_at ns (key ! 0)) (\<lambda>c.
        case c of
          None \<Rightarrow> Val (Some (Branch ns v))
        | Some n \<Rightarrow>
            obind (mem_remove n (key_from 1 key)) (\<lambda>r.
              obind (node_set ns (key ! 0) r) (\<lambda>ns. obind (rejig ns v) (\<lambda>n. Val (Some n))))))"
| "mem_remove (Leaf ext v) key = Val (if key = ext then None else Some (Leaf ext v))"
| "mem_remove (Infix ext n) key =
     (if infix_contains ext key
      then obind (mem_remove n (key_from (length ext) key)) (\<lambda>r.
        Val (case r of
               Some (Leaf e w) \<Rightarrow> Some (Leaf (ext @ e) w)
             | Some (Infix e m) \<Rightarrow> Some (Infix (ext @ e) m)
             | Some (Branch ms w) \<Rightarrow> Some (Infix ext (Branch ms w))
             | None \<Rightarrow> None))
      else Val (Some (Infix ext n)))"
  by pat_completeness auto
termination by (relation "measure (\<lambda>(n, _). size n)") (auto dest: node_at_size)

subsection \<open>RLP of a node\<close>

text \<open>\<open>putRLP\<close>, and \<open>hash256aux\<close> of \<open>TrieHash.cpp\<close>: a child of 32 bytes or more is put in as its hash.\<close>

definition put_child :: "(byte list \<Rightarrow> byte list) \<Rightarrow> unit rlp_prog \<Rightarrow> unit rlp_prog" where
  "put_child sha3 m =
     bindp (lift (streamed m)) (\<lambda>out. if length out < 32 then append_raw out 1 else append_data (sha3 out) False)"

fun make_rlp :: "(byte list \<Rightarrow> byte list) \<Rightarrow> mem_node \<Rightarrow> unit rlp_prog" where
  "make_rlp sha3 (Branch ns v) =
     thenp (append_list 17)
       (thenp (forall_do ns (\<lambda>c. case c of Some n \<Rightarrow> put_child sha3 (make_rlp sha3 n) | None \<Rightarrow> append_data [] False))
          (append_data v False))"
| "make_rlp sha3 (Leaf ext v) =
     thenp (append_list 2) (thenp (append_data (hex_prefix_encode ext True 0 (- 1)) False) (append_data v False))"
| "make_rlp sha3 (Infix ext n) =
     thenp (append_list 2)
       (thenp (append_data (hex_prefix_encode ext False 0 (- 1)) False) (put_child sha3 (make_rlp sha3 n)))"

subsection \<open>The trie\<close>

type_synonym mem_trie = "mem_node option"

definition trie_at :: "byte list \<Rightarrow> mem_trie \<Rightarrow> byte list eth" where
  "trie_at key t = (case t of None \<Rightarrow> Val [] | Some r \<Rightarrow> mem_at r (to_hex key))"

definition trie_remove :: "byte list \<Rightarrow> mem_trie \<Rightarrow> mem_trie eth" where
  "trie_remove key t = (case t of None \<Rightarrow> Val None | Some r \<Rightarrow> mem_remove r (to_hex key))"

definition trie_insert :: "byte list \<Rightarrow> byte list \<Rightarrow> mem_trie \<Rightarrow> mem_trie eth" where
  "trie_insert key val t =
     obind (if val = [] then trie_remove key t else Val t) (\<lambda>t.
       let h = to_hex key in
       case t of
         Some r \<Rightarrow> obind (mem_insert r h val) (\<lambda>r'. Val (Some r'))
       | None \<Rightarrow> Val (Some (Leaf h val)))"

definition trie_rlp :: "(byte list \<Rightarrow> byte list) \<Rightarrow> mem_trie \<Rightarrow> byte list eth" where
  "trie_rlp sha3 t = (case t of None \<Rightarrow> Val [] | Some r \<Rightarrow> streamed (make_rlp sha3 r))"

definition trie_hash256 :: "(byte list \<Rightarrow> byte list) \<Rightarrow> mem_trie \<Rightarrow> byte list eth" where
  "trie_hash256 sha3 t =
     (case t of None \<Rightarrow> Val (replicate 32 0) | Some r \<Rightarrow> obind (streamed (make_rlp sha3 r)) (\<lambda>out. Val (sha3 out)))"

end
