(* ===== verification/ByteMap.thy ===== *)
theory ByteMap
  imports EthCommon
begin

section \<open>A map from byte strings to byte strings\<close>

text \<open>
  What a client of a trie relies on, whatever the trie is made of: a value that was inserted is found
  under its key and under no other, a removed key is not found, and no operation fails. The empty string
  stands for \<open>not found\<close>, as in the code. The locale \<open>byte_map\<close> states this for states that satisfy an
  invariant and keys that satisfy a condition; whole histories of operations follow from it.
\<close>

datatype map_op = Put "byte list" "byte list" | Del "byte list"

fun op_key :: "map_op \<Rightarrow> byte list" where
  "op_key (Put k v) = k"
| "op_key (Del k) = k"

fun op_filled :: "map_op \<Rightarrow> bool" where
  "op_filled (Put k v) \<longleftrightarrow> v \<noteq> []"
| "op_filled (Del k) \<longleftrightarrow> True"

text \<open>The history on the implementation, and on a function.\<close>

fun run_ops :: "(byte list \<Rightarrow> byte list \<Rightarrow> 'm \<Rightarrow> 'm eth) \<Rightarrow> (byte list \<Rightarrow> 'm \<Rightarrow> 'm eth) \<Rightarrow> map_op list \<Rightarrow> 'm \<Rightarrow> 'm eth" where
  "run_ops ins rem [] m = Val m"
| "run_ops ins rem (Put k v # ops) m = obind (ins k v m) (run_ops ins rem ops)"
| "run_ops ins rem (Del k # ops) m = obind (rem k m) (run_ops ins rem ops)"

fun map_ops :: "map_op list \<Rightarrow> (byte list \<Rightarrow> byte list) \<Rightarrow> byte list \<Rightarrow> byte list" where
  "map_ops [] f = f"
| "map_ops (Put k v # ops) f = map_ops ops (f(k := v))"
| "map_ops (Del k # ops) f = map_ops ops (f(k := []))"

lemma map_ops_agree: "(\<And>k. P k \<Longrightarrow> f k = g k) \<Longrightarrow> P k \<Longrightarrow> map_ops ops f k = map_ops ops g k"
proof (induction ops f arbitrary: g rule: map_ops.induct)
  case (2 l v ops f)
  have "map_ops ops (f(l := v)) k = map_ops ops (g(l := v)) k" by (rule 2(1)) (use 2 in \<open>simp_all add: fun_upd_apply\<close>)
  then show ?case by (simp only: map_ops.simps)
next
  case (3 l ops f)
  have "map_ops ops (f(l := [])) k = map_ops ops (g(l := [])) k" by (rule 3(1)) (use 3 in \<open>simp_all add: fun_upd_apply\<close>)
  then show ?case by (simp only: map_ops.simps)
qed simp

locale byte_map =
  fixes inv :: "'m \<Rightarrow> bool"
    and key_ok :: "byte list \<Rightarrow> bool"
    and holds :: "'m \<Rightarrow> byte list \<Rightarrow> byte list"
    and get :: "byte list \<Rightarrow> 'm \<Rightarrow> byte list eth"
    and ins :: "byte list \<Rightarrow> byte list \<Rightarrow> 'm \<Rightarrow> 'm eth"
    and rem :: "byte list \<Rightarrow> 'm \<Rightarrow> 'm eth"
  assumes get_holds: "inv m \<Longrightarrow> key_ok k \<Longrightarrow> get k m = Val (holds m k)"
    and ins_holds: "inv m \<Longrightarrow> key_ok k \<Longrightarrow> v \<noteq> [] \<Longrightarrow>
      \<exists>m'. ins k v m = Val m' \<and> inv m' \<and> (\<forall>l. key_ok l \<longrightarrow> holds m' l = ((holds m)(k := v)) l)"
    and rem_holds: "inv m \<Longrightarrow> key_ok k \<Longrightarrow>
      \<exists>m'. rem k m = Val m' \<and> inv m' \<and> (\<forall>l. key_ok l \<longrightarrow> holds m' l = ((holds m)(k := [])) l)"
begin

lemma run_holds:
  "inv m \<Longrightarrow> list_all (\<lambda>x. key_ok (op_key x) \<and> op_filled x) ops \<Longrightarrow>
   \<exists>m'. run_ops ins rem ops m = Val m' \<and> inv m' \<and> (\<forall>k. key_ok k \<longrightarrow> holds m' k = map_ops ops (holds m) k)"
proof (induction ops arbitrary: m)
  case (Cons a ops)
  have "\<exists>m1. run_ops ins rem (a # ops) m = run_ops ins rem ops m1 \<and> inv m1
      \<and> (\<forall>k. key_ok k \<longrightarrow> map_ops ops (holds m1) k = map_ops (a # ops) (holds m) k)"
  proof (cases a)
    case (Put k v)
    then obtain m1 where "ins k v m = Val m1" "inv m1" "\<forall>l. key_ok l \<longrightarrow> holds m1 l = ((holds m)(k := v)) l"
      using ins_holds [of m k v] Cons.prems by auto
    then show ?thesis using Put map_ops_agree [of key_ok "holds m1" "(holds m)(k := v)"] by auto
  next
    case (Del k)
    then obtain m1 where "rem k m = Val m1" "inv m1" "\<forall>l. key_ok l \<longrightarrow> holds m1 l = ((holds m)(k := [])) l"
      using rem_holds [of m k] Cons.prems by auto
    then show ?thesis using Del map_ops_agree [of key_ok "holds m1" "(holds m)(k := [])"] by auto
  qed
  then obtain m1 where m1: "run_ops ins rem (a # ops) m = run_ops ins rem ops m1" "inv m1"
      "\<forall>k. key_ok k \<longrightarrow> map_ops ops (holds m1) k = map_ops (a # ops) (holds m) k" by blast
  then show ?case using Cons.IH [of m1] Cons.prems by auto
qed simp

lemma run_get:
  assumes "inv m" and "list_all (\<lambda>x. key_ok (op_key x) \<and> op_filled x) ops"
  shows "\<exists>m'. run_ops ins rem ops m = Val m' \<and> inv m' \<and> (\<forall>k. key_ok k \<longrightarrow> get k m' = Val (map_ops ops (holds m) k))"
  using run_holds [OF assms] get_holds by metis

end

end
