(* ===== verification/MemTrieProps.thy ===== *)
theory MemTrieProps
  imports MemTrie ByteMap
begin

section \<open>The trie in memory is a map\<close>

text \<open>
  The form of a trie that insertion and removal keep (\<open>good\<close>), what it holds (\<open>lookup\<close>), and the
  interpretation of \<open>byte_map\<close>. Keys whose bytes are all below 128 have proper nibbles.
\<close>

subsection \<open>Keys\<close>

definition nib :: "byte list \<Rightarrow> bool" where
  "nib k \<longleftrightarrow> list_all (\<lambda>x. x < 16) k"

lemma nib_simps [simp]: "nib []" "nib (x # k) \<longleftrightarrow> x < 16 \<and> nib k" "nib (k @ l) \<longleftrightarrow> nib k \<and> nib l"
  by (simp_all add: nib_def)

lemma nib_parts: "nib k \<Longrightarrow> nib (take n k)" "nib k \<Longrightarrow> nib (drop n k)" "nib k \<Longrightarrow> i < length k \<Longrightarrow> k ! i < 16"
  by (auto simp: nib_def list_all_iff dest: in_set_takeD in_set_dropD nth_mem)

lemma nib_unat: "(x::byte) < 16 \<longleftrightarrow> unat x < 16"
  by (simp add: word_less_nat_alt)

lemma key_from_drop: "0 < n \<Longrightarrow> n \<le> length k \<Longrightarrow> length k < npos \<Longrightarrow> key_from n k = drop n k"
  by (simp add: key_from_def cropped_suffix)

lemma key_upto_take: "n \<le> length k \<Longrightarrow> length k < npos \<Longrightarrow> key_upto n k = take n k"
  by (simp add: key_upto_def cropped_prefix)

lemma common_prefix_take: "take (common_prefix xs ys) xs = take (common_prefix xs ys) ys"
  by (induction xs ys rule: common_prefix.induct) simp_all

lemma common_prefix_stop:
  "common_prefix xs ys < length xs \<Longrightarrow> common_prefix xs ys < length ys \<Longrightarrow> xs ! common_prefix xs ys \<noteq> ys ! common_prefix xs ys"
  by (induction xs ys rule: common_prefix.induct) auto

text \<open>Two keys part after a common beginning.\<close>

lemma common_prefix_cases:
  obtains (Parts) p xs' ys' where "xs = p @ xs'" "ys = p @ ys'" "length p = common_prefix xs ys"
    and "xs' = [] \<or> ys' = [] \<or> hd xs' \<noteq> hd ys'"
proof
  let ?n = "common_prefix xs ys"
  show "xs = take ?n xs @ drop ?n xs" by simp
  show "ys = take ?n xs @ drop ?n ys" by (metis common_prefix_take append_take_drop_id)
  show "length (take ?n xs) = ?n" using common_prefix_le [of xs ys] by simp
  show "drop ?n xs = [] \<or> drop ?n ys = [] \<or> hd (drop ?n xs) \<noteq> hd (drop ?n ys)"
    using common_prefix_stop [of xs ys] by (auto simp: hd_drop_conv_nth)
qed

subsection \<open>What a node holds\<close>

function lookup :: "mem_node \<Rightarrow> byte list \<Rightarrow> byte list" where
  "lookup (Branch ns v) k =
     (case k of
        [] \<Rightarrow> v
      | x # k' \<Rightarrow> if unat x < length ns then (case ns ! unat x of None \<Rightarrow> [] | Some n \<Rightarrow> lookup n k') else [])"
| "lookup (Leaf e v) k = (if k = e then v else [])"
| "lookup (Infix e n) k = (if take (length e) k = e then lookup n (drop (length e) k) else [])"
  by pat_completeness auto
termination
proof (relation "measure (\<lambda>(n, _). size n)", goal_cases)
  case (2 ns v k x k' n)
  then have "node_at ns x = Val (Some n)" by (simp add: node_at_def)
  then show ?case using node_at_size by simp
qed simp_all

definition child_lookup :: "mem_node option \<Rightarrow> byte list \<Rightarrow> byte list" where
  "child_lookup c k = (case c of None \<Rightarrow> [] | Some n \<Rightarrow> lookup n k)"

lemma child_lookup_simps [simp]: "child_lookup None = (\<lambda>_. [])" "child_lookup (Some n) = lookup n"
  by (simp_all add: child_lookup_def fun_eq_iff)

lemma lookup_branch:
  "lookup (Branch ns v) [] = v"
  "lookup (Branch ns v) (x # k) = (if unat x < length ns then child_lookup (ns ! unat x) k else [])"
  by (simp_all add: child_lookup_def)

lemma lookup_leaf: "lookup (Leaf e v) = (\<lambda>_. [])(e := v)"
  by (simp add: fun_eq_iff)

declare lookup.simps(1) [simp del]
declare lookup_branch [simp]

text \<open>The form of a trie: no node that could be left out, and only nibbles in the keys.\<close>

definition used :: "mem_node option list \<Rightarrow> nat" where
  "used ns = length (filter (\<lambda>c. c \<noteq> None) ns)"

function good :: "mem_node \<Rightarrow> bool" where
  "good (Branch ns v) \<longleftrightarrow>
     length ns = 16 \<and> 2 \<le> used ns + (if v = [] then 0 else 1) \<and> (\<forall>n. Some n \<in> set ns \<longrightarrow> good n)"
| "good (Leaf e v) \<longleftrightarrow> v \<noteq> [] \<and> nib e"
| "good (Infix e n) \<longleftrightarrow> e \<noteq> [] \<and> nib e \<and> good n \<and> (\<exists>ns v. n = Branch ns v)"
  by pat_completeness auto
termination
proof (relation "measure size", goal_cases)
  case (2 ns v n)
  have "size_option size (Some n) \<le> size_list (size_option size) ns" by (rule size_list_estimation' [OF 2]) simp
  then show ?case by simp
qed simp_all

lemma branch_update:
  assumes "unat x < length ns" and "child_lookup r = (child_lookup (ns ! unat x))(k := v)"
  shows "lookup (Branch (ns[unat x := r]) w) = (lookup (Branch ns w))(x # k := v)"
proof
  fix l
  show "lookup (Branch (ns[unat x := r]) w) l = ((lookup (Branch ns w))(x # k := v)) l"
    using assms by (cases l) (auto simp: nth_list_update word_unat_eq_iff)
qed

lemma infix_update:
  assumes "lookup n' = (lookup n)(k := v)"
  shows "lookup (Infix e n') = (lookup (Infix e n))(e @ k := v)"
proof
  fix l
  have "take (length e) l = e \<Longrightarrow> drop (length e) l = k \<longleftrightarrow> l = e @ k"
    by (metis append_eq_conv_conj append_take_drop_id)
  then show "lookup (Infix e n') l = ((lookup (Infix e n))(e @ k := v)) l" using assms by auto
qed

lemma infix_append: "b \<noteq> [] \<Longrightarrow> lookup (Infix (a @ b) n) = lookup (Infix a (Infix b n))"
proof
  fix l
  have "take (length a + length b) l = a @ b \<longleftrightarrow> take (length a) l = a \<and> take (length b) (drop (length a) l) = b"
  proof (cases "length a \<le> length l")
    case True
    then show ?thesis by (simp add: take_add append_eq_append_conv)
  next
    case False
    then have "take (length a + length b) l = l" "take (length a) l = l" "length l < length a" by simp_all
    then show ?thesis by auto
  qed
  then show "lookup (Infix (a @ b) n) l = lookup (Infix a (Infix b n)) l" by (auto simp: add.commute)
qed

lemma infix_one: "lookup (Infix [x] n) = lookup (Branch ((replicate 16 None)[unat x := Some n]) [])" if "x < 16"
proof
  fix l
  show "lookup (Infix [x] n) l = lookup (Branch ((replicate 16 None)[unat x := Some n]) []) l"
    using that by (cases l) (auto simp: nth_list_update nib_unat word_unat_eq_iff)
qed

subsection \<open>Lookup\<close>

lemma mem_at_lookup: "good n \<Longrightarrow> nib key \<Longrightarrow> length key < npos \<Longrightarrow> mem_at n key = Val (lookup n key)"
proof (induction n key rule: mem_at.induct)
  case (1 ns v key)
  show ?case
  proof (cases key)
    case Nil
    then show ?thesis by simp
  next
    case (Cons x k)
    then have x: "unat x < length ns" "node_at ns x = Val (ns ! unat x)"
      using 1 by (simp_all add: node_at_def nib_unat)
    have k: "key_from 1 key = k" using Cons 1 by (simp add: key_from_drop)
    show ?thesis
    proof (cases "ns ! unat x")
      case None
      then show ?thesis using Cons x by simp
    next
      case (Some n)
      then have "Some n \<in> set ns" using x by (metis nth_mem)
      then have "good n" using 1 by simp
      moreover have "length k < npos" using 1 Cons by simp
      ultimately show ?thesis using 1 x Cons Some k by simp
    qed
  qed
next
  case (2 e v key)
  then show ?case by simp
next
  case (3 e n key)
  show ?case
  proof (cases "infix_contains e key")
    case True
    then have "key_from (length e) key = drop (length e) key"
      using 3 by (intro key_from_drop) (auto simp: infix_contains_def)
    moreover have "length key - length e < npos" using 3 by simp
    ultimately show ?thesis using 3 True by (simp add: nib_parts infix_contains_def)
  next
    case False
    then have "take (length e) key \<noteq> e" by (auto simp: infix_contains_def)
    then show ?thesis using False by simp
  qed
qed

subsection \<open>Insertion\<close>

definition is_branch :: "mem_node \<Rightarrow> bool" where
  "is_branch n \<longleftrightarrow> (\<exists>ns v. n = Branch ns v)"

lemma is_branch_simps [simp]: "is_branch (Branch ns v)" "\<not> is_branch (Leaf e w)" "\<not> is_branch (Infix e n)"
  by (simp_all add: is_branch_def)

lemma good_infix [simp]: "good (Infix e n) \<longleftrightarrow> e \<noteq> [] \<and> nib e \<and> good n \<and> is_branch n"
  by (simp add: is_branch_def)

declare good.simps(3) [simp del]

lemma length_no_nodes [simp]: "length no_nodes = 16"
  by (simp add: no_nodes_def)

lemma no_nodes_nth [simp]: "i < 16 \<Longrightarrow> no_nodes ! i = None"
  by (simp add: no_nodes_def)

lemma used_no_nodes [simp]: "used no_nodes = 0"
  by (simp add: used_def no_nodes_def)

lemma used_simps [simp]: "used [] = 0" "used (c # ns) = (if c = None then 0 else 1) + used ns"
  by (simp_all add: used_def)

lemma used_update:
  "i < length ns \<Longrightarrow> used (ns[i := r]) + (if ns ! i = None then 0 else 1) = used ns + (if r = None then 0 else 1)"
proof (induction ns arbitrary: i)
  case (Cons c ns)
  show ?case
  proof (cases i)
    case (Suc j)
    then have "used (ns[j := r]) + (if ns ! j = None then 0 else 1) = used ns + (if r = None then 0 else 1)"
      using Cons by simp
    then show ?thesis using Suc by simp
  qed simp
qed simp

lemma child_good: "\<forall>n. Some n \<in> set ns \<longrightarrow> good n \<Longrightarrow> i < length ns \<Longrightarrow> ns ! i = Some n \<Longrightarrow> good n"
  by (metis nth_mem)

lemma children_good_update:
  "\<forall>n. Some n \<in> set ns \<longrightarrow> good n \<Longrightarrow> (\<And>n. r = Some n \<Longrightarrow> good n) \<Longrightarrow> \<forall>n. Some n \<in> set (ns[i := r]) \<longrightarrow> good n"
  using set_update_subset_insert [of ns i r] by auto

lemma lookup_no_nodes: "lookup (Branch no_nodes v) = (\<lambda>_. [])([] := v)"
proof
  fix l
  show "lookup (Branch no_nodes v) l = ((\<lambda>_. [])([] := v)) l" by (cases l) simp_all
qed

lemma branch_one_val: "i < 16 \<Longrightarrow> branch_one i n v = Val (Branch (no_nodes[unat i := Some n]) v)"
  by (simp add: branch_one_def node_set_def nib_unat)

lemma branch_two_val:
  "i < 16 \<Longrightarrow> j < 16 \<Longrightarrow> branch_two i n j m = Val (Branch (no_nodes[unat i := Some n, unat j := Some m]) [])"
  by (simp add: branch_two_def node_set_def nib_unat)

lemma drop_eq_iff: "take (length e) l = e \<Longrightarrow> drop (length e) l = k \<longleftrightarrow> l = e @ k"
  by (metis append_eq_conv_conj append_take_drop_id)

lemma infix_two:
  assumes "lookup n = (\<lambda>_. [])(a := v, b := w)"
  shows "lookup (Infix e n) = (\<lambda>_. [])(e @ a := v, e @ b := w)"
proof
  fix l
  show "lookup (Infix e n) l = ((\<lambda>_. [])(e @ a := v, e @ b := w)) l"
    using drop_eq_iff [of e l a] drop_eq_iff [of e l b] by (auto simp: assms)
qed

lemma new_branch_ok:
  assumes "k1 \<noteq> k2" "nib k1" "nib k2" "length k1 < npos" "length k2 < npos" "v1 \<noteq> []" "v2 \<noteq> []"
  shows "\<exists>n. new_branch k1 v1 k2 v2 = Val n \<and> good n \<and> lookup n = (\<lambda>_. [])(k2 := v2, k1 := v1)"
proof -
  obtain p x y where k: "k1 = p @ x" "k2 = p @ y" and p: "length p = common_prefix k1 k2"
    and xy: "x = [] \<or> y = [] \<or> hd x \<noteq> hd y"
    by (rule common_prefix_cases)
  let ?r = "if length k1 = length p then branch_one (k2 ! length p) (Leaf (key_from (length p + 1) k2) v2) v1
         else if length k2 = length p then branch_one (k1 ! length p) (Leaf (key_from (length p + 1) k1) v1) v2
         else branch_two (k1 ! length p) (Leaf (key_from (length p + 1) k1) v1) (k2 ! length p) (Leaf (key_from (length p + 1) k2) v2)"
  have "\<exists>ns w. ?r = Val (Branch ns w) \<and> good (Branch ns w) \<and> lookup (Branch ns w) = (\<lambda>_. [])(y := v2, x := v1)"
  proof (cases x)
    case Nil
    then obtain b ys where y: "y = b # ys" using k assms(1) by (cases y) auto
    have kf: "key_from (length p + 1) k2 = ys" using k y assms(5) by (subst key_from_drop) auto
    have b: "b < 16" using k y assms(3) by simp
    let ?ns = "no_nodes[unat b := Some (Leaf ys v2)]"
    have "lookup (Branch ?ns v1) = (lookup (Branch no_nodes v1))(b # ys := v2)"
      using b by (intro branch_update) (simp_all add: nib_unat lookup_leaf)
    then have "lookup (Branch ?ns v1) = (\<lambda>_. [])(y := v2, x := v1)" using Nil y by (auto simp: lookup_no_nodes fun_eq_iff)
    moreover have "good (Branch ?ns v1)"
      using used_update [of "unat b" no_nodes "Some (Leaf ys v2)"] b k y assms
      by (auto simp: nib_unat no_nodes_def dest!: set_update_subset_insert [THEN subsetD])
    moreover have "?r = Val (Branch ?ns v1)" using Nil k y kf b by (simp add: branch_one_val)
    ultimately show ?thesis by blast
  next
    case (Cons a xs)
    have kf1: "key_from (length p + 1) k1 = xs" using k Cons assms(4) by (subst key_from_drop) auto
    have a: "a < 16" using k Cons assms(2) by simp
    let ?ms = "no_nodes[unat a := Some (Leaf xs v1)]"
    show ?thesis
    proof (cases y)
      case Nil
      have "lookup (Branch ?ms v2) = (lookup (Branch no_nodes v2))(a # xs := v1)"
        using a by (intro branch_update) (simp_all add: nib_unat lookup_leaf)
      then have "lookup (Branch ?ms v2) = (\<lambda>_. [])(y := v2, x := v1)" using Nil Cons by (auto simp: lookup_no_nodes fun_eq_iff)
      moreover have "good (Branch ?ms v2)"
        using used_update [of "unat a" no_nodes "Some (Leaf xs v1)"] a k Cons assms
        by (auto simp: nib_unat no_nodes_def dest!: set_update_subset_insert [THEN subsetD])
      moreover have "?r = Val (Branch ?ms v2)" using Nil Cons k kf1 a by (simp add: branch_one_val)
      ultimately show ?thesis by blast
    next
      case y: (Cons b ys)
      have kf2: "key_from (length p + 1) k2 = ys" using k y assms(5) by (subst key_from_drop) auto
      have b: "b < 16" using k y assms(3) by simp
      have ab: "a \<noteq> b" using xy Cons y by simp
      then have u: "unat a \<noteq> unat b" by (simp add: word_unat_eq_iff)
      let ?ns = "?ms[unat b := Some (Leaf ys v2)]"
      have "lookup (Branch ?ns []) = (lookup (Branch ?ms []))(b # ys := v2)"
        using a b u by (intro branch_update) (simp_all add: nib_unat lookup_leaf)
      moreover have "lookup (Branch ?ms []) = (lookup (Branch no_nodes []))(a # xs := v1)"
        using a by (intro branch_update) (simp_all add: nib_unat lookup_leaf)
      ultimately have "lookup (Branch ?ns []) = (\<lambda>_. [])(y := v2, x := v1)"
        using Cons y ab by (auto simp: lookup_no_nodes fun_eq_iff)
      moreover have "good (Branch ?ns [])"
        using used_update [of "unat a" no_nodes "Some (Leaf xs v1)"] used_update [of "unat b" ?ms "Some (Leaf ys v2)"] a b u k Cons y assms
        by (auto simp: nib_unat no_nodes_def dest!: set_update_subset_insert [THEN subsetD])
      moreover have "?r = Val (Branch ?ns [])" using Cons y k kf1 kf2 a b by (simp add: branch_two_val)
      ultimately show ?thesis by blast
    qed
  qed
  then obtain ns w where r: "?r = Val (Branch ns w)" "good (Branch ns w)" "lookup (Branch ns w) = (\<lambda>_. [])(y := v2, x := v1)"
    by blast
  have "key_upto (length p) k1 = p" using k assms(4) by (simp add: key_upto_take)
  then have n: "new_branch k1 v1 k2 v2 = Val (if p \<noteq> [] then Infix p (Branch ns w) else Branch ns w)"
    unfolding new_branch_def Let_def p [symmetric] r(1) by simp
  show ?thesis
  proof (cases "p = []")
    case True
    then show ?thesis using n r k by simp
  next
    case False
    have "nib p" using assms(2) k by simp
    then show ?thesis using n r False k infix_two [OF r(3), of p] by simp
  qed
qed

text \<open>An inner node whose part of the key disagrees at once becomes a branch.\<close>

lemma infix_split:
  assumes g: "good (Infix (f # e) n)" and x: "nib x" "length x < npos" "val \<noteq> []" "x = [] \<or> hd x \<noteq> f"
  shows "\<exists>ns w. mem_insert (Infix (f # e) n) x val = Val (Branch ns w) \<and> good (Branch ns w)
    \<and> lookup (Branch ns w) = (lookup (Infix (f # e) n))(x := val)"
proof -
  have f: "f < 16" "nib e" "good n" "is_branch n" using g by simp_all
  define m where "m = (if e = [] then n else Infix e n)"
  define ns where "ns = no_nodes[unat f := Some m]"
  have gm: "good m" using f by (simp add: m_def)
  have "lookup (Branch ns []) = lookup (Infix [f] m)" using infix_one [OF f(1)] by (simp add: ns_def no_nodes_def)
  moreover have "lookup (Infix (f # e) n) = lookup (Infix [f] m)"
    using infix_append [of e "[f]" n] by (cases "e = []") (simp_all add: m_def)
  ultimately have l: "lookup (Branch ns []) = lookup (Infix (f # e) n)" by simp
  have ns: "length ns = 16" "used ns = 1" "\<forall>n. Some n \<in> set ns \<longrightarrow> good n"
  proof -
    have "\<forall>n. Some n \<in> set no_nodes \<longrightarrow> good n" by (simp add: no_nodes_def)
    then show "\<forall>n. Some n \<in> set ns \<longrightarrow> good n"
      unfolding ns_def by (rule children_good_update) (use gm in simp)
    show "length ns = 16" by (simp add: ns_def)
    show "used ns = 1" using used_update [of "unat f" no_nodes "Some m"] f(1) by (simp add: ns_def nib_unat)
  qed
  have c: "\<not> infix_contains (f # e) x" "common_prefix x (f # e) = 0"
    using x(4) by (cases x; simp add: infix_contains_def)+
  have b: "branch_one f m [] = Val (Branch ns [])" using f(1) by (simp add: branch_one_val ns_def)
  have step: "mem_insert (Infix (f # e) n) x val = mem_insert (Branch ns []) x val"
    using x(3) c b by (simp add: trim_front_def m_def)
  show ?thesis
  proof (cases x)
    case Nil
    have "mem_insert (Branch ns []) x val = Val (Branch ns val)" using Nil x(3) by simp
    moreover have "lookup (Branch ns val) = (lookup (Branch ns []))([] := val)"
    proof
      fix l
      show "lookup (Branch ns val) l = ((lookup (Branch ns []))([] := val)) l" by (cases l) simp_all
    qed
    ultimately show ?thesis using ns x(3) step l Nil by simp
  next
    case (Cons a xs)
    have a: "a < 16" "unat a < 16" using x(1) Cons by (simp_all add: nib_unat)
    have "unat a \<noteq> unat f" using x(4) Cons by (simp add: word_unat_eq_iff)
    then have none: "ns ! unat a = None" using a by (simp add: ns_def)
    have k: "key_from 1 x = xs" using x(2) Cons by (simp add: key_from_drop)
    let ?ms = "ns[unat a := Some (Leaf xs val)]"
    have "mem_insert (Branch ns []) x val = Val (Branch ?ms [])"
      using Cons x(3) a ns none k by (simp add: node_at_def node_set_def)
    moreover have "lookup (Branch ?ms []) = (lookup (Branch ns []))(a # xs := val)"
      using a ns none by (intro branch_update) (simp_all add: lookup_leaf)
    moreover have "good (Branch ?ms [])"
      using ns a none x Cons used_update [of "unat a" ns "Some (Leaf xs val)"] children_good_update [of ns "Some (Leaf xs val)" "unat a"]
      by simp
    ultimately show ?thesis using step l Cons by simp
  qed
qed

text \<open>All keys held are short enough for a reference.\<close>

definition short :: "mem_node \<Rightarrow> bool" where
  "short n \<longleftrightarrow> (\<forall>k. lookup n k \<noteq> [] \<longrightarrow> length k < npos)"

lemma short_child: "short (Branch ns v) \<Longrightarrow> i < length ns \<Longrightarrow> i < 256 \<Longrightarrow> ns ! i = Some n \<Longrightarrow> short n"
proof -
  assume a: "short (Branch ns v)" "i < length ns" "i < 256" "ns ! i = Some n"
  have "length k < npos" if "lookup n k \<noteq> []" for k
  proof -
    have "unat (of_nat i :: byte) = i" using a(3) by (simp add: unat_of_nat)
    then have "lookup (Branch ns v) (of_nat i # k) \<noteq> []" using a that by simp
    then have "length ((of_nat i :: byte) # k) < npos" using a(1) unfolding short_def by blast
    then show ?thesis by simp
  qed
  then show "short n" by (simp add: short_def)
qed

lemma short_next: "short (Infix e n) \<Longrightarrow> short n"
proof -
  assume a: "short (Infix e n)"
  have "length k < npos" if "lookup n k \<noteq> []" for k
  proof -
    have "lookup (Infix e n) (e @ k) \<noteq> []" using that by simp
    then have "length (e @ k) < npos" using a unfolding short_def by blast
    then show ?thesis by simp
  qed
  then show "short n" by (simp add: short_def)
qed

lemma short_update: "short n \<Longrightarrow> lookup n' = (lookup n)(k := v) \<Longrightarrow> length k < npos \<Longrightarrow> short n'"
  by (simp add: short_def)

lemma short_remove: "short n \<Longrightarrow> lookup n' = (lookup n)(k := []) \<Longrightarrow> short n'"
  by (simp add: short_def)

lemma mem_insert_ok:
  "good n \<Longrightarrow> short n \<Longrightarrow> nib key \<Longrightarrow> length key < npos \<Longrightarrow> val \<noteq> [] \<Longrightarrow>
   \<exists>n'. mem_insert n key val = Val n' \<and> good n' \<and> lookup n' = (lookup n)(key := val) \<and> (is_branch n \<longrightarrow> is_branch n')"
proof (induction n key val rule: mem_insert.induct)
  case (1 ns v key val)
  show ?case
  proof (cases key)
    case Nil
    have "lookup (Branch ns val) = (lookup (Branch ns v))([] := val)"
    proof
      fix l
      show "lookup (Branch ns val) l = ((lookup (Branch ns v))([] := val)) l" by (cases l) simp_all
    qed
    then show ?thesis using 1 Nil by (auto split: if_splits)
  next
    case (Cons x k)
    have len: "length ns = 16" and gs: "\<forall>n. Some n \<in> set ns \<longrightarrow> good n" using 1 by simp_all
    have x: "unat x < 16" using 1 Cons by (simp add: nib_unat)
    have na: "node_at ns x = Val (ns ! unat x)" using x len by (simp add: node_at_def)
    have kf: "key_from 1 key = k" using Cons 1 by (simp add: key_from_drop)
    obtain r where r: "good r" "lookup r = (child_lookup (ns ! unat x))(k := val)"
      and st: "mem_insert (Branch ns v) key val = Val (Branch (ns[unat x := Some r]) v)"
    proof (cases "ns ! unat x")
      case None
      then have "mem_insert (Branch ns v) key val = Val (Branch (ns[unat x := Some (Leaf k val)]) v)"
        using Cons 1 x len na kf by (simp add: node_set_def)
      moreover have "good (Leaf k val)" using 1 Cons by simp
      ultimately show ?thesis using None that [of "Leaf k val"] by (simp add: lookup_leaf)
    next
      case (Some n)
      then have "good n" "short n"
        using gs len x child_good [of ns "unat x" n] short_child [of ns v "unat x" n] 1 by simp_all
      moreover have "nib k" "length k < npos" "val \<noteq> []" "key \<noteq> []" "node_at ns (key ! 0) = Val (Some n)"
        using 1 Cons na Some by simp_all
      ultimately have "\<exists>n'. mem_insert n k val = Val n' \<and> good n' \<and> lookup n' = (lookup n)(k := val)"
        using 1(1) [of "Some n" n] unfolding kf by blast
      then obtain n' where "mem_insert n k val = Val n'" "good n'" "lookup n' = (lookup n)(k := val)" by blast
      moreover from this have "mem_insert (Branch ns v) key val = Val (Branch (ns[unat x := Some n']) v)"
        using Cons 1 x len na kf Some by (simp add: node_set_def)
      ultimately show ?thesis using Some that [of n'] by simp
    qed
    have "lookup (Branch (ns[unat x := Some r]) v) = (lookup (Branch ns v))(x # k := val)"
      using x len r by (intro branch_update) simp_all
    moreover have "good (Branch (ns[unat x := Some r]) v)"
      using 1(2) len x r(1) used_update [of "unat x" ns "Some r"] children_good_update [OF gs, of "Some r" "unat x"]
      by (auto split: if_splits)
    moreover have "is_branch (Branch (ns[unat x := Some r]) v)" by simp
    ultimately show ?thesis using st unfolding Cons by blast
  qed
next
  case (2 e v key val)
  show ?case
  proof (cases "key = e")
    case True
    then show ?thesis using 2 by (simp add: fun_eq_iff)
  next
    case False
    have "lookup (Leaf e v) e \<noteq> []" using 2 by simp
    then have "length e < npos" using 2(2) unfolding short_def by blast
    then show ?thesis using 2 False new_branch_ok [of key e val v] by (auto simp: lookup_leaf fun_eq_iff)
  qed
next
  case (3 e n key val)
  have e: "e \<noteq> []" "nib e" "good n" "is_branch n" using 3 by simp_all
  show ?case
  proof (cases "infix_contains e key")
    case True
    then obtain k where k: "key = e @ k" by (metis append_take_drop_id infix_contains_def)
    have kf: "key_from (length e) key = k" using e k 3 by (simp add: key_from_drop)
    have "short n" "nib k" "length k < npos" "val \<noteq> []" using 3 k short_next [of e n] by simp_all
    then have "\<exists>n'. mem_insert n k val = Val n' \<and> good n' \<and> lookup n' = (lookup n)(k := val) \<and> is_branch n'"
      using 3(1) True e unfolding kf by blast
    then obtain n' where n': "mem_insert n k val = Val n'" "good n'" "lookup n' = (lookup n)(k := val)" "is_branch n'"
      by blast
    then have "mem_insert (Infix e n) key val = Val (Infix e n')" using True kf 3 by simp
    moreover have "good (Infix e n')" using n' e by simp
    moreover have "lookup (Infix e n') = (lookup (Infix e n))(key := val)" unfolding k by (rule infix_update [OF n'(3)])
    moreover have "\<not> is_branch (Infix e n)" by simp
    ultimately show ?thesis by blast
  next
    case False
    obtain p x y where k: "key = p @ x" "e = p @ y" and p: "length p = common_prefix key e"
      and xy: "x = [] \<or> y = [] \<or> hd x \<noteq> hd y"
      by (rule common_prefix_cases)
    have "y \<noteq> []" using False k by (auto simp: infix_contains_def)
    then obtain f ys where y: "y = f # ys" by (cases y) auto
    have "good (Infix (f # ys) n)" "nib x" "length x < npos" "x = [] \<or> hd x \<noteq> f"
      using e k y 3 xy by auto
    then obtain ns w where s: "mem_insert (Infix y n) x val = Val (Branch ns w)" "good (Branch ns w)"
        "lookup (Branch ns w) = (lookup (Infix y n))(x := val)"
      using infix_split [of f ys n x val] 3 y by auto
    show ?thesis
    proof (cases "p = []")
      case True
      then have "mem_insert (Infix e n) key val = Val (Branch ns w)" "lookup (Branch ns w) = (lookup (Infix e n))(key := val)"
        using s k by simp_all
      then show ?thesis using s(2) is_branch_simps(1) by blast
    next
      case pne: False
      have "common_prefix key e = length p" "val \<noteq> []" using p 3 by simp_all
      then have "mem_insert (Infix e n) key val =
          obind (mem_insert (Infix (trim_front (length p) e) n) (key_from (length p) key) val)
            (\<lambda>n'. Val (Infix (key_upto (length p) key) n'))"
        using False pne by (subst mem_insert.simps(3)) (simp add: Let_def del: mem_insert.simps)
      moreover have "key_from (length p) key = x" "key_upto (length p) key = p"
        using pne k 3 by (simp_all add: key_from_drop key_upto_take)
      moreover have "trim_front (length p) e = y" using k by (simp add: trim_front_def)
      ultimately have "mem_insert (Infix e n) key val = Val (Infix p (Branch ns w))" by (simp add: s(1) del: mem_insert.simps)
      moreover have "lookup (Infix p (Branch ns w)) = (lookup (Infix e n))(key := val)"
        using infix_update [OF s(3), of p] infix_append [of y p n] \<open>y \<noteq> []\<close> k by simp
      moreover have "good (Infix p (Branch ns w))" using s(2) pne k e by simp
      moreover have "\<not> is_branch (Infix e n)" by simp
      ultimately show ?thesis by blast
    qed
  qed
qed

subsection \<open>Removal\<close>

lemma active_from_found: "n \<noteq> 255 \<Longrightarrow> active_from i n cs = (if used cs = 0 then n else 16)"
  by (induction cs arbitrary: i) auto

lemma active_from_none: "used cs = 0 \<Longrightarrow> active_from i n cs = n"
  by (induction cs arbitrary: i n) (auto split: if_splits)

lemma small_byte: "i < 16 \<Longrightarrow> (of_nat i :: byte) \<noteq> 255"
  by (simp add: word_unat_eq_iff unat_of_nat)

lemma active_from_one:
  assumes "i + length cs \<le> 16" and "used cs = 1"
  shows "\<exists>j<length cs. cs ! j \<noteq> None \<and> active_from i 255 cs = of_nat (i + j) \<and> (\<forall>k<length cs. k \<noteq> j \<longrightarrow> cs ! k = None)"
  using assms
proof (induction cs arbitrary: i)
  case (Cons c cs)
  show ?case
  proof (cases "c = None")
    case True
    then obtain j where "j < length cs" "cs ! j \<noteq> None" "active_from (i + 1) 255 cs = of_nat (i + 1 + j)"
        "\<forall>k<length cs. k \<noteq> j \<longrightarrow> cs ! k = None"
      using Cons.IH [of "i + 1"] Cons.prems by auto
    then show ?thesis using True by (intro exI [of _ "Suc j"]) (auto simp: less_Suc_eq_0_disj)
  next
    case False
    then have z: "used cs = 0" using Cons.prems by (auto split: if_splits)
    then have "\<forall>k<length cs. cs ! k = None" by (auto simp: used_def filter_empty_conv)
    then show ?thesis using False Cons.prems z
      by (intro exI [of _ 0]) (auto simp: less_Suc_eq_0_disj active_from_none)
  qed
qed simp

lemma active_from_more: "i + length cs \<le> 16 \<Longrightarrow> 2 \<le> used cs \<Longrightarrow> active_from i 255 cs = 16"
proof (induction cs arbitrary: i)
  case (Cons c cs)
  then show ?case using small_byte [of i] by (cases "c = None") (simp_all add: active_from_found)
qed simp

lemma rejig_ok:
  assumes len: "length ns = 16" and gs: "\<forall>n. Some n \<in> set ns \<longrightarrow> good n" and one: "1 \<le> used ns + (if v = [] then 0 else 1)"
  shows "\<exists>n. rejig ns v = Val n \<and> good n \<and> lookup n = lookup (Branch ns v)"
proof -
  consider (none) "used ns = 0" | (one) "used ns = 1" | (more) "2 \<le> used ns" by linarith
  then show ?thesis
  proof cases
    case none
    then have v: "v \<noteq> []" and n: "\<forall>k<16. ns ! k = None" using one len by (auto simp: used_def filter_empty_conv split: if_splits)
    have "lookup (Leaf [] v) = lookup (Branch ns v)"
    proof
      fix l
      show "lookup (Leaf [] v) l = lookup (Branch ns v) l" using n len by (cases l) simp_all
    qed
    then show ?thesis using v none by (simp add: rejig_def active_branch_def active_from_none)
  next
    case one
    obtain j where j: "j < 16" "ns ! j \<noteq> None" "active_branch ns = of_nat j" "\<forall>k<16. k \<noteq> j \<longrightarrow> ns ! k = None"
      using active_from_one [of 0 ns] one len by (auto simp: active_branch_def)
    then obtain c where c: "ns ! j = Some c" by auto
    have gc: "good c" using child_good [OF gs _ c] j len by simp
    let ?x = "of_nat j :: byte"
    have x: "unat ?x = j" "?x \<noteq> 255" "?x < 16" using j(1) small_byte [of j] by (simp_all add: unat_of_nat nib_unat)
    show ?thesis
    proof (cases "v = []")
      case False
      then show ?thesis using len gs one x j by (simp add: rejig_def)
    next
      case True
      have l: "lookup (Branch ns v) = lookup (Infix [?x] c)"
      proof
        fix l
        show "lookup (Branch ns v) l = lookup (Infix [?x] c) l"
          using j(1,4) c x(1) True len by (cases l) (auto simp: word_unat_eq_iff)
      qed
      show ?thesis
      proof (cases c)
        case (Branch ms w)
        then show ?thesis using True j c x gc l by (simp add: rejig_def del: lookup.simps)
      next
        case (Leaf e w)
        have "lookup (Leaf (?x # e) w) = lookup (Infix [?x] (Leaf e w))"
        proof
          fix k
          show "lookup (Leaf (?x # e) w) k = lookup (Infix [?x] (Leaf e w)) k" by (cases k) auto
        qed
        then show ?thesis using True j c x gc l Leaf by (simp add: rejig_def push_front_def del: lookup.simps)
      next
        case (Infix e m)
        have "lookup (Infix (?x # e) m) = lookup (Infix [?x] (Infix e m))"
          using infix_append [of e "[?x]" m] gc Infix by simp
        then show ?thesis using True j c x gc l Infix by (simp add: rejig_def push_front_def del: lookup.simps)
      qed
    qed
  next
    case more
    then show ?thesis using active_from_more [of 0 ns] len gs by (simp add: rejig_def active_branch_def)
  qed
qed

lemma lookup_unchanged: "lookup n k = [] \<Longrightarrow> lookup n = (lookup n)(k := [])"
  by auto

lemma mem_remove_ok:
  "good n \<Longrightarrow> nib key \<Longrightarrow> length key < npos \<Longrightarrow>
   \<exists>r. mem_remove n key = Val r \<and> (\<forall>n'. r = Some n' \<longrightarrow> good n') \<and> (r = None \<longrightarrow> \<not> is_branch n)
     \<and> child_lookup r = (lookup n)(key := [])"
proof (induction n key rule: mem_remove.induct)
  case (1 ns v key)
  have len: "length ns = 16" and gs: "\<forall>n. Some n \<in> set ns \<longrightarrow> good n" and two: "2 \<le> used ns + (if v = [] then 0 else 1)"
    using 1 by simp_all
  show ?case
  proof (cases key)
    case Nil
    show ?thesis
    proof (cases "v = []")
      case True
      have "child_lookup (Some (Branch ns v)) = (lookup (Branch ns v))(key := [])"
        using True Nil lookup_unchanged [of "Branch ns v" "[]"] by simp
      moreover have "mem_remove (Branch ns v) key = Val (Some (Branch ns v))" using True Nil by simp
      ultimately show ?thesis using 1(2) by blast
    next
      case False
      obtain n where n: "rejig ns [] = Val n" "good n" "lookup n = lookup (Branch ns [])"
        using rejig_ok [OF len gs, of "[]"] two False by auto
      have "lookup (Branch ns []) = (lookup (Branch ns v))([] := [])"
      proof
        fix l
        show "lookup (Branch ns []) l = ((lookup (Branch ns v))([] := [])) l" by (cases l) simp_all
      qed
      then have "child_lookup (Some n) = (lookup (Branch ns v))(key := [])" using n(3) Nil by simp
      moreover have "mem_remove (Branch ns v) key = Val (Some n)" using False Nil n(1) by simp
      ultimately show ?thesis using n(2) by blast
    qed
  next
    case (Cons x k)
    have x: "unat x < 16" using 1 Cons by (simp add: nib_unat)
    have na: "node_at ns (key ! 0) = Val (ns ! unat x)" using x len Cons by (simp add: node_at_def)
    have kf: "key_from 1 key = k" using Cons 1 by (simp add: key_from_drop)
    show ?thesis
    proof (cases "ns ! unat x")
      case None
      have "child_lookup (Some (Branch ns v)) = (lookup (Branch ns v))(key := [])"
        using None Cons lookup_unchanged [of "Branch ns v" key] by simp
      moreover have "mem_remove (Branch ns v) key = Val (Some (Branch ns v))" using na Cons None by simp
      ultimately show ?thesis using 1(2) by blast
    next
      case (Some n)
      have "good n" using child_good [OF gs _ Some] x len by simp
      moreover have "nib k" "length k < npos" "key \<noteq> []" using 1 Cons by simp_all
      ultimately have "\<exists>r. mem_remove n k = Val r \<and> (\<forall>n'. r = Some n' \<longrightarrow> good n') \<and> child_lookup r = (lookup n)(k := [])"
        using 1(1) [of "Some n" n] na unfolding kf Some by blast
      then obtain r where r: "mem_remove n k = Val r" "\<And>n'. r = Some n' \<Longrightarrow> good n'" "child_lookup r = (lookup n)(k := [])"
        by blast
      let ?ns = "ns[unat x := r]"
      have u: "1 \<le> used ?ns + (if v = [] then 0 else 1)"
        using two used_update [of "unat x" ns r] x len Some by (auto split: if_splits)
      have gs': "\<forall>n. Some n \<in> set ?ns \<longrightarrow> good n" by (rule children_good_update [OF gs r(2)])
      obtain m where m: "rejig ?ns v = Val m" "good m" "lookup m = lookup (Branch ?ns v)"
        using rejig_ok [OF _ gs' u] len by auto
      have "lookup (Branch ?ns v) = (lookup (Branch ns v))(x # k := [])"
        using x len r(3) Some by (intro branch_update) simp_all
      then have "child_lookup (Some m) = (lookup (Branch ns v))(key := [])" using m(3) Cons by simp
      moreover have "node_set ns (key ! 0) r = Val ?ns" using x len Cons by (simp add: node_set_def)
      then have "mem_remove (Branch ns v) key = Val (Some m)"
        using na Some kf r(1) m(1) Cons by (simp del: mem_remove.simps(2,3))
      ultimately show ?thesis using m(2) by blast
    qed
  qed
next
  case (2 e v key)
  show ?case
  proof (cases "key = e")
    case True
    have "child_lookup None = (lookup (Leaf e v))(key := [])" using True by (simp add: lookup_leaf fun_eq_iff)
    moreover have "mem_remove (Leaf e v) key = Val None" using True by simp
    ultimately show ?thesis using is_branch_simps(2) by blast
  next
    case False
    then have "child_lookup (Some (Leaf e v)) = (lookup (Leaf e v))(key := [])"
      using lookup_unchanged [of "Leaf e v" key] by simp
    moreover have "mem_remove (Leaf e v) key = Val (Some (Leaf e v))" using False by simp
    ultimately show ?thesis using 2 by blast
  qed
next
  case (3 e n key)
  have e: "e \<noteq> []" "nib e" "good n" "is_branch n" using 3 by simp_all
  show ?case
  proof (cases "infix_contains e key")
    case False
    then have "lookup (Infix e n) key = []" by (auto simp: infix_contains_def)
    then have "child_lookup (Some (Infix e n)) = (lookup (Infix e n))(key := [])"
      using lookup_unchanged [of "Infix e n" key] by simp
    moreover have "mem_remove (Infix e n) key = Val (Some (Infix e n))" using False by simp
    ultimately show ?thesis using 3(2) by blast
  next
    case True
    then obtain k where k: "key = e @ k" by (metis append_take_drop_id infix_contains_def)
    have kf: "key_from (length e) key = k" using e k 3 by (simp add: key_from_drop)
    have "nib k" "length k < npos" using 3 k by simp_all
    then have "\<exists>r. mem_remove n k = Val r \<and> (\<forall>n'. r = Some n' \<longrightarrow> good n') \<and> (r = None \<longrightarrow> \<not> is_branch n)
        \<and> child_lookup r = (lookup n)(k := [])"
      using 3(1) True e unfolding kf by blast
    then obtain m where m: "mem_remove n k = Val (Some m)" "good m" "lookup m = (lookup n)(k := [])"
      using e by auto
    have l: "lookup (Infix e m) = (lookup (Infix e n))(key := [])" unfolding k by (rule infix_update [OF m(3)])
    have st: "mem_remove (Infix e n) key = Val (case m of Leaf e' w \<Rightarrow> Some (Leaf (e @ e') w)
        | Infix e' m' \<Rightarrow> Some (Infix (e @ e') m') | Branch ms w \<Rightarrow> Some (Infix e (Branch ms w)))"
      using True kf m(1) by (cases m) (simp_all del: mem_remove.simps(1,2))
    have "\<exists>r. mem_remove (Infix e n) key = Val (Some r) \<and> good r \<and> lookup r = lookup (Infix e m)"
    proof (cases m)
      case (Branch ms w)
      then show ?thesis using st m(2) e by simp
    next
      case (Leaf e' w)
      have "lookup (Leaf (e @ e') w) = lookup (Infix e (Leaf e' w))"
      proof
        fix q
        show "lookup (Leaf (e @ e') w) q = lookup (Infix e (Leaf e' w)) q" using drop_eq_iff [of e q e'] by auto
      qed
      then show ?thesis using st m(2) e Leaf by simp
    next
      case (Infix e' m')
      then have "lookup (Infix (e @ e') m') = lookup (Infix e (Infix e' m'))" using m(2) by (intro infix_append) simp
      then show ?thesis using st m(2) e Infix by simp
    qed
    then obtain r where r: "mem_remove (Infix e n) key = Val (Some r)" "good r" "lookup r = lookup (Infix e m)" by blast
    then have "child_lookup (Some r) = (lookup (Infix e n))(key := [])" using l by simp
    then show ?thesis using r by blast
  qed
qed

subsection \<open>The trie is a map\<close>

definition ascii_key :: "byte list \<Rightarrow> bool" where
  "ascii_key k \<longleftrightarrow> list_all (\<lambda>c. c < 128) k \<and> 2 * length k < npos"

definition trie_ok :: "mem_trie \<Rightarrow> bool" where
  "trie_ok t \<longleftrightarrow> (\<forall>r. t = Some r \<longrightarrow> good r)
     \<and> (\<forall>l. child_lookup t l \<noteq> [] \<longrightarrow> (\<exists>k. ascii_key k \<and> l = nibbles k))"

definition trie_holds :: "mem_trie \<Rightarrow> byte list \<Rightarrow> byte list" where
  "trie_holds t k = child_lookup t (nibbles k)"

lemma length_nibbles [simp]: "length (nibbles s) = 2 * length s"
  by (induction s) (simp_all add: nibbles_def)

lemma nib_nibbles [simp]: "nib (nibbles s)"
  using nibbles_less by (auto simp: nib_def list_all_iff)

lemma nibbles_inj: "nibbles s = nibbles t \<Longrightarrow> s = t"
proof (induction s arbitrary: t)
  case Nil
  then show ?case by (cases t) (simp_all add: nibbles_def)
next
  case (Cons c s)
  then obtain d u where t: "t = d # u" by (cases t) (simp_all add: nibbles_def)
  have "(of_nat (unat c div 16) :: byte) = of_nat (unat d div 16)" "(of_nat (unat c mod 16) :: byte) = of_nat (unat d mod 16)"
    "nibbles s = nibbles u" using Cons.prems t by (simp_all add: nibbles_def)
  moreover have "unat e div 16 < 256" "unat e mod 16 < 256" for e :: byte
    using unat_byte_less [of e] div_le_dividend [of "unat e" 16] by (linarith, simp)
  ultimately have "unat c div 16 = unat d div 16" "unat c mod 16 = unat d mod 16"
    by (metis mod_less unat_byte)+
  then have "unat c = unat d" by (metis div_mult_mod_eq)
  then show ?case using t Cons.IH [OF \<open>nibbles s = nibbles u\<close>] by (simp add: word_unat_eq_iff)
qed

lemma ascii_to_hex: "ascii_key k \<Longrightarrow> to_hex k = nibbles k \<and> length (nibbles k) < npos"
  by (simp add: ascii_key_def to_hex_ascii)

lemma trie_ok_root: "trie_ok (Some r) \<Longrightarrow> good r \<and> short r"
  using ascii_to_hex by (fastforce simp: trie_ok_def short_def)

lemma trie_ok_update:
  assumes "trie_ok t" and "\<And>r. t' = Some r \<Longrightarrow> good r" and "child_lookup t' = (child_lookup t)(nibbles k := v)" and "ascii_key k"
  shows "trie_ok t'"
  using assms by (auto simp: trie_ok_def)

lemma trie_at_holds: "trie_ok t \<Longrightarrow> ascii_key k \<Longrightarrow> trie_at k t = Val (trie_holds t k)"
  using ascii_to_hex [of k] by (cases t) (auto simp: trie_at_def trie_holds_def mem_at_lookup dest: trie_ok_root)

lemma trie_holds_update:
  assumes "child_lookup t' = (child_lookup t)(nibbles k := v)"
  shows "trie_holds t' l = ((trie_holds t)(k := v)) l"
  using nibbles_inj [of l k] by (auto simp: trie_holds_def assms)

lemma trie_insert_ok:
  assumes t: "trie_ok t" and k: "ascii_key k" and v: "v \<noteq> []"
  shows "\<exists>t'. trie_insert k v t = Val t' \<and> trie_ok t' \<and> child_lookup t' = (child_lookup t)(nibbles k := v)"
proof (cases t)
  case None
  let ?t = "Some (Leaf (nibbles k) v)"
  have c: "child_lookup ?t = (child_lookup t)(nibbles k := v)" using None by (simp add: lookup_leaf)
  have "trie_ok ?t" by (rule trie_ok_update [OF t _ c k]) (simp add: v)
  with c show ?thesis using None v ascii_to_hex [OF k] by (simp add: trie_insert_def)
next
  case (Some r)
  have r: "good r" "short r" using t Some trie_ok_root by simp_all
  have "\<exists>n'. mem_insert r (nibbles k) v = Val n' \<and> good n' \<and> lookup n' = (lookup r)(nibbles k := v)"
    using mem_insert_ok [OF r nib_nibbles _ v, of k] ascii_to_hex [OF k] by blast
  then obtain n' where n': "mem_insert r (nibbles k) v = Val n'" "good n'" "lookup n' = (lookup r)(nibbles k := v)" by blast
  have c: "child_lookup (Some n') = (child_lookup t)(nibbles k := v)" using Some n'(3) by simp
  have "trie_ok (Some n')" by (rule trie_ok_update [OF t _ c k]) (use n'(2) in simp)
  moreover have "trie_insert k v t = Val (Some n')" using Some v n'(1) ascii_to_hex [OF k] by (simp add: trie_insert_def)
  moreover note c
  ultimately show ?thesis by blast
qed

lemma trie_remove_ok:
  assumes t: "trie_ok t" and k: "ascii_key k"
  shows "\<exists>t'. trie_remove k t = Val t' \<and> trie_ok t' \<and> child_lookup t' = (child_lookup t)(nibbles k := [])"
proof (cases t)
  case None
  then show ?thesis by (auto simp: trie_remove_def trie_ok_def)
next
  case (Some r)
  have r: "good r" "short r" using t Some trie_ok_root by simp_all
  have "\<exists>x. mem_remove r (nibbles k) = Val x \<and> (\<forall>n'. x = Some n' \<longrightarrow> good n') \<and> child_lookup x = (lookup r)(nibbles k := [])"
    using mem_remove_ok [OF r(1) nib_nibbles, of k] ascii_to_hex [OF k] by blast
  then obtain x where x: "mem_remove r (nibbles k) = Val x" "\<forall>n'. x = Some n' \<longrightarrow> good n'" "child_lookup x = (lookup r)(nibbles k := [])"
    by blast
  have c: "child_lookup x = (child_lookup t)(nibbles k := [])" using Some x(3) by simp
  have "trie_ok x" by (rule trie_ok_update [OF t _ c k]) (use x(2) in simp)
  moreover have "trie_remove k t = Val x" using Some x(1) ascii_to_hex [OF k] by (simp add: trie_remove_def)
  moreover note c
  ultimately show ?thesis by blast
qed

interpretation mt: byte_map trie_ok ascii_key trie_holds trie_at trie_insert trie_remove
proof
  fix t :: mem_trie and k v :: "byte list"
  assume a: "trie_ok t" "ascii_key k"
  show "trie_at k t = Val (trie_holds t k)" by (rule trie_at_holds [OF a])
  show "\<exists>m'. trie_remove k t = Val m' \<and> trie_ok m' \<and> (\<forall>l. ascii_key l \<longrightarrow> trie_holds m' l = ((trie_holds t)(k := [])) l)"
    using trie_remove_ok [OF a] trie_holds_update by metis
  assume "v \<noteq> []"
  then show "\<exists>m'. trie_insert k v t = Val m' \<and> trie_ok m' \<and> (\<forall>l. ascii_key l \<longrightarrow> trie_holds m' l = ((trie_holds t)(k := v)) l)"
    using trie_insert_ok [OF a] trie_holds_update by metis
qed

section \<open>Theorems\<close>

text \<open>
  C6: The trie implements a map from strings to strings: after any history of insertions of non-empty
  values and of removals, with keys of ASCII characters, every lookup returns the last value inserted
  under its key, or the empty string, and no operation fails.
\<close>

theorem mem_trie_is_map:
  assumes "list_all (\<lambda>x. ascii_key (op_key x) \<and> op_filled x) ops"
  shows "\<exists>t. run_ops trie_insert trie_remove ops None = Val t
    \<and> (\<forall>k. ascii_key k \<longrightarrow> trie_at k t = Val (map_ops ops (\<lambda>_. []) k))"
proof -
  have "trie_ok None" by (simp add: trie_ok_def)
  moreover have "trie_holds None = (\<lambda>_. [])" by (simp add: trie_holds_def fun_eq_iff)
  ultimately show ?thesis using mt.run_get [of None ops] assms by auto
qed

theorem mem_trie_is_map_witness:
  "\<exists>t. run_ops trie_insert trie_remove [Put [0x61] [1], Put [0x61, 0x62] [2], Put [0x62] [3], Del [0x61]] None = Val t
    \<and> trie_at [0x61, 0x62] t = Val [2] \<and> trie_at [0x61] t = Val []"
proof -
  let ?ops = "[Put [0x61] [1], Put [0x61, 0x62] [2], Put [0x62] [3], Del [0x61]]"
  have "list_all (\<lambda>x. ascii_key (op_key x) \<and> op_filled x) ?ops"
    by (simp add: ascii_key_def npos_def byte_order)
  then obtain t where t: "run_ops trie_insert trie_remove ?ops None = Val t"
      "\<forall>k. ascii_key k \<longrightarrow> trie_at k t = Val (map_ops ?ops (\<lambda>_. []) k)"
    using mem_trie_is_map by blast
  have "ascii_key [0x61, 0x62]" "ascii_key [0x61]" by (simp_all add: ascii_key_def npos_def byte_order)
  then have "trie_at [0x61, 0x62] t = Val (map_ops ?ops (\<lambda>_. []) [0x61, 0x62])" "trie_at [0x61] t = Val (map_ops ?ops (\<lambda>_. []) [0x61])"
    using t(2) by blast+
  then show ?thesis using t(1) by (intro exI [of _ t]) simp
qed

lemma mem_insert_nothing: "mem_insert n k [] = Fault AssertFailed"
  by (cases n) simp_all

text \<open>
  \<open>insert\<close> of an empty value removes the key and then goes on: in a trie that still holds
  something it runs into the assertion on the value, in an empty one it leaves a leaf without a value.
\<close>

theorem mem_trie_insert_nothing:
  assumes "trie_ok t" and "ascii_key k"
  shows "\<exists>t'. trie_remove k t = Val t' \<and>
    trie_insert k [] t = (case t' of None \<Rightarrow> Val (Some (Leaf (to_hex k) [])) | Some _ \<Rightarrow> Fault AssertFailed)"
  using trie_remove_ok [OF assms] by (auto simp: trie_insert_def mem_insert_nothing split: option.split)

theorem mem_trie_insert_nothing_witness:
  "trie_insert [0x61] [] None = Val (Some (Leaf [6, 1] [])) \<and> trie_insert [0x61] [] (Some (Leaf [6, 2] [7])) = Fault AssertFailed"
proof -
  have k: "ascii_key [0x61]" "to_hex [0x61] = [6, 1]" by (simp add: ascii_key_def npos_def byte_order) code_simp
  have b: "ascii_key [0x62]" "nibbles [0x62] = [6, 2]" by (simp add: ascii_key_def npos_def byte_order) code_simp
  have "\<exists>k. ascii_key k \<and> [6, 2] = nibbles k" using b by metis
  then have ok: "trie_ok None" "trie_ok (Some (Leaf [6, 2] [7]))"
    by (auto simp: trie_ok_def byte_order split: if_splits)
  have r: "trie_remove [0x61] None = Val None" "trie_remove [0x61] (Some (Leaf [6, 2] [7])) = Val (Some (Leaf [6, 2] [7]))"
    by (simp_all add: trie_remove_def k)
  show ?thesis
    using mem_trie_insert_nothing [OF ok(1) k(1)] mem_trie_insert_nothing [OF ok(2) k(1)] r k(2) by auto
qed

lemma sint_high: "128 \<le> (c::byte) \<Longrightarrow> sint c = int (unat c) - 256"
proof -
  assume "128 \<le> c"
  then have "128 \<le> unat c" by (simp add: byte_order)
  moreover have "signed_take_bit 7 (int n) = int n - 256" if "128 \<le> n" "n < 256" for n
  proof -
    have "signed_take_bit 7 (int n) = take_bit 8 (int n + 128) - 128"
      using signed_take_bit_eq_take_bit_shift [of 7 "int n"] by simp
    moreover have "((int n - 128) + 256) mod 256 = (int n - 128) mod 256" by (rule mod_add_self2)
    then have "(int n + 128) mod 256 = int n - 128" using that by (simp add: mod_pos_pos_trivial add.commute)
    then have "take_bit 8 (int n + 128) = int n + 128 - 256" by (simp add: take_bit_eq_mod)
    ultimately show ?thesis by simp
  qed
  ultimately show ?thesis using unat_byte_less [of c] by (simp add: sint_uint uint_nat del: of_nat_unat)
qed

lemma high_nibble: "128 \<le> c \<Longrightarrow> c \<le> 240 \<Longrightarrow> 16 \<le> unat (of_int (signed_divide (sint (c::byte)) 16) :: byte)"
proof -
  assume c: "128 \<le> c" "c \<le> 240"
  define q where "q = (256 - unat c) div 16"
  have u: "128 \<le> unat c" "unat c \<le> 240" using c by (simp_all add: byte_order)
  then have q: "1 \<le> q" "q \<le> 8" by (simp_all add: q_def)
  have "signed_divide (sint c) 16 = - int q"
    using u by (simp add: sint_high [OF c(1)] signed_divide_int_def q_def sgn_if zdiv_int of_nat_diff del: of_nat_unat)
  moreover have "(of_int (- int q) :: byte) = of_nat (256 - q)" using q by (simp add: of_nat_diff)
  moreover have "16 \<le> unat (of_nat (256 - q) :: byte)" using q by (simp only: unat_byte) simp
  ultimately show ?thesis by (simp only:)
qed

text \<open>
  C33: The nibbles of a key are computed from signed characters. With a byte from 128 to 240 at the
  beginning of the key every operation on a trie whose root is a branch indexes the array of children
  outside of its bounds.
\<close>

theorem mem_trie_high_key_undefined:
  assumes "length ns = 16" and "128 \<le> c" and "c \<le> 240" and "val \<noteq> []"
  shows "trie_at (c # k) (Some (Branch ns v)) = Fault UndefinedBehaviour \<and>
    trie_insert (c # k) val (Some (Branch ns v)) = Fault UndefinedBehaviour \<and>
    trie_remove (c # k) (Some (Branch ns v)) = Fault UndefinedBehaviour"
proof -
  let ?x = "of_int (signed_divide (sint c) 16) :: byte"
  obtain h where h: "to_hex (c # k) = ?x # h" by (simp add: to_hex_def)
  have "node_at ns ?x = Fault UndefinedBehaviour" using high_nibble [OF assms(2,3)] assms(1) by (simp add: node_at_def)
  then show ?thesis using assms(4) by (simp add: trie_at_def trie_insert_def trie_remove_def h)
qed

theorem mem_trie_high_key_undefined_witness:
  "trie_at [0x90] (Some (Branch no_nodes [1])) = Fault UndefinedBehaviour"
  using mem_trie_high_key_undefined [of no_nodes "0x90" "[1]" "[]" "[1]"] by (simp add: byte_order)

end
