(* ===== verification/OrdMap.thy ===== *)
theory OrdMap
  imports Main
begin

section \<open>Ordered maps\<close>

text \<open>
  A \<open>std::map\<close> as the list of its entries in ascending order of the keys: \<open>operator[]\<close> and \<open>insert\<close>
  of a new key (\<open>map_put\<close>), \<open>erase\<close> (\<open>map_drop\<close>), and \<open>find\<close>, which is \<open>map_of\<close>. The order is the
  one in which the code iterates.
\<close>

fun map_put :: "'k::linorder \<Rightarrow> 'v \<Rightarrow> ('k \<times> 'v) list \<Rightarrow> ('k \<times> 'v) list" where
  "map_put k v [] = [(k, v)]"
| "map_put k v ((l, w) # es) =
     (if k = l then (k, v) # es else if k < l then (k, v) # (l, w) # es else (l, w) # map_put k v es)"

definition map_drop :: "'k::linorder \<Rightarrow> ('k \<times> 'v) list \<Rightarrow> ('k \<times> 'v) list" where
  "map_drop k es = filter (\<lambda>e. fst e \<noteq> k) es"

definition ascending :: "('k::linorder \<times> 'v) list \<Rightarrow> bool" where
  "ascending es \<longleftrightarrow> sorted_wrt (<) (map fst es)"

lemma ascending_simps [simp]:
  "ascending []" "ascending (e # es) \<longleftrightarrow> (\<forall>e'\<in>set es. fst e < fst e') \<and> ascending es"
  by (auto simp: ascending_def)

lemma ascending_filter [simp]: "ascending es \<Longrightarrow> ascending (filter P es)"
  by (induction es) simp_all

lemma ascending_distinct: "ascending es \<Longrightarrow> distinct (map fst es)"
  by (induction es) auto

lemma map_put_set: "ascending es \<Longrightarrow> set (map_put k v es) = insert (k, v) {e \<in> set es. fst e \<noteq> k}"
  by (induction k v es rule: map_put.induct) auto

lemma map_put_ascending [simp]: "ascending es \<Longrightarrow> ascending (map_put k v es)"
proof (induction k v es rule: map_put.induct)
  case (2 k v l w es)
  then show ?case using map_put_set [of es k v] by (auto dest: order.strict_trans)
qed simp

lemma map_drop_ascending [simp]: "ascending es \<Longrightarrow> ascending (map_drop k es)"
  by (simp add: map_drop_def)

lemma map_of_put [simp]: "map_of (map_put k v es) = (map_of es)(k \<mapsto> v)"
  by (induction k v es rule: map_put.induct) (auto simp: fun_eq_iff)

lemma map_of_drop [simp]: "map_of (map_drop k es) = (map_of es)(k := None)"
  by (induction es) (auto simp: map_drop_def fun_eq_iff)

lemma length_map_put:
  "ascending es \<Longrightarrow> length (map_put k v es) = length es + (if map_of es k = None then 1 else 0)"
proof (induction k v es rule: map_put.induct)
  case (2 k v l w es)
  then show ?case by (auto simp: map_of_eq_None_iff)
qed simp

lemma length_map_drop:
  "ascending es \<Longrightarrow> length es = length (map_drop k es) + (if map_of es k = None then 0 else 1)"
proof (induction es)
  case (Cons e es)
  show ?case
  proof (cases "k = fst e")
    case True
    then have "map_drop k (e # es) = es" using Cons.prems by (auto simp: map_drop_def filter_id_conv)
    then show ?thesis using True by (cases e) simp
  next
    case False
    then show ?thesis using Cons by (cases e) (simp add: map_drop_def)
  qed
qed (simp add: map_drop_def)

end
