(* ===== verification/TrieHash.thy ===== *)
theory TrieHash
  imports MemTrieProps OrdMap "HOL-Library.List_Lexorder"
begin

section \<open>The hash of a map\<close>

text \<open>
  \<open>server/ethereum/libethereum/TrieHash.cpp\<close>: the hash of the trie of a map, computed from the sorted map
  without building the trie. A \<open>std::map\<close> is an ordered map of \<open>OrdMap\<close>; a range of iterators is the
  part of its list. Keys have fewer than \<open>2\<^sup>3\<^sup>1\<close> nibbles, so that the casts to \<open>unsigned\<close> and \<open>int\<close> are exact.
\<close>

type_synonym entries = "(byte list \<times> byte list) list"

subsection \<open>Ordered maps\<close>

text \<open>\<open>for (i = _s.rbegin(); ...) hexMap[toHex(i->first)] = i->second\<close>\<close>

definition hex_map :: "entries \<Rightarrow> entries" where
  "hex_map s = foldl (\<lambda>m (k, v). map_put (to_hex k) v m) [] (rev s)"

subsection \<open>The common part of the keys\<close>

function shared_from :: "byte list \<Rightarrow> byte list \<Rightarrow> nat \<Rightarrow> nat \<Rightarrow> nat" where
  "shared_from a b x s = (if s < x \<and> a ! s = b ! s then shared_from a b x (s + 1) else s)"
  by pat_completeness auto
termination by (relation "measure (\<lambda>(a, b, x, s). x - s)") auto

declare shared_from.simps [simp del]

fun shared_loop :: "byte list \<Rightarrow> nat \<Rightarrow> entries \<Rightarrow> nat \<Rightarrow> nat" where
  "shared_loop first pre [] sp = sp"
| "shared_loop first pre ((k, v) # es) sp =
     (if sp = 0 then 0
      else (let x = min sp (min (length first) (length k)); s = shared_from first k x pre
            in shared_loop first pre es (min s sp)))"

definition shared_pre :: "entries \<Rightarrow> nat \<Rightarrow> nat" where
  "shared_pre es pre = shared_loop (fst (hd es)) pre (tl es) npos"

subsection \<open>The sixteen ranges below a branch\<close>

text \<open>
  The entries whose nibble at \<open>pre\<close> is \<open>i\<close>, from the beginning of the range; the nibble of a key that
  ends at \<open>pre\<close> is read past its end.
\<close>

fun nibble_group :: "nat \<Rightarrow> nat \<Rightarrow> entries \<Rightarrow> (entries \<times> entries) eth" where
  "nibble_group pre i [] = Val ([], [])"
| "nibble_group pre i ((k, v) # es) =
     (if length k \<le> pre then Fault UndefinedBehaviour
      else if unat (k ! pre) = i then obind (nibble_group pre i es) (\<lambda>(g, r). Val ((k, v) # g, r))
      else Val ([], (k, v) # es))"

fun nibble_groups :: "nat \<Rightarrow> nat list \<Rightarrow> entries \<Rightarrow> entries list eth" where
  "nibble_groups pre [] b = Val []"
| "nibble_groups pre (i # is) b = obind (nibble_group pre i b) (\<lambda>(g, r). obind (nibble_groups pre is r) (\<lambda>gs. Val (g # gs)))"

lemma group_split:
  "nibble_group pre i b = Val (g, r) \<Longrightarrow> b = g @ r \<and> (\<forall>e\<in>set g. pre < length (fst e) \<and> unat (fst e ! pre) = i)"
proof (induction pre i b arbitrary: g r rule: nibble_group.induct)
  case (2 pre i k v es)
  then show ?case by (fastforce simp: obind_eq_Val split: if_splits)
qed simp

lemma groups_split: "nibble_groups pre is b = Val gs \<Longrightarrow> \<exists>r. b = concat gs @ r \<and> (\<forall>g\<in>set gs. \<forall>e\<in>set g. pre < length (fst e))"
proof (induction pre "is" b arbitrary: gs rule: nibble_groups.induct)
  case (2 pre i "is" b)
  then obtain g r gs' where g: "nibble_group pre i b = Val (g, r)" "nibble_groups pre is r = Val gs'" "gs = g # gs'"
    by (auto simp: obind_eq_Val)
  then obtain r' where "r = concat gs' @ r'" "\<forall>g\<in>set gs'. \<forall>e\<in>set g. pre < length (fst e)"
    using 2(1) [OF g(1) refl g(2)] by auto
  then show ?case using group_split [OF g(1)] g(3) by auto
qed simp

subsection \<open>The hash\<close>

lemma shared_from_le: "shared_from a b x s \<le> max x s"
  by (induction a b x s rule: shared_from.induct) (subst shared_from.simps, auto)

lemma shared_loop_le: "shared_loop first pre es sp \<le> sp"
  by (induction first pre es sp rule: shared_loop.induct) (auto simp: Let_def intro: order_trans)

lemma shared_pre_le:
  assumes "pre < shared_pre (e # e' # es) pre"
  shows "shared_pre (e # e' # es) pre \<le> length (fst e)"
proof -
  obtain k v where e': "e' = (k, v)" by (cases e')
  let ?x = "min npos (min (length (fst e)) (length k))"
  let ?s = "shared_from (fst e) k ?x pre"
  have "shared_pre (e # e' # es) pre = shared_loop (fst e) pre es (min ?s npos)"
    by (simp add: shared_pre_def e' npos_def Let_def)
  also have "\<dots> \<le> min ?s npos" by (rule shared_loop_le)
  finally have "shared_pre (e # e' # es) pre \<le> min ?s npos" .
  then show ?thesis using assms shared_from_le [of "fst e" k ?x pre] by (auto simp: max_def min_def split: if_splits)
qed

definition key_room :: "entries \<Rightarrow> nat \<Rightarrow> nat" where
  "key_room es pre = (\<Sum>e\<leftarrow>es. length (fst e) + 1 - pre)"

lemma key_room_mono: "pre \<le> p \<Longrightarrow> key_room es p \<le> key_room es pre"
  by (induction es) (simp_all add: key_room_def add_mono)

lemma key_room_shared:
  "pre < shared_pre (e # e' # es) pre \<Longrightarrow> key_room (e # e' # es) (shared_pre (e # e' # es) pre) < key_room (e # e' # es) pre"
proof -
  assume p: "pre < shared_pre (e # e' # es) pre"
  let ?p = "shared_pre (e # e' # es) pre"
  have "key_room (e' # es) ?p \<le> key_room (e' # es) pre" using p by (intro key_room_mono) simp
  moreover have "length (fst e) + 1 - ?p < length (fst e) + 1 - pre" using p shared_pre_le [OF p] by simp
  ultimately show ?thesis by (simp add: key_room_def)
qed

lemma key_room_group:
  assumes "nibble_groups pre is b = Val gs" and "g \<in> set gs" and "g \<noteq> []" and es: "es = h @ b"
  shows "key_room g (pre + 1) < key_room es pre"
proof -
  obtain r where b: "b = concat gs @ r" and l: "\<forall>e\<in>set g. pre < length (fst e)" using groups_split [OF assms(1)] assms(2) by auto
  obtain gs1 gs2 where gs: "gs = gs1 @ g # gs2" using assms(2) by (metis split_list)
  have "key_room g (pre + 1) < key_room g pre"
    using assms(3) l
  proof (induction g rule: list_nonempty_induct)
    case (cons e g)
    have "length (fst e) + 1 - (pre + 1) < length (fst e) + 1 - pre" using cons.prems by (simp add: Suc_diff_le)
    then show ?case using cons by (simp add: key_room_def)
  qed (simp add: key_room_def)
  also have "\<dots> \<le> key_room es pre" by (simp add: es b gs key_room_def)
  finally show ?thesis .
qed

function hash_rlp :: "(byte list \<Rightarrow> byte list) \<Rightarrow> entries \<Rightarrow> nat \<Rightarrow> unit rlp_prog" where
  "hash_rlp sha3 [] pre = append_data [] False"
| "hash_rlp sha3 [(k, v)] pre =
     thenp (append_list 2) (thenp (append_data (hex_prefix_encode k True pre (- 1)) False) (append_data v False))"
| "hash_rlp sha3 ((k, v) # e # es) pre =
     (let all = (k, v) # e # es; sp = shared_pre all pre in
      if pre < sp then
        thenp (append_list 2)
          (thenp (append_data (hex_prefix_encode k False pre (int sp)) False) (put_child sha3 (hash_rlp sha3 all sp)))
      else
        thenp (append_list 17)
          (case nibble_groups pre [0..<16] (if pre = length k then e # es else all) of
             Val gs \<Rightarrow>
               thenp (forall_do gs (\<lambda>g. if g = [] then append_data [] False else put_child sha3 (hash_rlp sha3 g (pre + 1))))
                 (append_data (if pre = length k then v else []) False)
           | Exc x \<Rightarrow> throw x
           | Fault f \<Rightarrow> fault f))"
  by pat_completeness auto
termination
proof (relation "measure (\<lambda>(_, es, pre). key_room es pre)", goal_cases)
  case (2 sha3 k v e es pre all sp)
  then show ?case using key_room_shared [of pre "(k, v)" e es] by simp
next
  case (3 sha3 k v e es pre all sp u gs g)
  have "all = (if pre = length k then [(k, v)] else []) @ (if pre = length k then e # es else all)"
    using 3 by simp
  then have "key_room g (pre + 1) < key_room all pre" using key_room_group [OF 3(4)] 3 by blast
  then show ?case using 3 by simp
qed simp

definition empty_hash :: "byte list" where
  "empty_hash = replicate 32 0"

text \<open>\<open>hash256\<close> and \<open>rlp256\<close> of a map of strings, the entries ascending.\<close>

definition hash256_map :: "(byte list \<Rightarrow> byte list) \<Rightarrow> entries \<Rightarrow> byte list eth" where
  "hash256_map sha3 s =
     (if s = [] then Val empty_hash else obind (streamed (hash_rlp sha3 (hex_map s) 0)) (\<lambda>out. Val (sha3 out)))"

definition rlp256 :: "(byte list \<Rightarrow> byte list) \<Rightarrow> entries \<Rightarrow> byte list eth" where
  "rlp256 sha3 s = (if s = [] then Val [] else streamed (put_child sha3 (hash_rlp sha3 (hex_map s) 0)))"

text \<open>\<open>hash256\<close> of a map of numbers of 256 bits: the keys in 32 bytes, the values as RLP.\<close>

definition hash256_u256 :: "(byte list \<Rightarrow> byte list) \<Rightarrow> (256 word \<times> 256 word) list \<Rightarrow> byte list eth" where
  "hash256_u256 sha3 s =
     (if s = [] then Val empty_hash
      else obind (streamed (hash_rlp sha3
             (hex_map (map (\<lambda>(k, v). (to_big_endian 32 (unat k), enc_int (unat v))) s)) 0)) (\<lambda>out. Val (sha3 out)))"

end
