(* ===== verification/TrieHashProps.thy ===== *)
theory TrieHashProps
  imports TrieHash
begin

section \<open>The two ways to hash a map agree\<close>

text \<open>
  The hash computed from the sorted entries (\<open>TrieHash\<close>) is the hash of the trie in memory (\<open>MemTrie\<close>).
  A range of entries stands for a node (\<open>stands_for\<close>) when it holds, in ascending order and behind a common
  beginning, what the node holds; the two programs then write the same RLP, by induction on the node.
\<close>

subsection \<open>Common beginnings\<close>

lemma append_less_same: "p @ xs < p @ ys \<longleftrightarrow> xs < (ys :: byte list)"
  by (induction p) simp_all

lemma common_prefix_ge: "q \<le> common_prefix xs ys \<longleftrightarrow> q \<le> length xs \<and> q \<le> length ys \<and> take q xs = take q ys"
proof (induction xs ys arbitrary: q rule: common_prefix.induct)
  case (1 x xs y ys)
  then show ?case by (cases q) auto
qed auto

lemma shared_from_eq:
  "s \<le> x \<Longrightarrow> s \<le> common_prefix a b \<Longrightarrow> x \<le> length a \<Longrightarrow> x \<le> length b \<Longrightarrow>
   shared_from a b x s = min x (common_prefix a b)"
proof (induction a b x s rule: shared_from.induct)
  case (1 a b x s)
  show ?case
  proof (cases "s < x \<and> a ! s = b ! s")
    case True
    then have "s \<noteq> common_prefix a b" using common_prefix_stop [of a b] 1 by auto
    then show ?thesis using 1 True by (subst shared_from.simps) simp
  next
    case False
    then have "s = x \<or> common_prefix a b = s"
    proof -
      have "a ! s = b ! s" if "s < common_prefix a b"
        using that common_prefix_take [of a b] by (metis nth_take)
      then show ?thesis using False 1 by auto
    qed
    then show ?thesis using False 1 by (subst shared_from.simps) auto
  qed
qed

lemma shared_loop_ge:
  "\<forall>e\<in>set es. pre \<le> common_prefix first (fst e) \<Longrightarrow>
   q \<le> shared_loop first pre es sp \<longleftrightarrow> q \<le> sp \<and> (\<forall>e\<in>set es. q \<le> common_prefix first (fst e))"
proof (induction first pre es sp rule: shared_loop.induct)
  case (2 first pre k v es sp)
  show ?case
  proof (cases "sp = 0")
    case False
    let ?x = "min sp (min (length first) (length k))"
    have p: "pre \<le> common_prefix first k" using 2 by simp
    then have l: "pre \<le> length first" "pre \<le> length k" using common_prefix_le [of first k] by simp_all
    have "min (shared_from first k ?x pre) sp = min sp (common_prefix first k)"
    proof (cases "pre \<le> ?x")
      case True
      then have "shared_from first k ?x pre = min ?x (common_prefix first k)" using p by (intro shared_from_eq) simp_all
      then show ?thesis using common_prefix_le [of first k] by (simp add: min_def)
    next
      case f: False
      then have "shared_from first k ?x pre = pre" unfolding shared_from.simps [of first k ?x pre] by auto
      moreover have "sp < pre" using f l by linarith
      ultimately show ?thesis using p by simp
    qed
    then show ?thesis using 2 False by (auto simp: Let_def)
  qed auto
qed simp

lemma shared_pre_ge:
  assumes "\<forall>e\<in>set es. pre \<le> common_prefix k (fst e)"
  shows "q \<le> shared_pre ((k, v) # es) pre \<longleftrightarrow> q \<le> npos \<and> (\<forall>e\<in>set es. q \<le> common_prefix k (fst e))"
  using shared_loop_ge [OF assms] by (simp add: shared_pre_def)

subsection \<open>Hex prefixes\<close>

lemma hex_prefix_rest: "hex_prefix_encode v leaf b (- 1) = hex_prefix_encode v leaf b (int (length v))"
  by (simp add: hex_prefix_encode_def Let_def)

lemma hex_prefix_slice:
  "hex_prefix_encode (p @ e @ l) leaf (length p) (int (length p + length e)) = hex_prefix_encode e leaf 0 (int (length e))"
proof -
  have n: "\<not> int (length p + length e) < 0" "nat (int (length p + length e)) = length p + length e"
    "\<not> int (length e) < 0" "nat (int (length e)) = length e" by simp_all
  have o: "(int (length p + length e) - int (length p)) mod 2 \<noteq> 0 \<longleftrightarrow> odd (length e)"
    "(int (length e) - int 0) mod 2 \<noteq> 0 \<longleftrightarrow> odd (length e)"
    by (simp_all add: odd_iff_mod_2_eq_one [symmetric] even_iff_mod_2_eq_zero [symmetric])
  show ?thesis
  proof (cases "odd (length e)")
    case True
    then obtain m where m: "length e = 2 * m + 1" by (elim oddE)
    show ?thesis
      unfolding hex_prefix_encode_def Let_def n o if_not_P [OF n(1)] if_not_P [OF n(3)]
      using True by (simp add: m nth_append)
  next
    case False
    then obtain m where m: "length e = 2 * m" by (auto elim: evenE)
    show ?thesis
      unfolding hex_prefix_encode_def Let_def n o if_not_P [OF n(1)] if_not_P [OF n(3)]
      using False by (simp add: m nth_append)
  qed
qed

lemma hex_prefix_leaf: "hex_prefix_encode (p @ e) True (length p) (- 1) = hex_prefix_encode e True 0 (- 1)"
  using hex_prefix_slice [of p e "[]"] by (simp add: hex_prefix_rest)

lemma hex_prefix_inner:
  "hex_prefix_encode (p @ e @ l) False (length p) (int (length p + length e)) = hex_prefix_encode e False 0 (- 1)"
  unfolding hex_prefix_rest by (rule hex_prefix_slice)

subsection \<open>The sixteen ranges\<close>

abbreviation nibble_at :: "nat \<Rightarrow> byte list \<times> byte list \<Rightarrow> nat" where
  "nibble_at pre e \<equiv> unat (fst e ! pre)"

text \<open>Every key goes on behind \<open>p\<close>.\<close>

definition behind :: "byte list \<Rightarrow> byte list \<Rightarrow> bool" where
  "behind p k \<longleftrightarrow> (\<exists>x l. k = p @ x # l)"

lemma behind_order: "behind p k \<Longrightarrow> behind p l \<Longrightarrow> k < l \<Longrightarrow> unat (k ! length p) \<le> unat (l ! length p)"
  by (auto simp: behind_def append_less_same byte_order)

lemma group_filter:
  "ascending b \<Longrightarrow> \<forall>e\<in>set b. behind p (fst e) \<and> i \<le> nibble_at (length p) e \<Longrightarrow>
   nibble_group (length p) i b = Val (filter (\<lambda>e. nibble_at (length p) e = i) b, filter (\<lambda>e. i < nibble_at (length p) e) b)"
proof (induction b)
  case (Cons e b)
  obtain k v where e: "e = (k, v)" by (cases e)
  have k: "behind p k" "i \<le> unat (k ! length p)" using Cons.prems e by simp_all
  then have l: "\<not> length k \<le> length p" by (auto simp: behind_def)
  show ?case
  proof (cases "unat (k ! length p) = i")
    case True
    then show ?thesis using Cons e l by simp
  next
    case False
    then have "i < unat (k ! length p)" using k by simp
    moreover have "unat (k ! length p) \<le> nibble_at (length p) e'" if "e' \<in> set b" for e'
      using behind_order [of p k "fst e'"] Cons.prems that e by auto
    ultimately have "\<forall>e'\<in>set b. i < nibble_at (length p) e'" by fastforce
    then have "filter (\<lambda>e. i < nibble_at (length p) e) b = b" "filter (\<lambda>e. nibble_at (length p) e = i) b = []"
      by (auto simp: filter_id_conv filter_empty_conv)
    then show ?thesis using False \<open>i < unat (k ! length p)\<close> e l by simp
  qed
qed simp

lemma groups_filter:
  "ascending b \<Longrightarrow> \<forall>e\<in>set b. behind p (fst e) \<and> i \<le> nibble_at (length p) e \<Longrightarrow>
   nibble_groups (length p) [i..<i + n] b = Val (map (\<lambda>j. filter (\<lambda>e. nibble_at (length p) e = j) b) [i..<i + n])"
proof (induction n arbitrary: i b)
  case (Suc n)
  let ?r = "filter (\<lambda>e. i < nibble_at (length p) e) b"
  have u: "[i..<i + Suc n] = i # [Suc i..<Suc i + n]" by (simp add: upt_conv_Cons)
  have "nibble_groups (length p) [Suc i..<Suc i + n] ?r = Val (map (\<lambda>j. filter (\<lambda>e. nibble_at (length p) e = j) ?r) [Suc i..<Suc i + n])"
    using Suc.prems by (intro Suc.IH) (auto simp: ascending_filter)
  also have "map (\<lambda>j. filter (\<lambda>e. nibble_at (length p) e = j) ?r) [Suc i..<Suc i + n]
      = map (\<lambda>j. filter (\<lambda>e. nibble_at (length p) e = j) b) [Suc i..<Suc i + n]"
    by (intro map_cong refl) (auto intro: filter_cong)
  finally show ?case using group_filter [OF Suc.prems] unfolding u by simp
qed simp

subsection \<open>A range that stands for a node\<close>

definition stands_for :: "byte list \<Rightarrow> mem_node \<Rightarrow> entries \<Rightarrow> bool" where
  "stands_for p n es \<longleftrightarrow> ascending es \<and> set es = {(p @ k, lookup n k) | k. lookup n k \<noteq> []}"

lemma good_holds: "good n \<Longrightarrow> \<exists>k. lookup n k \<noteq> []"
proof (induction n rule: good.induct)
  case (1 ns v)
  show ?case
  proof (cases "v = []")
    case True
    then have "used ns \<noteq> 0" using 1 by simp
    then obtain i n where n: "i < length ns" "ns ! i = Some n"
      by (auto simp: used_def filter_empty_conv in_set_conv_nth)
    have "good n" using child_good [OF _ n] 1 by simp
    then obtain k where k: "lookup n k \<noteq> []" using 1 n by (metis nth_mem)
    have "unat (of_nat i :: byte) = i" using n 1 by (simp add: unat_of_nat)
    then have "lookup (Branch ns v) (of_nat i # k) \<noteq> []" using n k by simp
    then show ?thesis by blast
  next
    case False
    then have "lookup (Branch ns v) [] \<noteq> []" by simp
    then show ?thesis by blast
  qed
next
  case (3 e n)
  then obtain k where "lookup n k \<noteq> []" by auto
  then have "lookup (Infix e n) (e @ k) \<noteq> []" by simp
  then show ?case by blast
qed auto

text \<open>Two keys of a branch part at once.\<close>

lemma branch_parts:
  assumes "good (Branch ns v)"
  shows "\<exists>k l. lookup (Branch ns v) k \<noteq> [] \<and> lookup (Branch ns v) l \<noteq> [] \<and> k \<noteq> l \<and> (k \<noteq> [] \<longrightarrow> hd k \<noteq> hd l) \<and> l \<noteq> []"
proof -
  have len: "length ns = 16" and two: "2 \<le> used ns + (if v = [] then 0 else 1)" using assms by simp_all
  have key: "\<exists>k. lookup (Branch ns v) (of_nat i # k) \<noteq> []" if i: "i < 16" "ns ! i \<noteq> None" for i
  proof -
    obtain n where n: "ns ! i = Some n" using i by auto
    have "good n" using child_good [OF _ _ n] assms i by simp
    then obtain k where "lookup n k \<noteq> []" using good_holds by blast
    moreover have "unat (of_nat i :: byte) = i" using i by (simp add: unat_of_nat)
    ultimately have "lookup (Branch ns v) (of_nat i # k) \<noteq> []" using n i len by simp
    then show ?thesis by blast
  qed
  have "used ns \<noteq> 0" using two by (auto split: if_splits)
  then obtain i where i: "i < 16" "ns ! i \<noteq> None" using len by (auto simp: used_def filter_empty_conv in_set_conv_nth)
  then obtain k where k: "lookup (Branch ns v) (of_nat i # k) \<noteq> []" using key by blast
  show ?thesis
  proof (cases "v = []")
    case False
    then have "lookup (Branch ns v) [] \<noteq> []" by simp
    then show ?thesis using k by blast
  next
    case True
    then have "2 \<le> used ns" using two by simp
    moreover have "used (ns[i := None]) + 1 = used ns" using used_update [of i ns None] i len by (simp split: if_splits)
    ultimately have "used (ns[i := None]) \<noteq> 0" by linarith
    then obtain j where j: "j < 16" "ns[i := None] ! j \<noteq> None" using len by (auto simp: used_def filter_empty_conv in_set_conv_nth)
    then have ij: "j \<noteq> i" "ns ! j \<noteq> None" using j i len by (auto simp: nth_list_update split: if_splits)
    then obtain l where l: "lookup (Branch ns v) (of_nat j # l) \<noteq> []" using key j by blast
    have "unat (of_nat i :: byte) = i" "unat (of_nat j :: byte) = j" using i j by (simp_all add: unat_of_nat)
    then have "(of_nat i :: byte) \<noteq> of_nat j" using ij by auto
    then show ?thesis using k l by (intro exI [of _ "of_nat i # k"] exI [of _ "of_nat j # l"]) simp
  qed
qed

lemma stands_for_keys:
  "stands_for p n es \<Longrightarrow> e \<in> set es \<Longrightarrow> \<exists>l. fst e = p @ l \<and> snd e = lookup n l \<and> snd e \<noteq> []"
  "stands_for p n es \<Longrightarrow> lookup n l \<noteq> [] \<Longrightarrow> (p @ l, lookup n l) \<in> set es"
  by (auto simp: stands_for_def)

lemma stands_for_not_Nil: "stands_for p n es \<Longrightarrow> good n \<Longrightarrow> es \<noteq> []"
proof -
  assume s: "stands_for p n es" and "good n"
  then obtain k where "lookup n k \<noteq> []" using good_holds by blast
  then have "(p @ k, lookup n k) \<in> set es" by (rule stands_for_keys(2) [OF s])
  then show ?thesis by auto
qed

lemma stands_for_infix: "stands_for p (Infix e n) es \<Longrightarrow> stands_for (p @ e) n es"
proof -
  have "{(p @ k, lookup (Infix e n) k) | k. lookup (Infix e n) k \<noteq> []} = {((p @ e) @ k, lookup n k) | k. lookup n k \<noteq> []}"
    (is "?A = ?B")
  proof (intro equalityI subsetI)
    fix x
    assume "x \<in> ?A"
    then obtain k where k: "x = (p @ k, lookup (Infix e n) k)" "lookup (Infix e n) k \<noteq> []" by blast
    then have t: "take (length e) k = e" by (auto split: if_splits)
    then obtain l where "k = e @ l" by (metis append_take_drop_id)
    then show "x \<in> ?B" using k t by auto
  next
    fix x
    assume "x \<in> ?B"
    then obtain k where "x = (p @ e @ k, lookup n k)" "lookup n k \<noteq> []" by auto
    then have "x = (p @ (e @ k), lookup (Infix e n) (e @ k)) \<and> lookup (Infix e n) (e @ k) \<noteq> []" by simp
    then show "x \<in> ?A" by blast
  qed
  then show "stands_for p (Infix e n) es \<Longrightarrow> stands_for (p @ e) n es" by (simp add: stands_for_def)
qed

text \<open>The range of a branch: two entries at least, and nothing in common behind \<open>p\<close>.\<close>

lemma branch_range:
  assumes g: "good (Branch ns v)" and s: "stands_for p (Branch ns v) es" and len: "\<forall>e\<in>set es. length (fst e) < npos"
    and pre_le: "pre \<le> length p"
  shows "\<exists>k w e es'. es = (k, w) # e # es' \<and> shared_pre es pre \<le> length p"
proof -
  obtain k l where kl: "lookup (Branch ns v) k \<noteq> []" "lookup (Branch ns v) l \<noteq> []" "k \<noteq> l" "k \<noteq> [] \<longrightarrow> hd k \<noteq> hd l" "l \<noteq> []"
    using branch_parts [OF g] by blast
  have m: "(p @ k, lookup (Branch ns v) k) \<in> set es" "(p @ l, lookup (Branch ns v) l) \<in> set es"
    using stands_for_keys(2) [OF s] kl by blast+
  have "es \<noteq> []" using m by auto
  then obtain a w es1 where es: "es = (a, w) # es1" by (cases es) auto
  have "es1 \<noteq> []" using m kl es by auto
  then obtain e es' where es1: "es1 = e # es'" by (cases es1) auto
  have pk: "\<exists>m. fst e = p @ m" if "e \<in> set es" for e
    using stands_for_keys(1) [OF s, of e] that by auto
  then obtain a' where a': "a = p @ a'" using pk [of "(a, w)"] es by auto
  have pre: "\<forall>e\<in>set es1. pre \<le> common_prefix a (fst e)"
  proof
    fix e assume "e \<in> set es1"
    then obtain m where "fst e = p @ m" using pk [of e] es by auto
    then show "pre \<le> common_prefix a (fst e)" using a' pre_le by (simp add: common_prefix_ge)
  qed
  have "\<not> length p + 1 \<le> shared_pre es pre"
  proof
    assume "length p + 1 \<le> shared_pre es pre"
    then have all: "\<forall>e\<in>set es1. length p + 1 \<le> common_prefix a (fst e)" unfolding es shared_pre_ge [OF pre] by blast
    have one: "\<exists>x m'. a = p @ x # m' \<and> (\<exists>m''. m = x # m'')" if "(p @ m, u) \<in> set es" for m u
    proof (cases "(p @ m, u) = (a, w)")
      case True
      have "length p + 1 \<le> common_prefix a (fst e)" using all es1 by simp
      then have "length p + 1 \<le> length a" by (simp add: common_prefix_ge)
      then show ?thesis using True a' by (cases m) auto
    next
      case False
      then have "(p @ m, u) \<in> set es1" using that es by auto
      then have "length p + 1 \<le> common_prefix a (p @ m)" using all by fastforce
      then show ?thesis using a' by (cases m; cases a') (auto simp: common_prefix_ge)
    qed
    obtain x m' where "a = p @ x # m'" "\<exists>m''. k = x # m''" using one [OF m(1)] by blast
    moreover obtain y m'' where "a = p @ y # m''" "\<exists>m''. l = y # m''" using one [OF m(2)] by blast
    ultimately show False using kl(4) by auto
  qed
  then show ?thesis using es es1 by auto
qed

text \<open>The part of the range of a branch below one of its children.\<close>

lemma branch_child_range:
  assumes g: "good (Branch ns v)" and s: "stands_for p (Branch ns v) es" and i: "i < 16"
    and b: "b = filter (\<lambda>e. length p < length (fst e)) es"
  shows "case ns ! i of None \<Rightarrow> filter (\<lambda>e. nibble_at (length p) e = i) b = []
    | Some n \<Rightarrow> stands_for (p @ [of_nat i]) n (filter (\<lambda>e. nibble_at (length p) e = i) b)"
proof -
  have len: "length ns = 16" using g by simp
  have u: "unat (of_nat i :: byte) = i" using i by (simp add: unat_of_nat)
  let ?f = "filter (\<lambda>e. nibble_at (length p) e = i) b"
  have st: "set ?f = {((p @ [of_nat i]) @ k, child_lookup (ns ! i) k) | k. child_lookup (ns ! i) k \<noteq> []}" (is "_ = ?B")
  proof (intro equalityI subsetI)
    fix x assume "x \<in> set ?f"
    then have x: "x \<in> set es" "length p < length (fst x)" "nibble_at (length p) x = i" by (auto simp: b)
    then obtain l where l: "fst x = p @ l" "snd x = lookup (Branch ns v) l" "snd x \<noteq> []"
      using stands_for_keys(1) [OF s, of x] by auto
    then obtain c k where c: "l = c # k" using x by (cases l) auto
    then have "unat c = i" using x l by simp
    then have "c = of_nat i" by auto
    then have "x = ((p @ [of_nat i]) @ k, child_lookup (ns ! i) k) \<and> child_lookup (ns ! i) k \<noteq> []"
      using l c u i len by (cases x) simp
    then show "x \<in> ?B" by blast
  next
    fix x assume "x \<in> ?B"
    then obtain k where k: "x = ((p @ [of_nat i]) @ k, child_lookup (ns ! i) k)" "child_lookup (ns ! i) k \<noteq> []" by blast
    then have l: "lookup (Branch ns v) (of_nat i # k) = child_lookup (ns ! i) k" using u i len by simp
    then have "x \<in> set es" using stands_for_keys(2) [OF s, of "of_nat i # k"] k by simp
    then show "x \<in> set ?f" using k(1) u by (simp add: b)
  qed
  have a: "ascending ?f" using s by (simp add: b stands_for_def ascending_filter)
  show ?thesis
  proof (cases "ns ! i")
    case None
    then show ?thesis using st by (simp add: filter_empty_conv) auto
  next
    case (Some n)
    then show ?thesis using st a by (simp add: stands_for_def)
  qed
qed

lemma branch_rest:
  assumes s: "stands_for p (Branch ns v) ((k, w) # es)"
  shows "(if length p = length k then es else (k, w) # es) = filter (\<lambda>e. length p < length (fst e)) ((k, w) # es)"
    and "(if length p = length k then w else []) = v"
proof -
  obtain l where l: "k = p @ l" "w = lookup (Branch ns v) l" "w \<noteq> []" using stands_for_keys(1) [OF s, of "(k, w)"] by auto
  have later: "length p < length (fst e)" if e: "e \<in> set es" for e
  proof -
    obtain m where m: "fst e = p @ m" using stands_for_keys(1) [OF s, of e] e by auto
    have "k < fst e" using s that by (simp add: stands_for_def)
    then show ?thesis using l m by (cases m) (simp_all add: append_less_same [of p, of l "[]", simplified])
  qed
  then show "(if length p = length k then es else (k, w) # es) = filter (\<lambda>e. length p < length (fst e)) ((k, w) # es)"
    using l by (simp add: filter_id_conv)
  show "(if length p = length k then w else []) = v"
  proof (cases l)
    case Nil
    then show ?thesis using l by simp
  next
    case (Cons c l')
    have "v = []"
    proof (rule ccontr)
      assume "v \<noteq> []"
      then have "lookup (Branch ns v) [] \<noteq> []" by simp
      then have "(p @ [], lookup (Branch ns v) []) \<in> set ((k, w) # es)" using stands_for_keys(2) [OF s] by blast
      then show False using later Cons l by fastforce
    qed
    then show ?thesis using l Cons by simp
  qed
qed

subsection \<open>The programs agree\<close>

lemma forall_do_over_map: "forall_do (map h xs) f = forall_do xs (\<lambda>x. f (h x))"
  by (induction xs) simp_all

lemma hash_rlp_branch:
  assumes "shared_pre ((k, w) # e # es) pre \<le> pre"
  shows "hash_rlp sha3 ((k, w) # e # es) pre =
    thenp (append_list 17)
      (case nibble_groups pre [0..<16] (if pre = length k then e # es else (k, w) # e # es) of
         Val gs \<Rightarrow>
           thenp (forall_do gs (\<lambda>g. if g = [] then append_data [] False else put_child sha3 (hash_rlp sha3 g (pre + 1))))
             (append_data (if pre = length k then w else []) False)
       | Exc x \<Rightarrow> throw x | Fault f \<Rightarrow> fault f)"
  using assms by (simp add: Let_def not_less [symmetric] del: One_nat_def)

lemma hash_rlp_inner:
  assumes "pre < shared_pre ((k, w) # e # es) pre"
  shows "hash_rlp sha3 ((k, w) # e # es) pre =
    thenp (append_list 2)
      (thenp (append_data (hex_prefix_encode k False pre (int (shared_pre ((k, w) # e # es) pre))) False)
        (put_child sha3 (hash_rlp sha3 ((k, w) # e # es) (shared_pre ((k, w) # e # es) pre))))"
  using assms by (subst hash_rlp.simps(3)) (simp only: Let_def if_True)

declare hash_rlp.simps(3) [simp del]

lemma hash_rlp_stands_for:
  "good n \<Longrightarrow> stands_for p n es \<Longrightarrow> \<forall>e\<in>set es. length (fst e) < npos \<and> nib (fst e) \<Longrightarrow>
   hash_rlp sha3 es (length p) = make_rlp sha3 n"
proof (induction n arbitrary: p es rule: good.induct)
  case (1 ns v)
  have len: "length ns = 16" using 1 by simp
  obtain k w e es' where es: "es = (k, w) # e # es'" and sp: "shared_pre es (length p) \<le> length p"
    using branch_range [OF 1(2,3), of "length p"] 1(4) by auto
  define b where "b = filter (\<lambda>e. length p < length (fst e)) es"
  have rest: "(if length p = length k then e # es' else es) = b" "(if length p = length k then w else []) = v"
    using branch_rest [of p ns v k w "e # es'"] 1(3) by (simp_all only: es b_def)
  have gs: "nibble_groups (length p) [0..<16] b = Val (map (\<lambda>j. filter (\<lambda>e. nibble_at (length p) e = j) b) [0..<16])"
  proof -
    have "behind p (fst e)" if e: "e \<in> set b" for e
    proof -
      obtain l where "fst e = p @ l" using stands_for_keys(1) [OF 1(3), of e] e b_def by auto
      moreover have "length p < length (fst e)" using that b_def by simp
      ultimately show ?thesis by (cases l) (auto simp: behind_def)
    qed
    moreover have "ascending b" using 1(3) by (simp add: b_def stands_for_def ascending_filter)
    ultimately show ?thesis using groups_filter [of b p 0 16] by simp
  qed
  let ?G = "\<lambda>g. if g = [] then append_data [] False else put_child sha3 (hash_rlp sha3 g (length p + 1))"
  let ?M = "\<lambda>c. case c of Some n \<Rightarrow> put_child sha3 (make_rlp sha3 n) | None \<Rightarrow> append_data [] False"
  have "?G (filter (\<lambda>e. nibble_at (length p) e = i) b) = ?M (ns ! i)" if i: "i < 16" for i
  proof (cases "ns ! i")
    case None
    then show ?thesis using branch_child_range [OF 1(2,3) i b_def] by simp
  next
    case (Some n)
    let ?f = "filter (\<lambda>e. nibble_at (length p) e = i) b"
    have s: "stands_for (p @ [of_nat i]) n ?f" using branch_child_range [OF 1(2,3) i b_def] Some by simp
    have n: "Some n \<in> set ns" using Some i len by (metis nth_mem)
    then have "good n" using 1(2) by simp
    moreover have "\<forall>e\<in>set ?f. length (fst e) < npos \<and> nib (fst e)" using 1(4) by (simp add: b_def)
    ultimately have "hash_rlp sha3 ?f (length (p @ [of_nat i :: byte])) = make_rlp sha3 n" using 1(1) [OF n _ s] by blast
    moreover have "?f \<noteq> []" by (rule stands_for_not_Nil [OF s \<open>good n\<close>])
    ultimately show ?thesis using Some by simp
  qed
  then have "forall_do (map (\<lambda>j. filter (\<lambda>e. nibble_at (length p) e = j) b) [0..<16]) ?G = forall_do (map ((!) ns) [0..<16]) ?M"
    unfolding forall_do_over_map by (intro forall_do_cong refl) simp
  moreover have "map ((!) ns) [0..<16] = ns" using len by (metis map_nth)
  ultimately have fd: "forall_do (map (\<lambda>j. filter (\<lambda>e. nibble_at (length p) e = j) b) [0..<16]) ?G = forall_do ns ?M" by simp
  have "hash_rlp sha3 es (length p) = thenp (append_list 17)
      (case nibble_groups (length p) [0..<16] b of
         Val gs \<Rightarrow> thenp (forall_do gs ?G) (append_data v False) | Exc x \<Rightarrow> throw x | Fault f \<Rightarrow> fault f)"
    using hash_rlp_branch [of k w e es' "length p" sha3] sp unfolding es [symmetric] rest by blast
  then show ?case unfolding gs fd outcome.case by simp
next
  case (2 e v)
  have "set es = {(p @ e, v)}" using 2(1,2) by (auto simp: stands_for_def)
  moreover have "ascending es" using 2(2) by (simp add: stands_for_def)
  ultimately have "es = [(p @ e, v)]" by (cases es; cases "tl es") fastforce+
  then show ?case by (simp add: hex_prefix_leaf)
next
  case (3 e n)
  obtain ns v where n: "n = Branch ns v" using 3 by (auto simp: is_branch_def)
  have s: "stands_for (p @ e) n es" by (rule stands_for_infix [OF 3(3)])
  have g: "good n" "e \<noteq> []" using 3(2) by simp_all
  obtain k w e1 es' where es: "es = (k, w) # e1 # es'" and sp: "shared_pre es (length p) \<le> length (p @ e)"
    using branch_range [of ns v "p @ e" es "length p"] g s n 3(4) by auto
  have pk: "\<exists>l. fst x = p @ e @ l" if "x \<in> set es" for x using stands_for_keys(1) [OF s that] by auto
  obtain l where k: "k = p @ e @ l" using pk [of "(k, w)"] es by auto
  have c: "\<forall>x\<in>set (e1 # es'). length (p @ e) \<le> common_prefix k (fst x)"
  proof
    fix x assume "x \<in> set (e1 # es')"
    then obtain m where "fst x = p @ e @ m" using pk [of x] es by auto
    then show "length (p @ e) \<le> common_prefix k (fst x)" using k by (simp add: common_prefix_ge)
  qed
  then have "\<forall>x\<in>set (e1 # es'). length p \<le> common_prefix k (fst x)" by fastforce
  moreover have "length (p @ e) \<le> npos" using 3(4) es k by simp
  ultimately have "length (p @ e) \<le> shared_pre es (length p)" unfolding es using shared_pre_ge c by blast
  then have sp': "shared_pre es (length p) = length (p @ e)" using sp by simp
  have "hash_rlp sha3 es (length p) = thenp (append_list 2)
      (thenp (append_data (hex_prefix_encode k False (length p) (int (length (p @ e)))) False)
        (put_child sha3 (hash_rlp sha3 es (length (p @ e)))))"
    using hash_rlp_inner [of "length p" k w e1 es' sha3] sp' g(2) unfolding es [symmetric] by simp
  moreover have "hash_rlp sha3 es (length (p @ e)) = make_rlp sha3 n" using 3(1) [OF g(1) s] 3(4) by blast
  moreover have "hex_prefix_encode k False (length p) (int (length (p @ e))) = hex_prefix_encode e False 0 (- 1)"
    unfolding k length_append by (rule hex_prefix_inner)
  ultimately show ?case by (simp only: make_rlp.simps)
qed

text \<open>One item is written in each case, so nothing fails.\<close>

lemma put_child_item: "put_child sha3 (put_item e) = put_item (if length e < 32 then e else enc_data (sha3 e))"
  by (simp add: put_child_def streamed_item append_data_eq lift_def) (simp add: put_item_def bindp_def fun_eq_iff)

lemma list_of_two: "thenp (append_list 2) (thenp (put_item a) (put_item b)) = put_item (enc_list (a @ b))"
  using list_of_items [of "[a, b]"] by simp

lemma forall_do_snoc: "forall_do (xs @ [x]) f = thenp (forall_do xs f) (f x)"
  by (induction xs) (simp_all add: bindp_assoc)

lemma make_rlp_item: "good n \<Longrightarrow> \<exists>e. make_rlp sha3 n = put_item e"
proof (induction n rule: good.induct)
  case (1 ns v)
  let ?M = "\<lambda>c. case c of Some n \<Rightarrow> put_child sha3 (make_rlp sha3 n) | None \<Rightarrow> append_data [] False"
  have "\<forall>c\<in>set ns. \<exists>e. ?M c = put_item e"
    using 1 by (auto split: option.split simp: append_data_eq) (metis put_child_item)
  then obtain f where "\<forall>c\<in>set ns. ?M c = put_item (f c)" by metis
  then have "forall_do ns ?M = forall_do (map f ns) put_item" by (intro forall_do_map) blast
  moreover have "thenp (forall_do (map f ns) put_item) (put_item (enc_data v)) = forall_do (map f ns @ [enc_data v]) put_item"
    by (rule forall_do_snoc [symmetric])
  moreover have "thenp (append_list 17) (forall_do (map f ns @ [enc_data v]) put_item) = put_item (enc_list (concat (map f ns @ [enc_data v])))"
    using list_of_items [of "map f ns @ [enc_data v]"] 1(2) by simp
  ultimately show ?case unfolding make_rlp.simps append_data_eq [of v] by metis
next
  case (2 e v)
  show ?case by (auto simp: append_data_eq list_of_two)
next
  case (3 e n)
  then obtain a where "make_rlp sha3 n = put_item a" by auto
  then show ?case by (auto simp: append_data_eq list_of_two put_child_item)
qed

subsection \<open>Ordered maps\<close>

text \<open>A map of the library with the same history: \<open>operator[]\<close> and \<open>erase\<close>.\<close>

definition map_get :: "byte list \<Rightarrow> entries \<Rightarrow> byte list eth" where
  "map_get k es = Val (case map_of es k of None \<Rightarrow> [] | Some v \<Rightarrow> v)"

definition map_insert :: "byte list \<Rightarrow> byte list \<Rightarrow> entries \<Rightarrow> entries eth" where
  "map_insert k v es = Val (map_put k v es)"

definition map_erase :: "byte list \<Rightarrow> entries \<Rightarrow> entries eth" where
  "map_erase k es = Val (map_drop k es)"

definition map_holds :: "entries \<Rightarrow> byte list \<Rightarrow> byte list" where
  "map_holds es k = (case map_of es k of None \<Rightarrow> [] | Some v \<Rightarrow> v)"

definition map_ok :: "entries \<Rightarrow> bool" where
  "map_ok es \<longleftrightarrow> ascending es \<and> (\<forall>e\<in>set es. ascii_key (fst e) \<and> snd e \<noteq> [])"

interpretation om: byte_map map_ok ascii_key map_holds map_get map_insert map_erase
proof
  fix m :: entries and k v :: "byte list"
  assume m: "map_ok m" and k: "ascii_key k"
  show "map_get k m = Val (map_holds m k)" by (simp add: map_get_def map_holds_def)
  have "map_ok (map_drop k m)" using m by (auto simp: map_ok_def map_drop_def)
  then show "\<exists>m'. map_erase k m = Val m' \<and> map_ok m' \<and> (\<forall>l. ascii_key l \<longrightarrow> map_holds m' l = ((map_holds m)(k := [])) l)"
    by (simp add: map_erase_def map_holds_def )
  assume "v \<noteq> []"
  then have "map_ok (map_put k v m)" using m k by (auto simp: map_ok_def map_put_ascending map_put_set)
  then show "\<exists>m'. map_insert k v m = Val m' \<and> map_ok m' \<and> (\<forall>l. ascii_key l \<longrightarrow> map_holds m' l = ((map_holds m)(k := v)) l)"
    using m by (simp add: map_insert_def map_holds_def map_of_put map_ok_def)
qed

lemma hex_map_fold:
  "ascending m \<Longrightarrow> \<forall>e\<in>set es. ascii_key (fst e) \<Longrightarrow> distinct (map fst es) \<Longrightarrow> \<forall>e\<in>set es. nibbles (fst e) \<notin> fst ` set m \<Longrightarrow>
   ascending (foldl (\<lambda>m (k, v). map_put (to_hex k) v m) m es)
   \<and> set (foldl (\<lambda>m (k, v). map_put (to_hex k) v m) m es) = set m \<union> (\<lambda>e. (nibbles (fst e), snd e)) ` set es"
proof (induction es arbitrary: m)
  case (Cons e es)
  obtain k v where e: "e = (k, v)" by (cases e)
  let ?m = "map_put (to_hex k) v m"
  have h: "to_hex k = nibbles k" using ascii_to_hex Cons.prems e by simp
  have s: "set ?m = insert (nibbles k, v) (set m)"
    using map_put_set [OF Cons.prems(1), of "nibbles k" v] Cons.prems e h by (auto simp: image_iff)
  have "\<forall>e\<in>set es. nibbles (fst e) \<notin> fst ` set ?m"
    using Cons.prems e s nibbles_inj by (auto simp: image_iff)
  moreover have "ascending ?m" by (rule map_put_ascending [OF Cons.prems(1)])
  ultimately show ?case using Cons.IH [of ?m] Cons.prems s e by auto
qed simp

lemma hex_map_ok:
  assumes "map_ok s"
  shows "ascending (hex_map s) \<and> set (hex_map s) = (\<lambda>e. (nibbles (fst e), snd e)) ` set s"
  using assms hex_map_fold [of "[]" "rev s"] ascending_distinct [of s]
  by (simp add: hex_map_def map_ok_def rev_map [symmetric])

text \<open>A trie and a map that hold the same.\<close>

lemma hex_map_stands_for:
  assumes t: "trie_ok (Some r)" and s: "map_ok s" and same: "\<And>k. ascii_key k \<Longrightarrow> trie_holds (Some r) k = map_holds s k"
  shows "stands_for [] r (hex_map s)"
proof -
  have m: "map_holds s k = v \<and> v \<noteq> []" if "(k, v) \<in> set s" for k v
    using that s ascending_distinct [of s] by (auto simp: map_ok_def map_holds_def)
  have "(nibbles k, v) \<in> {(k, lookup r k) | k. lookup r k \<noteq> []}" if "(k, v) \<in> set s" for k v
    using same [of k] m [OF that] s that by (auto simp: trie_holds_def map_ok_def)
  moreover have "(l, lookup r l) \<in> (\<lambda>e. (nibbles (fst e), snd e)) ` set s" if l: "lookup r l \<noteq> []" for l
  proof -
    obtain k where k: "ascii_key k" "l = nibbles k" using t l by (auto simp: trie_ok_def)
    then have "map_holds s k = lookup r l" using same [OF k(1)] by (simp add: trie_holds_def)
    then have "(k, lookup r l) \<in> set s" using l by (auto simp: map_holds_def dest: map_of_SomeD split: option.splits)
    then show ?thesis using k by force
  qed
  ultimately have "(\<lambda>e. (nibbles (fst e), snd e)) ` set s = {(k, lookup r k) | k. lookup r k \<noteq> []}" by fastforce
  then show ?thesis using hex_map_ok [OF s] by (simp add: stands_for_def)
qed

lemma same_hash:
  assumes t: "trie_ok t" and s: "map_ok s" and same: "\<And>k. ascii_key k \<Longrightarrow> trie_holds t k = map_holds s k"
  shows "\<exists>h. trie_hash256 sha3 t = Val h \<and> hash256_map sha3 s = Val h"
proof (cases t)
  case None
  have "s = []"
  proof (cases s)
    case (Cons e es)
    then have "ascii_key (fst e)" "map_holds s (fst e) = snd e" "snd e \<noteq> []" using s by (auto simp: map_ok_def map_holds_def)
    then show ?thesis using same [of "fst e"] None by (simp add: trie_holds_def)
  qed
  then show ?thesis using None by (simp add: trie_hash256_def hash256_map_def empty_hash_def)
next
  case (Some r)
  have r: "good r" "short r" using t Some trie_ok_root by simp_all
  have st: "stands_for [] r (hex_map s)" using hex_map_stands_for [of r s] t s same Some by simp
  have "\<forall>e\<in>set (hex_map s). length (fst e) < npos \<and> nib (fst e)"
    using hex_map_ok [OF s] s ascii_to_hex by (auto simp: map_ok_def)
  then have "hash_rlp sha3 (hex_map s) 0 = make_rlp sha3 r" using hash_rlp_stands_for [OF r(1) st] by simp
  moreover have "s \<noteq> []" using stands_for_not_Nil [OF st r(1)] by (auto simp: hex_map_def)
  moreover obtain e where "make_rlp sha3 r = put_item e" using make_rlp_item [OF r(1)] by blast
  ultimately show ?thesis using Some by (simp add: trie_hash256_def hash256_map_def streamed_item)
qed

section \<open>Theorems\<close>

text \<open>
  C3: The two hashes of the library agree: after any history of insertions of non-empty values and of
  removals, with keys of ASCII characters, the hash of the trie in memory is the hash that \<open>hash256\<close>
  computes from the ordered map with the same history, and both are computed without a failure. Whatever the hash function.
\<close>

theorem trie_hash_agrees:
  assumes "list_all (\<lambda>x. ascii_key (op_key x) \<and> op_filled x) ops"
  shows "\<exists>t s h. run_ops trie_insert trie_remove ops None = Val t \<and> run_ops map_insert map_erase ops [] = Val s
    \<and> trie_hash256 sha3 t = Val h \<and> hash256_map sha3 s = Val h"
proof -
  have "trie_ok None" "trie_holds None = (\<lambda>_. [])" "map_ok []" "map_holds [] = (\<lambda>_. [])"
    by (simp_all add: trie_ok_def trie_holds_def map_ok_def map_holds_def fun_eq_iff)
  then obtain t s where "run_ops trie_insert trie_remove ops None = Val t" "trie_ok t" "run_ops map_insert map_erase ops [] = Val s"
      "map_ok s" "\<forall>k. ascii_key k \<longrightarrow> trie_holds t k = map_ops ops (\<lambda>_. []) k" "\<forall>k. ascii_key k \<longrightarrow> map_holds s k = map_ops ops (\<lambda>_. []) k"
    using mt.run_holds [of None ops] om.run_holds [of "[]" ops] assms by auto
  then show ?thesis using same_hash [of t s sha3] by fastforce
qed

theorem trie_hash_agrees_witness:
  "\<exists>t s h. run_ops trie_insert trie_remove [Put [0x62] [2], Put [0x61] [1], Put [0x61, 0x62] [3], Del [0x62]] None = Val t
    \<and> run_ops map_insert map_erase [Put [0x62] [2], Put [0x61] [1], Put [0x61, 0x62] [3], Del [0x62]] [] = Val s
    \<and> trie_hash256 (\<lambda>x. x) t = Val h \<and> hash256_map (\<lambda>x. x) s = Val h"
  by (rule trie_hash_agrees) (simp add: ascii_key_def npos_def byte_order)

lemma group_append:
  assumes "nibble_group pre i b = Val (g, r)" and "c \<noteq> []" and "pre < length (fst (hd c))" and "nibble_at pre (hd c) \<noteq> i"
  shows "nibble_group pre i (b @ c) = Val (g, r @ c)"
  using assms
proof (induction pre i b arbitrary: g r rule: nibble_group.induct)
  case (1 pre i)
  then show ?case by (cases c) auto
qed (auto simp: obind_eq_Val split: if_splits)

lemma groups_append:
  assumes "nibble_groups pre is b = Val gs" and "c \<noteq> []" and "pre < length (fst (hd c))" and "\<forall>i\<in>set is. nibble_at pre (hd c) \<noteq> i"
  shows "nibble_groups pre is (b @ c) = Val gs"
  using assms
proof (induction pre "is" b arbitrary: gs rule: nibble_groups.induct)
  case (2 pre i "is" b)
  then obtain g r gs' where g: "nibble_group pre i b = Val (g, r)" "nibble_groups pre is r = Val gs'" "gs = g # gs'"
    by (auto simp: obind_eq_Val)
  have "nibble_group pre i (b @ c) = Val (g, r @ c)" using 2 by (intro group_append [OF g(1)]) simp_all
  moreover have "nibble_groups pre is (r @ c) = Val gs'" using 2(1) [OF g(1) refl g(2)] 2 by simp
  ultimately show ?case using g(3) by simp
qed simp

lemma map_put_below: "\<forall>e\<in>set c. k < fst e \<Longrightarrow> map_put k v (m @ c) = map_put k v m @ c"
proof (induction k v m rule: map_put.induct)
  case (1 k v)
  then show ?case by (cases c) auto
qed auto

lemma hex_map_below:
  "\<forall>e\<in>set es. \<forall>e'\<in>set c. to_hex (fst e) < fst e' \<Longrightarrow>
   foldl (\<lambda>m (k, v). map_put (to_hex k) v m) (m @ c) es = foldl (\<lambda>m (k, v). map_put (to_hex k) v m) m es @ c"
  by (induction es arbitrary: m) (auto simp: map_put_below)

lemma hex_map_keys: "e \<in> set (hex_map s) \<Longrightarrow> \<exists>e'\<in>set s. fst e = to_hex (fst e')"
proof -
  have put: "set (map_put k v m) \<subseteq> insert (k, v) (set m)" for k v m
    by (induction k v m rule: map_put.induct) auto
  have "\<forall>x\<in>set m. P (fst x) \<Longrightarrow> \<forall>x\<in>set es. P (to_hex (fst x)) \<Longrightarrow>
      \<forall>x\<in>set (foldl (\<lambda>m (k, v). map_put (to_hex k) v m) m es). P (fst x)" for m es and P :: "byte list \<Rightarrow> bool"
  proof (induction es arbitrary: m)
    case (Cons x es)
    obtain k v where x: "x = (k, v)" by (cases x)
    have "\<forall>x\<in>set (map_put (to_hex k) v m). P (fst x)" using put Cons.prems x by fastforce
    then show ?case using Cons x by simp
  qed simp
  from this [of "[]" "\<lambda>l. \<exists>e'\<in>set s. l = to_hex (fst e')" "rev s"]
  show "e \<in> set (hex_map s) \<Longrightarrow> ?thesis" by (auto simp: hex_map_def)
qed

lemma hex_map_not_Nil: "s \<noteq> [] \<Longrightarrow> hex_map s \<noteq> []"
proof -
  have "map_put k v m \<noteq> []" for k v and m :: entries by (induction k v m rule: map_put.induct) auto
  then have "foldl (\<lambda>m (k, v). map_put (to_hex k) v m) m es \<noteq> []" if "m \<noteq> [] \<or> es \<noteq> []" for m :: entries and es
    using that by (induction es arbitrary: m) (auto split: prod.split)
  then show "s \<noteq> [] \<Longrightarrow> ?thesis" unfolding hex_map_def by (metis rev_is_Nil_conv)
qed

text \<open>
  The hash of an ordered map leaves out what lies under high keys: where two keys of ASCII
  characters part in the first nibble, entries whose keys begin with a byte from 128 to 240 do not
  change the hash, whatever they hold. (Nibbles are computed from signed characters, and the sixteen
  ranges of a branch end before such an entry.)
\<close>

theorem hash_ignores_high_keys:
  assumes low: "map_ok low" and high: "\<forall>e\<in>set high. fst e \<noteq> [] \<and> 128 \<le> hd (fst e) \<and> hd (fst e) \<le> 240"
    and part: "(c # k, v) \<in> set low" "(d # l, w) \<in> set low" "unat c div 16 \<noteq> unat d div 16"
  shows "hash256_map sha3 (low @ high) = hash256_map sha3 low"
proof (cases "high = []")
  case False
  have hi: "fst e \<noteq> [] \<and> 16 \<le> unat (hd (fst e))" if e: "e \<in> set (hex_map high)" for e
  proof -
    obtain e' where e': "e' \<in> set high" "fst e = to_hex (fst e')" using hex_map_keys [OF e] by blast
    obtain x m where x: "fst e' = x # m" using high e'(1) by (cases "fst e'") auto
    show ?thesis using high_nibble [of x] high e' x by (auto simp: to_hex_def)
  qed
  have lo: "ascending (hex_map low)" "set (hex_map low) = (\<lambda>e. (nibbles (fst e), snd e)) ` set low"
    using hex_map_ok [OF low] by simp_all
  have hm: "hex_map (low @ high) = hex_map low @ hex_map high"
  proof -
    have "to_hex (fst e) < fst e'" if "e \<in> set (rev low)" "e' \<in> set (hex_map high)" for e e'
    proof -
      have n: "to_hex (fst e) = nibbles (fst e)" using ascii_to_hex low that by (simp add: map_ok_def)
      then show ?thesis
        using hi [OF that(2)] nib_nibbles [of "fst e"] by (cases "nibbles (fst e)"; cases "fst e'") (auto simp: nib_unat byte_order)
    qed
    then show ?thesis using hex_map_below [of "rev low" "hex_map high" "[]"] by (simp add: hex_map_def)
  qed
  have two: "(nibbles (c # k), v) \<in> set (hex_map low)" "(nibbles (d # l), w) \<in> set (hex_map low)"
    using part lo(2) by force+
  have nib2: "hd (nibbles (c # k)) \<noteq> hd (nibbles (d # l))"
  proof -
    have "unat x div 16 mod 256 = unat x div 16" for x :: byte
      using le_less_trans [OF div_le_dividend unat_byte_less] by (rule mod_less)
    then show ?thesis using part(3) by (simp add: nibbles_def word_unat_eq_iff unat_byte)
  qed
  have "hex_map low \<noteq> []" using two by auto
  moreover obtain x y es where es: "hex_map low = x # y # es"
    using two nib2 by (cases "hex_map low"; cases "tl (hex_map low)") auto
  obtain a u where x: "x = (a, u)" by (cases x)
  have apart: "\<not> (\<forall>e\<in>set (y # es'). 1 \<le> common_prefix a (fst e))" if "set es \<subseteq> set es'" for es'
  proof
    assume all: "\<forall>e\<in>set (y # es'). 1 \<le> common_prefix a (fst e)"
    have hd: "hd (fst e) = hd a" if "e \<in> set (hex_map low)" for e
    proof (cases "e = x")
      case False
      then have "1 \<le> common_prefix a (fst e)" using that es all \<open>set es \<subseteq> set es'\<close> by auto
      then show ?thesis by (cases a; cases "fst e") (auto split: if_splits)
    qed (simp add: x)
    show False using hd [OF two(1)] hd [OF two(2)] nib2 by simp
  qed
  have sp: "shared_pre ((a, u) # y # es @ m) 0 \<le> 0" for m
    using shared_pre_ge [of "y # es @ m" 0 a 1 u] apart [of "es @ m"] by force
  define b where "b = (if 0 = length a then y # es else (a, u) # y # es)"
  have "\<forall>e\<in>set b. behind [] (fst e)"
  proof -
    have "fst e \<noteq> []" if "e \<in> set (y # es)" for e using lo(1) that es by (cases "fst e") auto
    then have "\<forall>e\<in>set b. fst e \<noteq> []" by (auto simp: b_def)
    then show ?thesis by (auto simp: behind_def neq_Nil_conv)
  qed
  moreover have "ascending b" using lo(1) es x by (simp add: b_def)
  ultimately obtain gs where gs: "nibble_groups 0 [0..<16] b = Val gs" using groups_filter [of b "[]" 0 16] by auto
  have "nibble_groups 0 [0..<16] (b @ hex_map high) = Val gs"
  proof (rule groups_append [OF gs hex_map_not_Nil [OF False]])
    have h: "hd (hex_map high) \<in> set (hex_map high)" using hex_map_not_Nil [OF False] by simp
    show "0 < length (fst (hd (hex_map high)))" using hi [OF h] by simp
    show "\<forall>i\<in>set [0..<16]. nibble_at 0 (hd (hex_map high)) \<noteq> i" using hi [OF h] by (auto simp: hd_conv_nth)
  qed
  then have gs': "nibble_groups 0 [0..<16] (if 0 = length a then y # es @ hex_map high else (a, u) # y # es @ hex_map high) = Val gs"
    by (cases "0 = length a") (simp_all only: b_def if_True if_False append_Cons simp_thms)
  have "hash_rlp sha3 (hex_map low @ hex_map high) 0 = hash_rlp sha3 (hex_map low) 0"
    unfolding es x append_Cons hash_rlp_branch [OF sp [of "[]", unfolded append_Nil2]] hash_rlp_branch [OF sp] gs'
      gs [unfolded b_def] ..
  then show ?thesis using part(1) by (auto simp: hash256_map_def hm)
qed simp

theorem hash_ignores_high_keys_witness:
  "hash256_map (\<lambda>x. x) ([([0x01], [1]), ([0x61], [2])] @ [([0x90], [3])]) = hash256_map (\<lambda>x. x) [([0x01], [1]), ([0x61], [2])]"
  by (rule hash_ignores_high_keys [of _ _ "0x01" "[]" "[1]" "0x61" "[]" "[2]"])
    (simp_all add: map_ok_def ascii_key_def npos_def byte_order)

end
