(* ===== verification/EthTx.thy ===== *)
theory EthTx
  imports RlpProps
begin

section \<open>Transactions\<close>

text \<open>
  \<open>server/ethereum/libethereum/Transaction.h\<close> and \<open>Transaction.cpp\<close>: a transaction, its RLP with and
  without the signature, its hash, reading it from bytes, its sender, and its signature. An \<open>h256\<close> is the
  number of its 32 bytes, an address that of its 20 bytes. SHA-3 and secp256k1 are parameters: the hash
  of a byte string, recovery (a hash, the signature, the recovery id) to the 65 bytes of a public key, and
  signing. Fewer than \<open>2\<^sup>3\<^sup>2\<close> data items are written.
\<close>

type_synonym u256 = "256 word"
type_synonym address = "160 word"
type_synonym hasher = "byte list \<Rightarrow> byte list"

record signature =
  sig_v :: byte
  sig_r :: u256
  sig_s :: u256

text \<open>The signature of a transaction object that was not given one is not initialised: \<open>None\<close>.\<close>

record transaction =
  tx_nonce :: u256
  tx_receive :: address
  tx_value :: u256
  tx_fee :: u256
  tx_data :: "u256 list"
  tx_vrs :: "signature option"

definition u256_bytes :: "u256 \<Rightarrow> byte list" where
  "u256_bytes w = to_big_endian 32 (unat w)"

definition address_bytes :: "address \<Rightarrow> byte list" where
  "address_bytes a = to_big_endian 20 (unat a)"

definition u256_of_bytes :: "byte list \<Rightarrow> u256" where
  "u256_of_bytes bs = of_nat (from_big_endian bs)"

definition address_of_bytes :: "byte list \<Rightarrow> address" where
  "address_of_bytes bs = of_nat (from_big_endian bs)"

text \<open>
  \<open>left160\<close> is the front of the 32 bytes; \<open>right160\<close> begins at the tenth byte, not at the twelfth.
\<close>

definition left160 :: "byte list \<Rightarrow> address" where
  "left160 h = address_of_bytes (take 20 h)"

definition right160 :: "byte list \<Rightarrow> address" where
  "right160 h = address_of_bytes (take 20 (drop 10 h))"

subsection \<open>Writing\<close>

definition append_u256 :: "u256 \<Rightarrow> unit rlp_prog" where
  "append_u256 w = append_int (unat w)"

definition fill_stream :: "bool \<Rightarrow> transaction \<Rightarrow> unit rlp_prog" where
  "fill_stream with_sig t =
     thenp (append_list (if with_sig then 8 else 5))
    (thenp (append_u256 (tx_nonce t))
    (thenp (append_data (address_bytes (tx_receive t)) False)
    (thenp (append_u256 (tx_value t))
    (thenp (append_u256 (tx_fee t))
    (thenp (thenp (append_list (of_nat (length (tx_data t)))) (forall_do (tx_data t) append_u256))
       (if with_sig then
          (case tx_vrs t of
             None \<Rightarrow> fault UndefinedBehaviour
           | Some s \<Rightarrow> thenp (append_int (unat (sig_v s))) (thenp (append_u256 (sig_r s)) (append_u256 (sig_s s))))
        else ret ()))))))"

definition transaction_rlp :: "bool \<Rightarrow> transaction \<Rightarrow> byte list eth" where
  "transaction_rlp with_sig t = streamed (fill_stream with_sig t)"

definition transaction_sha3 :: "hasher \<Rightarrow> bool \<Rightarrow> transaction \<Rightarrow> byte list eth" where
  "transaction_sha3 sha3 with_sig t = obind (transaction_rlp with_sig t) (\<lambda>bs. Val (sha3 bs))"

subsection \<open>Reading\<close>

text \<open>A conversion of the item at an index; numbers are read with the strict flags.\<close>

definition at_index :: "nat \<Rightarrow> (view \<Rightarrow> 'a eth) \<Rightarrow> (rlp, eth_exn, 'a) prog" where
  "at_index i f = bindp (rlp_at i) (\<lambda>v. lift (f v))"

definition view_u256 :: "view \<Rightarrow> u256 eth" where
  "view_u256 v = obind (rlp_to_int (Some 32) strict v) (\<lambda>i. Val (of_nat i))"

definition view_address :: "view \<Rightarrow> address eth" where
  "view_address v = obind (rlp_to_hash 20 strict v) (\<lambda>bs. Val (address_of_bytes bs))"

text \<open>The loop over the data items converts each item before it moves on; it may not end (\<open>None\<close>).\<close>

partial_function (option) read_data_items :: "byte list \<Rightarrow> position \<times> nat \<Rightarrow> u256 list \<Rightarrow> u256 list eth option" where
  "read_data_items bs st acc =
     (if fst st = (Some (length bs), 0) then Some (Val acc)
      else case view_u256 (view_from bs (fst st)) of
             Val w \<Rightarrow>
               (case next_position bs st of
                  Val st' \<Rightarrow> read_data_items bs st' (acc @ [w])
                | Exc e \<Rightarrow> Some (Exc e)
                | Fault f \<Rightarrow> Some (Fault f))
           | Exc e \<Rightarrow> Some (Exc e)
           | Fault f \<Rightarrow> Some (Fault f))"

definition read_tx_data :: "view \<Rightarrow> u256 list eth option" where
  "read_tx_data v =
     (case start_position v of
        Val st \<Rightarrow> read_data_items (view_bytes v) st []
      | Exc e \<Rightarrow> Some (Exc e)
      | Fault f \<Rightarrow> Some (Fault f))"

definition read_front :: "(rlp, eth_exn, u256 \<times> address \<times> u256 \<times> u256 \<times> view) prog" where
  "read_front =
     bindp (at_index 0 view_u256) (\<lambda>nonce.
     bindp (at_index 1 view_address) (\<lambda>receive.
     bindp (at_index 2 view_u256) (\<lambda>value.
     bindp (at_index 3 view_u256) (\<lambda>fee.
     bindp (at_index 4 item_count_strict) (\<lambda>_.
     bindp (rlp_at 4) (\<lambda>items. ret (nonce, receive, value, fee, items)))))))"

definition read_signature :: "(rlp, eth_exn, signature) prog" where
  "read_signature =
     bindp (at_index 5 (rlp_to_int (Some 1) strict)) (\<lambda>v.
     bindp (at_index 6 view_u256) (\<lambda>r.
     bindp (at_index 7 view_u256) (\<lambda>s. ret \<lparr>sig_v = of_nat v, sig_r = r, sig_s = s\<rparr>)))"

definition read_transaction :: "byte list \<Rightarrow> transaction eth option" where
  "read_transaction bs =
     (case read_front (new_rlp (Some bs)) of
        (r, Exc e) \<Rightarrow> Some (Exc e)
      | (r, Fault f) \<Rightarrow> Some (Fault f)
      | (r, Val (nonce, receive, value, fee, items)) \<Rightarrow>
          (case read_tx_data items of
             None \<Rightarrow> None
           | Some (Exc e) \<Rightarrow> Some (Exc e)
           | Some (Fault f) \<Rightarrow> Some (Fault f)
           | Some (Val ds) \<Rightarrow>
               Some (obind (snd (read_signature r)) (\<lambda>vrs.
                 Val \<lparr>tx_nonce = nonce, tx_receive = receive, tx_value = value, tx_fee = fee, tx_data = ds, tx_vrs = Some vrs\<rparr>))))"

subsection \<open>Sender and signature\<close>

text \<open>
  Recovery gets the byte \<open>vrs.v\<close> as a number, less 27, and answers the 65 bytes of the key or
  fails; \<open>None\<close> is the exception \<open>InvalidSignature\<close>.
\<close>

type_synonym recover = "byte list \<Rightarrow> byte list \<Rightarrow> int \<Rightarrow> byte list option"

type_synonym sign_compact = "byte list \<Rightarrow> byte list \<Rightarrow> byte list \<Rightarrow> (byte list \<times> int) option"

definition sender :: "hasher \<Rightarrow> recover \<Rightarrow> transaction \<Rightarrow> address option eth" where
  "sender sha3 rec t =
     (case tx_vrs t of
        None \<Rightarrow> Fault UndefinedBehaviour
      | Some s \<Rightarrow>
          obind (transaction_sha3 sha3 False t) (\<lambda>msg.
            case rec msg (u256_bytes (sig_r s) @ u256_bytes (sig_s s)) (int (unat (sig_v s)) - 27) of
              None \<Rightarrow> Val None
            | Some pub \<Rightarrow> Val (Some (right160 (sha3 (drop 1 pub))))))"

definition k_from_message :: "u256 \<Rightarrow> u256 \<Rightarrow> u256" where
  "k_from_message msg priv = msg XOR priv"

definition sign_transaction :: "hasher \<Rightarrow> sign_compact \<Rightarrow> u256 \<Rightarrow> transaction \<Rightarrow> transaction option eth" where
  "sign_transaction sha3 sign priv t =
     obind (transaction_sha3 sha3 False t) (\<lambda>msg.
       let nonce = u256_bytes (k_from_message (u256_of_bytes msg) priv) in
       case sign msg (u256_bytes priv) nonce of
         None \<Rightarrow> Val None
       | Some (sg, v) \<Rightarrow>
           Val (Some (t\<lparr>tx_vrs := Some \<lparr>sig_v = of_int (v + 27), sig_r = u256_of_bytes (take 32 sg),
                                         sig_s = u256_of_bytes (take 32 (drop 32 sg))\<rparr>\<rparr>)))"

end
