(* ===== verification/EthLedger.thy ===== *)
theory EthLedger
  imports EthTx OrdMap
begin

section \<open>The ledger\<close>

text \<open>
  \<open>server/ethereum/libethereum/AddressState.h\<close> and the accounts of \<open>State.cpp\<close>: the cache of account
  states over the state trie, balances, nonces, the memory of contracts, rewards. The state trie and the
  memory tries are only read here; what they answer is part of the surroundings (\<open>chain\<close>), as are the
  block, the hash functions and secp256k1. A memory trie has raw objects as keys (\<open>TrieDB<u256>\<close> takes
  the bytes of the C++ object), so what it answers is a parameter. \<open>checked\<close> says whether the
  library was compiled with its assertions.
\<close>

datatype ledger_exn =
    RlpError eth_exn
  | NotEnoughCash
  | BadInstruction
  | StackTooSmall u256 u256
  | OperandOutOfRange u256 u256 u256
  | ContractAddressCollision
  | FeeTooSmall
  | InvalidSignature
  | InvalidNonce u256 u256
  | DivisionByZero

subsection \<open>Account states\<close>

datatype address_type = Dead | Normal | Contract

record address_state =
  as_type :: address_type
  as_balance :: u256
  as_nonce :: u256
  as_root :: u256
  as_memory :: "(u256 \<times> u256) list"

definition normal_state :: "u256 \<Rightarrow> u256 \<Rightarrow> address_state" where
  "normal_state b n = \<lparr>as_type = Normal, as_balance = b, as_nonce = n, as_root = 0, as_memory = []\<rparr>"

definition contract_state :: "u256 \<Rightarrow> u256 \<Rightarrow> u256 \<Rightarrow> address_state" where
  "contract_state b n r = \<lparr>as_type = Contract, as_balance = b, as_nonce = n, as_root = r, as_memory = []\<rparr>"

definition dead_state :: address_state where
  "dead_state = \<lparr>as_type = Dead, as_balance = 0, as_nonce = 0, as_root = 0, as_memory = []\<rparr>"

definition inc_nonce :: "address_state \<Rightarrow> address_state" where
  "inc_nonce a = a\<lparr>as_nonce := as_nonce a + 1\<rparr>"

text \<open>The sum is one of unbounded numbers, and is cut to 256 bits.\<close>

definition raise_balance :: "int \<Rightarrow> address_state \<Rightarrow> address_state" where
  "raise_balance i a = a\<lparr>as_balance := of_int (uint (as_balance a) + i)\<rparr>"

definition kill_state :: "address_state \<Rightarrow> address_state" where
  "kill_state a = dead_state"

text \<open>As written: memory is said to be there when it is empty and there is a root.\<close>

definition have_memory :: "address_state \<Rightarrow> bool" where
  "have_memory a \<longleftrightarrow> as_memory a = [] \<and> as_root a \<noteq> 0"

subsection \<open>Surroundings\<close>

record chain =
  checked :: bool
  account_back :: "address \<Rightarrow> byte list eth"
  memory_back :: "u256 \<Rightarrow> (u256 \<times> byte list) list eth"
  memory_item :: "u256 \<Rightarrow> u256 \<Rightarrow> byte list eth"
  hash3 :: hasher
  coinbase :: address
  previous_hash :: u256
  block_time :: u256
  block_number :: nat
  block_difficulty :: u256

text \<open>
  The cache, the transactions executed, and the fees that the \<open>MinerFeeAdder\<close> objects in scope will pay,
  the innermost first.
\<close>

record ledger =
  lg_cache :: "(address \<times> address_state) list"
  lg_transactions :: "(u256 \<times> transaction) list"
  lg_fees :: "u256 list"

type_synonym 'a ledger_prog = "(ledger, ledger_exn, 'a) prog"

definition with_rlp :: "'a eth \<Rightarrow> 'a ledger_prog" where
  "with_rlp r = (case r of Val a \<Rightarrow> ret a | Exc e \<Rightarrow> throw (RlpError e) | Fault f \<Rightarrow> fault f)"

definition assert_that :: "'c chain_scheme \<Rightarrow> bool \<Rightarrow> unit ledger_prog" where
  "assert_that env b = (if checked env \<and> \<not> b then fault AssertFailed else ret ())"

text \<open>
  A trie opened at a root asks its data base for the root before it has set the pointer to it, in an
  assertion.
\<close>

definition open_trie :: "'c chain_scheme \<Rightarrow> unit ledger_prog" where
  "open_trie env = (if checked env then fault UndefinedBehaviour else ret ())"

definition cached :: "address \<Rightarrow> ledger \<Rightarrow> address_state option" where
  "cached a s = map_of (lg_cache s) a"

definition put_state :: "address \<Rightarrow> address_state \<Rightarrow> ledger \<Rightarrow> ledger" where
  "put_state a x s = s\<lparr>lg_cache := map_put a x (lg_cache s)\<rparr>"

text \<open>\<open>oldRoot\<close> and \<open>takeMemory\<close> of the entry of an address, which is there.\<close>

definition old_root :: "'c chain_scheme \<Rightarrow> address_state \<Rightarrow> u256 ledger_prog" where
  "old_root env x = thenp (assert_that env (\<not> have_memory x)) (ret (as_root x))"

definition take_memory :: "'c chain_scheme \<Rightarrow> address \<Rightarrow> unit ledger_prog" where
  "take_memory env a =
     bindp (gets (cached a)) (\<lambda>c.
       case c of
         None \<Rightarrow> fault UndefinedBehaviour
       | Some x \<Rightarrow>
           thenp (assert_that env (as_type x = Contract \<and> have_memory x)) (modify (put_state a (x\<lparr>as_root := 0\<rparr>))))"

subsection \<open>The cache\<close>

text \<open>What the state trie holds of an account: two or three items. A subscript reads a fresh object.\<close>

definition read_state :: "byte list \<Rightarrow> address_state eth" where
  "read_state back =
     (if back = [] then Val (normal_state 0 0)
      else
        obind (item_count (Some back)) (\<lambda>n.
        obind (obind (item_at (Some back) 0) view_u256) (\<lambda>b.
        obind (obind (item_at (Some back) 1) view_u256) (\<lambda>m.
          if n = 2 then Val (normal_state b m)
          else obind (obind (item_at (Some back) 2) (rlp_to_hash 32 strict)) (\<lambda>r.
                 Val (contract_state b m (u256_of_bytes r)))))))"

definition load_memory :: "address \<Rightarrow> (u256 \<times> byte list) list \<Rightarrow> unit ledger_prog" where
  "load_memory a items =
     forall_do items (\<lambda>(k, bs).
       bindp (with_rlp (view_u256 (Some bs))) (\<lambda>w.
         modify (\<lambda>s. case cached a s of None \<Rightarrow> s | Some x \<Rightarrow> put_state a (x\<lparr>as_memory := map_put k w (as_memory x)\<rparr>) s)))"

definition ensure_cached :: "'c chain_scheme \<Rightarrow> address \<Rightarrow> bool \<Rightarrow> bool \<Rightarrow> unit ledger_prog" where
  "ensure_cached env a require_memory force_create =
     bindp (gets (cached a)) (\<lambda>c.
     bindp
       (case c of
          Some x \<Rightarrow> ret (Some x)
        | None \<Rightarrow>
            bindp (with_rlp (account_back env a)) (\<lambda>back.
              if back = [] \<and> \<not> force_create then ret None
              else bindp (with_rlp (read_state back)) (\<lambda>x. thenp (modify (put_state a x)) (ret (Some x))))) (\<lambda>c.
       case c of
         None \<Rightarrow> ret ()
       | Some x \<Rightarrow>
           if require_memory \<and> \<not> have_memory x then
             thenp (assert_that env (as_type x = Contract))
            (bindp (old_root env x) (\<lambda>root.
             thenp (open_trie env)
            (thenp (take_memory env a)
            (bindp (with_rlp (memory_back env root)) (load_memory a)))))
           else ret ()))"

subsection \<open>Queries and changes\<close>

definition account :: "'c chain_scheme \<Rightarrow> address \<Rightarrow> address_state option ledger_prog" where
  "account env a = thenp (ensure_cached env a False False) (gets (cached a))"

definition is_normal_address :: "'c chain_scheme \<Rightarrow> address \<Rightarrow> bool ledger_prog" where
  "is_normal_address env a =
     bindp (account env a) (\<lambda>c. ret (case c of None \<Rightarrow> False | Some x \<Rightarrow> as_type x = Normal))"

definition is_contract_address :: "'c chain_scheme \<Rightarrow> address \<Rightarrow> bool ledger_prog" where
  "is_contract_address env a =
     bindp (account env a) (\<lambda>c. ret (case c of None \<Rightarrow> False | Some x \<Rightarrow> as_type x = Contract))"

definition balance :: "'c chain_scheme \<Rightarrow> address \<Rightarrow> u256 ledger_prog" where
  "balance env a = bindp (account env a) (\<lambda>c. ret (case c of None \<Rightarrow> 0 | Some x \<Rightarrow> as_balance x))"

definition transactions_from :: "'c chain_scheme \<Rightarrow> address \<Rightarrow> u256 ledger_prog" where
  "transactions_from env a = bindp (account env a) (\<lambda>c. ret (case c of None \<Rightarrow> 0 | Some x \<Rightarrow> as_nonce x))"

definition note_sending :: "'c chain_scheme \<Rightarrow> address \<Rightarrow> unit ledger_prog" where
  "note_sending env a =
     bindp (account env a) (\<lambda>c.
       modify (put_state a (case c of None \<Rightarrow> normal_state 0 1 | Some x \<Rightarrow> inc_nonce x)))"

definition add_balance :: "'c chain_scheme \<Rightarrow> address \<Rightarrow> u256 \<Rightarrow> unit ledger_prog" where
  "add_balance env a n =
     bindp (account env a) (\<lambda>c.
       modify (put_state a (case c of None \<Rightarrow> normal_state n 0 | Some x \<Rightarrow> raise_balance (uint n) x)))"

text \<open>The amount is a \<open>bigint\<close> and may be negative.\<close>

definition sub_balance :: "'c chain_scheme \<Rightarrow> address \<Rightarrow> int \<Rightarrow> unit ledger_prog" where
  "sub_balance env a n =
     bindp (account env a) (\<lambda>c.
       case c of
         None \<Rightarrow> throw NotEnoughCash
       | Some x \<Rightarrow>
           if uint (as_balance x) < n then throw NotEnoughCash else modify (put_state a (raise_balance (- n) x)))"

definition contract_memory :: "'c chain_scheme \<Rightarrow> address \<Rightarrow> u256 \<Rightarrow> u256 ledger_prog" where
  "contract_memory env a n =
     bindp (account env a) (\<lambda>c.
       case c of
         None \<Rightarrow> ret 0
       | Some x \<Rightarrow>
           if as_type x \<noteq> Contract then ret 0
           else if have_memory x then ret (case map_of (as_memory x) n of None \<Rightarrow> 0 | Some w \<Rightarrow> w)
           else
             bindp (old_root env x) (\<lambda>root.
             thenp (open_trie env)
            (bindp (with_rlp (memory_item env root n)) (\<lambda>bs. with_rlp (view_u256 (Some bs))))))"

definition block_reward :: u256 where
  "block_reward = 1000000000"

definition apply_rewards :: "'c chain_scheme \<Rightarrow> address list \<Rightarrow> unit ledger_prog" where
  "apply_rewards env uncles =
     thenp (forall_do uncles (\<lambda>u. add_balance env u (block_reward * 4 div 3)))
       (add_balance env (coinbase env) (foldl (\<lambda>r _. r + block_reward div 8) block_reward uncles))"

end
