(* ===== verification/EthVm.thy ===== *)
theory EthVm
  imports EthLedger
begin

section \<open>Transactions executed and contracts run\<close>

text \<open>
  \<open>State::execute\<close>, \<open>executeBare\<close> and the virtual machine of
  \<open>server/ethereum/libethereum/State.cpp\<close>. The stack is a list with its top in front; what runs off its
  end without a check of the code is undefined behaviour. Two numbers bound the steps of a run and the
  depth of the contracts that call each other; a run that needs more ends in \<open>NoFuel\<close>. Steps are counted
  in a natural number, the code's count has 256 bits.
\<close>

subsection \<open>Instructions\<close>

datatype instruction =
    STOP | ADD | SUB | MUL | DIV | SDIV | MOD | SMOD | EXP | NEG | LT | LE | GT | GE | EQ | LNOT
  | MYADDRESS | TXSENDER | TXVALUE | TXFEE | TXDATAN | TXDATA | BLK_PREVHASH | BLK_COINBASE
  | BLK_TIMESTAMP | BLK_NUMBER | BLK_DIFFICULTY
  | SHA256 | RIPEMD160 | ECMUL | ECADD | ECSIGN | ECRECOVER | ECVALID | SHA3
  | PUSH | POP | DUP | DUPN | SWAP | SWAPN | LOAD | STORE
  | JMP | JMPI | IND | EXTRO | BALANCE | MKTX | SUICIDE

definition opcodes :: "(u256 \<times> instruction) list" where
  "opcodes =
     [(0x00, STOP), (0x01, ADD), (0x02, SUB), (0x03, MUL), (0x04, DIV), (0x05, SDIV), (0x06, MOD), (0x07, SMOD),
      (0x08, EXP), (0x09, NEG), (0x0a, LT), (0x0b, LE), (0x0c, GT), (0x0d, GE), (0x0e, EQ), (0x0f, LNOT),
      (0x10, MYADDRESS), (0x11, TXSENDER), (0x12, TXVALUE), (0x13, TXFEE), (0x14, TXDATAN), (0x15, TXDATA),
      (0x16, BLK_PREVHASH), (0x17, BLK_COINBASE), (0x18, BLK_TIMESTAMP), (0x19, BLK_NUMBER), (0x1a, BLK_DIFFICULTY),
      (0x20, SHA256), (0x21, RIPEMD160), (0x22, ECMUL), (0x23, ECADD), (0x24, ECSIGN), (0x25, ECRECOVER),
      (0x26, ECVALID), (0x27, SHA3), (0x30, PUSH), (0x31, POP), (0x32, DUP), (0x33, DUPN), (0x34, SWAP),
      (0x35, SWAPN), (0x36, LOAD), (0x37, STORE), (0x40, JMP), (0x41, JMPI), (0x42, IND), (0x50, EXTRO),
      (0x51, BALANCE), (0x60, MKTX), (0xff, SUICIDE)]"

subsection \<open>Fees\<close>

definition step_fee :: int where "step_fee = 10000"
definition data_fee :: int where "data_fee = 20000"
definition memory_fee :: int where "memory_fee = 30000"
definition extro_fee :: int where "extro_fee = 40000"
definition crypto_fee :: int where "crypto_fee = 50000"
definition new_contract_fee :: int where "new_contract_fee = 60000"
definition tx_fee_const :: int where "tx_fee_const = 0"

text \<open>The fee of an instruction for the miner, beside that of the step. SHA3 is not among the others.\<close>

definition miner_fee :: "instruction option \<Rightarrow> int" where
  "miner_fee i =
     (if i = Some STORE \<or> i = Some LOAD then data_fee
      else if i = Some EXTRO \<or> i = Some BALANCE then extro_fee
      else if i = Some MKTX then tx_fee_const
      else if i \<in> {Some SHA256, Some RIPEMD160, Some ECMUL, Some ECADD, Some ECSIGN, Some ECRECOVER, Some ECVALID} then crypto_fee
      else 0)"

text \<open>What STORE pays for a word that comes into use, and gets back for one that goes out of use.\<close>

definition void_fee :: "u256 \<Rightarrow> u256 \<Rightarrow> int" where
  "void_fee old new =
     (if old = 0 \<and> new \<noteq> 0 then memory_fee else 0) - (if old \<noteq> 0 \<and> new = 0 then memory_fee else 0)"

subsection \<open>Contracts\<close>

record contract_call =
  cc_me :: address
  cc_sender :: address
  cc_value :: u256
  cc_fee :: u256
  cc_data :: "u256 list"

text \<open>
  The primitives of Crypto++ and secp256k1: the checks answer yes or no, the arithmetic the 65 bytes of
  a point. Recovery gets the word on the stack for the recovery id.
\<close>

record vm_chain = chain +
  sha2_hash :: hasher
  ripemd_hash :: hasher
  ec_verify :: "byte list \<Rightarrow> bool"
  ec_mul :: "byte list \<Rightarrow> byte list \<Rightarrow> byte list"
  ec_add :: "byte list \<Rightarrow> byte list \<Rightarrow> byte list"
  ec_recovers :: "byte list \<Rightarrow> byte list \<Rightarrow> u256 \<Rightarrow> bool"
  ec_recover_key :: recover

definition as_address :: "u256 \<Rightarrow> address" where
  "as_address w = left160 (u256_bytes w)"

definition word_of :: "address \<Rightarrow> u256 \<Rightarrow> ledger \<Rightarrow> u256" where
  "word_of me n s =
     (case cached me s of
        None \<Rightarrow> 0
      | Some x \<Rightarrow> (case map_of (as_memory x) n of None \<Rightarrow> 0 | Some w \<Rightarrow> w))"

definition set_word :: "address \<Rightarrow> u256 \<Rightarrow> u256 \<Rightarrow> unit ledger_prog" where
  "set_word me n w =
     modify (\<lambda>s. case cached me s of
        None \<Rightarrow> s
      | Some x \<Rightarrow>
          put_state me (x\<lparr>as_memory := if w \<noteq> 0 then map_put n w (as_memory x) else map_drop n (as_memory x)\<rparr>) s)"

definition require :: "nat \<Rightarrow> u256 list \<Rightarrow> unit ledger_prog" where
  "require n stk = (if length stk < n then throw (StackTooSmall (of_nat n) (of_nat (length stk))) else ret ())"

subsection \<open>Arithmetic\<close>

text \<open>
  Instructions that take two words and push one; \<open>a\<close> is the top. The signed operations take a reference
  to an unsigned number for one to a signed number; a division by zero throws.
\<close>

definition flag :: "bool \<Rightarrow> u256" where
  "flag b = (if b then 1 else 0)"

definition binary :: "instruction \<Rightarrow> (u256 \<Rightarrow> u256 \<Rightarrow> (ledger_exn, u256) outcome) option" where
  "binary i =
     (case i of
        ADD \<Rightarrow> Some (\<lambda>a b. Val (b + a))
      | MUL \<Rightarrow> Some (\<lambda>a b. Val (b * a))
      | SUB \<Rightarrow> Some (\<lambda>a b. Val (a - b))
      | DIV \<Rightarrow> Some (\<lambda>a b. if b = 0 then Exc DivisionByZero else Val (a div b))
      | MOD \<Rightarrow> Some (\<lambda>a b. if b = 0 then Exc DivisionByZero else Val (a mod b))
      | SDIV \<Rightarrow> Some (\<lambda>a b. Fault UndefinedBehaviour)
      | SMOD \<Rightarrow> Some (\<lambda>a b. Fault UndefinedBehaviour)
      | EXP \<Rightarrow> Some (\<lambda>a b. Val (((\<lambda>n. n * n) ^^ unat b) a))
      | LT \<Rightarrow> Some (\<lambda>a b. Val (flag (a < b)))
      | LE \<Rightarrow> Some (\<lambda>a b. Val (flag (a \<le> b)))
      | GT \<Rightarrow> Some (\<lambda>a b. Val (flag (a > b)))
      | GE \<Rightarrow> Some (\<lambda>a b. Val (flag (a \<ge> b)))
      | EQ \<Rightarrow> Some (\<lambda>a b. Val (flag (a = b)))
      | _ \<Rightarrow> None)"

text \<open>Instructions that only push a word.\<close>

definition pushed :: "'c chain_scheme \<Rightarrow> contract_call \<Rightarrow> u256 \<Rightarrow> instruction \<Rightarrow> u256 option" where
  "pushed env c pc i =
     (case i of
        MYADDRESS \<Rightarrow> Some (ucast (cc_me c))
      | TXSENDER \<Rightarrow> Some (ucast (cc_sender c))
      | TXVALUE \<Rightarrow> Some (cc_value c)
      | TXFEE \<Rightarrow> Some (cc_fee c)
      | TXDATAN \<Rightarrow> Some (of_nat (length (cc_data c)))
      | BLK_PREVHASH \<Rightarrow> Some (previous_hash env)
      | BLK_COINBASE \<Rightarrow> Some (ucast (coinbase env))
      | BLK_TIMESTAMP \<Rightarrow> Some (block_time env)
      | BLK_NUMBER \<Rightarrow> Some (of_nat (block_number env))
      | BLK_DIFFICULTY \<Rightarrow> Some (block_difficulty env)
      | IND \<Rightarrow> Some pc
      | _ \<Rightarrow> None)"

text \<open>
  The hash of the first bytes of the words below the top, as many as the top says and there are. The
  top is read without a check.
\<close>

fun hash_input :: "nat \<Rightarrow> u256 list \<Rightarrow> byte list \<times> u256 list" where
  "hash_input s [] = ([], [])"
| "hash_input s (w # stk) =
     (if s = 0 then ([], w # stk)
      else case hash_input (s - 32) stk of (bs, rest) \<Rightarrow> (take s (u256_bytes w) @ bs, rest))"

definition hash_words :: "hasher \<Rightarrow> u256 list \<Rightarrow> u256 list ledger_prog" where
  "hash_words h stk =
     (case stk of
        [] \<Rightarrow> fault UndefinedBehaviour
      | n # ws \<Rightarrow>
          (case hash_input (min (unat n) (32 * length ws)) ws of
             (bs, rest) \<Rightarrow> ret (of_nat (from_big_endian (h bs)) # rest)))"

definition hash_with :: "'c vm_chain_scheme \<Rightarrow> instruction \<Rightarrow> hasher option" where
  "hash_with env i =
     (case i of
        SHA256 \<Rightarrow> Some (sha2_hash env)
      | RIPEMD160 \<Rightarrow> Some (ripemd_hash env)
      | SHA3 \<Rightarrow> Some (hash3 env)
      | _ \<Rightarrow> None)"

subsection \<open>Points\<close>

definition point_bytes :: "u256 \<Rightarrow> u256 \<Rightarrow> byte list" where
  "point_bytes a b = 4 # u256_bytes b @ u256_bytes a"

definition push_point :: "byte list \<Rightarrow> u256 list \<Rightarrow> u256 list" where
  "push_point pub stk = u256_of_bytes (take 32 (drop 33 pub)) # u256_of_bytes (take 32 (drop 1 pub)) # stk"

text \<open>
  As written: ECSIGN hands 64 bytes of a message of 32 to the library; ECRECOVER takes success for
  failure, pushes zeros for it, and the uninitialised key otherwise; ECVALID replaces the third word,
  which need not be there.
\<close>

definition elliptic :: "'c vm_chain_scheme \<Rightarrow> instruction \<Rightarrow> u256 list \<Rightarrow> u256 list ledger_prog" where
  "elliptic env i stk =
     (case i of
        ECMUL \<Rightarrow>
          thenp (require 3 stk)
            (case stk of
               a # b # x # rest \<Rightarrow>
                 ret (if ec_verify env (point_bytes a b)
                      then push_point (ec_mul env (point_bytes a b) (u256_bytes x)) rest else 0 # 0 # rest)
             | _ \<Rightarrow> fault UndefinedBehaviour)
      | ECADD \<Rightarrow>
          thenp (require 4 stk)
            (case stk of
               a # b # c # d # rest \<Rightarrow>
                 ret (if ec_verify env (point_bytes a b) \<and> ec_verify env (point_bytes c d)
                      then push_point (ec_add env (point_bytes a b) (point_bytes c d)) rest else 0 # 0 # rest)
             | _ \<Rightarrow> fault UndefinedBehaviour)
      | ECSIGN \<Rightarrow> thenp (require 2 stk) (fault UndefinedBehaviour)
      | ECRECOVER \<Rightarrow>
          thenp (require 4 stk)
            (case stk of
               a # b # v # msg # rest \<Rightarrow>
                 if ec_recovers env (u256_bytes msg) (u256_bytes b @ u256_bytes a) v then ret (0 # 0 # rest)
                 else fault UndefinedBehaviour
             | _ \<Rightarrow> fault UndefinedBehaviour)
      | _ \<Rightarrow>
          thenp (require 2 stk)
            (case stk of
               a # b # x # rest \<Rightarrow> ret (flag (ec_verify env (point_bytes a b)) # rest)
             | _ \<Rightarrow> fault UndefinedBehaviour))"

subsection \<open>One instruction\<close>

text \<open>The end of the run, or the next program counter and stack.\<close>

datatype vm_next = Halt | Next u256 "u256 list"

text \<open>
  Words that are copied or exchanged: the operand of DUPN and SWAPN is the word behind the instruction.
  LNOT pops its own result.
\<close>

definition shuffle :: "instruction \<Rightarrow> u256 \<Rightarrow> u256 list \<Rightarrow> u256 list ledger_prog" where
  "shuffle i operand stk =
     (case i of
        POP \<Rightarrow> thenp (require 1 stk) (ret (tl stk))
      | DUP \<Rightarrow> thenp (require 1 stk) (ret (hd stk # stk))
      | SWAP \<Rightarrow> thenp (require 2 stk) (ret (stk ! 1 # stk ! 0 # drop 2 stk))
      | DUPN \<Rightarrow>
          if operand = 0 \<or> of_nat (length stk) < operand
          then throw (OperandOutOfRange 1 (of_nat (length stk)) operand)
          else ret (stk ! (unat operand - 1) # stk)
      | SWAPN \<Rightarrow>
          thenp (require 1 stk)
            (if operand = 0 \<or> of_nat (length stk) < operand
             then throw (OperandOutOfRange 1 (of_nat (length stk)) operand)
             else ret (stk[0 := stk ! (unat operand - 1), unat operand - 1 := stk ! 0]))
      | NEG \<Rightarrow> thenp (require 1 stk) (ret (NOT (hd stk - 1) # tl stk))
      | LNOT \<Rightarrow> thenp (require 1 stk) (ret (tl stk))
      | _ \<Rightarrow> ret stk)"

text \<open>Instructions that look at the ledger. EXTRO reads the memory of a contract.\<close>

definition lookup_word :: "'c vm_chain_scheme \<Rightarrow> contract_call \<Rightarrow> instruction \<Rightarrow> u256 list \<Rightarrow> u256 list ledger_prog" where
  "lookup_word env c i stk =
     (case i of
        LOAD \<Rightarrow> thenp (require 1 stk) (bindp (gets (word_of (cc_me c) (hd stk))) (\<lambda>w. ret (w # tl stk)))
      | EXTRO \<Rightarrow>
          thenp (require 2 stk)
            (bindp (contract_memory env (as_address (stk ! 1)) (stk ! 0)) (\<lambda>w. ret (w # drop 2 stk)))
      | BALANCE \<Rightarrow> thenp (require 1 stk) (bindp (balance env (as_address (hd stk))) (\<lambda>w. ret (w # tl stk)))
      | _ \<Rightarrow>
          thenp (require 1 stk)
            (ret ((if hd stk < of_nat (length (cc_data c)) then cc_data c ! unat (hd stk) else 0) # tl stk)))"

text \<open>MKTX: the transaction on the stack, executed with the contract for sender.\<close>

type_synonym executor = "transaction \<Rightarrow> address \<Rightarrow> unit ledger_prog"

definition make_transaction :: "executor \<Rightarrow> 'c vm_chain_scheme \<Rightarrow> contract_call \<Rightarrow> u256 list \<Rightarrow> u256 list ledger_prog" where
  "make_transaction exec env c stk =
     thenp (require 4 stk)
       (let n = stk ! 3; rest = drop 4 stk in
        if of_nat (length rest) < n then throw (OperandOutOfRange 0 (of_nat (length rest)) n)
        else
          bindp (transactions_from env (cc_me c)) (\<lambda>nonce.
          thenp
            (exec \<lparr>tx_nonce = nonce, tx_receive = as_address (stk ! 0), tx_value = stk ! 1, tx_fee = stk ! 2,
                    tx_data = take (unat n) rest, tx_vrs = None\<rparr> (cc_me c))
            (ret (drop (unat n) rest))))"

definition suicide :: "'c vm_chain_scheme \<Rightarrow> contract_call \<Rightarrow> u256 list \<Rightarrow> unit ledger_prog" where
  "suicide env c stk =
     thenp (require 1 stk)
       (bindp (gets (\<lambda>s. case cached (cc_me c) s of None \<Rightarrow> 0 | Some x \<Rightarrow> length (as_memory x))) (\<lambda>cells.
        bindp (balance env (cc_me c)) (\<lambda>b.
        thenp (add_balance env (as_address (hd stk)) (b + of_nat cells * of_int memory_fee))
          (modify (\<lambda>s. put_state (cc_me c) (case cached (cc_me c) s of None \<Rightarrow> dead_state | Some x \<Rightarrow> kill_state x) s)))))"

definition run_instruction ::
    "executor \<Rightarrow> 'c vm_chain_scheme \<Rightarrow> contract_call \<Rightarrow> u256 \<Rightarrow> instruction \<Rightarrow> u256 list \<Rightarrow> vm_next ledger_prog" where
  "run_instruction exec env c pc i stk =
     (let go = (\<lambda>stk. ret (Next (pc + 1) stk)) in
      case binary i of
        Some f \<Rightarrow> thenp (require 2 stk) (bindp (lift (f (stk ! 0) (stk ! 1))) (\<lambda>r. go (r # drop 2 stk)))
      | None \<Rightarrow>
      case pushed env c pc i of
        Some w \<Rightarrow> go (w # stk)
      | None \<Rightarrow>
      case hash_with env i of
        Some h \<Rightarrow> bindp (hash_words h stk) go
      | None \<Rightarrow>
      case i of
        STOP \<Rightarrow> ret Halt
      | SUICIDE \<Rightarrow> thenp (suicide env c stk) (ret Halt)
      | PUSH \<Rightarrow> bindp (gets (word_of (cc_me c) (pc + 1))) (\<lambda>w. ret (Next (pc + 2) (w # stk)))
      | JMP \<Rightarrow> thenp (require 1 stk) (ret (Next (hd stk) (tl stk)))
      | JMPI \<Rightarrow> thenp (require 2 stk) (ret (Next (if stk ! 0 \<noteq> 0 then stk ! 1 else pc + 1) (drop 2 stk)))
      | STORE \<Rightarrow> thenp (require 2 stk) (thenp (set_word (cc_me c) (stk ! 0) (stk ! 1)) (go (drop 2 stk)))
      | MKTX \<Rightarrow> bindp (make_transaction exec env c stk) go
      | _ \<Rightarrow>
      if i \<in> {DUPN, SWAPN} then
        bindp (gets (word_of (cc_me c) (pc + 1))) (\<lambda>w. bindp (shuffle i w stk) (\<lambda>stk. ret (Next (pc + 2) stk)))
      else if i \<in> {POP, DUP, SWAP, NEG, LNOT} then bindp (shuffle i 0 stk) go
      else if i \<in> {LOAD, EXTRO, BALANCE, TXDATA} then bindp (lookup_word env c i stk) go
      else bindp (elliptic env i stk) go)"

subsection \<open>One step\<close>

definition add_fee :: "int \<Rightarrow> ledger \<Rightarrow> ledger" where
  "add_fee n s = s\<lparr>lg_fees := (case lg_fees s of [] \<Rightarrow> [] | f # fs \<Rightarrow> (f + of_int n) # fs)\<rparr>"

text \<open>The fees of a step, paid by the contract; the miner's part is noted.\<close>

definition pay_step :: "'c vm_chain_scheme \<Rightarrow> contract_call \<Rightarrow> nat \<Rightarrow> instruction option \<Rightarrow> u256 list \<Rightarrow> unit ledger_prog" where
  "pay_step env c steps i stk =
     bindp
       (if i = Some STORE then
          thenp (require 2 stk) (bindp (gets (word_of (cc_me c) (stk ! 0))) (\<lambda>old. ret (void_fee old (stk ! 1))))
        else ret 0) (\<lambda>void.
      let fee = (if 16 < steps then step_fee else 0) + miner_fee i in
      bindp (balance env (cc_me c)) (\<lambda>b.
        if uint b < fee + void then throw NotEnoughCash
        else thenp (sub_balance env (cc_me c) (fee + void)) (modify (add_fee fee))))"

definition vm_step ::
    "executor \<Rightarrow> 'c vm_chain_scheme \<Rightarrow> contract_call \<Rightarrow> nat \<Rightarrow> u256 \<Rightarrow> u256 list \<Rightarrow> vm_next ledger_prog" where
  "vm_step exec env c steps pc stk =
     bindp (gets (word_of (cc_me c) pc)) (\<lambda>raw.
       if 0xff < raw then throw BadInstruction
       else
         (let i = map_of opcodes raw in
          thenp (pay_step env c steps i stk)
            (case i of None \<Rightarrow> throw BadInstruction | Some i \<Rightarrow> run_instruction exec env c pc i stk)))"

subsection \<open>Executing\<close>

text \<open>
  The destructor of \<open>MinerFeeAdder\<close> pays the fees however the block is left; an exception out of a
  destructor ends the process.
\<close>

definition paying_miner :: "'c chain_scheme \<Rightarrow> unit ledger_prog \<Rightarrow> unit ledger_prog" where
  "paying_miner env m s =
     (case m (s\<lparr>lg_fees := 0 # lg_fees s\<rparr>) of
        (t, Fault f) \<Rightarrow> (t, Fault f)
      | (t, r) \<Rightarrow>
          (case add_balance env (coinbase env) (hd (lg_fees t)) (t\<lparr>lg_fees := tl (lg_fees t)\<rparr>) of
             (u, Val _) \<Rightarrow> (u, r)
           | (u, Exc _) \<Rightarrow> (u, Fault AssertFailed)
           | (u, Fault f) \<Rightarrow> (u, Fault f)))"

definition create_contract :: "'c chain_scheme \<Rightarrow> transaction \<Rightarrow> address \<Rightarrow> unit ledger_prog" where
  "create_contract env t from =
     (if tx_fee t < of_nat (length (tx_data t)) * of_int memory_fee + of_int new_contract_fee then throw FeeTooSmall
      else
        bindp (with_rlp (transaction_sha3 (hash3 env) True t)) (\<lambda>h.
        let new = (ucast (u256_of_bytes h) :: address) in
        bindp (is_contract_address env new) (\<lambda>is_contract.
        bindp (if is_contract then ret True else is_normal_address env new) (\<lambda>taken.
        if taken then throw ContractAddressCollision
        else
          thenp (modify (put_state new (contract_state 0 0 (u256_of_bytes (hash3 env [0x80])))))
         (thenp (take_memory env new)
         (thenp (forall_do (zip [0..<length (tx_data t)] (tx_data t)) (\<lambda>(i, w).
                   modify (\<lambda>s. case cached new s of
                       None \<Rightarrow> s
                     | Some x \<Rightarrow> put_state new (x\<lparr>as_memory := map_put (of_nat i) w (as_memory x)\<rparr>) s)))
         (thenp (sub_balance env from (uint (tx_value t + tx_fee t)))
         (thenp (add_balance env new (tx_value t))
                (add_balance env (coinbase env) (tx_fee t))))))))))"

definition call_of :: "transaction \<Rightarrow> address \<Rightarrow> contract_call" where
  "call_of t from =
     \<lparr>cc_me = tx_receive t, cc_sender = from, cc_value = tx_value t, cc_fee = tx_fee t, cc_data = tx_data t\<rparr>"

definition execute_bare_with :: "(contract_call \<Rightarrow> unit ledger_prog) \<Rightarrow> 'c chain_scheme \<Rightarrow> executor" where
  "execute_bare_with run env t from =
     bindp (transactions_from env from) (\<lambda>required.
     if tx_nonce t \<noteq> required then throw (InvalidNonce required (tx_nonce t))
     else
       bindp (balance env from) (\<lambda>b.
       if b < tx_value t + tx_fee t then throw NotEnoughCash
       else
         thenp (note_sending env from)
           (if tx_receive t \<noteq> 0 then
              thenp (sub_balance env from (uint (tx_value t + tx_fee t)))
             (thenp (add_balance env (tx_receive t) (tx_value t))
             (thenp (add_balance env (coinbase env) (tx_fee t))
             (bindp (is_contract_address env (tx_receive t)) (\<lambda>is_contract.
                if is_contract then paying_miner env (run (call_of t from)) else ret ()))))
            else create_contract env t from)))"

definition start_contract :: "'c chain_scheme \<Rightarrow> contract_call \<Rightarrow> unit ledger_prog" where
  "start_contract env c = thenp (ensure_cached env (cc_me c) True True) (take_memory env (cc_me c))"

fun vm_run :: "nat \<Rightarrow> executor \<Rightarrow> 'c vm_chain_scheme \<Rightarrow> contract_call \<Rightarrow> nat \<Rightarrow> u256 \<Rightarrow> u256 list \<Rightarrow> unit ledger_prog" where
  "vm_run 0 exec env c steps pc stk = fault NoFuel"
| "vm_run (Suc n) exec env c steps pc stk =
     bindp (vm_step exec env c (steps + 1) pc stk)
       (\<lambda>r. case r of Halt \<Rightarrow> ret () | Next pc stk \<Rightarrow> vm_run n exec env c (steps + 1) pc stk)"

definition execute_contract :: "nat \<Rightarrow> executor \<Rightarrow> 'c vm_chain_scheme \<Rightarrow> contract_call \<Rightarrow> unit ledger_prog" where
  "execute_contract n exec env c = thenp (start_contract env c) (vm_run n exec env c 0 0 [])"

text \<open>\<open>d\<close> bounds the depth of contracts that call contracts, \<open>n\<close> the steps of each.\<close>

fun execute_bare :: "nat \<Rightarrow> nat \<Rightarrow> 'c vm_chain_scheme \<Rightarrow> executor" where
  "execute_bare 0 n env = execute_bare_with (\<lambda>c. fault NoFuel) env"
| "execute_bare (Suc d) n env = execute_bare_with (execute_contract n (execute_bare d n env) env) env"

text \<open>The entry point for a transaction of a user, as bytes; \<open>None\<close> when reading them does not end.\<close>

definition execute_rlp :: "nat \<Rightarrow> nat \<Rightarrow> 'c vm_chain_scheme \<Rightarrow> byte list \<Rightarrow> ledger \<Rightarrow> (ledger \<times> (ledger_exn, unit) outcome) option" where
  "execute_rlp d n env bs s =
     (case read_transaction bs of
        None \<Rightarrow> None
      | Some r \<Rightarrow>
          Some (bindp (with_rlp r) (\<lambda>t.
                bindp (with_rlp (sender (hash3 env) (ec_recover_key env) t)) (\<lambda>a.
                case a of
                  None \<Rightarrow> throw InvalidSignature
                | Some from \<Rightarrow>
                    thenp (execute_bare d n env t from)
                   (bindp (with_rlp (transaction_sha3 (hash3 env) True t)) (\<lambda>h.
                      modify (\<lambda>s. case map_of (lg_transactions s) (u256_of_bytes h) of
                          Some _ \<Rightarrow> s
                        | None \<Rightarrow> s\<lparr>lg_transactions := map_put (u256_of_bytes h) t (lg_transactions s)\<rparr>))))) s))"

end
