(* ===== verification/EthWorth.thy ===== *)
theory EthWorth
  imports EthVm
begin

section \<open>Accounts as they are seen, and what they are worth\<close>

text \<open>
  An account is the entry of the cache, or what the state trie holds. The operations of the ledger are
  stated over this view, and the worth of a ledger is defined on it: the sum of all balances, of the
  fees that are noted for the miner, and of what the words of the memory of contracts were paid for.
  All sums are modulo \<open>2\<^sup>2\<^sup>5\<^sup>6\<close>, as the balances are.
\<close>

subsection \<open>The view\<close>

definition backing :: "'c chain_scheme \<Rightarrow> address \<Rightarrow> address_state option" where
  "backing env a =
     (case account_back env a of
        Val bs \<Rightarrow> if bs = [] then None else (case read_state bs of Val x \<Rightarrow> Some x | _ \<Rightarrow> None)
      | _ \<Rightarrow> None)"

text \<open>Every account of the state trie can be read.\<close>

definition readable :: "'c chain_scheme \<Rightarrow> bool" where
  "readable env \<longleftrightarrow> (\<forall>a. \<exists>bs. account_back env a = Val bs \<and> (bs = [] \<or> (\<exists>x. read_state bs = Val x)))"

definition seen :: "'c chain_scheme \<Rightarrow> ledger \<Rightarrow> address \<Rightarrow> address_state option" where
  "seen env s a = (case cached a s of None \<Rightarrow> backing env a | Some x \<Rightarrow> Some x)"

definition load :: "'c chain_scheme \<Rightarrow> address \<Rightarrow> ledger \<Rightarrow> ledger" where
  "load env a s =
     (case cached a s of
        Some _ \<Rightarrow> s
      | None \<Rightarrow> (case backing env a of None \<Rightarrow> s | Some x \<Rightarrow> put_state a x s))"

lemma cached_put [simp]: "cached a (put_state b x s) = (if a = b then Some x else cached a s)"
  by (simp add: cached_def put_state_def)

lemma put_state_fields [simp]:
  "lg_fees (put_state a x s) = lg_fees s" "lg_transactions (put_state a x s) = lg_transactions s"
  by (simp_all add: put_state_def)

lemma cached_fees [simp]: "cached a (s\<lparr>lg_fees := fs\<rparr>) = cached a s"
  by (simp add: cached_def)

lemma seen_put [simp]: "seen env (put_state b x s) a = (if a = b then Some x else seen env s a)"
  by (simp add: seen_def)

lemma seen_fees [simp]: "seen env (s\<lparr>lg_fees := fs\<rparr>) = seen env s"
  by (simp add: seen_def fun_eq_iff)

lemma seen_load [simp]: "seen env (load env b s) = seen env s"
  by (auto simp: load_def seen_def fun_eq_iff split: option.split)

lemma load_fees [simp]: "lg_fees (load env a s) = lg_fees s"
  by (simp add: load_def split: option.split)

lemma cached_load_self [simp]: "cached a (load env a s) = seen env s a"
  by (simp add: load_def seen_def split: option.split)

lemma cached_load: "cached b (load env a s) = (if b = a then seen env s a else cached b s)"
  by (simp add: load_def seen_def split: option.split)

lemma account_apply:
  assumes "readable env"
  shows "account env a s = (load env a s, Val (seen env s a))"
proof -
  obtain bs where b: "account_back env a = Val bs" "bs = [] \<or> (\<exists>x. read_state bs = Val x)"
    using assms by (auto simp: readable_def)
  show ?thesis
  proof (cases "cached a s")
    case None
    then show ?thesis using b
      by (auto simp: account_def ensure_cached_def with_rlp_def load_def seen_def backing_def bindp_def prog_simps)
  next
    case (Some x)
    then show ?thesis by (simp add: account_def ensure_cached_def load_def seen_def bindp_def prog_simps)
  qed
qed

definition balance_of :: "'c chain_scheme \<Rightarrow> ledger \<Rightarrow> address \<Rightarrow> u256" where
  "balance_of env s a = (case seen env s a of None \<Rightarrow> 0 | Some x \<Rightarrow> as_balance x)"

definition nonce_of :: "'c chain_scheme \<Rightarrow> ledger \<Rightarrow> address \<Rightarrow> u256" where
  "nonce_of env s a = (case seen env s a of None \<Rightarrow> 0 | Some x \<Rightarrow> as_nonce x)"

definition grown :: "u256 \<Rightarrow> address_state option \<Rightarrow> address_state" where
  "grown n c = (case c of None \<Rightarrow> normal_state n 0 | Some x \<Rightarrow> raise_balance (uint n) x)"

definition noted :: "address_state option \<Rightarrow> address_state" where
  "noted c = (case c of None \<Rightarrow> normal_state 0 1 | Some x \<Rightarrow> inc_nonce x)"

lemma bindp_account:
  "readable env \<Longrightarrow> bindp (account env a) f s = f (seen env s a) (load env a s)"
  by (simp add: bindp_def account_apply)

lemma ledger_ops:
  assumes "readable env"
  shows "balance env a s = (load env a s, Val (balance_of env s a))"
    and "transactions_from env a s = (load env a s, Val (nonce_of env s a))"
    and "is_contract_address env a s = (load env a s, Val (\<exists>x. seen env s a = Some x \<and> as_type x = Contract))"
    and "is_normal_address env a s = (load env a s, Val (\<exists>x. seen env s a = Some x \<and> as_type x = Normal))"
    and "note_sending env a s = (put_state a (noted (seen env s a)) (load env a s), Val ())"
    and "add_balance env a n s = (put_state a (grown n (seen env s a)) (load env a s), Val ())"
    and "sub_balance env a m s =
      (case seen env s a of
         None \<Rightarrow> (load env a s, Exc NotEnoughCash)
       | Some x \<Rightarrow>
           if uint (as_balance x) < m then (load env a s, Exc NotEnoughCash)
           else (put_state a (raise_balance (- m) x) (load env a s), Val ()))"
  by (simp_all add: balance_def transactions_from_def is_contract_address_def is_normal_address_def note_sending_def
      add_balance_def sub_balance_def bindp_account [OF assms] prog_simps balance_of_def nonce_of_def noted_def grown_def
      split: option.split)

subsection \<open>Worth\<close>

text \<open>Only words that are not zero were paid for.\<close>

definition used_words :: "(u256 \<times> u256) list \<Rightarrow> nat" where
  "used_words ws = length (filter (\<lambda>e. snd e \<noteq> 0) ws)"

definition paid_words :: "(u256 \<times> u256) list \<Rightarrow> u256" where
  "paid_words ws = of_nat (used_words ws) * of_int memory_fee"

lemma used_words_simps [simp]:
  "used_words [] = 0" "used_words (e # ws) = (if snd e \<noteq> 0 then 1 else 0) + used_words ws"
  by (simp_all add: used_words_def)

lemma used_words_le: "used_words ws \<le> length ws"
  by (simp add: used_words_def)

definition word_at :: "(u256 \<times> u256) list \<Rightarrow> u256 \<Rightarrow> u256" where
  "word_at ws n = (case map_of ws n of None \<Rightarrow> 0 | Some w \<Rightarrow> w)"

lemma word_at_simps [simp]:
  "word_at [] n = 0" "word_at (e # ws) n = (if fst e = n then snd e else word_at ws n)"
  by (simp_all add: word_at_def)

lemma word_at_absent: "n \<notin> fst ` set ws \<Longrightarrow> word_at ws n = 0"
  by (induction ws) auto

lemma used_put:
  "ascending ws \<Longrightarrow>
   used_words (map_put n w ws) + (if word_at ws n \<noteq> 0 then 1 else 0) = used_words ws + (if w \<noteq> 0 then 1 else 0)"
proof (induction n w ws rule: map_put.induct)
  case (2 n w m v ws)
  show ?case
  proof (cases "n < m")
    case True
    then have "n \<notin> fst ` set ((m, v) # ws)" using 2(2) by auto
    then show ?thesis using True word_at_absent [of n "(m, v) # ws"] by auto
  next
    case False
    then show ?thesis using 2 by auto
  qed
qed simp

lemma used_drop: "ascending ws \<Longrightarrow> used_words (map_drop n ws) + (if word_at ws n \<noteq> 0 then 1 else 0) = used_words ws"
proof (induction ws)
  case (Cons e ws)
  show ?case
  proof (cases "fst e = n")
    case True
    then have "n \<notin> fst ` set ws" "map_drop n (e # ws) = ws" using Cons.prems by (auto simp: map_drop_def filter_id_conv)
    then show ?thesis using True by simp
  next
    case False
    then show ?thesis using Cons by (simp add: map_drop_def)
  qed
qed (simp add: map_drop_def)

definition value_of :: "address_state option \<Rightarrow> u256" where
  "value_of c = (case c of None \<Rightarrow> 0 | Some x \<Rightarrow> as_balance x + paid_words (as_memory x))"

definition worth :: "'c chain_scheme \<Rightarrow> ledger \<Rightarrow> u256" where
  "worth env s = (\<Sum>a\<in>UNIV. value_of (seen env s a)) + sum_list (lg_fees s)"

lemma sum_update:
  fixes f :: "'a::finite \<Rightarrow> u256"
  shows "(\<Sum>x\<in>UNIV. if x = a then v else f x) = (\<Sum>x\<in>UNIV. f x) - f a + v"
proof -
  have "(\<Sum>x\<in>UNIV. if x = a then v else f x) = v + (\<Sum>x\<in>UNIV - {a}. f x)"
    by (subst sum.remove [of UNIV a]) auto
  moreover have "(\<Sum>x\<in>UNIV. f x) = f a + (\<Sum>x\<in>UNIV - {a}. f x)" by (subst sum.remove [of UNIV a]) auto
  ultimately show ?thesis by simp
qed

lemma worth_put: "worth env (put_state a x s) = worth env s - value_of (seen env s a) + value_of (Some x)"
proof -
  have "(\<Sum>b\<in>UNIV. value_of (seen env (put_state a x s) b)) = (\<Sum>b\<in>UNIV. if b = a then value_of (Some x) else value_of (seen env s b))"
    by (rule sum.cong) simp_all
  then show ?thesis by (simp add: worth_def sum_update)
qed

lemma worth_load [simp]: "worth env (load env a s) = worth env s"
  by (simp add: worth_def)

lemma worth_fees: "worth env (s\<lparr>lg_fees := fs\<rparr>) = worth env s - sum_list (lg_fees s) + sum_list fs"
  by (simp add: worth_def)

lemma of_uint_u256 [simp]: "of_int (uint (w::u256)) = w"
  by simp

lemma value_raise [simp]: "value_of (Some (raise_balance i x)) = value_of (Some x) + of_int i"
  by (simp add: value_of_def raise_balance_def)

lemma value_grown [simp]: "value_of (Some (grown n c)) = value_of c + n"
  by (cases c) (simp_all add: grown_def, simp add: value_of_def normal_state_def paid_words_def)

lemma value_noted [simp]: "value_of (Some (noted c)) = value_of c"
  by (cases c) (simp_all add: noted_def value_of_def normal_state_def inc_nonce_def paid_words_def)

text \<open>
  The entries of the cache are in order: their memory is ascending and holds no zeros, one with a root
  has no memory, and a dead one has none.
\<close>

definition sound :: "address_state \<Rightarrow> bool" where
  "sound x \<longleftrightarrow>
     ascending (as_memory x) \<and> 0 \<notin> snd ` set (as_memory x) \<and> (as_memory x = [] \<or> as_root x = 0)
     \<and> (as_type x = Dead \<longrightarrow> as_memory x = [])"

definition orderly :: "ledger \<Rightarrow> bool" where
  "orderly s \<longleftrightarrow> (\<forall>a x. cached a s = Some x \<longrightarrow> sound x)"

lemma orderly_put: "orderly s \<Longrightarrow> sound x \<Longrightarrow> orderly (put_state a x s)"
  by (auto simp: orderly_def)

lemma sound_backing: "backing env a = Some x \<Longrightarrow> sound x"
  by (auto simp: backing_def read_state_def sound_def normal_state_def contract_state_def obind_eq_Val
      split: outcome.splits if_splits)

lemma orderly_seen: "orderly s \<Longrightarrow> seen env s a = Some x \<Longrightarrow> sound x"
  using sound_backing by (auto simp: orderly_def seen_def split: option.splits)

lemma orderly_load [simp]: "orderly s \<Longrightarrow> orderly (load env a s)"
  using sound_backing by (auto simp: load_def orderly_def split: option.splits)

lemma orderly_fees [simp]: "orderly (s\<lparr>lg_fees := fs\<rparr>) = orderly s"
  by (simp add: orderly_def)

lemma sound_parts [simp]:
  "sound (normal_state b n)" "sound (contract_state b n r)" "sound dead_state"
  "sound x \<Longrightarrow> sound (raise_balance i x)" "sound x \<Longrightarrow> sound (inc_nonce x)"
  by (simp_all add: sound_def normal_state_def contract_state_def dead_state_def raise_balance_def inc_nonce_def)

lemma sound_grown: "(\<And>x. c = Some x \<Longrightarrow> sound x) \<Longrightarrow> sound (grown n c)"
  by (cases c) (simp_all add: grown_def)

lemma sound_noted: "(\<And>x. c = Some x \<Longrightarrow> sound x) \<Longrightarrow> sound (noted c)"
  by (cases c) (simp_all add: noted_def)

subsection \<open>A contract begins to run\<close>

text \<open>The memory trie of the root zero, which stands for the null trie, is empty.\<close>

definition null_trie :: "'c chain_scheme \<Rightarrow> bool" where
  "null_trie env \<longleftrightarrow> memory_back env 0 = Val []"

definition arrived :: "'c chain_scheme \<Rightarrow> ledger \<Rightarrow> address \<Rightarrow> address_state" where
  "arrived env s a = (case seen env s a of None \<Rightarrow> normal_state 0 0 | Some x \<Rightarrow> x)"

definition arrive_at :: "'c chain_scheme \<Rightarrow> address \<Rightarrow> ledger \<Rightarrow> ledger" where
  "arrive_at env a s = (case seen env s a of None \<Rightarrow> put_state a (normal_state 0 0) s | Some x \<Rightarrow> load env a s)"

lemma map_put_put [simp]: "map_put k v (map_put k w m) = map_put k v m"
  by (induction k w m rule: map_put.induct) auto

lemma put_put [simp]: "put_state a y (put_state a x s) = put_state a y s"
  by (simp add: put_state_def)

lemma cached_arrive_at [simp]: "cached a (arrive_at env a s) = Some (arrived env s a)"
  by (simp add: arrive_at_def arrived_def split: option.split)

lemma with_rlp_Val [simp]: "with_rlp (Val a) = ret a"
  by (simp add: with_rlp_def)

lemma bindp_step: "bindp (\<lambda>s. (f s, Val v)) g s = g v (f s)"
  by (simp add: bindp_def)

lemma ensure_cached_arrives:
  assumes "readable env"
  shows "ensure_cached env a True True s =
    (let x = arrived env s a; t = arrive_at env a s in
     if have_memory x then (t, Val ())
     else
       (thenp (assert_that env (as_type x = Contract))
          (bindp (old_root env x) (\<lambda>root.
           thenp (open_trie env)
          (thenp (take_memory env a)
          (bindp (with_rlp (memory_back env root)) (load_memory a)))))) t)"
proof -
  obtain bs where b: "account_back env a = Val bs" "bs = [] \<or> (\<exists>x. read_state bs = Val x)"
    using assms by (auto simp: readable_def)
  show ?thesis
  proof (cases "cached a s")
    case (Some x)
    then show ?thesis
      by (simp add: ensure_cached_def arrived_def arrive_at_def seen_def load_def Let_def ret_apply)
  next
    case None
    have n: "read_state [] = Val (normal_state 0 0)" by (simp add: read_state_def)
    show ?thesis
    proof (cases "bs = []")
      case True
      then show ?thesis using None b n
        by (simp add: ensure_cached_def arrived_def arrive_at_def seen_def backing_def Let_def bindp_assoc bindp_step ret_apply)
    next
      case False
      then obtain x where "read_state bs = Val x" using b by auto
      then show ?thesis using None b False
        by (simp add: ensure_cached_def arrived_def arrive_at_def seen_def load_def backing_def Let_def bindp_assoc bindp_step ret_apply)
    qed
  qed
qed

lemma sound_arrived: "orderly s \<Longrightarrow> sound (arrived env s a)"
  using orderly_seen [of s env a] by (auto simp: arrived_def split: option.split)

lemma take_memory_apply:
  "cached a s = Some x \<Longrightarrow>
   take_memory env a s =
     (if checked env \<and> \<not> (as_type x = Contract \<and> have_memory x) then (s, Fault AssertFailed)
      else (put_state a (x\<lparr>as_root := 0\<rparr>) s, Val ()))"
  by (simp add: take_memory_def assert_that_def prog_simps)

lemma start_contract_apply:
  assumes "readable env" and "null_trie env" and "sound (arrived env s (cc_me c))"
  shows "start_contract env c s =
    (let a = cc_me c; x = arrived env s a; t = arrive_at env a s in
     if checked env then
       (if as_type x \<noteq> Contract then (t, Fault AssertFailed)
        else if have_memory x then (put_state a (x\<lparr>as_root := 0\<rparr>) t, Val ())
        else (t, Fault UndefinedBehaviour))
     else (put_state a (x\<lparr>as_root := 0\<rparr>) t, Val ()))"
proof -
  let ?a = "cc_me c"
  let ?x = "arrived env s ?a"
  note x = assms(3)
  show ?thesis
  proof (cases "have_memory ?x")
    case True
    have "start_contract env c s = take_memory env ?a (arrive_at env ?a s)"
      using True by (simp add: start_contract_def bindp_def ensure_cached_arrives [OF assms(1)] Let_def)
    then show ?thesis using True by (auto simp: take_memory_apply Let_def)
  next
    case False
    then have r: "as_root ?x = 0" using x by (auto simp: sound_def have_memory_def)
    then have e: "?x\<lparr>as_root := 0\<rparr> = ?x" by simp
    show ?thesis
    proof (cases "checked env")
      case True
      then show ?thesis using False
        by (auto simp: start_contract_def bindp_def ensure_cached_arrives [OF assms(1)] Let_def assert_that_def old_root_def
            open_trie_def prog_simps)
    next
      case f: False
      have "(thenp (assert_that env (as_type ?x = Contract))
          (bindp (old_root env ?x) (\<lambda>root.
           thenp (open_trie env)
          (thenp (take_memory env ?a)
          (bindp (with_rlp (memory_back env root)) (load_memory ?a)))))) (arrive_at env ?a s) = (put_state ?a ?x (arrive_at env ?a s), Val ())"
        using f assms(2) r
        by (simp add: assert_that_def old_root_def open_trie_def bindp_def take_memory_apply null_trie_def load_memory_def
            prog_simps e)
      then have "start_contract env c s = take_memory env ?a (put_state ?a ?x (arrive_at env ?a s))"
        using False by (simp add: start_contract_def bindp_def ensure_cached_arrives [OF assms(1)] Let_def)
      then show ?thesis using f by (simp add: take_memory_apply Let_def e)
    qed
  qed
qed

end
