(* ===== verification/EthVmProps.thy ===== *)
theory EthVmProps
  imports EthWorth
begin

section \<open>Money and contracts\<close>

text \<open>
  What executing transactions does to the worth of a ledger, to nonces and to balances, what single
  instructions do, and how long a contract can run.
\<close>

subsection \<open>One instruction\<close>

text \<open>
  What only loads accounts into the cache keeps every relation that loading keeps. That is so for all
  instructions but STORE and SUICIDE, if it is so for the transactions that MKTX executes; these have no
  signature.
\<close>

definition unsigned_in :: "(ledger \<Rightarrow> ledger \<Rightarrow> bool) \<Rightarrow> executor \<Rightarrow> bool" where
  "unsigned_in R exec \<longleftrightarrow> (\<forall>t from. tx_vrs t = None \<longrightarrow> steps_in R (exec t from))"

locale calm_rel = step_rel R for R :: "ledger \<Rightarrow> ledger \<Rightarrow> bool" +
  fixes env :: "'c vm_chain_scheme"
  assumes calm: "R s (load env a s)"
begin

lemma in_account:
  assumes "readable env"
  shows "steps_in R (account env a)" and "steps_in R (balance env a)" and "steps_in R (transactions_from env a)"
    and "steps_in R (is_contract_address env a)" and "steps_in R (is_normal_address env a)"
  by (simp_all add: steps_in_def account_apply [OF assms] ledger_ops [OF assms] calm)

lemma in_with_rlp: "steps_in R (with_rlp r)"
  by (cases r) (simp_all add: with_rlp_def step_rules)

lemma in_checks: "steps_in R (assert_that e x)" "steps_in R (open_trie e)" "steps_in R (old_root e y)" "steps_in R (require n stk)"
  by (simp_all add: assert_that_def open_trie_def old_root_def require_def step_rules)

lemma in_contract_memory: "readable env \<Longrightarrow> steps_in R (contract_memory env a n)"
  unfolding contract_memory_def
  by (intro in_bindp in_account in_option in_if in_ret in_checks in_with_rlp)

lemma in_hash_words: "steps_in R (hash_words h stk)"
  by (cases stk) (simp_all add: hash_words_def step_rules split: prod.split)

lemma in_list:
  "steps_in R m \<Longrightarrow> (\<And>a as. steps_in R (f a as)) \<Longrightarrow> steps_in R (case xs of [] \<Rightarrow> m | a # as \<Rightarrow> f a as)"
  by (cases xs) simp_all

lemma in_elliptic: "steps_in R (elliptic e i stk)"
  unfolding elliptic_def
  by (cases i; simp only: instruction.case) (intro in_bindp in_checks in_list in_if in_ret in_fault)+

lemma in_shuffle: "steps_in R (shuffle i w stk)"
  unfolding shuffle_def by (cases i) (simp_all add: in_bindp in_checks in_fault in_ret in_throw)

lemma in_lookup_word:
  assumes "readable env"
  shows "steps_in R (lookup_word env c i stk)"
  unfolding lookup_word_def
  by (cases i) (simp_all add: in_bindp in_checks in_account [OF assms] in_contract_memory [OF assms] in_ret in_gets)

lemma in_make_transaction:
  assumes "readable env" and "unsigned_in R exec"
  shows "steps_in R (make_transaction exec env c stk)"
  unfolding make_transaction_def Let_def
  by (intro in_bindp in_if in_checks in_throw in_account [OF assms(1)] in_ret)
    (use assms(2) in \<open>simp add: unsigned_in_def\<close>)

lemma in_plain_instruction:
  assumes "readable env" and "unsigned_in R exec" and "i \<noteq> STORE" and "i \<noteq> SUICIDE"
  shows "steps_in R (run_instruction exec env c pc i stk)"
  using assms(3,4) unfolding run_instruction_def Let_def
  by (cases i) (simp_all add: binary_def pushed_def hash_with_def bindp_assoc in_bindp in_checks in_lift in_fault in_ret in_gets
      in_hash_words in_make_transaction [OF assms(1,2)] in_shuffle in_lookup_word [OF assms(1)] in_elliptic)

end

subsection \<open>Worth is kept unless a contract dies\<close>

text \<open>
  \<open>settles env\<close>: the worth is the same or an account died; entries stay in order, no noted fee is
  dropped and the dead stay dead. \<open>running\<close> demands that the fees of the running contract are noted.
\<close>

definition dead_in :: "'c chain_scheme \<Rightarrow> ledger \<Rightarrow> address \<Rightarrow> bool" where
  "dead_in env s a \<longleftrightarrow> (\<exists>x. seen env s a = Some x \<and> as_type x = Dead)"

definition settles :: "'c chain_scheme \<Rightarrow> ledger \<Rightarrow> ledger \<Rightarrow> bool" where
  "settles env s t \<longleftrightarrow>
     (orderly s \<longrightarrow>
        orderly t \<and> length (lg_fees s) \<le> length (lg_fees t) \<and> (\<forall>a. dead_in env s a \<longrightarrow> dead_in env t a)
        \<and> (worth env t = worth env s \<or> (\<exists>a. dead_in env t a \<and> \<not> dead_in env s a)))"

definition running :: "'c chain_scheme \<Rightarrow> ledger \<Rightarrow> ledger \<Rightarrow> bool" where
  "running env s t \<longleftrightarrow> (lg_fees s \<noteq> [] \<longrightarrow> settles env s t)"

lemma settles_refl: "settles env s s"
  by (simp add: settles_def)

lemma settles_trans: "settles env s t \<Longrightarrow> settles env t u \<Longrightarrow> settles env s u"
proof -
  assume a: "settles env s t" "settles env t u"
  {
    assume "orderly s"
    then have t: "orderly t" "length (lg_fees s) \<le> length (lg_fees t)" "\<forall>a. dead_in env s a \<longrightarrow> dead_in env t a"
        "worth env t = worth env s \<or> (\<exists>a. dead_in env t a \<and> \<not> dead_in env s a)"
      using a(1) unfolding settles_def by blast+
    then have u: "orderly u" "length (lg_fees t) \<le> length (lg_fees u)" "\<forall>a. dead_in env t a \<longrightarrow> dead_in env u a"
        "worth env u = worth env t \<or> (\<exists>a. dead_in env u a \<and> \<not> dead_in env t a)"
      using a(2) unfolding settles_def by blast+
    have "worth env u = worth env s \<or> (\<exists>a. dead_in env u a \<and> \<not> dead_in env s a)"
      using t(3,4) u(3,4) by (auto; blast)
    then have "orderly u \<and> length (lg_fees s) \<le> length (lg_fees u) \<and> (\<forall>a. dead_in env s a \<longrightarrow> dead_in env u a)
        \<and> (worth env u = worth env s \<or> (\<exists>a. dead_in env u a \<and> \<not> dead_in env s a))"
      using t u by simp
  }
  then show ?thesis unfolding settles_def by blast
qed

interpretation ru: step_rel "running env" for env :: "'c chain_scheme"
proof unfold_locales
  fix s t u :: ledger
  assume a: "running env s t" "running env t u"
  show "running env s u"
  proof (cases "orderly s \<and> lg_fees s \<noteq> []")
    case True
    then have "settles env s t" "lg_fees t \<noteq> []" using a(1) by (auto simp: running_def settles_def)
    then show ?thesis using a(2) settles_trans unfolding running_def by blast
  qed (auto simp: running_def settles_def)
qed (simp add: running_def settles_refl)

lemma running_settles: "steps_in (settles env) m \<Longrightarrow> steps_in (running env) m"
  by (simp add: steps_in_def running_def)

lemma settles_put:
  assumes "orderly s \<Longrightarrow> sound x" and "orderly s \<Longrightarrow> value_of (Some x) = value_of (seen env s a)"
    and "dead_in env s a \<Longrightarrow> as_type x = Dead"
  shows "settles env s (put_state a x s)"
  using assms by (auto simp: settles_def worth_put orderly_put dead_in_def)

lemma settles_load: "settles env s (load env a s)"
  by (simp add: settles_def dead_in_def)

interpretation se: calm_rel "settles env" env for env :: "'c vm_chain_scheme"
  by unfold_locales (auto intro: settles_refl settles_trans settles_load)

lemma settles_put_load:
  assumes "orderly s \<Longrightarrow> sound x" and "orderly s \<Longrightarrow> value_of (Some x) = value_of (seen env s a)"
    and "dead_in env s a \<Longrightarrow> as_type x = Dead"
  shows "settles env s (put_state a x (load env a s))"
  using assms by (auto simp: settles_def worth_put orderly_put dead_in_def)

lemma type_kept [simp]:
  "as_type (noted c) = (case c of None \<Rightarrow> Normal | Some x \<Rightarrow> as_type x)"
  "as_type (grown n c) = (case c of None \<Rightarrow> Normal | Some x \<Rightarrow> as_type x)"
  "as_type (raise_balance i x) = as_type x"
  by (simp_all add: noted_def grown_def inc_nonce_def raise_balance_def normal_state_def split: option.split)

lemma in_note_sending:
  assumes "readable env"
  shows "steps_in (settles env) (note_sending env a)"
proof -
  have "settles env s (put_state a (noted (seen env s a)) (load env a s))" for s
    using orderly_seen [of s env a]
    by (intro settles_put_load) (auto simp: dead_in_def intro!: sound_noted)
  then show ?thesis by (simp add: steps_in_def ledger_ops [OF assms])
qed

lemma in_start_contract:
  assumes "readable env" and "null_trie env"
  shows "steps_in (settles env) (start_contract env c)"
proof (rule steps_inI)
  fix s
  show "settles env s (fst (start_contract env c s))"
  proof (cases "orderly s")
    case True
    define a where "a = cc_me c"
    define x where "x = arrived env s a"
    have x: "sound x" "value_of (Some x) = value_of (seen env s a)" "dead_in env s a \<Longrightarrow> as_type x = Dead"
      using orderly_seen [OF True] by (auto simp: x_def arrived_def dead_in_def value_of_def paid_words_def
          split: option.split) (simp_all add: normal_state_def)
    have t: "settles env s (arrive_at env a s)"
      using x by (auto simp: arrive_at_def x_def arrived_def intro: settles_put settles_load split: option.split)
    have "settles env (arrive_at env a s) (put_state a (x\<lparr>as_root := 0\<rparr>) (arrive_at env a s))"
      using x by (intro settles_put) (auto simp: sound_def value_of_def seen_def x_def [symmetric] dead_in_def)
    then have "settles env s (put_state a (x\<lparr>as_root := 0\<rparr>) (arrive_at env a s))"
      using t settles_trans by blast
    then show ?thesis
      using t unfolding start_contract_apply [OF assms sound_arrived [OF True]] by (simp add: Let_def a_def x_def)
  qed (simp add: settles_def)
qed

text \<open>A suicide by an account that was not dead: it is dead then, and the worth is what it was, if it had another heir.\<close>

lemma load_load [simp]: "load env a (load env a s) = load env a s"
  by (simp add: load_def split: option.split)

lemma load_cached: "cached a s = Some x \<Longrightarrow> load env a s = s"
  by (simp add: load_def)

lemma paid_full: "sound x \<Longrightarrow> paid_words (as_memory x) = of_nat (length (as_memory x)) * of_int memory_fee"
proof -
  assume "sound x"
  then have "filter (\<lambda>e. snd e \<noteq> 0) (as_memory x) = as_memory x" by (auto simp: sound_def filter_id_conv)
  then show ?thesis by (simp add: paid_words_def used_words_def)
qed

lemma value_dead [simp]: "value_of (Some dead_state) = 0"
  by (simp add: value_of_def dead_state_def paid_words_def)

lemma suicide_apply:
  assumes "readable env" and "cached (cc_me c) s = Some x" and "stk \<noteq> []"
  shows "suicide env c stk s =
    (let to = as_address (hd stk);
         legacy = as_balance x + of_nat (length (as_memory x)) * of_int memory_fee in
     (put_state (cc_me c) dead_state (put_state to (grown legacy (seen env s to)) (load env to s)), Val ()))"
proof -
  have "0 < length stk" using assms(3) by simp
  then show ?thesis
    using assms(2)
    by (simp add: suicide_def require_def Let_def bindp_def ledger_ops [OF assms(1)] load_cached balance_of_def seen_def
        gets_apply modify_apply ret_apply kill_state_def cached_load split: option.split)
qed

lemma in_suicide:
  assumes "readable env" and "cached (cc_me c) s = Some x" and "as_type x \<noteq> Dead"
  shows "settles env s (fst (suicide env c stk s))"
proof (cases "stk = []")
  case True
  then show ?thesis by (simp add: suicide_def require_def bindp_def throw_apply settles_refl)
next
  case False
  define to where "to = as_address (hd stk)"
  define legacy where "legacy = as_balance x + of_nat (length (as_memory x)) * of_int memory_fee"
  let ?t = "put_state to (grown legacy (seen env s to)) (load env to s)"
  have e: "fst (suicide env c stk s) = put_state (cc_me c) dead_state ?t"
    using suicide_apply [OF assms(1,2) False] by (simp add: Let_def to_def legacy_def)
  show ?thesis
  proof (cases "orderly s")
    case True
    have o: "orderly (put_state (cc_me c) dead_state ?t)"
      using True orderly_seen [OF True] by (intro orderly_put orderly_load sound_grown) auto
    have "dead_in env s a \<Longrightarrow> dead_in env (put_state (cc_me c) dead_state ?t) a" for a
      by (auto simp: dead_in_def dead_state_def)
    moreover have "dead_in env (put_state (cc_me c) dead_state ?t) (cc_me c)" "\<not> dead_in env s (cc_me c)"
      using assms(2,3) by (auto simp: dead_in_def dead_state_def seen_def)
    ultimately show ?thesis using o by (auto simp: settles_def e)
  qed (simp add: settles_def)
qed

subsection \<open>One step\<close>

lemma fees_fee [simp]: "lg_fees s \<noteq> [] \<Longrightarrow> lg_fees (add_fee n s) \<noteq> []"
    "length (lg_fees (add_fee n s)) = length (lg_fees s)"
  by (cases "lg_fees s"; simp add: add_fee_def)+

lemma seen_add_fee [simp]: "cached a (add_fee n s) = cached a s" "seen env (add_fee n s) = seen env s"
    "orderly (add_fee n s) = orderly s" "dead_in env (add_fee n s) = dead_in env s"
  by (simp_all add: add_fee_def dead_in_def fun_eq_iff)

lemma worth_add_fee: "lg_fees s \<noteq> [] \<Longrightarrow> worth env (add_fee n s) = worth env s + of_int n"
  by (cases "lg_fees s") (simp_all add: worth_def, simp add: add_fee_def)

text \<open>Any amount is moved from a balance to the noted fee; with it the words may change by what they cost.\<close>

lemma settles_fee:
  assumes "lg_fees s \<noteq> []" and "seen env s a = Some x" and "orderly s \<Longrightarrow> sound y" and "as_type y = as_type x"
    and "orderly s \<Longrightarrow> value_of (Some y) = value_of (Some x) - of_int n"
  shows "settles env s (add_fee n (put_state a y s))"
  using assms by (auto simp: settles_def worth_add_fee worth_put orderly_put dead_in_def)

lemma pay_step_plain:
  assumes "readable env" and "i \<noteq> Some STORE"
  shows "steps_in (running env) (pay_step env c steps i stk)"
proof (rule steps_inI)
  fix s
  define fee where "fee = (if 16 < steps then step_fee else 0) + miner_fee i"
  show "running env s (fst (pay_step env c steps i stk s))"
  proof (cases "seen env s (cc_me c)")
    case None
    then show ?thesis
      using assms(2) by (simp add: pay_step_def Let_def bindp_def ledger_ops [OF assms(1)] running_def settles_load
          ret_apply throw_apply)
  next
    case (Some x)
    have "settles env (load env (cc_me c) s) (add_fee fee (put_state (cc_me c) (raise_balance (- fee) x) (load env (cc_me c) s)))"
      if "lg_fees s \<noteq> []"
      using that Some orderly_seen [of "load env (cc_me c) s" env "cc_me c" x] by (intro settles_fee) auto
    then have "running env s (add_fee fee (put_state (cc_me c) (raise_balance (- fee) x) (load env (cc_me c) s)))"
      using settles_trans [OF settles_load] unfolding running_def by blast
    moreover have "running env s (load env (cc_me c) s)" by (simp add: running_def settles_load)
    ultimately show ?thesis
      using assms(2) Some
      by (simp add: pay_step_def Let_def bindp_def ledger_ops [OF assms(1)] balance_of_def ret_apply throw_apply modify_apply
          flip: fee_def)
  qed
qed

lemma raise_memory [simp]: "as_memory (raise_balance i x) = as_memory x"
  by (simp add: raise_balance_def)

definition stored :: "u256 \<Rightarrow> u256 \<Rightarrow> address_state \<Rightarrow> address_state" where
  "stored n w x = x\<lparr>as_memory := if w \<noteq> 0 then map_put n w (as_memory x) else map_drop n (as_memory x)\<rparr>"

lemma used_stored:
  assumes "sound x"
  shows "int (used_words (as_memory (stored n w x))) * memory_fee =
    int (used_words (as_memory x)) * memory_fee + void_fee (word_at (as_memory x) n) w"
proof -
  let ?ws = "as_memory x"
  have a: "ascending ?ws" using assms by (simp add: sound_def)
  have "used_words (as_memory (stored n w x)) + (if word_at ?ws n \<noteq> 0 then 1 else 0) = used_words ?ws + (if w \<noteq> 0 then 1 else 0)"
    using used_put [OF a, of n w] used_drop [OF a, of n] by (simp add: stored_def)
  then have "int (used_words (as_memory (stored n w x))) =
      int (used_words ?ws) + ((if w \<noteq> 0 then 1 else 0) - (if word_at ?ws n \<noteq> 0 then 1 else 0))"
    by (simp split: if_splits)
  moreover have "void_fee (word_at ?ws n) w = ((if w \<noteq> 0 then 1 else 0) - (if word_at ?ws n \<noteq> 0 then 1 else 0)) * memory_fee"
    by (simp add: void_fee_def)
  ultimately show ?thesis by (simp only: distrib_right)
qed

lemma paid_stored:
  assumes "sound x"
  shows "paid_words (as_memory (stored n w x)) = paid_words (as_memory x) + of_int (void_fee (word_at (as_memory x) n) w)"
proof -
  have "(of_int (int (used_words (as_memory (stored n w x))) * memory_fee) :: u256) =
      of_int (int (used_words (as_memory x)) * memory_fee + void_fee (word_at (as_memory x) n) w)"
    by (simp only: used_stored [OF assms])
  then show ?thesis by (simp add: paid_words_def)
qed

lemma sound_stored:
  assumes "sound x" and "as_memory x \<noteq> []"
  shows "sound (stored n w x)"
proof -
  have "ascending (as_memory x)" "0 \<notin> snd ` set (as_memory x)" "as_root x = 0" "as_type x \<noteq> Dead"
    using assms by (auto simp: sound_def)
  moreover from this have "(a, 0) \<notin> set (as_memory x)" for a by force
  ultimately show ?thesis
    by (auto simp: stored_def sound_def map_put_set map_put_ascending map_drop_ascending) (auto simp: map_drop_def)
qed

text \<open>STORE with its fees, in one go.\<close>

lemma store_apply:
  assumes "readable env" and "cached (cc_me c) s = Some x" and "2 \<le> length stk"
  shows "thenp (pay_step env c steps (Some STORE) stk) (run_instruction exec env c pc STORE stk) s =
    (let fee = (if 16 < steps then step_fee else 0) + data_fee;
         void = void_fee (word_at (as_memory x) (stk ! 0)) (stk ! 1) in
     if uint (as_balance x) < fee + void then (s, Exc NotEnoughCash)
     else (add_fee fee (put_state (cc_me c) (stored (stk ! 0) (stk ! 1) (raise_balance (- (fee + void)) x)) s),
           Val (Next (pc + 1) (drop 2 stk))))"
proof -
  define me where "me = cc_me c"
  define fee where "fee = (if 16 < steps then step_fee else 0) + data_fee"
  define void where "void = void_fee (word_at (as_memory x) (stk ! 0)) (stk ! 1)"
  let ?p = "raise_balance (- (fee + void)) x"
  have b: "balance_of env s me = as_balance x" "load env me s = s" "seen env s me = Some x" "miner_fee (Some STORE) = data_fee"
    using assms(2) by (simp_all add: balance_of_def seen_def load_cached me_def miner_fee_def)
  have w: "word_of me n s = word_at (as_memory x) n" for n
    using assms(2) by (simp add: word_of_def word_at_def me_def)
  have v: "void_fee (word_at (as_memory x) (stk ! 0)) (stk ! Suc 0) = void" by (simp add: void_def)
  have pay: "pay_step env c steps (Some STORE) stk s =
      (if uint (as_balance x) < fee + void then (s, Exc NotEnoughCash) else (add_fee fee (put_state me ?p s), Val ()))"
    using assms(3) b w v
    by (simp add: pay_step_def require_def bindp_def gets_apply ret_apply Let_def throw_apply modify_apply
        ledger_ops [OF assms(1)] flip: fee_def me_def)
  show ?thesis
  proof (cases "uint (as_balance x) < fee + void")
    case True
    then show ?thesis using v by (simp add: bindp_def pay Let_def flip: fee_def)
  next
    case False
    let ?y = "stored (stk ! 0) (stk ! 1) ?p"
    have "thenp (pay_step env c steps (Some STORE) stk) (run_instruction exec env c pc STORE stk) s =
        (put_state me ?y (add_fee fee (put_state me ?p s)), Val (Next (pc + 1) (drop 2 stk)))"
      using False assms(3)
      by (simp add: bindp_def pay run_instruction_def binary_def pushed_def hash_with_def require_def ret_apply set_word_def
          modify_apply stored_def flip: me_def)
    also have "put_state me ?y (add_fee fee (put_state me ?p s)) = add_fee fee (put_state me ?y s)"
      by (simp add: add_fee_def put_state_def)
    finally show ?thesis using False v by (simp add: Let_def me_def flip: fee_def)
  qed
qed

lemma store_step:
  assumes "readable env" and "cached (cc_me c) s = Some x" and "as_memory x \<noteq> []"
  shows "running env s (fst (thenp (pay_step env c steps (Some STORE) stk) (run_instruction exec env c pc STORE stk) s))"
proof (cases "length stk < 2")
  case True
  then show ?thesis
    by (simp add: pay_step_def require_def bindp_def throw_apply running_def settles_refl)
next
  case False
  define fee where "fee = (if 16 < steps then step_fee else 0) + data_fee"
  define void where "void = void_fee (word_at (as_memory x) (stk ! 0)) (stk ! 1)"
  let ?y = "stored (stk ! 0) (stk ! 1) (raise_balance (- (fee + void)) x)"
  have "running env s (add_fee fee (put_state (cc_me c) ?y s))"
    unfolding running_def
  proof (intro impI settles_fee)
    assume "orderly s"
    then have x: "sound x" using assms(2) by (simp add: orderly_def)
    then show "sound ?y" using assms(3) by (intro sound_stored) simp_all
    have "value_of (Some ?y) = as_balance ?y + paid_words (as_memory ?y)" by (simp add: value_of_def)
    also have "as_balance ?y = as_balance x - of_int (fee + void)"
      by (simp add: stored_def raise_balance_def)
    also have "as_memory ?y = as_memory (stored (stk ! 0) (stk ! 1) x)"
      by (simp add: stored_def raise_balance_def)
    also have "paid_words \<dots> = paid_words (as_memory x) + of_int void"
      unfolding void_def by (rule paid_stored [OF x])
    finally show "value_of (Some ?y) = value_of (Some x) - of_int fee" by (simp add: value_of_def)
  qed (use assms(2) in \<open>simp_all add: stored_def seen_def\<close>)
  moreover have "fst (thenp (pay_step env c steps (Some STORE) stk) (run_instruction exec env c pc STORE stk) s)
      \<in> {s, add_fee fee (put_state (cc_me c) ?y s)}"
    using store_apply [OF assms(1,2), of stk steps exec pc] False
    by (simp add: Let_def fee_def void_def)
  ultimately show ?thesis using ru.refl by auto
qed

lemma word_of_used: "word_of me n s \<noteq> 0 \<Longrightarrow> \<exists>x. cached me s = Some x \<and> as_memory x \<noteq> []"
  by (cases "cached me s") (auto simp: word_of_def split: option.splits)

lemma suicide_step:
  assumes "readable env" and "cached (cc_me c) s = Some x" and "orderly s \<Longrightarrow> as_type x \<noteq> Dead"
  shows "running env s (fst (thenp (pay_step env c steps (Some SUICIDE) stk) (run_instruction exec env c pc SUICIDE stk) s))"
proof -
  define fee where "fee = (if 16 < steps then step_fee else 0) + miner_fee (Some SUICIDE)"
  let ?p = "raise_balance (- fee) x"
  let ?t = "add_fee fee (put_state (cc_me c) ?p s)"
  have pay: "pay_step env c steps (Some SUICIDE) stk s =
      (if uint (as_balance x) < fee then (s, Exc NotEnoughCash) else (?t, Val ()))"
    using assms(2)
    by (simp add: pay_step_def bindp_def ret_apply Let_def throw_apply modify_apply balance_of_def seen_def load_cached
        ledger_ops [OF assms(1)] flip: fee_def)
  have run: "fst (run_instruction exec env c pc SUICIDE stk t) = fst (suicide env c stk t)" for t
    by (auto simp: run_instruction_def binary_def pushed_def hash_with_def bindp_def ret_apply split: prod.split outcome.split)
  show ?thesis
  proof (cases "uint (as_balance x) < fee \<or> \<not> orderly s")
    case True
    then show ?thesis by (auto simp: bindp_def pay running_def settles_refl) (simp_all add: settles_def)
  next
    case False
    have "running env s ?t"
      using assms(2) False unfolding running_def
      by (intro impI settles_fee) (auto simp: seen_def orderly_def)
    moreover have "running env ?t (fst (suicide env c stk ?t))"
      using False assms(3) unfolding running_def
      by (intro impI in_suicide [OF assms(1), where x = ?p]) simp_all
    ultimately have "running env s (fst (suicide env c stk ?t))" by (rule ru.trans)
    then show ?thesis using False by (simp add: bindp_def pay run)
  qed
qed

lemma opcode_zero: "map_of opcodes 0 = Some STOP"
  by (simp add: opcodes_def)

lemma in_vm_step:
  assumes "readable env" and "unsigned_in (settles env) exec"
  shows "steps_in (running env) (vm_step exec env c steps pc stk)"
proof (rule steps_inI)
  fix s
  define raw where "raw = word_of (cc_me c) pc s"
  define i where "i = map_of opcodes raw"
  define rest where "rest = thenp (pay_step env c steps i stk)
            (case i of None \<Rightarrow> throw BadInstruction | Some i \<Rightarrow> run_instruction exec env c pc i stk)"
  have e: "vm_step exec env c steps pc stk s = (if 0xff < raw then throw BadInstruction s else rest s)"
    by (simp add: vm_step_def raw_def i_def rest_def Let_def)
  have "running env s (fst (rest s))"
  proof (cases "i = Some STORE \<or> i = Some SUICIDE")
    case True
    then have "raw \<noteq> 0" using opcode_zero by (auto simp: i_def)
    then obtain x where x: "cached (cc_me c) s = Some x" "as_memory x \<noteq> []"
      using word_of_used [of "cc_me c" pc s] unfolding raw_def by blast
    then have "orderly s \<Longrightarrow> as_type x \<noteq> Dead" by (auto simp: orderly_def sound_def)
    then show ?thesis
      using True store_step [OF assms(1) x] suicide_step [OF assms(1) x(1)] by (auto simp: rest_def)
  next
    case False
    have "steps_in (running env) (case i of None \<Rightarrow> throw BadInstruction | Some i \<Rightarrow> run_instruction exec env c pc i stk)"
      using False by (auto intro!: ru.in_throw running_settles [OF se.in_plain_instruction [OF assms]] split: option.split)
    then have "steps_in (running env) rest"
      unfolding rest_def using False by (intro ru.in_bindp pay_step_plain [OF assms(1)]) auto
    then show ?thesis by (simp add: steps_in_def)
  qed
  then show "running env s (fst (vm_step exec env c steps pc stk s))"
    by (simp add: e throw_apply ru.refl)
qed

lemma in_vm_run:
  assumes "readable env" and "unsigned_in (settles env) exec"
  shows "steps_in (running env) (vm_run n exec env c steps pc stk)"
proof (induction n arbitrary: steps pc stk)
  case (Suc n)
  have "steps_in (running env) (case r of Halt \<Rightarrow> ret () | Next pc stk \<Rightarrow> vm_run n exec env c (steps + 1) pc stk)" for r
    by (cases r) (simp_all add: Suc ru.in_ret)
  then show ?case
    unfolding vm_run.simps by (rule ru.in_bindp [OF in_vm_step [OF assms]])
qed (simp add: ru.in_fault)

lemma in_execute_contract:
  assumes "readable env" and "null_trie env" and "unsigned_in (settles env) exec"
  shows "steps_in (running env) (execute_contract n exec env c)"
  unfolding execute_contract_def
  by (intro ru.in_bindp running_settles [OF in_start_contract [OF assms(1,2)]] in_vm_run [OF assms(1,3)])

subsection \<open>Transactions\<close>

lemma worth_add: "readable env \<Longrightarrow> worth env (fst (add_balance env a n s)) = worth env s + n"
  by (simp add: ledger_ops worth_put)

lemma settles_parts_add:
  assumes "readable env"
  shows "orderly s \<Longrightarrow> orderly (fst (add_balance env a n s))"
    and "lg_fees (fst (add_balance env a n s)) = lg_fees s"
    and "dead_in env s b \<Longrightarrow> dead_in env (fst (add_balance env a n s)) b"
  using orderly_seen [of s env a]
  by (auto simp: ledger_ops [OF assms] dead_in_def intro!: orderly_put orderly_load sound_grown)

lemma add_balance_Val: "readable env \<Longrightarrow> \<exists>t. add_balance env a n s = (t, Val ())"
  by (simp add: ledger_ops)

lemma in_transfer:
  assumes "readable env"
  shows "steps_in (settles env)
    (thenp (sub_balance env a (uint (v + f))) (thenp (add_balance env to v) (add_balance env cb f)))"
proof (rule steps_inI)
  fix s
  let ?m = "thenp (sub_balance env a (uint (v + f))) (thenp (add_balance env to v) (add_balance env cb f))"
  show "settles env s (fst (?m s))"
  proof (cases "\<exists>x. seen env s a = Some x \<and> \<not> uint (as_balance x) < uint (v + f)")
    case False
    then have "fst (sub_balance env a (uint (v + f)) s) = load env a s \<and> snd (sub_balance env a (uint (v + f)) s) = Exc NotEnoughCash"
      by (auto simp: ledger_ops [OF assms] split: option.split)
    then have "?m s = (load env a s, Exc NotEnoughCash)"
      by (cases "sub_balance env a (uint (v + f)) s") (simp add: bindp_def)
    then show ?thesis by (simp add: settles_load)
  next
    case True
    then obtain x where x: "seen env s a = Some x" "\<not> uint (as_balance x) < uint (v + f)" by blast
    define u where "u = put_state a (raise_balance (- uint (v + f)) x) (load env a s)"
    obtain t where t: "add_balance env to v u = (t, Val ())" using add_balance_Val [OF assms] by blast
    have "sub_balance env a (uint (v + f)) s = (u, Val ())"
      using x by (simp add: ledger_ops(7) [OF assms] u_def)
    then have m: "fst (?m s) = fst (add_balance env cb f t)"
      by (simp add: bindp_def t)
    have t': "t = fst (add_balance env to v u)" by (simp add: t)
    have u: "worth env u = worth env s - of_int (uint (v + f))" "lg_fees u = lg_fees s"
        "dead_in env s b \<Longrightarrow> dead_in env u b" "orderly s \<Longrightarrow> orderly u" for b
      using x orderly_seen [of s env a x]
      by (auto simp: u_def worth_put dead_in_def intro!: orderly_put orderly_load sound_parts)
    have "worth env (fst (add_balance env cb f t)) = worth env s"
      by (simp add: worth_add [OF assms] t' u)
    then show ?thesis
      using u settles_parts_add [OF assms] by (simp add: m settles_def t')
  qed
qed

lemma in_paying_miner:
  assumes "readable env" and "steps_in (running env) m"
  shows "steps_in (settles env) (paying_miner env m)"
proof (rule steps_inI)
  fix s :: ledger
  let ?s = "s\<lparr>lg_fees := 0 # lg_fees s\<rparr>"
  obtain t r where m: "m ?s = (t, r)" by fastforce
  have st: "settles env ?s t"
    using assms(2) m by (auto simp: steps_in_def running_def dest: spec [of _ ?s])
  have w: "worth env ?s = worth env s" by (simp add: worth_fees)
  have d: "dead_in env ?s a = dead_in env s a" for a by (simp add: dead_in_def)
  show "settles env s (fst (paying_miner env m s))"
  proof (cases "\<exists>k. r = Fault k")
    case True
    then show ?thesis using st w d by (auto simp: paying_miner_def m settles_def)
  next
    case False
    let ?t = "t\<lparr>lg_fees := tl (lg_fees t)\<rparr>"
    let ?u = "fst (add_balance env (coinbase env) (hd (lg_fees t)) ?t)"
    obtain u where u: "add_balance env (coinbase env) (hd (lg_fees t)) ?t = (u, Val ())"
      using add_balance_Val [OF assms(1)] by blast
    have e: "fst (paying_miner env m s) = ?u"
      using False by (cases r) (simp_all add: paying_miner_def m u)
    {
      assume "orderly s"
      then have t: "orderly t" "length (lg_fees s) + 1 \<le> length (lg_fees t)" "\<forall>a. dead_in env s a \<longrightarrow> dead_in env t a"
          "worth env t = worth env s \<or> (\<exists>a. dead_in env t a \<and> \<not> dead_in env s a)"
        using st w d by (auto simp: settles_def)
      then have "sum_list (lg_fees t) = hd (lg_fees t) + sum_list (tl (lg_fees t))"
        by (cases "lg_fees t") simp_all
      then have "worth env ?u = worth env t" by (simp add: worth_add [OF assms(1)] worth_fees)
      moreover have "orderly ?u" using t settles_parts_add(1) [OF assms(1), of ?t] by simp
      moreover have "dead_in env t a \<Longrightarrow> dead_in env ?u a" for a
        using settles_parts_add(3) [OF assms(1), of ?t] by (simp add: dead_in_def)
      moreover have "length (lg_fees s) \<le> length (lg_fees ?u)"
        using t by (simp add: settles_parts_add(2) [OF assms(1)])
      ultimately have "settles env s ?u" using t unfolding settles_def by (auto; blast)
    }
    then show ?thesis by (cases "orderly s") (simp_all add: e, simp add: settles_def)
  qed
qed

lemma unsigned_has_no_rlp: "tx_vrs t = None \<Longrightarrow> transaction_rlp True t \<noteq> Val bs"
proof
  assume n: "tx_vrs t = None" and v: "transaction_rlp True t = Val bs"
  then obtain s r where "fill_stream True t s = (r, Val ())"
    by (auto simp: transaction_rlp_def streamed_def obind_eq_Val split: prod.splits)
  then show False using n by (auto simp: fill_stream_def bindp_eq_Val fault_apply)
qed

lemma unsigned_not_created:
  assumes "tx_vrs t = None"
  shows "\<exists>r. create_contract env t a s = (s, r) \<and> (\<forall>u. r \<noteq> Val u)"
proof -
  have "transaction_sha3 (hash3 env) True t \<noteq> Val bs" for bs
    using unsigned_has_no_rlp [OF assms] by (auto simp: transaction_sha3_def obind_eq_Val)
  then show ?thesis
    by (cases "transaction_sha3 (hash3 env) True t")
      (auto simp: create_contract_def with_rlp_def bindp_def throw_apply fault_apply)
qed

definition calls :: "transaction \<Rightarrow> bool" where
  "calls t \<longleftrightarrow> tx_receive t \<noteq> 0 \<or> tx_vrs t = None"

lemma in_execute_bare_with:
  fixes env :: "'c vm_chain_scheme"
  assumes "readable env" and "\<And>c. steps_in (running env) (run c)" and "calls t"
  shows "steps_in (settles env) (execute_bare_with run env t a)"
proof -
  have c: "steps_in (settles env) (create_contract env t a)" if "tx_receive t = 0"
    using that assms(3) unsigned_not_created [of t env a] by (auto simp: calls_def steps_in_def) (metis fst_conv settles_refl)
  have p: "steps_in (settles env) (thenp (sub_balance env a (uint (tx_value t + tx_fee t)))
     (thenp (add_balance env (tx_receive t) (tx_value t)) (thenp (add_balance env (coinbase env) (tx_fee t)) m)))"
    if "steps_in (settles env) m" for m
    using se.in_bindp [OF in_transfer [OF assms(1), of a "tx_value t" "tx_fee t" "tx_receive t" "coinbase env"], of "\<lambda>_. m"] that
    by (simp add: bindp_assoc)
  have w: "steps_in (settles env) (thenp (sub_balance env a (uint (tx_value t + tx_fee t)))
     (thenp (add_balance env (tx_receive t) (tx_value t)) (thenp (add_balance env (coinbase env) (tx_fee t))
       (bindp (is_contract_address env (tx_receive t)) (\<lambda>b. if b then paying_miner env (run (call_of t a)) else ret ())))))"
    by (rule p) (intro se.in_bindp se.in_if se.in_account in_paying_miner se.in_ret assms)
  have "steps_in (settles env) (if tx_receive t \<noteq> 0
     then thenp (sub_balance env a (uint (tx_value t + tx_fee t)))
     (thenp (add_balance env (tx_receive t) (tx_value t)) (thenp (add_balance env (coinbase env) (tx_fee t))
       (bindp (is_contract_address env (tx_receive t)) (\<lambda>b. if b then paying_miner env (run (call_of t a)) else ret ()))))
     else create_contract env t a)"
    using c w by (cases "tx_receive t = 0") simp_all
  then show ?thesis
    unfolding execute_bare_with_def
    by (intro se.in_bindp) (simp_all add: se.in_bindp se.in_throw se.in_account in_note_sending assms(1))
qed

lemma in_execute_bare:
  assumes "readable env" and "null_trie env"
  shows "calls t \<Longrightarrow> steps_in (settles env) (execute_bare d n env t a)"
proof (induction d arbitrary: t a)
  case 0
  then show ?case using assms by (simp add: in_execute_bare_with ru.in_fault)
next
  case (Suc d)
  then have "unsigned_in (settles env) (execute_bare d n env)" by (simp add: unsigned_in_def calls_def)
  then show ?case
    using Suc.prems assms by (simp add: in_execute_bare_with in_execute_contract)
qed


subsection \<open>A sample chain\<close>

text \<open>No account is in the state trie. The hash is constant, nothing is on the curve.\<close>

definition sample_chain :: "bool \<Rightarrow> vm_chain" where
  "sample_chain b =
     \<lparr>checked = b, account_back = (\<lambda>_. Val []), memory_back = (\<lambda>_. Val []), memory_item = (\<lambda>_ _. Val []),
      hash3 = (\<lambda>_. to_big_endian 32 7), coinbase = 9, previous_hash = 0, block_time = 0, block_number = 1,
      block_difficulty = 1, sha2_hash = id, ripemd_hash = id, ec_verify = (\<lambda>_. False), ec_mul = (\<lambda>_ _. []),
      ec_add = (\<lambda>_ _. []), ec_recovers = (\<lambda>_ _ _. False), ec_recover_key = (\<lambda>_ _ _. None)\<rparr>"

lemma sample_chain_parts [simp]:
  "readable (sample_chain b)" "null_trie (sample_chain b)" "checked (sample_chain b) = b" "coinbase (sample_chain b) = 9"
  "backing (sample_chain b) a = None" "hash3 (sample_chain b) = (\<lambda>_. to_big_endian 32 7)"
  by (simp_all add: readable_def null_trie_def backing_def sample_chain_def)

lemma seen_sample [simp]: "seen (sample_chain b) s a = cached a s"
  by (simp add: seen_def split: option.split)

definition accounts :: "(address \<times> address_state) list \<Rightarrow> ledger" where
  "accounts xs = \<lparr>lg_cache = xs, lg_transactions = [], lg_fees = []\<rparr>"

lemma cached_accounts [simp]: "cached a (accounts xs) = map_of xs a"
  by (simp add: cached_def accounts_def)

lemma orderly_accounts: "(\<forall>e\<in>set xs. sound (snd e)) \<Longrightarrow> orderly (accounts xs)"
  by (force simp: orderly_def dest: map_of_SomeD)

subsection \<open>The property\<close>

text \<open>
  C4: Executing a transaction to an address, with all contracts that run in it, whatever they do and
  however they end (normally, by an exception, by running out of the bounds), neither makes nor loses
  money modulo \<open>2\<^sup>2\<^sup>5\<^sup>6\<close>: the sum of all balances, of the fees still to be paid and of what the words of memory
  were paid for is what it was, unless a contract died in it.
\<close>

theorem transactions_keep_worth:
  fixes env :: "'c vm_chain_scheme"
  assumes "readable env" and "null_trie env" and "orderly s" and "tx_receive t \<noteq> 0"
    and "execute_bare d n env t a s = (s', r)"
  shows "worth env s' = worth env s
    \<or> (\<exists>b x. seen env s' b = Some x \<and> as_type x = Dead \<and> (\<forall>y. seen env s b = Some y \<longrightarrow> as_type y \<noteq> Dead))"
proof -
  have "steps_in (settles env) (execute_bare d n env t a)"
    using in_execute_bare [OF assms(1,2)] assms(4) by (simp add: calls_def)
  then have "settles env s s'" using assms(5) by (rule steps_inD)
  then show ?thesis using assms(3) by (auto simp: settles_def dead_in_def)
qed

definition sample_call :: transaction where
  "sample_call = \<lparr>tx_nonce = 0, tx_receive = 5, tx_value = 30, tx_fee = 2, tx_data = [], tx_vrs = None\<rparr>"

text \<open>Account 5 stores the word 7 at 8, which costs more than it has.\<close>

definition sample_ledger :: ledger where
  "sample_ledger = accounts
     [(1, normal_state 100 0),
      (5, (contract_state 0 0 0)\<lparr>as_memory := [(0, 0x30), (1, 7), (2, 0x30), (3, 8), (4, 0x37)]\<rparr>)]"

theorem transactions_keep_worth_witness:
  "\<exists>s' r. execute_bare 1 9 (sample_chain False) sample_call 1 sample_ledger = (s', r)
    \<and> (worth (sample_chain False) s' = worth (sample_chain False) sample_ledger
      \<or> (\<exists>b x. seen (sample_chain False) s' b = Some x \<and> as_type x = Dead
          \<and> (\<forall>y. seen (sample_chain False) sample_ledger b = Some y \<longrightarrow> as_type y \<noteq> Dead)))"
proof -
  obtain s' r where e: "execute_bare 1 9 (sample_chain False) sample_call 1 sample_ledger = (s', r)" by fastforce
  have "orderly sample_ledger"
    unfolding sample_ledger_def by (rule orderly_accounts) (simp add: sound_def normal_state_def contract_state_def)
  from transactions_keep_worth [OF _ _ this _ e] e show ?thesis by (auto simp: sample_call_def)
qed

end
