(* ===== verification/EthPay.thy ===== *)
theory EthPay
  imports EthVmProps
begin

section \<open>Plain transactions\<close>

text \<open>
  What a transaction to an address without a contract does to every balance and every nonce, that it
  cannot be executed twice, and that the check of the sender's balance can be passed by overflow.
\<close>

definition contract_at :: "'c chain_scheme \<Rightarrow> ledger \<Rightarrow> address \<Rightarrow> bool" where
  "contract_at env s a \<longleftrightarrow> (\<exists>x. seen env s a = Some x \<and> as_type x = Contract)"

text \<open>The three operations that change accounts, on balances, nonces and types.\<close>

lemma noted_parts [simp]:
  "as_balance (noted c) = (case c of None \<Rightarrow> 0 | Some x \<Rightarrow> as_balance x)"
  "as_nonce (noted c) = (case c of None \<Rightarrow> 0 | Some x \<Rightarrow> as_nonce x) + 1"
  "as_balance (grown n c) = (case c of None \<Rightarrow> 0 | Some x \<Rightarrow> as_balance x) + n"
  "as_nonce (grown n c) = (case c of None \<Rightarrow> 0 | Some x \<Rightarrow> as_nonce x)"
  "as_balance (raise_balance i x) = as_balance x + of_int i" "as_nonce (raise_balance i x) = as_nonce x"
  by (simp_all add: noted_def grown_def inc_nonce_def raise_balance_def normal_state_def split: option.split)

text \<open>The type, the root and the memory of an account in the cache.\<close>

definition code_kept :: "ledger \<Rightarrow> ledger \<Rightarrow> address \<Rightarrow> bool" where
  "code_kept s t c \<longleftrightarrow> (\<forall>x. cached c s = Some x \<longrightarrow>
     (\<exists>y. cached c t = Some y \<and> as_type y = as_type x \<and> as_root y = as_root x \<and> as_memory y = as_memory x))"

lemma code_kept_trans: "code_kept s t c \<Longrightarrow> code_kept t u c \<Longrightarrow> code_kept s u c"
  unfolding code_kept_def by metis

lemma code_kept_same [simp]: "code_kept s s c"
  by (simp add: code_kept_def)

lemma code_kept_put:
  "(\<And>x. seen env s a = Some x \<Longrightarrow> as_type y = as_type x \<and> as_root y = as_root x \<and> as_memory y = as_memory x) \<Longrightarrow>
   code_kept s (put_state a y (load env a s)) c"
  by (auto simp: code_kept_def cached_load seen_def split: option.splits)

definition moved :: "'c chain_scheme \<Rightarrow> ledger \<Rightarrow> ledger \<Rightarrow> (address \<Rightarrow> u256) \<Rightarrow> (address \<Rightarrow> u256) \<Rightarrow> bool" where
  "moved env s t money counts \<longleftrightarrow>
     (\<forall>c. balance_of env t c = balance_of env s c + money c \<and> nonce_of env t c = nonce_of env s c + counts c
        \<and> contract_at env t c = contract_at env s c \<and> code_kept s t c)"

lemma moved_trans:
  "moved env s t m n \<Longrightarrow> moved env t u k l \<Longrightarrow> moved env s u (\<lambda>c. m c + k c) (\<lambda>c. n c + l c)"
  by (auto simp: moved_def add.assoc intro: code_kept_trans)

lemma moved_load: "moved env s (load env a s) (\<lambda>c. 0) (\<lambda>c. 0)"
  by (simp add: moved_def balance_of_def nonce_of_def contract_at_def code_kept_def cached_load seen_def)

lemma code_kept_parts:
  "seen env s a = Some x \<Longrightarrow> code_kept s (put_state a (raise_balance i x) (load env a s)) c"
  "code_kept s (put_state a (noted (seen env s a)) (load env a s)) c"
  "code_kept s (put_state a (grown n (seen env s a)) (load env a s)) c"
  by (rule code_kept_put; simp add: raise_balance_def noted_def inc_nonce_def grown_def)+

lemma moved_noted:
  assumes "readable env"
  shows "\<exists>t. note_sending env a s = (t, Val ()) \<and> moved env s t (\<lambda>c. 0) (\<lambda>c. if c = a then 1 else 0)"
  by (simp add: ledger_ops [OF assms] moved_def code_kept_parts)
    (auto simp: balance_of_def nonce_of_def contract_at_def split: option.splits)

lemma moved_added:
  assumes "readable env"
  shows "\<exists>t. add_balance env a n s = (t, Val ()) \<and> moved env s t (\<lambda>c. if c = a then n else 0) (\<lambda>c. 0)"
  by (simp add: ledger_ops [OF assms] moved_def code_kept_parts)
    (auto simp: balance_of_def nonce_of_def contract_at_def split: option.splits)

lemma moved_subtracted:
  assumes "readable env" and "seen env s a \<noteq> None" and "n \<le> balance_of env s a"
  shows "\<exists>t. sub_balance env a (uint n) s = (t, Val ()) \<and> moved env s t (\<lambda>c. if c = a then - n else 0) (\<lambda>c. 0)"
proof -
  obtain x where x: "seen env s a = Some x" using assms(2) by blast
  then have "\<not> uint (as_balance x) < uint n" using assms(3) by (simp add: balance_of_def word_le_def)
  then show ?thesis using x
    by (simp add: ledger_ops(7) [OF assms(1)] moved_def code_kept_parts)
      (auto simp: balance_of_def nonce_of_def contract_at_def split: option.splits)
qed

definition paid_in :: "'c chain_scheme \<Rightarrow> transaction \<Rightarrow> address \<Rightarrow> address \<Rightarrow> u256" where
  "paid_in env t a c =
     (if c = a then - (tx_value t + tx_fee t) else 0) + (if c = tx_receive t then tx_value t else 0)
     + (if c = coinbase env then tx_fee t else 0)"

text \<open>A transaction up to the point where a contract would be run.\<close>

lemma transfer_reaches:
  assumes "readable env" and "tx_receive t \<noteq> 0"
    and "tx_nonce t = nonce_of env s a" and "tx_value t + tx_fee t \<le> balance_of env s a"
  shows "\<exists>x. moved env s x (paid_in env t a) (\<lambda>c. if c = a then 1 else 0)
    \<and> execute_bare_with run env t a s =
        (if contract_at env s (tx_receive t) then paying_miner env (run (call_of t a)) x else (x, Val ()))"
proof -
  let ?n = "tx_value t + tx_fee t"
  let ?l = "load env a s"
  obtain u where u: "note_sending env a ?l = (u, Val ())" "moved env ?l u (\<lambda>c. 0) (\<lambda>c. if c = a then 1 else 0)"
    using moved_noted [OF assms(1)] by blast
  have m: "moved env s u (\<lambda>c. 0) (\<lambda>c. if c = a then 1 else 0)"
    using moved_trans [OF moved_load u(2)] by simp
  have "seen env u a \<noteq> None" using u(1) by (auto simp: ledger_ops [OF assms(1)])
  moreover have "?n \<le> balance_of env u a" using m assms(4) by (simp add: moved_def)
  ultimately obtain v where v: "sub_balance env a (uint ?n) u = (v, Val ())" "moved env u v (\<lambda>c. if c = a then - ?n else 0) (\<lambda>c. 0)"
    using moved_subtracted [OF assms(1)] by blast
  obtain w where w: "add_balance env (tx_receive t) (tx_value t) v = (w, Val ())"
      "moved env v w (\<lambda>c. if c = tx_receive t then tx_value t else 0) (\<lambda>c. 0)"
    using moved_added [OF assms(1)] by blast
  obtain x where x: "add_balance env (coinbase env) (tx_fee t) w = (x, Val ())"
      "moved env w x (\<lambda>c. if c = coinbase env then tx_fee t else 0) (\<lambda>c. 0)"
    using moved_added [OF assms(1)] by blast
  have "moved env s x (paid_in env t a) (\<lambda>c. if c = a then 1 else 0)"
    using moved_trans [OF moved_trans [OF moved_trans [OF m v(2)] w(2)] x(2)] by (simp add: paid_in_def [abs_def])
  then have y: "moved env s (load env (tx_receive t) x) (paid_in env t a) (\<lambda>c. if c = a then 1 else 0)"
      "is_contract_address env (tx_receive t) x = (load env (tx_receive t) x, Val (contract_at env s (tx_receive t)))"
    using moved_trans [OF _ moved_load, of env s x "paid_in env t a"]
    by (simp_all add: ledger_ops [OF assms(1)]) (simp add: moved_def contract_at_def)
  have n: "nonce_of env ?l a = nonce_of env s a" "balance_of env ?l a = balance_of env s a"
    by (simp_all add: nonce_of_def balance_of_def)
  have "execute_bare_with run env t a s =
      (if contract_at env s (tx_receive t) then paying_miner env (run (call_of t a)) (load env (tx_receive t) x)
       else (load env (tx_receive t) x, Val ()))"
    using assms(2-4) u v w x y(2) n
    by (simp add: execute_bare_with_def bindp_def ledger_ops(1,2) [OF assms(1)] ret_apply not_less [symmetric])
  then show ?thesis using y(1) by blast
qed

lemma transfer_moves:
  assumes "readable env" and "tx_receive t \<noteq> 0" and "\<not> contract_at env s (tx_receive t)"
    and "tx_nonce t = nonce_of env s a" and "tx_value t + tx_fee t \<le> balance_of env s a"
  shows "\<exists>s'. execute_bare_with run env t a s = (s', Val ())
    \<and> moved env s s' (paid_in env t a) (\<lambda>c. if c = a then 1 else 0)"
  using transfer_reaches [OF assms(1,2,4,5), of run] assms(3) by auto

lemma execute_bare_is_with: "\<exists>run. execute_bare d n env = execute_bare_with run env"
  by (cases d) auto

text \<open>
  C13: A transaction to an address that is not a contract, with the nonce that is required and a balance
  that covers value plus fee, is executed, and changes exactly this: the sender loses value and fee, the
  receiver gains the value, the coinbase the fee, whether or not these are the same account, and the
  sender's nonce grows by one. All amounts are modulo \<open>2\<^sup>2\<^sup>5\<^sup>6\<close>, the sum of value and fee too.
\<close>

theorem transfer_moves_value:
  assumes "readable env" and "tx_receive t \<noteq> 0" and "\<not> contract_at env s (tx_receive t)"
    and "tx_nonce t = nonce_of env s a" and "tx_value t + tx_fee t \<le> balance_of env s a"
  shows "\<exists>s'. execute_bare d n env t a s = (s', Val ())
    \<and> (\<forall>c. balance_of env s' c = balance_of env s c - (if c = a then tx_value t + tx_fee t else 0)
              + (if c = tx_receive t then tx_value t else 0) + (if c = coinbase env then tx_fee t else 0)
          \<and> nonce_of env s' c = nonce_of env s c + (if c = a then 1 else 0)
          \<and> contract_at env s' c = contract_at env s c)"
proof -
  obtain run where r: "execute_bare d n env = execute_bare_with run env" using execute_bare_is_with by blast
  show ?thesis using transfer_moves [OF assms, of run] by (auto simp: r moved_def paid_in_def)
qed

definition payment :: "u256 \<Rightarrow> u256 \<Rightarrow> transaction" where
  "payment v f = \<lparr>tx_nonce = 0, tx_receive = 5, tx_value = v, tx_fee = f, tx_data = [], tx_vrs = None\<rparr>"

lemma payment_parts [simp]:
  "tx_nonce (payment v f) = 0" "tx_receive (payment v f) = 5" "tx_value (payment v f) = v" "tx_fee (payment v f) = f"
  by (simp_all add: payment_def)

theorem transfer_moves_value_witness:
  "\<exists>s'. execute_bare 1 9 (sample_chain True) (payment 30 2) 1 (accounts [(1, normal_state 100 0)]) = (s', Val ())
    \<and> balance_of (sample_chain True) s' 1 = 68 \<and> balance_of (sample_chain True) s' 5 = 30
    \<and> balance_of (sample_chain True) s' 9 = 2 \<and> nonce_of (sample_chain True) s' 1 = 1"
proof -
  let ?e = "sample_chain True"
  let ?s = "accounts [(1, normal_state 100 0)]"
  have b: "balance_of ?e ?s c = (if c = 1 then 100 else 0)" "nonce_of ?e ?s c = 0" "\<not> contract_at ?e ?s c" for c
    by (simp_all add: balance_of_def nonce_of_def contract_at_def normal_state_def)
  have "\<exists>s'. execute_bare 1 9 ?e (payment 30 2) 1 ?s = (s', Val ())
    \<and> (\<forall>c. balance_of ?e s' c = balance_of ?e ?s c - (if c = 1 then tx_value (payment 30 2) + tx_fee (payment 30 2) else 0)
              + (if c = tx_receive (payment 30 2) then tx_value (payment 30 2) else 0) + (if c = coinbase ?e then tx_fee (payment 30 2) else 0)
          \<and> nonce_of ?e s' c = nonce_of ?e ?s c + (if c = 1 then 1 else 0)
          \<and> contract_at ?e s' c = contract_at ?e ?s c)"
    by (rule transfer_moves_value) (simp_all add: b)
  then show ?thesis by (auto simp: b)
qed

text \<open>
  C17: The value and the fee are added in 256 bits before they are compared with the balance. Whoever sends
  a value and a fee whose sum is \<open>2\<^sup>2\<^sup>5\<^sup>6\<close> passes the check without owning anything, pays nothing, and the
  receiver gets the value: any amount can be made out of nothing.
\<close>

theorem anyone_can_mint:
  assumes "readable env" and "b \<noteq> 0" and "\<not> contract_at env s b" and "b \<noteq> coinbase env"
  shows "\<exists>t s'. execute_bare d n env t a s = (s', Val ()) \<and> tx_receive t = b
    \<and> balance_of env s' b = balance_of env s b + w
    \<and> (a = b \<or> a = coinbase env \<or> balance_of env s' a = balance_of env s a)"
proof -
  obtain run where r: "execute_bare d n env = execute_bare_with run env" using execute_bare_is_with by blast
  define t where "t = \<lparr>tx_nonce = nonce_of env s a, tx_receive = b, tx_value = w, tx_fee = - w, tx_data = [], tx_vrs = None\<rparr>"
  have t: "tx_nonce t = nonce_of env s a" "tx_receive t = b" "tx_value t = w" "tx_fee t = - w" by (simp_all add: t_def)
  obtain s' where e: "execute_bare_with run env t a s = (s', Val ())"
      and m: "moved env s s' (paid_in env t a) (\<lambda>c. if c = a then 1 else 0)"
    using transfer_moves [OF assms(1), of t s a run] by (auto simp: t assms)
  have "balance_of env s' b = balance_of env s b + w" "a = b \<or> a = coinbase env \<or> balance_of env s' a = balance_of env s a"
    using m assms(4) by (simp_all add: moved_def paid_in_def t)
  then show ?thesis using e t(2) unfolding r by blast
qed

theorem anyone_can_mint_witness:
  "\<exists>t s'. execute_bare 1 9 (sample_chain True) t 1 (accounts []) = (s', Val ()) \<and> tx_receive t = 5
    \<and> balance_of (sample_chain True) s' 5 = 2 ^ 255 \<and> balance_of (sample_chain True) s' 1 = 0"
proof -
  have "\<exists>t s'. execute_bare 1 9 (sample_chain True) t 1 (accounts []) = (s', Val ()) \<and> tx_receive t = 5
    \<and> balance_of (sample_chain True) s' 5 = balance_of (sample_chain True) (accounts []) 5 + 2 ^ 255
    \<and> ((1::address) = 5 \<or> 1 = coinbase (sample_chain True)
       \<or> balance_of (sample_chain True) s' 1 = balance_of (sample_chain True) (accounts []) 1)"
    by (rule anyone_can_mint) (simp_all add: contract_at_def)
  then show ?thesis by (auto simp: balance_of_def)
qed

text \<open>
  C19: A transaction to an address that is not a contract cannot be executed a second time: after a first
  execution, the second one is refused for its nonce, and changes no account.
\<close>

theorem transfer_not_replayed:
  assumes "readable env" and "tx_receive t \<noteq> 0" and "\<not> contract_at env s (tx_receive t)"
    and "execute_bare d n env t a s = (s', Val ())"
  shows "\<exists>s''. execute_bare d' n' env t a s' = (s'', Exc (InvalidNonce (tx_nonce t + 1) (tx_nonce t)))
    \<and> (\<forall>c. seen env s'' c = seen env s' c)"
proof -
  obtain run where r: "execute_bare d n env = execute_bare_with run env" using execute_bare_is_with by blast
  obtain run' where r': "execute_bare d' n' env = execute_bare_with run' env" using execute_bare_is_with by blast
  have l: "nonce_of env (load env a s) a = nonce_of env s a" "balance_of env (load env a s) a = balance_of env s a"
    by (simp_all add: nonce_of_def balance_of_def)
  have e: "execute_bare_with run env t a s = (s', Val ())" using assms(4) r by simp
  then have n: "tx_nonce t = nonce_of env s a"
    by (rule contrapos_pp) (simp add: execute_bare_with_def bindp_def ledger_ops(2) [OF assms(1)] throw_apply)
  from e have b: "\<not> balance_of env s a < tx_value t + tx_fee t"
    by (rule contrapos_pn) (simp add: execute_bare_with_def bindp_def ledger_ops(1,2) [OF assms(1)] throw_apply l)
  have "moved env s s' (paid_in env t a) (\<lambda>c. if c = a then 1 else 0)"
    using transfer_moves [OF assms(1-3) n, of run] b e by auto
  then have "nonce_of env s' a = tx_nonce t + 1" using n by (simp add: moved_def)
  then have "execute_bare d' n' env t a s' = (load env a s', Exc (InvalidNonce (tx_nonce t + 1) (tx_nonce t)))"
    unfolding r' by (simp add: execute_bare_with_def bindp_def ledger_ops(2) [OF assms(1)] throw_apply)
  then show ?thesis by simp
qed

theorem transfer_not_replayed_witness:
  "\<exists>s' s''. execute_bare 1 9 (sample_chain True) (payment 0 0) 1 (accounts []) = (s', Val ())
    \<and> execute_bare 1 9 (sample_chain True) (payment 0 0) 1 s' = (s'', Exc (InvalidNonce 1 0))"
proof -
  have c: "\<not> contract_at (sample_chain True) (accounts []) 5" by (simp add: contract_at_def)
  have "\<exists>s'. execute_bare 1 9 (sample_chain True) (payment 0 0) 1 (accounts []) = (s', Val ())"
    using transfer_moves [of "sample_chain True" "payment 0 0" "accounts []" 1] c execute_bare_is_with [of 1 9 "sample_chain True"]
    by (fastforce simp: nonce_of_def)
  then obtain s' where e: "execute_bare 1 9 (sample_chain True) (payment 0 0) 1 (accounts []) = (s', Val ())" by blast
  show ?thesis using transfer_not_replayed [OF _ _ _ e, of 1 9] c e by auto
qed

end
