(* ===== verification/EthTxProps.thy ===== *)
theory EthTxProps
  imports EthTx
begin

section \<open>Transactions written and read\<close>

text \<open>
  The bytes of a transaction are the encoding of a tree, and reading them gives the transaction back.
\<close>

definition tx_items :: "transaction \<Rightarrow> item list" where
  "tx_items t =
     [Data (to_compact_big_endian (unat (tx_nonce t))), Data (address_bytes (tx_receive t)),
      Data (to_compact_big_endian (unat (tx_value t))), Data (to_compact_big_endian (unat (tx_fee t))),
      List (map (\<lambda>w. Data (to_compact_big_endian (unat w))) (tx_data t))]"

definition sig_items :: "signature \<Rightarrow> item list" where
  "sig_items s =
     [Data (to_compact_big_endian (unat (sig_v s))), Data (to_compact_big_endian (unat (sig_r s))),
      Data (to_compact_big_endian (unat (sig_s s)))]"

lemma data_written:
  assumes "length ws < 2 ^ 32"
  shows "thenp (append_list (of_nat (length ws))) (forall_do ws append_u256) =
    put_item (enc (List (map (\<lambda>w. Data (to_compact_big_endian (unat w))) ws)))"
proof -
  have "forall_do ws append_u256 = forall_do (map (\<lambda>w. enc_int (unat w)) ws) put_item"
    by (rule forall_do_map) (simp add: append_u256_def append_int_eq)
  then show ?thesis using list_of_items [of "map (\<lambda>w. enc_int (unat w)) ws"] assms by (simp add: comp_def)
qed

lemma tx_written:
  assumes "length (tx_data t) < 2 ^ 32" and "tx_vrs t = Some s"
  shows "transaction_rlp True t = Val (enc (List (tx_items t @ sig_items s)))"
proof -
  have "fill_stream True t = thenp (append_list (of_nat (length (tx_items t @ sig_items s)))) (forall_do (map enc (tx_items t @ sig_items s)) put_item)"
    using assms data_written [OF assms(1)]
    by (simp add: fill_stream_def tx_items_def sig_items_def append_u256_def append_int_eq append_data_eq)
  also have "\<dots> = put_item (enc (List (tx_items t @ sig_items s)))"
    using list_of_items [of "map enc (tx_items t @ sig_items s)"] by (simp add: tx_items_def sig_items_def)
  finally show ?thesis by (simp add: transaction_rlp_def streamed_item)
qed

lemma tx_written_unsigned:
  assumes "length (tx_data t) < 2 ^ 32"
  shows "transaction_rlp False t = Val (enc (List (tx_items t)))"
proof -
  have "fill_stream False t = thenp (append_list (of_nat (length (tx_items t)))) (forall_do (map enc (tx_items t)) put_item)"
    using assms data_written [OF assms(1)]
    by (simp add: fill_stream_def tx_items_def append_u256_def append_int_eq append_data_eq)
  also have "\<dots> = put_item (enc (List (tx_items t)))"
    using list_of_items [of "map enc (tx_items t)"] by (simp add: tx_items_def)
  finally show ?thesis by (simp add: transaction_rlp_def streamed_item)
qed

subsection \<open>Reading\<close>

lemma length_enc_int: "i < 256 ^ n \<Longrightarrow> n < 56 \<Longrightarrow> length (enc_int i) \<le> n + 1"
  using bytes_required_le_iff [of i n] by (simp add: enc_data_def length_header)

lemma unat_u256_less: "unat (w::u256) < 256 ^ 32"
  using unsigned_less [of w] by simp

lemma view_u256_enc: "view_u256 (Some (enc_int (unat w))) = Val w"
proof -
  have "bytes_required (unat w) \<le> 32" using unat_u256_less [of w] by (simp add: bytes_required_le_iff)
  then show ?thesis by (simp add: view_u256_def int_read_back max_size_def npos_def)
qed

lemma view_address_enc: "view_address (Some (enc_data (address_bytes a))) = Val a"
proof -
  have "length (enc_data (address_bytes a)) \<le> 21" by (simp add: enc_data_def length_header address_bytes_def)
  then have "rlp_to_hash 20 strict (Some (enc_data (address_bytes a))) = Val (address_bytes a)"
    by (intro hash_read_back) (simp_all add: address_bytes_def npos_def)
  moreover have "unat a < 2 ^ 160" using unsigned_less [of a] by simp
  then have "unat a mod 256 ^ 20 = unat a" by simp
  ultimately show ?thesis by (simp add: view_address_def address_of_bytes_def address_bytes_def from_to_big_endian)
qed

lemma view_byte_enc: "rlp_to_int (Some 1) strict (Some (enc_int (unat (v::byte)))) = Val (unat v)"
proof -
  have "bytes_required (unat v) \<le> 1" using unat_byte_less [of v] by (simp add: bytes_required_le_iff)
  then show ?thesis by (simp add: int_read_back max_size_def npos_def)
qed

text \<open>The loop over the data items follows the iterator.\<close>

definition follows :: "byte list \<Rightarrow> position \<times> nat \<Rightarrow> view list \<Rightarrow> view list eth \<Rightarrow> bool" where
  "follows bs st acc r \<longleftrightarrow> (\<forall>l. r = Val l \<longrightarrow>
    (\<exists>vs. l = acc @ vs \<and> (\<forall>ws a. map view_u256 vs = map Val ws \<longrightarrow> read_data_items bs st a = Some (Val (a @ ws)))))"

lemma items_follow:
  assumes "iterate bs st acc = Some r"
  shows "follows bs st acc r"
proof (rule iterate.raw_induct [where P = follows, OF _ assms])
  fix it bs st acc r
  assume IH: "\<And>bs st acc r. it bs st acc = Some r \<Longrightarrow> follows bs st acc r"
    and step: "(if fst st = (Some (length bs), 0) then Some (Val acc)
      else (let acc' = acc @ [view_from bs (fst st)] in
            case next_position bs st of
              Val st' \<Rightarrow> it bs st' acc'
            | Exc e \<Rightarrow> Some (Exc e)
            | Fault f \<Rightarrow> Some (Fault f))) = Some r"
  let ?v = "view_from bs (fst st)"
  show "follows bs st acc r"
    unfolding follows_def
  proof (intro allI impI)
    fix l
     assume r: "r = Val l"
    show "\<exists>vs. l = acc @ vs \<and> (\<forall>ws a. map view_u256 vs = map Val ws \<longrightarrow> read_data_items bs st a = Some (Val (a @ ws)))"
    proof (cases "fst st = (Some (length bs), 0)")
      case True
      then have "l = acc @ []" using step r by simp
      moreover have "read_data_items bs st a = Some (Val a)" for a
        using True by (simp add: read_data_items.simps [of bs st a])
      ultimately show ?thesis by (intro exI [of _ "[]"]) simp
    next
      case False
      then obtain st' where n: "next_position bs st = Val st'" and i: "it bs st' (acc @ [?v]) = Some r"
        using step r by (cases "next_position bs st") (simp_all add: Let_def)
      obtain vs where vs: "l = (acc @ [?v]) @ vs"
          "\<forall>ws a. map view_u256 vs = map Val ws \<longrightarrow> read_data_items bs st' a = Some (Val (a @ ws))"
        using IH [OF i] r unfolding follows_def by blast
      have "read_data_items bs st a = Some (Val (a @ ws))" if "map view_u256 (?v # vs) = map Val ws" for ws a
      proof -
        obtain w us where "ws = w # us" "view_u256 ?v = Val w" "map view_u256 vs = map Val us"
          using \<open>map view_u256 (?v # vs) = map Val ws\<close> by (cases ws) auto
        then show ?thesis using False n vs(2) by (simp add: read_data_items.simps [of bs st a])
      qed
      then show ?thesis using vs(1) by (intro exI [of _ "?v # vs"]) simp
    qed
  qed
qed

lemma read_data_enc:
  assumes "length (enc (List (map (\<lambda>w. Data (to_compact_big_endian (unat w))) ws))) + 9 < npos"
  shows "read_tx_data (Some (enc (List (map (\<lambda>w. Data (to_compact_big_endian (unat w))) ws)))) = Some (Val ws)"
proof -
  let ?v = "Some (enc (List (map (\<lambda>w. Data (to_compact_big_endian (unat w))) ws)))"
  have l: "rlp_to_list ?v = Some (Val (map (\<lambda>w. Some (enc_int (unat w))) ws))"
    using to_list_enc [OF assms] by (simp add: comp_def)
  moreover have "is_list ?v" using is_list_enc [OF assms] by blast
  ultimately obtain st where st: "start_position ?v = Val st"
      "iterate (view_bytes ?v) st [] = Some (Val (map (\<lambda>w. Some (enc_int (unat w))) ws))"
    by (cases "start_position ?v") (simp_all add: rlp_to_list_def)
  have "map view_u256 (map (\<lambda>w. Some (enc_int (unat w))) ws) = map Val ws"
    by (simp add: view_u256_enc)
  then have "read_data_items (view_bytes ?v) st [] = Some (Val ws)"
    using items_follow [OF st(2)] unfolding follows_def by (metis append_Nil)
  then show ?thesis using st(1) by (simp add: read_tx_data_def)
qed

lemma concat_enc_le: "(\<And>w. w \<in> set ws \<Longrightarrow> length (f w) \<le> n) \<Longrightarrow> length (concat (map f ws)) \<le> n * length ws"
  by (induction ws) (auto simp: add_mono)

lemma tx_short:
  assumes "length (tx_data t) < 2 ^ 32"
  shows "length (enc (tx_items t ! 4)) < 2 ^ 38" and "length (enc (List (tx_items t @ sig_items s))) + 9 < npos"
    and "length (enc (List (tx_items t))) + 9 < npos"
proof -
  let ?p = "concat (map (\<lambda>w. enc_int (unat w)) (tx_data t))"
  have i: "length (enc_int (unat w)) \<le> 33" for w :: u256
    using length_enc_int [OF unat_u256_less [of w]] by simp
  have h: "length (header 0xC0 n) \<le> 9" if "n < npos" for n
    using few_length_bytes [OF that] by (simp add: length_header)
  have p: "length ?p \<le> 33 * length (tx_data t)" by (rule concat_enc_le) (rule i)
  then have "length (enc (tx_items t ! 4)) \<le> 9 + 33 * length (tx_data t)"
    using assms h [of "length ?p"] by (simp add: tx_items_def enc_list_def comp_def npos_def)
  then show four: "length (enc (tx_items t ! 4)) < 2 ^ 38" using assms by simp
  have a: "length (enc_data (address_bytes (tx_receive t))) \<le> 21"
    by (simp add: enc_data_def length_header address_bytes_def)
  have v: "length (enc_int (unat (sig_v s))) \<le> 2"
    using length_enc_int [of "unat (sig_v s)" 1] unat_byte_less [of "sig_v s"] by simp
  have q: "length (concat (map enc (tx_items t @ sig_items s))) < 2 ^ 39" "length (concat (map enc (tx_items t))) < 2 ^ 39"
    using four a v i [of "tx_nonce t"] i [of "tx_value t"] i [of "tx_fee t"] i [of "sig_r s"] i [of "sig_s s"]
    by (simp_all add: tx_items_def sig_items_def)
  then show "length (enc (List (tx_items t @ sig_items s))) + 9 < npos" "length (enc (List (tx_items t))) + 9 < npos"
    using h [of "length (concat (map enc (tx_items t @ sig_items s)))"] h [of "length (concat (map enc (tx_items t)))"]
    by (simp_all only: enc.simps enc_list_def length_append npos_def) simp_all
qed


lemma at_index_reads:
  assumes "length (enc (List ts)) + 9 < npos" and "rlp_ok ts r" and "i < npos"
  shows "\<exists>r'. at_index i f r = (r', f (nth_item ts i)) \<and> rlp_ok ts r'"
proof -
  obtain r' where "rlp_at i r = (r', Val (nth_item ts i))" "rlp_ok ts r'"
    using rlp_at_reads [OF assms] by blast
  then show ?thesis by (simp add: at_index_def bindp_def lift_apply)
qed

lemma front_reads:
  assumes "length (tx_data t) < 2 ^ 32" and "length (enc (List (tx_items t @ us))) + 9 < npos" and "rlp_ok (tx_items t @ us) r"
  shows "\<exists>r'. read_front r =
      (r', Val (tx_nonce t, tx_receive t, tx_value t, tx_fee t, Some (enc (tx_items t ! 4)))) \<and> rlp_ok (tx_items t @ us) r'"
proof -
  let ?ts = "tx_items t @ us"
  have small: "(0::nat) < npos" "1 < npos" "2 < npos" "3 < npos" "4 < npos" by (simp_all add: npos_def)
  have len0: "length (tx_items t) = 5" by (simp add: tx_items_def)
  have items: "nth_item ?ts i = Some (enc (tx_items t ! i))" if "i < 5" for i
    using that len0 by (simp add: nth_item_def nth_append)
  have conv: "view_u256 (nth_item ?ts 0) = Val (tx_nonce t)" "view_address (nth_item ?ts 1) = Val (tx_receive t)"
      "view_u256 (nth_item ?ts 2) = Val (tx_value t)" "view_u256 (nth_item ?ts 3) = Val (tx_fee t)"
    using items [of 0] items [of 1] items [of 2] items [of 3] view_u256_enc view_address_enc by (simp_all add: tx_items_def)
  let ?ds = "map (\<lambda>w. Data (to_compact_big_endian (unat w))) (tx_data t)"
  have d: "tx_items t ! 4 = List ?ds" by (simp add: tx_items_def)
  have "length (enc (List ?ds)) + 9 < npos" using tx_short(1) [OF assms(1)] unfolding d by (simp add: npos_def del: enc.simps)
  then have "item_count (Some (enc (List ?ds))) = Val (length (tx_data t))" "is_list (Some (enc (List ?ds)))"
    using item_count_enc [of ?ds "[]"] is_list_enc [of "List ?ds"] by (simp_all del: enc.simps)
  then have four: "item_count_strict (nth_item ?ts 4) = Val (length (tx_data t))"
    using items [of 4] unfolding d by (simp add: item_count_strict_def item_count_def del: enc.simps)
  obtain r0 where r0: "at_index 0 view_u256 r = (r0, Val (tx_nonce t))" "rlp_ok ?ts r0"
    using at_index_reads [OF assms(2,3) small(1), of view_u256] conv by auto
  obtain r1 where r1: "at_index 1 view_address r0 = (r1, Val (tx_receive t))" "rlp_ok ?ts r1"
    using at_index_reads [OF assms(2) r0(2) small(2), of view_address] conv by auto
  obtain r2 where r2: "at_index 2 view_u256 r1 = (r2, Val (tx_value t))" "rlp_ok ?ts r2"
    using at_index_reads [OF assms(2) r1(2) small(3), of view_u256] conv by auto
  obtain r3 where r3: "at_index 3 view_u256 r2 = (r3, Val (tx_fee t))" "rlp_ok ?ts r3"
    using at_index_reads [OF assms(2) r2(2) small(4), of view_u256] conv by auto
  obtain r4 where r4: "at_index 4 item_count_strict r3 = (r4, Val (length (tx_data t)))" "rlp_ok ?ts r4"
    using at_index_reads [OF assms(2) r3(2) small(5), of item_count_strict] four by auto
  obtain r5 where r5: "rlp_at 4 r4 = (r5, Val (Some (enc (tx_items t ! 4))))" "rlp_ok ?ts r5"
    using rlp_at_reads [OF assms(2) r4(2) small(5)] items [of 4] by auto
  have "read_front r = (r5, Val (tx_nonce t, tx_receive t, tx_value t, tx_fee t, Some (enc (tx_items t ! 4))))"
    unfolding read_front_def bindp_def r0(1) r1(1) r2(1) r3(1) r4(1) r5(1) prod.case outcome.case ret_apply ..
  then show ?thesis using r5(2) by blast
qed

lemma signature_reads:
  assumes "length (enc (List (tx_items t @ sig_items s))) + 9 < npos" and "rlp_ok (tx_items t @ sig_items s) r"
  shows "snd (read_signature r) = Val s"
proof -
  let ?ts = "tx_items t @ sig_items s"
  have small: "(5::nat) < npos" "6 < npos" "7 < npos" by (simp_all add: npos_def)
  have conv: "rlp_to_int (Some 1) strict (nth_item ?ts 5) = Val (unat (sig_v s))"
      "view_u256 (nth_item ?ts 6) = Val (sig_r s)" "view_u256 (nth_item ?ts 7) = Val (sig_s s)"
    using view_byte_enc [of "sig_v s"] view_u256_enc by (simp_all add: nth_item_def tx_items_def sig_items_def)
  obtain r0 where r0: "at_index 5 (rlp_to_int (Some 1) strict) r = (r0, Val (unat (sig_v s)))" "rlp_ok ?ts r0"
    using at_index_reads [OF assms small(1), of "rlp_to_int (Some 1) strict"] conv by auto
  obtain r1 where r1: "at_index 6 view_u256 r0 = (r1, Val (sig_r s))" "rlp_ok ?ts r1"
    using at_index_reads [OF assms(1) r0(2) small(2), of view_u256] conv by auto
  obtain r2 where r2: "at_index 7 view_u256 r1 = (r2, Val (sig_s s))" "rlp_ok ?ts r2"
    using at_index_reads [OF assms(1) r1(2) small(3), of view_u256] conv by auto
  have "read_signature r = (r2, Val s)"
    using r0(1) r1(1) r2(1) by (simp add: read_signature_def bindp_def ret_apply)
  then show ?thesis by simp
qed

lemma transaction_read_back:
  assumes "length (tx_data t) < 2 ^ 32" and "tx_vrs t = Some s"
  shows "\<exists>bs. transaction_rlp True t = Val bs \<and> read_transaction bs = Some (Val t)"
proof -
  let ?ts = "tx_items t @ sig_items s"
  note short = tx_short(2) [OF assms(1), of s]
  obtain r where r: "read_front (new_rlp (Some (enc (List ?ts)))) =
      (r, Val (tx_nonce t, tx_receive t, tx_value t, tx_fee t, Some (enc (tx_items t ! 4))))" "rlp_ok ?ts r"
    using front_reads [OF assms(1) short rlp_ok_new] by blast
  have "length (enc (tx_items t ! 4)) + 9 < npos" using tx_short(1) [OF assms(1)] by (simp add: npos_def)
  then have d: "read_tx_data (Some (enc (tx_items t ! 4))) = Some (Val (tx_data t))"
    using read_data_enc [of "tx_data t"] by (simp add: tx_items_def)
  have s: "snd (read_signature r) = Val s" by (rule signature_reads [OF short r(2)])
  have "read_transaction (enc (List ?ts)) = Some (Val t)"
    unfolding read_transaction_def r(1) using d s assms(2) by (simp del: enc.simps)
  then show ?thesis using tx_written [OF assms] by blast
qed

text \<open>
  C10: A signed transaction with fewer than \<open>2\<^sup>3\<^sup>2\<close> words of data, written as RLP and read again, is the same
  in every field and in its signature, and two such transactions with the same bytes are the same.
\<close>

theorem transaction_roundtrip:
  assumes "length (tx_data t) < 2 ^ 32" and "tx_vrs t = Some s"
  shows "\<exists>bs. transaction_rlp True t = Val bs \<and> read_transaction bs = Some (Val t)
    \<and> (\<forall>u v. length (tx_data u) < 2 ^ 32 \<longrightarrow> tx_vrs u = Some v \<longrightarrow> transaction_rlp True u = Val bs \<longrightarrow> u = t)"
proof -
  obtain bs where t: "transaction_rlp True t = Val bs" "read_transaction bs = Some (Val t)"
    using transaction_read_back [OF assms] by blast
  have "u = t" if "length (tx_data u) < 2 ^ 32" "tx_vrs u = Some v" "transaction_rlp True u = Val bs" for u v
    using transaction_read_back [OF that(1,2)] that(3) t(2) by auto
  then show ?thesis using t by blast
qed

theorem transaction_roundtrip_witness:
  "let t = \<lparr>tx_nonce = 1, tx_receive = 2, tx_value = 300, tx_fee = 0, tx_data = [0, 5, 2 ^ 255],
      tx_vrs = Some \<lparr>sig_v = 28, sig_r = 7, sig_s = 8\<rparr>\<rparr> in
   \<exists>bs. transaction_rlp True t = Val bs \<and> read_transaction bs = Some (Val t)"
proof -
  let ?t = "\<lparr>tx_nonce = 1, tx_receive = 2, tx_value = 300, tx_fee = 0, tx_data = [0, 5, 2 ^ 255],
      tx_vrs = Some \<lparr>sig_v = 28, sig_r = 7, sig_s = 8\<rparr>\<rparr>"
  show ?thesis using transaction_roundtrip [of ?t] by (auto simp: Let_def)
qed

text \<open>
  C26: A transaction without its signature, five items instead of eight, is not refused: the sixth item is
  null, and reading a number from it runs into an assertion (or, without assertions, behind the bytes).
  Whoever sends such a transaction ends the process of the peer.
\<close>

theorem unsigned_transaction_asserts:
  assumes "length (tx_data t) < 2 ^ 32"
  shows "\<exists>bs. transaction_rlp False t = Val bs \<and> read_transaction bs = Some (Fault AssertFailed)"
proof -
  let ?ts = "tx_items t"
  note short = tx_short(3) [OF assms]
  have "length (enc (List (?ts @ []))) + 9 < npos" "rlp_ok (?ts @ []) (new_rlp (Some (enc (List ?ts))))"
    using short rlp_ok_new by (simp_all only: append_Nil2)
  then obtain r where r: "read_front (new_rlp (Some (enc (List ?ts)))) =
      (r, Val (tx_nonce t, tx_receive t, tx_value t, tx_fee t, Some (enc (?ts ! 4))))" "rlp_ok ?ts r"
    using front_reads [OF assms, of "[]"] by auto
  have "length (enc (?ts ! 4)) + 9 < npos" using tx_short(1) [OF assms] by (simp add: npos_def)
  then have d: "read_tx_data (Some (enc (?ts ! 4))) = Some (Val (tx_data t))"
    using read_data_enc [of "tx_data t"] by (simp add: tx_items_def)
  have "rlp_to_int (Some 1) strict (nth_item ?ts 5) = Fault AssertFailed"
    by (simp add: nth_item_def tx_items_def rlp_to_int_def is_int_def view_at_def)
  then have "snd (read_signature r) = Fault AssertFailed"
    using at_index_reads [OF short r(2), of 5 "rlp_to_int (Some 1) strict"]
    by (auto simp: read_signature_def bindp_def npos_def)
  then have "read_transaction (enc (List ?ts)) = Some (Fault AssertFailed)"
    unfolding read_transaction_def r(1) using d by (simp del: enc.simps)
  then show ?thesis using tx_written_unsigned [OF assms] by blast
qed

theorem unsigned_transaction_asserts_witness:
  "let t = \<lparr>tx_nonce = 1, tx_receive = 2, tx_value = 300, tx_fee = 0, tx_data = [7], tx_vrs = None\<rparr> in
   \<exists>bs. transaction_rlp False t = Val bs \<and> read_transaction bs = Some (Fault AssertFailed)"
  unfolding Let_def by (rule unsigned_transaction_asserts) simp

end
