(* ===== verification/EthRuns.thy ===== *)
theory EthRuns
  imports EthPay EthTxProps
begin

section \<open>Contracts that run\<close>

text \<open>
  What creating a contract makes, what becomes of a contract when the library is compiled with its
  assertions, what single instructions compute, and how long a contract can run.
\<close>

subsection \<open>Single instructions\<close>

lemma squarings: "((\<lambda>n. n * n) ^^ k) (a::u256) = a ^ (2 ^ k)"
  by (induction k) (simp_all add: power2_eq_square [symmetric] power_mult [symmetric] mult.commute)

text \<open>
  EXP squares its first operand as often as the second says, so it pushes \<open>a\<close> to the power of
  \<open>2\<close> to the power of \<open>b\<close>, modulo \<open>2\<^sup>2\<^sup>5\<^sup>6\<close>; LNOT removes its operand and pushes nothing.
\<close>

theorem exp_squares_and_lnot_drops:
  "run_instruction exec env c pc EXP (a # b # stk) s = (s, Val (Next (pc + 1) (a ^ (2 ^ unat b) # stk)))
   \<and> run_instruction exec env c pc LNOT (a # stk) s = (s, Val (Next (pc + 1) stk))"
  by (simp add: run_instruction_def binary_def pushed_def hash_with_def shuffle_def require_def squarings ret_apply bindp_def)

subsection \<open>With assertions\<close>

lemma raise_nothing [simp]: "raise_balance 0 x = x"
  by (simp add: raise_balance_def)

lemma add_no_fee [simp]: "add_fee 0 s = s"
  by (cases "lg_fees s") (simp_all add: add_fee_def)

text \<open>The first sixteen steps are free, but for the fees of the instructions.\<close>

lemma free_step:
  assumes "readable env" and "word_of (cc_me c) pc (put_state (cc_me c) x s) = raw" and "raw \<le> 0xff"
    and "map_of opcodes raw = Some i" and "steps \<le> 16" and "miner_fee (Some i) = 0" and "i \<noteq> STORE"
  shows "vm_step exec env c steps pc stk (put_state (cc_me c) x s) = run_instruction exec env c pc i stk (put_state (cc_me c) x s)"
proof -
  have "pay_step env c steps (Some i) stk (put_state (cc_me c) x s) = (put_state (cc_me c) x s, Val ())"
    using assms by (simp add: pay_step_def bindp_def ret_apply Let_def modify_apply ledger_ops [OF assms(1)]
        load_cached balance_of_def seen_def)
  then show ?thesis
    using assms(2-4) by (simp add: vm_step_def Let_def bindp_def [of _ _ "put_state (cc_me c) x s"] gets_apply not_less [symmetric])
qed

lemma first_step_stops:
  assumes "readable env" and "as_memory x = []"
  shows "vm_step exec env c 1 0 [] (put_state (cc_me c) x s) = (put_state (cc_me c) x s, Val Halt)"
proof -
  have "vm_step exec env c 1 0 [] (put_state (cc_me c) x s) = run_instruction exec env c 0 STOP [] (put_state (cc_me c) x s)"
    using assms(2) opcode_zero by (intro free_step [OF assms(1)]) (simp_all add: word_of_def miner_fee_def)
  then show ?thesis by (simp add: run_instruction_def binary_def pushed_def hash_with_def ret_apply)
qed

text \<open>
  C25: Compiled with its assertions, as the repository's build files do it, the library never lets a contract run: either the
  process ends while the contract's memory is fetched, by an assertion or in the data base behind the
  null pointer, or the memory is empty and the root of the one it had is forgotten, and the run ends with
  the \<open>STOP\<close> that an empty memory reads as.
\<close>

theorem checked_contract_never_runs:
  assumes "readable env" and "null_trie env" and "orderly s" and "checked env"
  shows "\<exists>s' r. execute_contract (Suc n) exec env c s = (s', r)
    \<and> (r = Fault AssertFailed \<or> r = Fault UndefinedBehaviour
       \<or> r = Val () \<and> (\<exists>x. seen env s' (cc_me c) = Some x \<and> as_memory x = [] \<and> as_root x = 0)
         \<and> (\<forall>a. a \<noteq> cc_me c \<longrightarrow> seen env s' a = seen env s a))"
proof -
  let ?a = "cc_me c"
  let ?x = "arrived env s ?a"
  let ?y = "?x\<lparr>as_root := 0\<rparr>"
  show ?thesis
  proof (cases "as_type ?x = Contract \<and> have_memory ?x")
    case True
    have "cached ?a (arrive_at env ?a s) = Some ?x" by simp
    have "vm_step exec env c 1 0 [] (put_state ?a ?y (put_state ?a ?y (arrive_at env ?a s))) =
        (put_state ?a ?y (put_state ?a ?y (arrive_at env ?a s)), Val Halt)"
      using True by (intro first_step_stops [OF assms(1)]) (simp_all add: have_memory_def)
    then have "execute_contract (Suc n) exec env c s = (put_state ?a ?y (arrive_at env ?a s), Val ())"
      using True assms(4) by (simp add: execute_contract_def bindp_def start_contract_apply [OF assms(1,2) sound_arrived [OF assms(3)]] Let_def ret_apply)
    moreover have "seen env (arrive_at env ?a s) b = seen env s b" if "b \<noteq> ?a" for b
      using that by (simp add: arrive_at_def split: option.split)
    ultimately show ?thesis using True by (auto simp: have_memory_def)
  next
    case False
    then show ?thesis
      using assms(4) by (auto simp: execute_contract_def bindp_def start_contract_apply [OF assms(1,2) sound_arrived [OF assms(3)]] Let_def)
  qed
qed

text \<open>Account 5 is in the cache; with an empty memory and a root of 3 in the first case, with words in the second.\<close>

definition sleeping :: ledger where
  "sleeping = accounts [(5, contract_state 0 0 3)]"

theorem checked_contract_never_runs_witness:
  "\<exists>s' r. execute_contract 1 (\<lambda>_ _. throw NotEnoughCash) (sample_chain True) (call_of (payment 0 0) 1) sleeping = (s', r)
    \<and> (r = Fault AssertFailed \<or> r = Fault UndefinedBehaviour \<or> r = Val () \<and> (\<exists>x. cached 5 s' = Some x \<and> as_memory x = [] \<and> as_root x = 0))"
proof -
  have "orderly sleeping" unfolding sleeping_def by (rule orderly_accounts) simp
  from checked_contract_never_runs [of "sample_chain True", OF _ _ this, of 0 "\<lambda>_ _. throw NotEnoughCash" "call_of (payment 0 0) 1"]
  show ?thesis by (auto simp: call_of_def)
qed

subsection \<open>Contracts that are created\<close>

lemma used_put_new:
  "ascending ws \<Longrightarrow> k \<notin> fst ` set ws \<Longrightarrow> used_words (map_put k w ws) = used_words ws + (if w \<noteq> 0 then 1 else 0)"
  using used_put [of ws k w] by (simp add: word_at_absent)

lemma disjoint_insert: "x \<notin> A \<Longrightarrow> A \<inter> B = {} \<Longrightarrow> C \<subseteq> insert x B \<Longrightarrow> A \<inter> C = {}"
  by blast

lemma used_fold:
  "ascending ws \<Longrightarrow> distinct (map f es) \<Longrightarrow> f ` set es \<inter> fst ` set ws = {} \<Longrightarrow>
   used_words (fold (\<lambda>e. map_put (f e) (snd e)) es ws) = used_words ws + length (filter (\<lambda>e. snd e \<noteq> 0) es)"
proof (induction es arbitrary: ws)
  case (Cons e es)
  have n: "f e \<notin> fst ` set ws" using Cons.prems by auto
  have distinct: "distinct (map f es)" using Cons.prems(2) by simp
  have disj: "f e \<notin> f ` set es" "f ` set es \<inter> fst ` set ws = {}" using Cons.prems(2,3) by auto
  have "fst ` set (map_put (f e) (snd e) ws) \<subseteq> insert (f e) (fst ` set ws)"
    using Cons.prems(1) by (auto simp: map_put_set)
  from disjoint_insert [OF disj this]
  have "used_words (fold (\<lambda>e. map_put (f e) (snd e)) es (map_put (f e) (snd e) ws)) =
      used_words (map_put (f e) (snd e) ws) + length (filter (\<lambda>e. snd e \<noteq> 0) es)"
    by (rule Cons.IH [OF map_put_ascending [OF Cons.prems(1)] distinct])
  then show ?case using used_put_new [OF Cons.prems(1) n, of "snd e"] by simp
qed simp

lemma fill_memory:
  "(forall_do es (\<lambda>(i, w). modify (\<lambda>s. case cached a s of None \<Rightarrow> s
        | Some x \<Rightarrow> put_state a (x\<lparr>as_memory := map_put (of_nat i) w (as_memory x)\<rparr>) s)) :: unit ledger_prog) (put_state a x s) =
   (put_state a (x\<lparr>as_memory := fold (\<lambda>e. map_put (of_nat (fst e)) (snd e)) es (as_memory x)\<rparr>) s, Val ())"
  by (induction es arbitrary: x) (auto simp: ret_apply bindp_def modify_apply split: prod.split)

lemma worth_sub: "readable env \<Longrightarrow> sub_balance env a n s = (t, Val ()) \<Longrightarrow> worth env t = worth env s - of_int n"
  by (auto simp: ledger_ops(7) worth_put split: option.splits if_splits)

lemma worth_add': "readable env \<Longrightarrow> add_balance env a n s = (t, Val ()) \<Longrightarrow> worth env t = worth env s + n"
  using worth_add [of env a n s] by simp


lemma created:
  assumes "readable env" and "create_contract env t a s = (s', Val ())" and "orderly s" and "length (tx_data t) < 2 ^ 64"
  shows "\<exists>h. transaction_sha3 (hash3 env) True t = Val h
    \<and> \<not> contract_at env s (ucast (u256_of_bytes h))
    \<and> worth env s' = worth env s - balance_of env s (ucast (u256_of_bytes h))
        + of_nat (length (filter (\<lambda>w. w \<noteq> 0) (tx_data t))) * of_int memory_fee"
proof -
  let ?n = "length (tx_data t)"
  let ?es = "zip [0..<?n] (tx_data t)"
  obtain h where h: "transaction_sha3 (hash3 env) True t = Val h"
    using assms(2) by (cases "transaction_sha3 (hash3 env) True t")
      (auto simp: create_contract_def with_rlp_def bindp_def throw_apply fault_apply split: if_splits)
  define new where "new = (ucast (u256_of_bytes h) :: address)"
  let ?l = "load env new s"
  define x where "x = contract_state 0 0 (u256_of_bytes (hash3 env [0x80]))"
  define y where "y = x\<lparr>as_root := 0\<rparr>"
  define z where "z = y\<lparr>as_memory := fold (\<lambda>e. map_put (of_nat (fst e)) (snd e)) ?es []\<rparr>"
  have taken: "\<not> (\<exists>x. seen env s new = Some x \<and> as_type x = Contract)" "\<not> (\<exists>x. seen env s new = Some x \<and> as_type x = Normal)"
    using assms(2) by (auto simp: create_contract_def h bindp_def ledger_ops [OF assms(1)] ret_apply throw_apply
        simp flip: new_def split: if_splits)
  define u where "u = put_state new x ?l"
  have "take_memory env new u = (put_state new y ?l, Val ())" if "\<not> (checked env \<and> \<not> (as_type x = Contract \<and> have_memory x))"
    using that by (simp add: take_memory_apply [of new _ x] u_def y_def)
  define F :: "nat \<times> u256 \<Rightarrow> unit ledger_prog" where
    "F = (\<lambda>(i, w). modify (\<lambda>s. case cached new s of None \<Rightarrow> s
        | Some x \<Rightarrow> put_state new (x\<lparr>as_memory := map_put (of_nat i) w (as_memory x)\<rparr>) s))"
  have m: "take_memory env new u = (put_state new y ?l, Val ())"
      and rest: "(thenp (forall_do ?es F)
         (thenp (sub_balance env a (uint (tx_value t + tx_fee t)))
         (thenp (add_balance env new (tx_value t)) (add_balance env (coinbase env) (tx_fee t))))) (put_state new y ?l) = (s', Val ())"
    using assms(2) h taken
    by (auto simp: create_contract_def bindp_eq_Val ledger_ops(3,4) [OF assms(1)] throw_apply ret_apply modify_apply
        take_memory_apply [of new _ x] u_def y_def simp flip: new_def x_def F_def split: if_splits)
  have z: "y\<lparr>as_memory := fold (\<lambda>e. map_put (of_nat (fst e)) (snd e)) ?es (as_memory y)\<rparr> = z"
    by (simp add: z_def y_def x_def contract_state_def)
  have f: "(thenp (sub_balance env a (uint (tx_value t + tx_fee t)))
         (thenp (add_balance env new (tx_value t)) (add_balance env (coinbase env) (tx_fee t)))) (put_state new z ?l) = (s', Val ())"
    using rest by (simp only: bindp_Val [of "forall_do ?es F", OF fill_memory [of ?es new y ?l, unfolded z, folded F_def]])
  then have "worth env s' = worth env (put_state new z ?l)"
    by (auto simp: bindp_eq_Val dest!: worth_sub [OF assms(1)] worth_add' [OF assms(1)])
  also have "\<dots> = worth env s - value_of (seen env s new) + value_of (Some z)"
    by (simp add: worth_put)
  also have "value_of (Some z) = of_nat (length (filter (\<lambda>w. w \<noteq> 0) (tx_data t))) * of_int memory_fee"
  proof -
    have "(of_nat i :: u256) = of_nat j \<longleftrightarrow> i = j" if "i < 2 ^ 64" "j < 2 ^ 64" for i j
      using that by (simp add: word_of_nat_eq_iff take_bit_nat_eq_self)
    then have "distinct (map (\<lambda>e. of_nat (fst e) :: u256) ?es)"
      using assms(4) by (auto simp: distinct_conv_nth)
    then have "used_words (as_memory z) = length (filter (\<lambda>e. snd e \<noteq> 0) ?es)"
      using used_fold [of "[]" "\<lambda>e. of_nat (fst e)" ?es] by (simp add: z_def)
    also have "\<dots> = length (filter (\<lambda>w. w \<noteq> 0) (map snd ?es))"
      by (simp only: filter_map comp_def length_map)
    also have "map snd ?es = tx_data t" by simp
    finally show ?thesis by (simp add: value_of_def paid_words_def z_def y_def x_def contract_state_def)
  qed
  also have "value_of (seen env s new) = balance_of env s new"
  proof (cases "seen env s new")
    case (Some w)
    then have "as_type w = Dead" using taken by (cases "as_type w") auto
    then have "as_memory w = []" using orderly_seen [OF assms(3) Some] by (simp add: sound_def)
    then show ?thesis using Some by (simp add: value_of_def balance_of_def paid_words_def)
  qed (simp add: value_of_def balance_of_def)
  finally show ?thesis using h taken(1) by (auto simp: contract_at_def new_def)
qed


text \<open>
  C23: A transaction that creates a contract pays for the words it is given, but to the miner: the sum of
  all balances and of what words were paid for grows by the fee of every word that is not zero, which the
  contract can get back by clearing the words or dying; it shrinks only by what a dead account at the new
  address owned. The address was not that of a contract.
\<close>

theorem creation_makes_money:
  assumes "readable env" and "orderly s" and "tx_receive t = 0" and "length (tx_data t) < 2 ^ 64"
    and "execute_bare d n env t a s = (s', Val ())"
  shows "\<exists>h. transaction_sha3 (hash3 env) True t = Val h
    \<and> \<not> contract_at env s (ucast (u256_of_bytes h))
    \<and> worth env s' = worth env s - balance_of env s (ucast (u256_of_bytes h))
        + of_nat (length (filter (\<lambda>w. w \<noteq> 0) (tx_data t))) * of_int memory_fee"
proof -
  obtain run where r: "execute_bare d n env = execute_bare_with run env" using execute_bare_is_with by blast
  define l where "l = load env a (load env a s)"
  obtain u where u: "note_sending env a l = (u, Val ())" "moved env l u (\<lambda>c. 0) (\<lambda>c. if c = a then 1 else 0)"
    using moved_noted [OF assms(1)] by blast
  have "create_contract env t a u = (s', Val ())"
    using assms(3,5) u(1) unfolding r l_def
    by (auto simp: execute_bare_with_def bindp_def ledger_ops(1,2) [OF assms(1)] throw_apply split: if_splits)
  note c = this
  have o: "orderly u" "worth env u = worth env s"
    using u(1) assms(2) orderly_seen [OF assms(2), of env a]
    by (auto simp: ledger_ops(5) [OF assms(1)] l_def worth_put intro!: orderly_put sound_noted)
  have "balance_of env u c = balance_of env s c" "contract_at env u c = contract_at env s c" for c
    using u(2) by (simp_all add: moved_def l_def balance_of_def contract_at_def)
  then show ?thesis using created [OF assms(1) c o(1) assms(4)] o(2) by simp
qed

definition new_contract :: transaction where
  "new_contract = \<lparr>tx_nonce = 0, tx_receive = 0, tx_value = 0, tx_fee = 120000, tx_data = [7, 0xff],
     tx_vrs = Some \<lparr>sig_v = 27, sig_r = 1, sig_s = 1\<rparr>\<rparr>"

theorem creation_makes_money_witness:
  "\<exists>s'. execute_bare 0 0 (sample_chain False) new_contract 1 (accounts [(1, normal_state 200000 0)]) = (s', Val ())
    \<and> worth (sample_chain False) s' = worth (sample_chain False) (accounts [(1, normal_state 200000 0)]) + 60000"
proof -
  let ?e = "sample_chain False"
  let ?s = "accounts [(1, normal_state 200000 0)]"
  have h: "transaction_sha3 (\<lambda>_. to_big_endian 32 7) True new_contract = Val (to_big_endian 32 7)"
    using tx_written [of new_contract] by (simp add: transaction_sha3_def new_contract_def)
  have a: "(ucast (u256_of_bytes (to_big_endian 32 7)) :: address) = 7" "u256_of_bytes (to_big_endian 32 7) = 7"
    by (simp_all add: u256_of_bytes_def from_to_big_endian)
  have r: "readable ?e" by simp
  have t: "tx_nonce new_contract = 0" "tx_receive new_contract = 0" "tx_value new_contract = 0" "tx_fee new_contract = 120000"
      "tx_data new_contract = [7, 255]"
    by (simp_all add: new_contract_def)
  obtain s' where e: "execute_bare 0 0 ?e new_contract 1 ?s = (s', Val ())"
    by (simp add: execute_bare_with_def create_contract_def bindp_def ledger_ops [OF r] h a t ret_apply modify_apply
      nonce_of_def balance_of_def normal_state_def memory_fee_def new_contract_fee_def load_def throw_apply take_memory_apply noted_def inc_nonce_def
      raise_balance_def grown_def)
  have "orderly ?s" by (rule orderly_accounts) simp
  from creation_makes_money [OF r this _ _ e] e a h show ?thesis
    by (auto simp: t balance_of_def memory_fee_def)
qed

end
