(* ===== verification/EthHalts.thy ===== *)
theory EthHalts
  imports EthRuns
begin

section \<open>How long a contract runs\<close>

text \<open>
  Every step after the sixteenth is paid for, so a contract that gains nothing from the transactions it
  makes runs for a number of steps that its balance and its memory bound. A contract that calls itself
  makes sixteen steps free of charge in each of its runs, and so calls itself for ever.
\<close>

subsection \<open>Halting\<close>

text \<open>The run ends, in whatever way, within \<open>n\<close> steps.\<close>

fun vm_ends :: "nat \<Rightarrow> executor \<Rightarrow> 'c vm_chain_scheme \<Rightarrow> contract_call \<Rightarrow> nat \<Rightarrow> u256 \<Rightarrow> u256 list \<Rightarrow> ledger \<Rightarrow> bool" where
  "vm_ends 0 exec env c steps pc stk s \<longleftrightarrow> False"
| "vm_ends (Suc n) exec env c steps pc stk s \<longleftrightarrow>
     (case vm_step exec env c (steps + 1) pc stk s of
        (t, Val (Next pc stk)) \<Rightarrow> vm_ends n exec env c (steps + 1) pc stk t
      | _ \<Rightarrow> True)"

text \<open>More fuel makes no difference to a run that ends.\<close>


lemma vm_run_more:
  "vm_ends n exec env c steps pc stk s \<Longrightarrow> n \<le> m \<Longrightarrow>
   vm_run m exec env c steps pc stk s = vm_run n exec env c steps pc stk s"
proof (induction n arbitrary: m steps pc stk s)
  case (Suc n)
  then obtain m' where m: "m = Suc m'" "n \<le> m'" by (cases m) auto
  obtain t r where v: "vm_step exec env c (steps + 1) pc stk s = (t, r)" by fastforce
  show ?case
  proof (cases r)
    case (Val x)
    then show ?thesis using Suc.prems Suc.IH [OF _ m(2)] v m(1) by (cases x) (auto simp: bindp_def)
  qed (use v m(1) in \<open>simp_all add: bindp_def\<close>)
qed simp

subsection \<open>What a contract can spend\<close>

definition spendable :: "'c chain_scheme \<Rightarrow> address \<Rightarrow> ledger \<Rightarrow> int" where
  "spendable env a s =
     (case seen env s a of None \<Rightarrow> 0 | Some x \<Rightarrow> uint (as_balance x) + int (used_words (as_memory x)) * memory_fee)"

definition spends :: "'c chain_scheme \<Rightarrow> address \<Rightarrow> int \<Rightarrow> ledger \<Rightarrow> ledger \<Rightarrow> bool" where
  "spends env a n s t \<longleftrightarrow> (orderly s \<longrightarrow> orderly t \<and> spendable env a t + n \<le> spendable env a s)"

lemma spendable_nonneg: "0 \<le> spendable env a s"
  by (simp add: spendable_def memory_fee_def split: option.split)

interpretation sp: calm_rel "spends env a 0" env for env :: "'c vm_chain_scheme" and a
  by unfold_locales (auto simp: spends_def spendable_def)

lemma uint_of_int_le: "0 \<le> z \<Longrightarrow> uint (of_int z :: u256) \<le> z"
  by (simp add: uint_word_of_int zmod_le_nonneg_dividend)

lemma miner_fee_nonneg: "0 \<le> miner_fee i"
  by (simp add: miner_fee_def data_fee_def extro_fee_def tx_fee_const_def crypto_fee_def)

lemma spends_fee:
  assumes "seen env s a = Some x" and "n + void \<le> uint (as_balance x)" and "orderly s \<Longrightarrow> sound y"
    and "as_balance y = as_balance x - of_int (n + void)"
    and "orderly s \<Longrightarrow> int (used_words (as_memory y)) * memory_fee = int (used_words (as_memory x)) * memory_fee + void"
  shows "spends env a n s (add_fee m (put_state a y s))"
proof -
  have "of_int (uint (as_balance x) - (n + void)) = as_balance y" using assms(4) by simp
  then have "uint (as_balance y) \<le> uint (as_balance x) - (n + void)"
    using uint_of_int_le [of "uint (as_balance x) - (n + void)"] assms(2) by simp
  then show ?thesis using assms by (auto simp: spends_def spendable_def orderly_put)
qed

definition step_cost :: "nat \<Rightarrow> int" where
  "step_cost steps = (if 16 < steps then step_fee else 0)"

lemma pay_step_spends:
  assumes "readable env" and "i \<noteq> Some STORE" and "pay_step env c steps i stk s = (t, Val ())"
  shows "spends env (cc_me c) (step_cost steps) s t"
proof -
  define fee where "fee = (if 16 < steps then step_fee else 0) + miner_fee i"
  let ?l = "load env (cc_me c) s"
  have "\<exists>x. seen env s (cc_me c) = Some x \<and> \<not> uint (as_balance x) < fee
      \<and> t = add_fee fee (put_state (cc_me c) (raise_balance (- fee) x) ?l)"
    using assms(2,3)
    by (auto simp: pay_step_def bindp_def ret_apply Let_def throw_apply modify_apply balance_of_def
        ledger_ops [OF assms(1)] simp flip: fee_def split: option.splits if_splits)
  then obtain x where x: "seen env s (cc_me c) = Some x" "\<not> uint (as_balance x) < fee"
      "t = add_fee fee (put_state (cc_me c) (raise_balance (- fee) x) ?l)"
    by blast
  have "spends env (cc_me c) fee ?l t"
    unfolding x(3) using x(1,2) orderly_seen [of ?l env "cc_me c" x]
    by (intro spends_fee [where void = 0]) auto
  moreover have "step_cost steps \<le> fee" using miner_fee_nonneg [of i] by (simp add: fee_def step_cost_def)
  ultimately show ?thesis by (auto simp: spends_def spendable_def)
qed

text \<open>Only MKTX uses the executor.\<close>

lemma other_instruction: "i \<noteq> MKTX \<Longrightarrow> run_instruction exec env c pc i = run_instruction exec' env c pc i"
  unfolding run_instruction_def Let_def by (cases i) (simp_all add: fun_eq_iff binary_def pushed_def hash_with_def)

definition keeps_order :: "ledger \<Rightarrow> ledger \<Rightarrow> bool" where
  "keeps_order s t \<longleftrightarrow> (orderly s \<longrightarrow> orderly t)"

interpretation od: calm_rel keeps_order env for env :: "'c vm_chain_scheme"
  by unfold_locales (auto simp: keeps_order_def)

text \<open>
  The step at \<open>pc\<close> made a transaction, and after it the contract can spend more than before, the fee of the
  step apart.
\<close>

definition gained :: "'c vm_chain_scheme \<Rightarrow> contract_call \<Rightarrow> nat \<Rightarrow> u256 \<Rightarrow> ledger \<Rightarrow> ledger \<Rightarrow> bool" where
  "gained env c steps pc s t \<longleftrightarrow>
     map_of opcodes (word_of (cc_me c) pc s) = Some MKTX
     \<and> spendable env (cc_me c) s < spendable env (cc_me c) t + step_cost steps"

text \<open>Some transaction among the first \<open>n\<close> steps of the run gained something.\<close>

fun gains_within :: "nat \<Rightarrow> executor \<Rightarrow> 'c vm_chain_scheme \<Rightarrow> contract_call \<Rightarrow> nat \<Rightarrow> u256 \<Rightarrow> u256 list \<Rightarrow> ledger \<Rightarrow> bool" where
  "gains_within 0 exec env c steps pc stk s \<longleftrightarrow> False"
| "gains_within (Suc n) exec env c steps pc stk s \<longleftrightarrow>
     (case vm_step exec env c (steps + 1) pc stk s of
        (t, Val (Next pc' stk')) \<Rightarrow>
          gained env c (steps + 1) pc s t \<or> gains_within n exec env c (steps + 1) pc' stk' t
      | _ \<Rightarrow> False)"

lemma vm_step_spends:
  assumes "readable env" and "unsigned_in keeps_order exec" and "orderly s" and "\<not> gained env c steps pc s t"
    and "vm_step exec env c steps pc stk s = (t, Val (Next pc' stk'))"
  shows "spends env (cc_me c) (step_cost steps) s t"
proof -
  define raw where "raw = word_of (cc_me c) pc s"
  obtain i where i: "map_of opcodes raw = Some i"
      "thenp (pay_step env c steps (Some i) stk) (run_instruction exec env c pc i stk) s = (t, Val (Next pc' stk'))"
    using assms(5) by (cases "map_of opcodes raw")
      (auto simp: vm_step_def gets_apply Let_def bindp_eq_Val throw_apply simp flip: raw_def split: if_splits)
  consider "i = STORE" | "i = SUICIDE" | "i \<noteq> STORE" "i \<noteq> SUICIDE" by blast
  then show ?thesis
  proof cases
    case 1
    then have "raw \<noteq> 0" using opcode_zero i(1) by auto
    then obtain x where x: "cached (cc_me c) s = Some x" "as_memory x \<noteq> []"
      using word_of_used [of "cc_me c" pc s] unfolding raw_def by blast
    have len: "2 \<le> length stk"
    proof (rule ccontr)
      assume "\<not> 2 \<le> length stk"
      then show False using i(2) 1 by (simp add: pay_step_def require_def bindp_def throw_apply)
    qed
    define fee where "fee = (if 16 < steps then step_fee else 0) + data_fee"
    define void where "void = void_fee (word_at (as_memory x) (stk ! 0)) (stk ! 1)"
    let ?y = "stored (stk ! 0) (stk ! 1) (raise_balance (- (fee + void)) x)"
    have t: "\<not> uint (as_balance x) < fee + void" "t = add_fee fee (put_state (cc_me c) ?y s)"
      using i(2) store_apply [OF assms(1) x(1) len, of steps exec pc] 1
      by (auto simp: Let_def fee_def void_def split: if_splits)
    have s: "sound x" using assms(3) x(1) by (simp add: orderly_def)
    have "spends env (cc_me c) fee s t"
      unfolding t(2)
    proof (rule spends_fee [where void = void])
      show "seen env s (cc_me c) = Some x" using x(1) by (simp add: seen_def)
      show "sound ?y" using s x(2) by (intro sound_stored) simp_all
      have "as_memory ?y = as_memory (stored (stk ! 0) (stk ! 1) x)" by (simp add: stored_def)
      then show "int (used_words (as_memory ?y)) * memory_fee = int (used_words (as_memory x)) * memory_fee + void"
        using used_stored [OF s] by (simp add: void_def)
    qed (use t(1) in \<open>simp_all add: stored_def raise_balance_def\<close>)
    moreover have "step_cost steps \<le> fee" by (simp add: fee_def step_cost_def data_fee_def)
    ultimately show ?thesis by (auto simp: spends_def)
  next
    case 2
    then show ?thesis using i(2)
      by (auto simp: bindp_eq_Val run_instruction_def binary_def pushed_def hash_with_def ret_apply)
  next
    case 3
    obtain u where u: "pay_step env c steps (Some i) stk s = (u, Val ())" "run_instruction exec env c pc i stk u = (t, Val (Next pc' stk'))"
      using i(2) by (auto simp: bindp_eq_Val)
    have p: "spends env (cc_me c) (step_cost steps) s u" using pay_step_spends [OF assms(1) _ u(1)] 3(1) by simp
    show ?thesis
    proof (cases "i = MKTX")
      case True
      have "keeps_order u t"
        using od.in_plain_instruction [OF assms(1,2) 3] u(2) by (rule steps_inD)
      then have "orderly t" using p assms(3) by (simp add: spends_def keeps_order_def)
      moreover have "spendable env (cc_me c) t + step_cost steps \<le> spendable env (cc_me c) s"
        using assms(4) i(1) True by (simp add: gained_def raw_def)
      ultimately show ?thesis by (simp add: spends_def)
    next
      case False
      let ?none = "\<lambda>_ _. throw NotEnoughCash"
      have "unsigned_in (spends env (cc_me c) 0) ?none" by (simp add: unsigned_in_def sp.in_throw)
      moreover have "run_instruction ?none env c pc i stk u = (t, Val (Next pc' stk'))"
        using u(2) other_instruction [OF False, of exec env c pc ?none] by simp
      ultimately have "spends env (cc_me c) 0 u t"
        using sp.in_plain_instruction [OF assms(1) _ 3] by (blast intro: steps_inD)
      then show ?thesis using p by (auto simp: spends_def)
    qed
  qed
qed

lemma ends_with_fuel:
  assumes "readable env" and "unsigned_in keeps_order exec"
  shows "orderly s \<Longrightarrow> \<not> gains_within n exec env c steps pc stk s \<Longrightarrow>
    step_fee * (int (16 - steps)) + spendable env (cc_me c) s < step_fee * int n \<Longrightarrow>
    vm_ends n exec env c steps pc stk s"
proof (induction n arbitrary: steps pc stk s)
  case 0
  then show ?case using spendable_nonneg [of env "cc_me c" s] by (simp add: step_fee_def)
next
  case (Suc n)
  obtain t r where v: "vm_step exec env c (steps + 1) pc stk s = (t, r)" by fastforce
  show ?case
  proof (cases "\<exists>pc' stk'. r = Val (Next pc' stk')")
    case True
    then obtain pc' stk' where r: "r = Val (Next pc' stk')" by blast
    then have g: "\<not> gained env c (steps + 1) pc s t" "\<not> gains_within n exec env c (steps + 1) pc' stk' t"
      using Suc.prems(2) v by simp_all
    have "spends env (cc_me c) (step_cost (steps + 1)) s t"
      using vm_step_spends [OF assms Suc.prems(1) g(1)] v r by simp
    then have "orderly t" "spendable env (cc_me c) t + step_cost (steps + 1) \<le> spendable env (cc_me c) s"
      using Suc.prems(1) by (simp_all add: spends_def)
    moreover from this have "step_fee * (int (16 - (steps + 1))) + spendable env (cc_me c) t < step_fee * int n"
      using Suc.prems(3) by (cases "16 < steps + 1") (simp_all add: step_cost_def step_fee_def of_nat_diff)
    ultimately show ?thesis using Suc.IH [OF _ g(2)] v r by simp
  next
    case False
    then show ?thesis using v by (auto split: outcome.split vm_next.split)
  qed
qed

lemma executor_keeps_order:
  fixes env :: "'c vm_chain_scheme"
  assumes "readable env" and "null_trie env"
  shows "unsigned_in keeps_order (execute_bare d k env)"
  using in_execute_bare [OF assms] by (simp add: unsigned_in_def steps_in_def settles_def keeps_order_def calls_def)

text \<open>
  C7: A contract that gains nothing by the transactions it makes in a run (after none of them it can spend
  more than before) makes at most 17 steps in it, and one more for every 10000 of its balance and of what its
  memory was paid for, whatever its program does; more fuel makes no difference. A transaction is one
  step here, with all that the contracts it calls do within the depth and steps they are given.
\<close>

theorem contract_halts:
  fixes env :: "'c vm_chain_scheme"
  assumes "readable env" and "null_trie env" and "orderly s"
    and "\<not> gains_within n (execute_bare d k env) env c 0 0 [] s"
    and "17 + nat (spendable env (cc_me c) s div step_fee) \<le> n"
  shows "vm_ends n (execute_bare d k env) env c 0 0 [] s
    \<and> (\<forall>m\<ge>n. vm_run m (execute_bare d k env) env c 0 0 [] s = vm_run n (execute_bare d k env) env c 0 0 [] s)"
proof -
  have "spendable env (cc_me c) s < step_fee * (spendable env (cc_me c) s div step_fee + 1)"
    by (simp add: step_fee_def)
  moreover have "spendable env (cc_me c) s div step_fee + 17 \<le> int n"
    using assms(5) spendable_nonneg [of env "cc_me c" s] by (simp add: step_fee_def)
  ultimately have "step_fee * int (16 - 0) + spendable env (cc_me c) s < step_fee * int n"
    by (simp add: step_fee_def)
  then have "vm_ends n (execute_bare d k env) env c 0 0 [] s"
    by (rule ends_with_fuel [OF assms(1) executor_keeps_order [OF assms(1,2)] assms(3,4)])
  then show ?thesis using vm_run_more by blast
qed

subsection \<open>A contract that calls itself\<close>

text \<open>An address is the front of a word, while the address of a contract is pushed as its number.\<close>

lemma take_to_big_endian: "take m (to_big_endian (m + k) v) = to_big_endian m (v div 256 ^ k)"
proof (induction k arbitrary: v)
  case (Suc k)
  have "to_big_endian (m + Suc k) v = to_big_endian (m + k) (v div 256) @ [of_nat v]"
    by (simp add: to_big_endian_Suc)
  then show ?case by (simp add: Suc.IH div_mult2_eq)
qed simp

lemma as_address_front: "as_address w = of_nat (unat w div 2 ^ 96)"
proof -
  have "unat w < 2 ^ 256" using unsigned_less [of w] by simp
  then have "unat w div 2 ^ 96 < 256 ^ 20" by (simp add: less_mult_imp_div_less)
  then show ?thesis
    using take_to_big_endian [of 20 12 "unat w"]
    by (simp add: as_address_def left160_def u256_bytes_def address_of_bytes_def from_to_big_endian)
qed

lemma as_address_shifted: "as_address (ucast (a :: address) * 2 ^ 96) = a"
proof -
  have a: "unat a < 2 ^ 160" using unsigned_less [of a] by simp
  then have "unat a * 2 ^ 96 < 2 ^ 256" by simp
  moreover from a have "unat a < 2 ^ 256" by simp
  then have "unat (ucast a :: u256) = unat a" by (simp add: unsigned_ucast_eq take_bit_eq_mod)
  moreover have "unat (2 ^ 96 :: u256) = 2 ^ 96" by simp
  ultimately have "unat (ucast a * 2 ^ 96 :: u256) = unat a * 2 ^ 96"
    by (simp only: unat_word_ariths) simp
  then show ?thesis by (simp add: as_address_front)
qed

text \<open>
  Push two zeros, a value and an address, and make a transaction of them: to that address, of that value, with no
  fee and no data.
\<close>

definition caller :: "address \<Rightarrow> u256 \<Rightarrow> (u256 \<times> u256) list \<Rightarrow> bool" where
  "caller b v ws \<longleftrightarrow>
     map (word_at ws) [0, 1, 2, 3, 4, 5, 6, 7, 8] = [0x30, 0, 0x30, 0, 0x30, v, 0x30, ucast b * 2 ^ 96, 0x60]"

definition self_call :: "address \<Rightarrow> (u256 \<times> u256) list" where
  "self_call a = [(0, 0x30), (2, 0x30), (4, 0x30), (6, 0x30), (7, ucast a * 2 ^ 96), (8, 0x60)]"

lemma caller_self: "caller a 0 (self_call a)"
  by (simp add: caller_def self_call_def word_at_def)

definition calls_itself :: "address \<Rightarrow> ledger \<Rightarrow> bool" where
  "calls_itself a s \<longleftrightarrow> (\<exists>x. cached a s = Some x \<and> as_type x = Contract \<and> as_root x = 0 \<and> as_memory x = self_call a)"

lemma shifted_not_zero: "(a :: address) \<noteq> 0 \<Longrightarrow> ucast a * 2 ^ 96 \<noteq> (0 :: u256)"
proof
  assume a: "a \<noteq> 0" and z: "ucast a * 2 ^ 96 = (0 :: u256)"
  have "as_address (ucast a * 2 ^ 96) = 0" unfolding z by (simp add: as_address_front)
  then show False using a as_address_shifted [of a] by simp
qed

lemma bindp_at: "m s = n s \<Longrightarrow> bindp m f s = bindp n f s"
  by (simp add: bindp_def)

text \<open>The transaction a caller makes.\<close>

definition call_tx :: "u256 \<Rightarrow> address \<Rightarrow> u256 \<Rightarrow> transaction" where
  "call_tx nonce b v = \<lparr>tx_nonce = nonce, tx_receive = b, tx_value = v, tx_fee = 0, tx_data = [], tx_vrs = None\<rparr>"

lemma caller_steps:
  assumes "readable env" and "cc_me c = a" and "caller b v (as_memory x)"
  shows "vm_step exec env c 1 0 [] (put_state a x s) = (put_state a x s, Val (Next 2 [0]))"
    and "vm_step exec env c 2 2 [0] (put_state a x s) = (put_state a x s, Val (Next 4 [0, 0]))"
    and "vm_step exec env c 3 4 [0, 0] (put_state a x s) = (put_state a x s, Val (Next 6 [v, 0, 0]))"
    and "vm_step exec env c 4 6 [v, 0, 0] (put_state a x s) = (put_state a x s, Val (Next 8 [ucast b * 2 ^ 96, v, 0, 0]))"
    and "vm_step exec env c 5 8 [ucast b * 2 ^ 96, v, 0, 0] (put_state a x s) =
      bindp (exec (call_tx (as_nonce x) b v) a) (\<lambda>_. ret (Next 9 [])) (put_state a x s)"
proof -
  let ?S = "put_state a x s"
  have push: "vm_step exec env c steps pc stk ?S = (?S, Val (Next (pc + 2) (word_of a (pc + 1) ?S # stk)))"
    if "word_of a pc ?S = 0x30" "steps \<le> 16" for steps pc stk
  proof -
    have "vm_step exec env c steps pc stk ?S = run_instruction exec env c pc PUSH stk ?S"
      using free_step [OF assms(1), where c = c and pc = pc and x = x and s = s and raw = "0x30" and i = PUSH and steps = steps and exec = exec and stk = stk] that assms(2)
      by (simp add: opcodes_def miner_fee_def)
    then show ?thesis
      using assms(2) by (simp add: run_instruction_def binary_def pushed_def hash_with_def ret_apply)
  qed
  have "word_of a n ?S = word_at (as_memory x) n" for n by (simp add: word_of_def word_at_def)
  then have words: "word_of a 0 ?S = 0x30" "word_of a 1 ?S = 0" "word_of a 2 ?S = 0x30" "word_of a 3 ?S = 0"
      "word_of a 4 ?S = 0x30" "word_of a 5 ?S = v" "word_of a 6 ?S = 0x30" "word_of a 7 ?S = ucast b * 2 ^ 96"
      "word_of a 8 ?S = 0x60"
    using assms(3) by (simp_all add: caller_def)
  show "vm_step exec env c 1 0 [] ?S = (?S, Val (Next 2 [0]))" using push [of 0 1] words by simp
  show "vm_step exec env c 2 2 [0] ?S = (?S, Val (Next 4 [0, 0]))" using push [of 2 2] words by simp
  show "vm_step exec env c 3 4 [0, 0] ?S = (?S, Val (Next 6 [v, 0, 0]))" using push [of 4 3] words by simp
  show "vm_step exec env c 4 6 [v, 0, 0] ?S = (?S, Val (Next 8 [ucast b * 2 ^ 96, v, 0, 0]))"
    using push [of 6 4] words by simp
  have "vm_step exec env c 5 8 [ucast b * 2 ^ 96, v, 0, 0] ?S =
      run_instruction exec env c 8 MKTX [ucast b * 2 ^ 96, v, 0, 0] ?S"
    using free_step [OF assms(1), where c = c and pc = 8 and x = x and s = s and raw = "0x60" and i = MKTX and steps = 5 and exec = exec] words assms(2)
    by (simp add: opcodes_def miner_fee_def tx_fee_const_def)
  also have "\<dots> = bindp (make_transaction exec env c [ucast b * 2 ^ 96, v, 0, 0]) (\<lambda>stk. ret (Next 9 stk)) ?S"
    by (simp add: run_instruction_def binary_def pushed_def hash_with_def)
  also have "\<dots> = bindp (bindp (exec (call_tx (as_nonce x) b v) a) (\<lambda>_. ret [])) (\<lambda>stk. ret (Next 9 stk)) ?S"
  proof (rule bindp_at)
    have "transactions_from env a ?S = (?S, Val (as_nonce x))"
      by (simp add: ledger_ops(2) [OF assms(1)] load_cached nonce_of_def seen_def)
    then show "make_transaction exec env c [ucast b * 2 ^ 96, v, 0, 0] ?S =
        bindp (exec (call_tx (as_nonce x) b v) a) (\<lambda>_. ret []) ?S"
      using as_address_shifted [of b] assms(2)
      by (simp add: make_transaction_def require_def bindp_def [of "transactions_from env a"] numeral_eq_Suc call_tx_def)
  qed
  also have "\<dots> = bindp (exec (call_tx (as_nonce x) b v) a) (\<lambda>_. ret (Next 9 [])) ?S"
    by (simp add: bindp_assoc)
  finally show "vm_step exec env c 5 8 [ucast b * 2 ^ 96, v, 0, 0] ?S =
      bindp (exec (call_tx (as_nonce x) b v) a) (\<lambda>_. ret (Next 9 [])) ?S" .
qed

lemma self_call_runs:
  assumes "readable env" and "cc_me c = a" and "as_memory x = self_call a" and "5 \<le> n"
  shows "vm_run n exec env c 0 0 [] (put_state a x s) =
    bindp (exec (call_tx (as_nonce x) a 0) a) (\<lambda>_. vm_run (n - 5) exec env c 5 9 []) (put_state a x s)"
proof -
  obtain l where "n = 5 + l" using assms(4) le_Suc_ex by blast
  then obtain k where k: "n = Suc (Suc (Suc (Suc (Suc k))))" "n - 5 = k" by simp
  have "caller a 0 (as_memory x)" using caller_self assms(3) by simp
  from caller_steps [OF assms(1,2) this, where exec = exec and s = s] show ?thesis
    unfolding k(2) unfolding k(1)
    by (simp add: bindp_def numeral_eq_Suc ret_apply split: prod.split outcome.split)
qed

text \<open>
  A contract that pays 1 to an address without a contract, by such a transaction, and stops: the run
  that \<open>contract_halts\<close> is applied to. It gains nothing.
\<close>

definition payer :: address_state where
  "payer = (contract_state 10 0 0)\<lparr>as_memory :=
     [(0, 0x30), (2, 0x30), (4, 0x30), (5, 1), (6, 0x30), (7, ucast (6 :: address) * 2 ^ 96), (8, 0x60)]\<rparr>"

lemma word_0_ends:
  assumes "word_of (cc_me c) pc s = 0"
  shows "\<nexists>t pc' stk'. vm_step exec env c steps pc stk s = (t, Val (Next pc' stk'))"
proof -
  have "map_of opcodes 0 = Some STOP" by (rule opcode_zero)
  then show ?thesis
    using assms by (auto simp: vm_step_def gets_apply Let_def bindp_eq_Val run_instruction_def binary_def pushed_def hash_with_def ret_apply)
qed

lemma gains_within_next:
  "vm_step exec env c m pc stk s = (t, Val (Next pc' stk')) \<Longrightarrow> \<not> gained env c m pc s t \<Longrightarrow> m = k + 1 \<Longrightarrow>
   gains_within (Suc n) exec env c k pc stk s \<longleftrightarrow> gains_within n exec env c m pc' stk' t"
  by simp

lemma gained_nothing: "k \<le> 16 \<Longrightarrow> spendable env (cc_me c) t \<le> spendable env (cc_me c) s \<Longrightarrow> \<not> gained env c k pc s t"
  by (simp add: gained_def step_cost_def)

lemma payer_gains_nothing:
  "\<not> gains_within 40 (execute_bare 1 9 (sample_chain False)) (sample_chain False) (call_of (payment 0 0) 1) 0 0 [] (accounts [(5, payer)])"
proof -
  let ?e = "sample_chain False" and ?c = "call_of (payment 0 0) 1" and ?s = "accounts [(5, payer)]"
  have s: "put_state 5 payer ?s = ?s" by (simp add: put_state_def accounts_def)
  have me: "cc_me ?c = 5" by (simp add: call_of_def)
  have call: "caller 6 1 (as_memory payer)" by (simp add: caller_def payer_def word_at_def)
  have "readable ?e" by simp
  note steps = caller_steps [OF this me call, where s = ?s, unfolded s]
  obtain run where r: "execute_bare 1 9 ?e = execute_bare_with run ?e" using execute_bare_is_with by blast
  obtain exec where exec: "exec = execute_bare 1 9 ?e" by simp
  have "\<exists>t. execute_bare_with run ?e (call_tx 0 6 1) 5 ?s = (t, Val ()) \<and> moved ?e ?s t (paid_in ?e (call_tx 0 6 1) 5) (\<lambda>c. if c = 5 then 1 else 0)"
    by (rule transfer_moves) (simp_all add: call_tx_def contract_at_def nonce_of_def balance_of_def payer_def contract_state_def)
  then obtain t where t: "exec (call_tx 0 6 1) 5 ?s = (t, Val ())"
      "moved ?e ?s t (paid_in ?e (call_tx 0 6 1) 5) (\<lambda>c. if c = 5 then 1 else 0)"
    using r exec by auto
  then have kept: "code_kept ?s t 5" by (simp add: moved_def)
  obtain y where y: "cached 5 t = Some y" "as_memory y = as_memory payer"
    using kept by (auto simp: code_kept_def)
  have "balance_of ?e t 5 = 9"
    using t(2) by (simp add: moved_def paid_in_def call_tx_def balance_of_def payer_def contract_state_def)
  then have b: "as_balance y = 9" using y(1) by (simp add: balance_of_def)
  have z: "word_of (cc_me ?c) 9 t = 0" using y me by (simp add: word_of_def payer_def)
  have "spendable ?e (cc_me ?c) t \<le> spendable ?e (cc_me ?c) ?s"
    using y b by (simp add: spendable_def me payer_def contract_state_def)
  note no = gained_nothing [OF _ order.refl [of "spendable ?e (cc_me ?c) ?s"]] gained_nothing [OF _ this]
  have pay: "vm_step exec ?e ?c 5 8 [ucast (6 :: address) * 2 ^ 96, 1, 0, 0] ?s = (t, Val (Next 9 []))"
    using steps(5) [of exec] t(1) by (simp add: bindp_def ret_apply payer_def contract_state_def)
  have stop: "\<not> gains_within (Suc k) exec ?e ?c 5 9 [] t" for k
    using word_0_ends [OF z, of exec ?e 6 "[]"] by (auto split: prod.split outcome.split vm_next.split)
  have "gains_within (Suc (Suc (Suc (Suc (Suc 35))))) exec ?e ?c 0 0 [] ?s = gains_within (Suc (Suc (Suc (Suc 35)))) exec ?e ?c 1 2 [0] ?s"
    by (rule gains_within_next [OF steps(1)]) (simp_all add: no)
  also have "\<dots> = gains_within (Suc (Suc (Suc 35))) exec ?e ?c 2 4 [0, 0] ?s"
    by (rule gains_within_next [OF steps(2)]) (simp_all add: no)
  also have "\<dots> = gains_within (Suc (Suc 35)) exec ?e ?c 3 6 [1, 0, 0] ?s"
    by (rule gains_within_next [OF steps(3)]) (simp_all add: no)
  also have "\<dots> = gains_within (Suc 35) exec ?e ?c 4 8 [ucast (6 :: address) * 2 ^ 96, 1, 0, 0] ?s"
    by (rule gains_within_next [OF steps(4)]) (simp_all add: no)
  also have "\<dots> = gains_within 35 exec ?e ?c 5 9 [] t"
    by (rule gains_within_next [OF pay]) (simp_all add: no)
  finally have "gains_within (Suc (Suc (Suc (Suc (Suc 35))))) exec ?e ?c 0 0 [] ?s = gains_within 35 exec ?e ?c 5 9 [] t" .
  moreover have "(40 :: nat) = Suc (Suc (Suc (Suc (Suc 35))))" "(35 :: nat) = Suc 34" by simp_all
  ultimately have "\<not> gains_within 40 exec ?e ?c 0 0 [] ?s" using stop [of 34] by (simp only: simp_thms)
  then show ?thesis unfolding exec .
qed

theorem contract_halts_witness:
  "vm_ends 40 (execute_bare 1 9 (sample_chain False)) (sample_chain False) (call_of (payment 0 0) 1) 0 0 [] (accounts [(5, payer)])"
proof -
  have "sound payer" using shifted_not_zero [of 6] by (simp add: payer_def sound_def contract_state_def)
  then have "orderly (accounts [(5, payer)])" by (intro orderly_accounts) simp
  moreover have "spendable (sample_chain False) 5 (accounts [(5, payer)]) = 210010"
    by (simp add: spendable_def payer_def contract_state_def memory_fee_def shifted_not_zero)
  ultimately show ?thesis
    using contract_halts [of "sample_chain False" "accounts [(5, payer)]" 40 1 9 "call_of (payment 0 0) 1"] payer_gains_nothing
    by (simp add: call_of_def step_fee_def)
qed

lemma calls_itself_kept: "calls_itself a s \<Longrightarrow> code_kept s t a \<Longrightarrow> calls_itself a t"
  unfolding calls_itself_def code_kept_def by metis

lemma sound_self_call:
  "a \<noteq> 0 \<Longrightarrow> as_memory x = self_call a \<Longrightarrow> as_root x = 0 \<Longrightarrow> as_type x = Contract \<Longrightarrow> sound x"
  using shifted_not_zero [of a] by (simp add: sound_def self_call_def)

lemma paying_miner_fault: "m (s\<lparr>lg_fees := 0 # lg_fees s\<rparr>) = (t, Fault k) \<Longrightarrow> paying_miner env m s = (t, Fault k)"
  by (simp add: paying_miner_def)

text \<open>
  C14: In a library compiled without its assertions (the repository's own build is a debug build with them, in which
  C25 holds instead), a contract of six words that makes a transaction of no value and no fee to itself
  is called for ever, whatever the depth allowed: each of its runs takes five free steps and a free
  transaction, and starts the next run before it ends. Anybody's transaction to it starts this, and in
  the process it is a recursion without end.
\<close>

theorem self_call_never_ends:
  fixes env :: "'c vm_chain_scheme"
  assumes "readable env" and "null_trie env" and "\<not> checked env" and "a \<noteq> 0" and "5 \<le> n"
    and "calls_itself a s" and "tx_receive t = a" and "tx_nonce t = nonce_of env s b"
    and "tx_value t + tx_fee t \<le> balance_of env s b"
  shows "\<exists>s'. execute_bare d n env t b s = (s', Fault NoFuel)"
  using assms(6-9)
proof (induction d arbitrary: t b s)
  case 0
  then have c: "contract_at env s a" by (auto simp: calls_itself_def contract_at_def seen_def)
  obtain x where x: "execute_bare 0 n env t b s = paying_miner env (fault NoFuel) x"
    using transfer_reaches [OF assms(1) _ 0(3,4), of "\<lambda>c. fault NoFuel"] 0 c assms(4) by auto
  show ?case unfolding x by (auto simp: paying_miner_def fault_apply)
next
  case (Suc d)
  let ?exec = "execute_bare d n env"
  let ?run = "execute_contract n ?exec env"
  let ?c = "call_of t b"
  have c: "contract_at env s a" using Suc.prems(1) by (auto simp: calls_itself_def contract_at_def seen_def)
  obtain x where x: "moved env s x (paid_in env t b) (\<lambda>c. if c = b then 1 else 0)"
      "execute_bare (Suc d) n env t b s = paying_miner env (?run ?c) x"
    using transfer_reaches [OF assms(1) _ Suc.prems(3,4), of ?run] Suc.prems(2) c assms(4) by auto
  then have "calls_itself a x" using Suc.prems(1) by (auto simp: moved_def intro: calls_itself_kept)
  define z where "z = x\<lparr>lg_fees := 0 # lg_fees x\<rparr>"
  obtain y where y: "cached a z = Some y" "as_type y = Contract" "as_root y = 0" "as_memory y = self_call a"
    using \<open>calls_itself a x\<close> by (auto simp: calls_itself_def z_def)
  have me: "cc_me ?c = a" using Suc.prems(2) by (simp add: call_of_def)
  have ar: "arrived env z a = y" "arrive_at env a z = z" using y(1) by (simp_all add: arrived_def arrive_at_def seen_def load_def)
  have y0: "y\<lparr>as_root := 0\<rparr> = y" using y(3) by simp
  have "sound (arrived env z (cc_me ?c))" unfolding me ar using sound_self_call [OF assms(4)] y by simp
  then have start: "start_contract env ?c z = (put_state a y z, Val ())"
    using start_contract_apply [OF assms(1,2), of z ?c] assms(3) by (simp add: Let_def me ar y0)
  let ?t = "call_tx (as_nonce y) a 0"
  obtain s' where "?exec ?t a (put_state a y z) = (s', Fault NoFuel)"
    using Suc.IH [of "put_state a y z" ?t a] y by (auto simp: calls_itself_def nonce_of_def call_tx_def)
  then have "vm_run n ?exec env ?c 0 0 [] (put_state a y z) = (s', Fault NoFuel)"
    using self_call_runs [OF assms(1) me y(4) assms(5), of ?exec z] by (simp add: bindp_def)
  then have "?run ?c z = (s', Fault NoFuel)" using start by (simp add: execute_contract_def bindp_def)
  then have "paying_miner env (?run ?c) x = (s', Fault NoFuel)" unfolding z_def by (rule paying_miner_fault)
  then show ?case unfolding x(2) by blast
qed

theorem self_call_never_ends_witness:
  "\<exists>s'. execute_bare 100 1000 (sample_chain False) (payment 0 0) 1
     (accounts [(5, (contract_state 0 0 0)\<lparr>as_memory := self_call 5\<rparr>)]) = (s', Fault NoFuel)"
  by (rule self_call_never_ends [where a = 5])
    (simp_all add: calls_itself_def contract_state_def nonce_of_def)

end
