(* ===== verification/TimeData.thy ===== *)
theory TimeData
  imports Prelude
begin

section \<open>The clocks of other nodes\<close>

text \<open>
  \<open>server/src/timedata.h\<close> and \<open>timedata.cpp\<close>: a median filter over the last values, and the offset of the
  clock that is taken from it. Addresses are any type. A number of 64 bits is an integer; what leaves
  its range is undefined.
\<close>

subsection \<open>The median filter\<close>

record median_filter =
  mf_values :: "int list"
  mf_sorted :: "int list"
  mf_size :: nat

definition new_median_filter :: "nat \<Rightarrow> int \<Rightarrow> median_filter" where
  "new_median_filter n v = \<lparr>mf_values = [v], mf_sorted = [v], mf_size = n\<rparr>"

definition median_input :: "int \<Rightarrow> median_filter \<Rightarrow> median_filter" where
  "median_input v f =
     (let vs = (if length (mf_values f) = mf_size f then tl (mf_values f) else mf_values f) @ [v] in
      f\<lparr>mf_values := vs, mf_sorted := sort vs\<rparr>)"

definition in_int64 :: "int \<Rightarrow> bool" where
  "in_int64 n \<longleftrightarrow> - (2 ^ 63) \<le> n \<and> n < 2 ^ 63"

definition median :: "median_filter \<Rightarrow> ('e, int) outcome" where
  "median f =
     (let vs = mf_sorted f; n = length vs in
      if n = 0 then Fault AssertFailed
      else if n mod 2 = 1 then Val (vs ! (n div 2))
      else let s = vs ! (n div 2 - 1) + vs ! (n div 2) in
           if in_int64 s then Val (sgn s * (\<bar>s\<bar> div 2)) else Fault UndefinedBehaviour)"

subsection \<open>The offset\<close>

record 'a time_data =
  td_offset :: int
  td_known :: "'a list"
  td_filter :: median_filter
  td_warned :: bool

definition max_samples :: nat where "max_samples = 200"

definition new_time_data :: "'a time_data" where
  "new_time_data = \<lparr>td_offset = 0, td_known = [], td_filter = new_median_filter max_samples 0, td_warned = False\<rparr>"

definition abs64 :: "int \<Rightarrow> ('e, int) outcome" where
  "abs64 n = (if n = - (2 ^ 63) then Fault UndefinedBehaviour else Val \<bar>n\<bar>)"

definition adjusted_time :: "int \<Rightarrow> 'a time_data \<Rightarrow> ('e, int) outcome" where
  "adjusted_time now d =
     (if in_int64 (now + td_offset d) then Val (now + td_offset d) else Fault UndefinedBehaviour)"

text \<open>The search for a time that is not ours but within five minutes of it.\<close>

definition any_match :: "int list \<Rightarrow> ('s, 'e, bool) prog" where
  "any_match vs =
     foreach vs False (\<lambda>m n.
       if n = 0 then ret (Continue m) else bindp (lift (abs64 n)) (\<lambda>a. ret (Continue (m \<or> a < 5 * 60))))"

text \<open>\<open>limit\<close> is the option \<open>-maxtimeadjustment\<close>.\<close>

definition set_offset :: "int \<Rightarrow> ('a time_data, 'e, unit) prog" where
  "set_offset limit =
     bindp (gets td_filter) (\<lambda>f.
     bindp (lift (median f)) (\<lambda>m.
     bindp (lift (abs64 m)) (\<lambda>a.
       if a \<le> max 0 limit then modify (td_offset_update (\<lambda>_. m))
       else
         thenp (modify (td_offset_update (\<lambda>_. 0)))
           (bindp (gets td_warned) (\<lambda>w.
            if w then ret ()
            else bindp (any_match (mf_sorted f)) (\<lambda>b.
                 if b then ret () else modify (td_warned_update (\<lambda>_. True))))))))"

definition add_time_data :: "int \<Rightarrow> 'a \<Rightarrow> int \<Rightarrow> ('a time_data, 'e, unit) prog" where
  "add_time_data limit ip sample =
     bindp (gets td_known) (\<lambda>known.
       if length known = max_samples \<or> ip \<in> set known then ret ()
       else
         thenp (modify (\<lambda>d. d\<lparr>td_known := ip # known, td_filter := median_input sample (td_filter d)\<rparr>))
           (bindp (gets (length \<circ> mf_values \<circ> td_filter)) (\<lambda>n.
            if 5 \<le> n \<and> n mod 2 = 1 then set_offset limit else ret ())))"

subsection \<open>What samples can do\<close>

text \<open>The state after any samples.\<close>

definition time_ok :: "int \<Rightarrow> 'a time_data \<Rightarrow> bool" where
  "time_ok limit d \<longleftrightarrow>
     \<bar>td_offset d\<bar> \<le> max 0 limit
     \<and> mf_size (td_filter d) = max_samples
     \<and> mf_sorted (td_filter d) = sort (mf_values (td_filter d))
     \<and> distinct (td_known d) \<and> length (td_known d) \<le> max_samples
     \<and> length (mf_values (td_filter d)) = min max_samples (length (td_known d) + 1)
     \<and> (\<forall>v\<in>set (mf_values (td_filter d)). \<bar>v\<bar> < 2 ^ 63)"

lemma in_set_tl': "x \<in> set (tl xs) \<Longrightarrow> x \<in> set xs"
  by (cases xs) auto

lemma time_ok_new: "time_ok limit new_time_data"
  by (simp add: time_ok_def new_time_data_def new_median_filter_def max_samples_def)

lemma any_match_returns: "\<forall>v\<in>set vs. \<bar>v\<bar> < 2 ^ 63 \<Longrightarrow> \<exists>b. any_match vs s = (s, Val b)"
proof -
  assume a: "\<forall>v\<in>set vs. \<bar>v\<bar> < 2 ^ 63"
  have "\<exists>c. foreach vs m (\<lambda>m n. if n = 0 then ret (Continue m)
        else bindp (lift (abs64 n)) (\<lambda>a. ret (Continue (m \<or> a < 5 * 60)))) s = (s, Val c)" for m
    using a by (induction vs arbitrary: m) (auto simp: bindp_def ret_apply lift_apply abs64_def)
  then show ?thesis by (simp add: any_match_def)
qed

text \<open>The middle of an odd number of sorted values.\<close>

lemma median_odd:
  "length (mf_sorted f) mod 2 = 1 \<Longrightarrow> median f = Val (mf_sorted f ! (length (mf_sorted f) div 2))"
  by (auto simp: median_def Let_def)

lemma set_offset_sets:
  assumes "time_ok limit d" and "odd (length (mf_values (td_filter d)))"
  shows "\<exists>d'. set_offset limit d = (d', Val () :: ('e, unit) outcome) \<and> td_known d' = td_known d \<and> td_filter d' = td_filter d
    \<and> td_offset d' = (let m = sort (mf_values (td_filter d)) ! (length (mf_values (td_filter d)) div 2) in
                      if \<bar>m\<bar> \<le> max 0 limit then m else 0)"
proof -
  let ?vs = "mf_values (td_filter d)"
  let ?m = "sort ?vs ! (length ?vs div 2)"
  have s: "mf_sorted (td_filter d) = sort ?vs" using assms(1) by (simp add: time_ok_def)
  have m: "median (td_filter d) = (Val ?m :: ('e, int) outcome)"
    using median_odd [of "td_filter d"] assms(2) s by (simp add: odd_iff_mod_2_eq_one)
  have "?vs \<noteq> []" using assms(2) by auto
  then have "?m \<in> set (sort ?vs)" by (intro nth_mem) simp
  then have "\<bar>?m\<bar> < 2 ^ 63" using assms(1) by (simp add: time_ok_def)
  then have a: "abs64 ?m = (Val \<bar>?m\<bar> :: ('e, int) outcome)" by (auto simp: abs64_def)
  show ?thesis
  proof (cases "\<bar>?m\<bar> \<le> max 0 limit")
    case True
    then show ?thesis using m a by (simp add: set_offset_def bindp_def gets_apply lift_apply modify_apply)
  next
    case False
    have "\<forall>v\<in>set (sort ?vs). \<bar>v\<bar> < 2 ^ 63" using assms(1) by (simp add: time_ok_def)
    from any_match_returns [OF this, of "td_offset_update (\<lambda>_. 0) d"] obtain b where b: "any_match (sort ?vs) (td_offset_update (\<lambda>_. 0) d) = (td_offset_update (\<lambda>_. 0) d, (Val b :: ('e, bool) outcome))"
      by metis
    have "set_offset limit d =
        (if td_warned d \<or> b then td_offset_update (\<lambda>_. 0) d
         else td_warned_update (\<lambda>_. True) (td_offset_update (\<lambda>_. 0) d), (Val () :: ('e, unit) outcome))"
      using m a False b s by (simp add: set_offset_def gets_apply lift_apply modify_apply ret_apply bindp_def)
    then show ?thesis using False by (simp add: Let_def)
  qed
qed

lemma sampled_ok:
  assumes "time_ok limit d" and "\<bar>sample\<bar> < 2 ^ 63" and "\<not> (length (td_known d) = max_samples \<or> ip \<in> set (td_known d))"
  shows "time_ok limit (d\<lparr>td_known := ip # td_known d, td_filter := median_input sample (td_filter d)\<rparr>)"
proof -
  have "length (td_known d) < max_samples" using assms(1,3) by (simp add: time_ok_def)
  then show ?thesis
    using assms by (auto simp: time_ok_def median_input_def Let_def max_samples_def min_def dest: in_set_tl' split: if_splits)
qed

lemma add_time_data_step:
  assumes "\<not> (length (td_known d) = max_samples \<or> ip \<in> set (td_known d))"
    and "e = d\<lparr>td_known := ip # td_known d, td_filter := median_input sample (td_filter d)\<rparr>"
  shows "add_time_data limit ip sample d =
      (if 5 \<le> length (mf_values (td_filter e)) \<and> length (mf_values (td_filter e)) mod 2 = 1
       then set_offset limit e else (e, Val () :: ('e, unit) outcome))"
  using assms by (simp add: add_time_data_def gets_apply bindp_def ret_apply modify_apply)

lemma add_time_data_ok:
  assumes "time_ok limit d" and "\<bar>sample\<bar> < 2 ^ 63"
  shows "\<exists>d'. add_time_data limit ip sample d = (d', Val () :: ('e, unit) outcome) \<and> time_ok limit d'"
proof (cases "length (td_known d) = max_samples \<or> ip \<in> set (td_known d)")
  case True
  then show ?thesis using assms(1) by (auto simp: add_time_data_def ret_apply)
next
  case False
  define e where "e = d\<lparr>td_known := ip # td_known d, td_filter := median_input sample (td_filter d)\<rparr>"
  have e: "time_ok limit e" unfolding e_def by (rule sampled_ok [OF assms False])
  note step = add_time_data_step [OF False e_def, of limit, where 'e = 'e]
  show ?thesis
  proof (cases "5 \<le> length (mf_values (td_filter e)) \<and> length (mf_values (td_filter e)) mod 2 = 1")
    case True
    then have "odd (length (mf_values (td_filter e)))" by (simp add: odd_iff_mod_2_eq_one)
    from set_offset_sets [OF e this] obtain d' where d: "set_offset limit e = (d', Val () :: ('e, unit) outcome)"
        "td_known d' = td_known e" "td_filter d' = td_filter e"
        "td_offset d' = (let m = sort (mf_values (td_filter e)) ! (length (mf_values (td_filter e)) div 2) in
           if \<bar>m\<bar> \<le> max 0 limit then m else 0)"
      by blast
    then have "\<bar>td_offset d'\<bar> \<le> max 0 limit" by (simp add: Let_def)
    then show ?thesis using True d e step by (simp add: time_ok_def)
  next
    case f: False
    then show ?thesis using e step by auto
  qed
qed

definition offset_set :: "int \<Rightarrow> 'a time_data \<Rightarrow> bool" where
  "offset_set limit d \<longleftrightarrow>
     (let vs = mf_values (td_filter d); m = sort vs ! (length vs div 2) in
      5 \<le> length vs \<longrightarrow> odd (length vs) \<longrightarrow> td_offset d = (if \<bar>m\<bar> \<le> max 0 limit then m else 0))"

lemma add_time_data_set:
  assumes "time_ok limit d" and "\<bar>sample\<bar> < 2 ^ 63" and "offset_set limit d"
    and "add_time_data limit ip sample d = (d', r :: ('e, unit) outcome)"
  shows "offset_set limit d'"
proof (cases "length (td_known d) = max_samples \<or> ip \<in> set (td_known d)")
  case True
  then have "d' = d" using assms(4) by (simp add: add_time_data_def ret_apply)
  then show ?thesis using assms(3) by simp
next
  case False
  define e where "e = d\<lparr>td_known := ip # td_known d, td_filter := median_input sample (td_filter d)\<rparr>"
  have e: "time_ok limit e" using sampled_ok [OF assms(1,2)] False by (simp add: e_def)
  note step = add_time_data_step [OF False e_def, of limit, where 'e = 'e]
  show ?thesis
  proof (cases "5 \<le> length (mf_values (td_filter e)) \<and> length (mf_values (td_filter e)) mod 2 = 1")
    case True
    then have "odd (length (mf_values (td_filter e)))" by (simp add: odd_iff_mod_2_eq_one)
    from set_offset_sets [OF e this, where 'e = 'e] step True assms(4) show ?thesis by (auto simp: offset_set_def Let_def)
  next
    case f: False
    then have "d' = e" using step assms(4) by (auto split: if_splits)
    then show ?thesis using f by (auto simp: offset_set_def Let_def odd_iff_mod_2_eq_one)
  qed
qed

text \<open>Samples one after the other.\<close>

definition add_all :: "int \<Rightarrow> ('a \<times> int) list \<Rightarrow> ('a time_data, 'e, unit) prog" where
  "add_all limit samples = forall_do samples (\<lambda>(ip, v). add_time_data limit ip v)"

lemma add_all_ok:
  assumes "\<forall>x\<in>set samples. \<bar>snd x\<bar> < 2 ^ 63" and "time_ok limit d" and "offset_set limit d"
  shows "\<exists>d'. add_all limit samples d = (d', Val () :: ('e, unit) outcome) \<and> time_ok limit d' \<and> offset_set limit d'"
  using assms
proof (induction samples arbitrary: d)
  case Nil
  then show ?case by (simp add: add_all_def ret_apply)
next
  case (Cons x samples)
  obtain ip v where x: "x = (ip, v)" by (cases x)
  then have v: "\<bar>v\<bar> < 2 ^ 63" using Cons.prems(1) by simp
  obtain e where e: "add_time_data limit ip v d = (e, Val () :: ('e, unit) outcome)" "time_ok limit e"
    using add_time_data_ok [OF Cons.prems(2) v] by metis
  have "offset_set limit e" by (rule add_time_data_set [OF Cons.prems(2) v Cons.prems(3) e(1)])
  then obtain d' where "add_all limit samples e = (d', Val () :: ('e, unit) outcome)" "time_ok limit d'" "offset_set limit d'"
    using Cons.IH [of e] Cons.prems(1) e(2) by auto
  then show ?case using e(1) x by (simp add: add_all_def bindp_def)
qed

text \<open>The middle of a sorted list lies where most of the list lies.\<close>

lemma middle_within:
  fixes xs :: "int list"
  assumes "sorted xs" and "length xs < 2 * length (filter (\<lambda>v. lo \<le> v \<and> v \<le> hi) xs)"
  shows "lo \<le> xs ! (length xs div 2) \<and> xs ! (length xs div 2) \<le> hi"
proof -
  let ?k = "length xs div 2"
  let ?P = "\<lambda>v. lo \<le> v \<and> v \<le> hi"
  have n: "xs \<noteq> []" using assms(2) by auto
  then have k: "?k < length xs" by simp
  have parts: "length (filter ?P xs) = length (filter ?P (take j xs)) + length (filter ?P (drop j xs))" for j
    by (metis append_take_drop_id filter_append length_append)
  have "lo \<le> xs ! ?k"
  proof (rule ccontr)
    assume "\<not> lo \<le> xs ! ?k"
    then have "\<forall>v\<in>set (take (Suc ?k) xs). \<not> lo \<le> v"
      using k assms(1) by (fastforce simp: in_set_conv_nth sorted_iff_nth_mono less_Suc_eq_le)
    then have "filter ?P (take (Suc ?k) xs) = []" by (auto simp: filter_empty_conv)
    then have "length (filter ?P xs) \<le> length xs - Suc ?k"
      using parts [of "Suc ?k"] length_filter_le [of ?P "drop (Suc ?k) xs"] by simp
    then show False using assms(2) by linarith
  qed
  moreover have "xs ! ?k \<le> hi"
  proof (rule ccontr)
    assume h: "\<not> xs ! ?k \<le> hi"
    have "\<forall>v\<in>set (drop ?k xs). \<not> v \<le> hi"
    proof
      fix v
      assume "v \<in> set (drop ?k xs)"
      then obtain i where "?k + i < length xs" "v = xs ! (?k + i)"
        by (auto simp: in_set_conv_nth less_diff_conv add.commute)
      then have "xs ! ?k \<le> v" using assms(1) by (simp add: sorted_iff_nth_mono)
      then show "\<not> v \<le> hi" using h by simp
    qed
    then have "filter ?P (drop ?k xs) = []" by (auto simp: filter_empty_conv)
    then have "length (filter ?P xs) \<le> ?k"
      using parts [of ?k] length_filter_le [of ?P "take ?k xs"] by simp
    then show False using assms(2) by linarith
  qed
  ultimately show ?thesis ..
qed

text \<open>
  The clock follows the majority. After any samples of other nodes, none of them beyond 63 bits, the offset is at
  most the limit in size; and whenever it has just been decided (an odd number of at least five values, our
  own zero among them), it lies in every range within the limit in which more than half of the values lie.
\<close>

theorem clock_follows_majority:
  assumes "\<forall>x\<in>set samples. \<bar>snd x\<bar> < 2 ^ 63"
  shows "\<exists>d. add_all limit samples new_time_data = (d, Val () :: ('e, unit) outcome)
    \<and> \<bar>td_offset d\<bar> \<le> max 0 limit
    \<and> (let vs = mf_values (td_filter d) in
       5 \<le> length vs \<longrightarrow> odd (length vs) \<longrightarrow> - max 0 limit \<le> lo \<longrightarrow> hi \<le> max 0 limit
       \<longrightarrow> length vs < 2 * length (filter (\<lambda>v. lo \<le> v \<and> v \<le> hi) vs)
       \<longrightarrow> lo \<le> td_offset d \<and> td_offset d \<le> hi)"
proof -
  have "offset_set limit (new_time_data :: 'a time_data)"
    by (simp add: offset_set_def new_time_data_def new_median_filter_def)
  from add_all_ok [OF assms time_ok_new this, where 'e = 'e] obtain d :: "'a time_data" where
    d: "add_all limit samples new_time_data = (d, Val () :: ('e, unit) outcome)" "time_ok limit d" "offset_set limit d"
    by blast
  let ?vs = "mf_values (td_filter d)"
  have mid: "lo \<le> sort ?vs ! (length ?vs div 2) \<and> sort ?vs ! (length ?vs div 2) \<le> hi"
    if "length ?vs < 2 * length (filter (\<lambda>v. lo \<le> v \<and> v \<le> hi) ?vs)"
    using middle_within [of "sort ?vs" lo hi] that by (simp add: filter_sort)
  have "lo \<le> td_offset d \<and> td_offset d \<le> hi"
    if "5 \<le> length ?vs" "odd (length ?vs)" "- max 0 limit \<le> lo" "hi \<le> max 0 limit"
      "length ?vs < 2 * length (filter (\<lambda>v. lo \<le> v \<and> v \<le> hi) ?vs)"
  proof -
    have "\<bar>sort ?vs ! (length ?vs div 2)\<bar> \<le> max 0 limit" using mid [OF that(5)] that(3,4) by linarith
    then have "td_offset d = sort ?vs ! (length ?vs div 2)"
      using d(3) that(1,2) by (simp add: offset_set_def Let_def)
    then show ?thesis using mid [OF that(5)] by simp
  qed
  then show ?thesis using d(1,2) by (auto simp: time_ok_def Let_def)
qed

definition four_samples :: "(nat \<times> int) list" where
  "four_samples = [(1, 7), (2, 9), (3, 8), (4, 100000)]"

definition after_four :: "nat time_data" where
  "after_four = fst (add_all 4200 four_samples new_time_data :: nat time_data \<times> (unit, unit) outcome)"

theorem clock_follows_majority_witness: "7 \<le> td_offset after_four \<and> td_offset after_four \<le> 9"
proof -
  have "\<forall>x\<in>set four_samples. \<bar>snd x\<bar> < 2 ^ 63" by (simp add: four_samples_def)
  from clock_follows_majority [OF this, where 'e = unit, of 4200 7 9] obtain d :: "nat time_data" where
    d: "add_all 4200 four_samples new_time_data = (d, Val () :: (unit, unit) outcome)"
      "let vs = mf_values (td_filter d) in
       5 \<le> length vs \<longrightarrow> odd (length vs) \<longrightarrow> - max 0 4200 \<le> (7::int) \<longrightarrow> 9 \<le> max 0 (4200::int)
       \<longrightarrow> length vs < 2 * length (filter (\<lambda>v. 7 \<le> v \<and> v \<le> 9) vs)
       \<longrightarrow> 7 \<le> td_offset d \<and> td_offset d \<le> 9"
    by blast
  then have "d = after_four" by (simp add: after_four_def)
  moreover have "mf_values (td_filter after_four) = [0, 7, 9, 8, 100000]" by code_simp
  ultimately show ?thesis using d(2) by simp
qed

end
