(* ===== verification/Spec2Isabelle.thy ===== *)
theory Spec2Isabelle
  imports MonitorProps WalletProps EncodingProps HttpService SchedulerProps CryptoProps TypeCheck Base58Props Bech32Props TrieHashProps EthHalts TimeData
begin

text \<open>
  \<^bold>\<open>A model of openwallet.\<close>

  The repository holds two programs that share a MySQL database. \<open>monitor\<close> is a daemon that
  follows five chains through their nodes: it writes the transfers that touch the accounts of the
  exchange into the database and posts a callback for each. \<open>server\<close> is a JSON-RPC server, built on
  the HTTP and RPC code of Bitcoin Core: it hands out deposit addresses, transfers coins and tokens
  through the nodes, and creates accounts ahead of need. The server is linked with an early
  Ethereum library (\<open>server/ethereum/libethereum\<close>): RLP, tries, transactions, accounts and contracts.
  This development models all three, definition by definition in the order of the code.

  \<^bold>\<open>Shape of the model.\<close> A C++ routine is a \<open>prog\<close> (theory \<open>Prelude\<close>): a function from the state to
  the state it leaves and an \<open>outcome\<close>, that is a value, an exception, or a fault (a failed
  assertion or undefined behaviour, which no handler catches). State is a record that grows along
  the program: \<open>world\<close> (statements that write sent, posts made; a query of
  \<open>getData\<close> changes nothing and is not recorded), \<open>syncer\<close> (the monitor), \<open>wallet\<close>,
  \<open>relay\<close>, \<open>server\<close>, \<open>httpd\<close>, and \<open>ledger\<close> with \<open>machine\<close> in the Ethereum library. What lies outside of \<open>src/\<close> is a field of an environment record (\<open>env\<close>,
  \<open>wallet_env\<close>, \<open>server_env\<close>): MySQL, the HTTP peers, leveldb, the Python object, the JSON parser and
  printer, GMP's text conversions; in the Ethereum library of the records \<open>chain\<close> and \<open>vm_chain\<close>: what the
  state trie and the memory tries answer, the block, SHA-3, secp256k1. Their answers are any function of what they were sent before, so
  a theorem holds for every behaviour of the peers that its hypotheses allow. Loops of the code are
  \<open>foreach\<close> and \<open>forall_do\<close> over the list of rounds, with \<open>Continue\<close> and \<open>Break\<close>. Text is a list of characters, a 32-bit counter is a \<open>32 word\<close>, a
  double is a number \<open>m * 2\<^sup>e\<close> with the rounding of IEEE 754 written out (theory \<open>Doubles\<close>).

  \<^bold>\<open>Theories and code.\<close>
  \<^item> \<open>Prelude\<close>, \<open>Doubles\<close>, \<open>Json\<close>: programs and loops, text, ordered maps; doubles; the values of
    \<open>json.hpp\<close> with the errors of each operation.
  \<^item> \<open>DbMysql\<close>: \<open>db_mysql.cpp\<close> of both programs.
  \<^item> \<open>SyncerState\<close>, \<open>ScanBtc\<close>, \<open>ScanEth\<close>, \<open>ScanXrp\<close>, \<open>ScanEos\<close>, \<open>ScanOmni\<close>, \<open>SyncerJobs\<close>:
    \<open>monitor/src/syncer.cpp\<close> with \<open>rpc.cpp\<close>, \<open>job.cpp\<close> and \<open>main.cpp\<close>; the event loop is the relation
    \<open>loop_step\<close>.
  \<^item> \<open>WalletState\<close>, \<open>WalletInit\<close>, \<open>WalletTransfer\<close>, \<open>WalletAddress\<close>: \<open>server/src/rpc/client.cpp\<close>,
    \<open>ethapi.cpp\<close> and the scheduled jobs of \<open>main.cpp\<close>.
  \<^item> \<open>Relay\<close>, \<open>RpcServer\<close>, \<open>TypeCheck\<close>: \<open>rpc/relay.cpp\<close>, \<open>rpc/server.cpp\<close>, \<open>rpc/protocol.cpp\<close>.
  \<^item> \<open>StrEncodings\<close>: \<open>utilstrencodings.cpp\<close>.
  \<^item> \<open>HttpServer\<close>, \<open>HttpRpc\<close>, \<open>Rest\<close>, \<open>Httpd\<close>: \<open>httpserver.cpp\<close>, \<open>httprpc.cpp\<close>, \<open>rest.cpp\<close>; the
    threads of the server are the relation \<open>http_step\<close>. \<open>HttpService\<close> is the abstract request
    service that they refine.
  \<^item> \<open>Scheduler\<close>, \<open>SchedClient\<close>: \<open>scheduler.cpp\<close>, its threads as the relation \<open>sched_step\<close>, its clients
    with their callback queues. \<open>ServerMain\<close>: \<open>AppInitMain\<close> of \<open>server/src/main.cpp\<close>, and the running
    process as the relation \<open>process_step\<close>.
  \<^item> \<open>HashStream\<close>, \<open>HashRounds\<close>, \<open>Sha2\<close>, \<open>Sha1Ripemd\<close>, \<open>Hmac\<close>: \<open>server/src/crypto\<close>, the buffer of the
    block hashes, their rounds, SHA-256, SHA-512, SHA-1, RIPEMD-160 and the keyed hashes, each beside
    the function of its standard. \<open>HashFuns\<close>: \<open>hash.cpp\<close>, \<open>hash.h\<close> and \<open>uint256.cpp\<close>.
  \<^item> \<open>TimeData\<close>: \<open>timedata.h\<close>, \<open>timedata.cpp\<close>.
  \<^item> \<open>RpcAuth\<close>: the authentication of \<open>httprpc.cpp\<close> and the cookie of \<open>protocol.cpp\<close>.
  \<^item> \<open>Base58\<close>, \<open>Bech32\<close>: \<open>base58.cpp\<close>, \<open>bech32.cpp\<close>.
  \<^item> \<open>EthCommon\<close>, \<open>RlpStream\<close>, \<open>RlpRead\<close>: \<open>Common.h\<close>, \<open>Common.cpp\<close>, \<open>vector_ref.h\<close>; the classes
    \<open>RLPStream\<close> and \<open>RLP\<close> of \<open>RLP.h\<close> and \<open>RLP.cpp\<close> (all under \<open>server/ethereum/libethereum\<close>, as what follows).
  \<^item> \<open>MemTrie\<close>, \<open>TrieHash\<close>: \<open>MemTrie.cpp\<close> with \<open>TrieCommon.cpp\<close>, \<open>TrieHash.cpp\<close>. \<open>OrdMap\<close> is a
    \<open>std::map\<close>, \<open>ByteMap\<close> the contract of a map of byte strings.
  \<^item> \<open>EthTx\<close>: \<open>Transaction.h\<close>, \<open>Transaction.cpp\<close>. \<open>EthLedger\<close>: \<open>AddressState.h\<close> and the accounts of
    \<open>State.cpp\<close>. \<open>EthVm\<close>: \<open>execute\<close>, \<open>executeBare\<close> and the virtual machine of \<open>State.cpp\<close>, whose
    instructions (\<open>Instruction.h\<close>) are the numerals of \<open>vm_step\<close>.

  \<^bold>\<open>Interfaces.\<close> Each is a locale with an interpretation on the model: \<open>finite_table\<close> (maps:
  \<open>smap\<close>, \<open>obj\<close>), \<open>step_rel\<close> and \<open>tail_rel\<close> (relations a program keeps), \<open>handler_frame\<close>,
  \<open>scan_frame\<close>, \<open>task_frame\<close> (what every routine of the monitor keeps, proved once for all of them
  and used at each relation), \<open>transfer_frame\<close> and \<open>address_frame\<close> (the same for the wallet), \<open>codec\<close>
  (encodings that are read back), \<open>bounded_fifo\<close> (the work queue), \<open>stable_timed_queue\<close> (the queue of
  the scheduler), \<open>block_hash\<close> (a hash that takes its message in pieces) and \<open>keyed_hash\<close> over it,
  \<open>forward_simulation\<close> (refinement of a step relation), \<open>byte_map\<close> (what a trie promises; of the trie
  \<open>mt\<close> and of the ordered map \<open>om\<close>), \<open>calm_rel\<close> (a relation that every step of the virtual machine
  keeps; the worth of a ledger, \<open>se\<close>, the price of a run, \<open>sp\<close>, and its order, \<open>od\<close>).

  \<^bold>\<open>What is shown.\<close>
  \<^item> \<open>MonitorProps\<close>: the statements sent are the queued ones in order, none lost or repeated; which rows each kind of
    transfer leaves; which failures leave a block unrecorded and which lose its transfers; the retry
    list; the timers.
  \<^item> \<open>WalletProps\<close>: the selection of inputs, amounts, tags, stored keys, start-up; where a transfer
    reports success without one; that a transfer leaves nothing but its posts.
  \<^item> \<open>RpcProps\<close>: deposit addresses, dispatch, the answer to a request, the headers that do not matter.
  \<^item> \<open>HttpdProps\<close>: every request is answered exactly once, over all interleavings of the threads; the
    shutdown; the requests that end the process; strings on a data stream. \<open>HttpService\<close>: the
    refinement.
  \<^item> \<open>SchedulerProps\<close>: no task is lost or run twice, one thread is never early and two can be, callbacks
    run one at a time in order, the start of the server on every path and what ends it.
  \<^item> \<open>CryptoProps\<close>: every hash equals its standard for a message given in any pieces.
  \<^item> \<open>RpcAuth\<close>: who is accepted. \<open>TypeCheck\<close>: a checked parameter can be read at its type, or is an admitted null.
  \<^item> \<open>TimeData\<close>: the offset of the clock is bounded and follows the majority of the samples (\<open>clock_follows_majority\<close>).
  \<^item> \<open>EncodingProps\<close>, \<open>Base58Props\<close>, \<open>Bech32Props\<close>: round trips, bounds, and the errors the checksum of
    bech32 notices behind the separator.
  \<^item> \<open>RlpProps\<close>: trees and numbers are read back; what the reader does with bytes nobody wrote.
    \<open>MemTrieProps\<close>: the trie is a map. \<open>TrieHashProps\<close>: both ways to hash a map agree. \<open>EthTxProps\<close>:
    transactions are read back.
  \<^item> \<open>EthWorth\<close>, \<open>EthVmProps\<close>: accounts as they are seen, what a ledger is worth, and that executing keeps
    it. \<open>EthPay\<close>, \<open>EthRuns\<close>, \<open>EthHalts\<close>: what a payment moves, replays, overflow, what creating a
    contract makes, single instructions, and how long a contract runs.

  Several theorems state what the code does where it does not do what it means to; each of them has
  a finding in the manifest.

  \<^bold>\<open>Bounds of the model.\<close> Loops over data are structural or have a measure. Three loops of the code may
  run for ever: \<open>EmptyQueue\<close> of a scheduler client (\<open>empty_loop\<close>), walking over the items of a malformed
  RLP list (\<open>iterate\<close>), and reading the data of a transaction from one (\<open>read_data_items\<close>); they are
  \<open>partial_function (option)\<close>, whose \<open>None\<close> is not returning, and theorems say when they return. A
  contract runs with two numbers of fuel, for the steps of a run (\<open>vm_run\<close>) and for the depth of the calls
  (\<open>execute_bare\<close>); \<open>NoFuel\<close> is the outcome of a run that needs more. \<open>contract_halts\<close> gives an
  amount of fuel, from the balance and the memory of the contract, that is enough for a run in which the contract
  gains nothing by the transactions it makes; \<open>self_call_never_ends\<close> gives a contract for which none is.
  Log output is left out, and with it the printing of values into the log. A
  value sent as the body of a post is kept as a value: that printing it could throw (text that is not
  UTF-8) is modelled for the replies of the server only. A handler of the HTTP server runs as one
  step. Doubles have no infinities and no NaN. Byte arrays have fewer than \<open>2\<^sup>6\<^sup>4\<close> bytes, transactions
  fewer than \<open>2\<^sup>3\<^sup>2\<close> data items, keys of a trie fewer than \<open>2\<^sup>3\<^sup>1\<close> nibbles, what base 58 encodes or
  decodes fewer than \<open>2\<^sup>3\<^sup>0\<close> characters (beyond, the \<open>int\<close> of its sizes wraps: \<open>base58_size_wraps\<close>).
  The assertions of \<open>State.cpp\<close> and \<open>AddressState.h\<close> are compiled in when the field \<open>checked\<close> of \<open>vm_chain\<close>
  says so, as in the repository's own build; those of \<open>vector_ref\<close>, of RLP and of the tries always are.

  \<^bold>\<open>Not modelled.\<close> Sockets, signals, the command line and the locking of memory, which are calls to
  the operating system; the allow list of the server (never consulted); the SSE4 form of SHA-256 (vector
  assembly) and the ciphers nothing calls; parsing and printing of \<open>json.hpp\<close>, a vendored library, as are
  \<open>tinyformat.h\<close> and \<open>server/ethereum/secp256k1\<close>. Of the Ethereum library: the tries on disk
  (\<open>TrieDB\<close>), the chain of blocks and its proof of work (\<open>BlockChain\<close>, \<open>BlockInfo\<close>, \<open>Dagger\<close>) with
  the parts of \<open>State\<close> that replay and mine blocks, and its network (\<open>PeerNetwork\<close>, \<open>Client\<close>),
  which nothing of the server starts.
\<close>

end
